(* ===== verification/Prelude.thy ===== *)
theory Prelude
  imports Complex_Main "HOL-Library.AList"
begin

text \<open>
  Shared vocabulary of the development: Python exceptions as values, the error
  combinators, insertion-ordered dictionaries and the list facts the components share.
  \<^item> \<open>exn\<close> lists the exceptions the modelled code raises or catches; a fallible function
    returns \<open>'a res = exn + 'a\<close>, with \<open>Inl\<close> for the exception.
  \<^item> a Python \<open>dict\<close> is an association list in insertion order; \<open>dset\<close> keeps the position of
    a key that is already there, as the language does.
\<close>

section \<open>Theorem collections\<close>

named_theorems str_eval "evaluation of the string functions on literals"
named_theorems strip_simps "facts about stripping and splitting strings"
named_theorems db_defs "definitions of the database operations"
named_theorems safe_intros "closure rules of trace-safety predicates"

section \<open>Code points\<close>

text \<open>A Python \<open>str\<close> is a sequence of Unicode code points.\<close>

type_synonym str = "nat list"

section \<open>Exceptions\<close>

datatype exn =
    GhError str          \<comment> \<open>\<open>github.GhError\<close>\<close>
  | Denied str nat       \<comment> \<open>\<open>robbie_proxy.Denied\<close>: message and HTTP status\<close>
  | KeyError
  | TypeError
  | ValueError
  | AttributeError
  | OverflowError
  | AssertionError
  | IntegrityError       \<comment> \<open>\<open>sqlite3.IntegrityError\<close>\<close>
  | SystemExit
  | OtherError str

type_synonym 'a res = "exn + 'a"

fun bindE :: "'a res \<Rightarrow> ('a \<Rightarrow> 'b res) \<Rightarrow> 'b res" where
  "bindE (Inl e) f = Inl e"
| "bindE (Inr x) f = f x"

fun mapE :: "('a \<Rightarrow> 'b res) \<Rightarrow> 'a list \<Rightarrow> 'b list res" where
  "mapE f [] = Inr []"
| "mapE f (x # xs) = bindE (f x) (\<lambda>y. bindE (mapE f xs) (\<lambda>ys. Inr (y # ys)))"

fun foldE :: "('s \<Rightarrow> 'a \<Rightarrow> 's res) \<Rightarrow> 's \<Rightarrow> 'a list \<Rightarrow> 's res" where
  "foldE f s [] = Inr s"
| "foldE f s (x # xs) = bindE (f s x) (\<lambda>s'. foldE f s' xs)"

lemma bindE_Inr_iff:
  "bindE m f = Inr y \<longleftrightarrow> (\<exists>x. m = Inr x \<and> f x = Inr y)"
  by (cases m) auto

lemma bindE_assoc: "bindE (bindE m f) g = bindE m (\<lambda>x. bindE (f x) g)"
  by (cases m) auto

lemma mapE_total:
  assumes "\<And>x. x \<in> set xs \<Longrightarrow> f x = Inr (g x)"
  shows "mapE f xs = Inr (map g xs)"
  using assms by (induction xs) auto

lemma foldE_invariant:
  assumes "foldE f s xs = Inr t" and "P s"
    and "\<And>s x s'. x \<in> set xs \<Longrightarrow> P s \<Longrightarrow> f s x = Inr s' \<Longrightarrow> P s'"
  shows "P t"
  using assms
proof (induction xs arbitrary: s)
  case Nil
  then show ?case by simp
next
  case (Cons x xs)
  from Cons.prems(1) obtain s' where s': "f s x = Inr s'" "foldE f s' xs = Inr t"
    by (auto simp: bindE_Inr_iff)
  from Cons.prems(2,3) s' have "P s'" by (meson list.set_intros(1))
  with s' show ?case using Cons.IH Cons.prems(3) by (meson list.set_intros(2))
qed

lemma mapE_Inr_conv: "mapE f xs = Inr ys \<longleftrightarrow> list_all2 (\<lambda>x y. f x = Inr y) xs ys"
proof (induction xs arbitrary: ys)
  case Nil
  show ?case by (cases ys) auto
next
  case (Cons x xs)
  then show ?case by (cases ys) (auto simp: bindE_Inr_iff)
qed

lemma mapE_Inl: "(\<exists>e. mapE f xs = Inl e) \<longleftrightarrow> (\<exists>x \<in> set xs. \<exists>e. f x = Inl e)"
proof (induction xs)
  case (Cons x xs)
  then show ?case by (cases "f x"; cases "mapE f xs") auto
qed simp

lemma list_all2_mem1: "list_all2 R xs ys \<Longrightarrow> x \<in> set xs \<Longrightarrow> \<exists>y \<in> set ys. R x y"
  by (induction rule: list_all2_induct) auto

lemma list_all2_mem2: "list_all2 R xs ys \<Longrightarrow> y \<in> set ys \<Longrightarrow> \<exists>x \<in> set xs. R x y"
  by (induction rule: list_all2_induct) auto

lemma map_filter_mem: "y \<in> set (List.map_filter f xs) \<longleftrightarrow> (\<exists>x \<in> set xs. f x = Some y)"
  by (induction xs) (auto simp: List.map_filter_simps split: option.splits)

section \<open>Dictionaries\<close>

type_synonym ('k, 'v) dict = "('k \<times> 'v) list"

abbreviation dget :: "('k, 'v) dict \<Rightarrow> 'k \<Rightarrow> 'v option" where
  "dget d k \<equiv> map_of d k"

definition dget_or :: "('k, 'v) dict \<Rightarrow> 'k \<Rightarrow> 'v \<Rightarrow> 'v" where
  "dget_or d k v = (case map_of d k of None \<Rightarrow> v | Some x \<Rightarrow> x)"

abbreviation dset :: "'k \<Rightarrow> 'v \<Rightarrow> ('k, 'v) dict \<Rightarrow> ('k, 'v) dict" where
  "dset k v d \<equiv> AList.update k v d"

abbreviation dkeys :: "('k, 'v) dict \<Rightarrow> 'k list" where
  "dkeys d \<equiv> map fst d"

lemma dget_dset [simp]: "dget (dset k v d) k' = (if k = k' then Some v else dget d k')"
  by (simp add: update_conv')

lemma set_dkeys_dset: "set (dkeys (dset k v d)) = insert k (set (dkeys d))"
  by (induction d) auto

lemma distinct_dkeys_dset: "distinct (dkeys d) \<Longrightarrow> distinct (dkeys (dset k v d))"
  by (rule distinct_update)

lemma dset_fresh: "k \<notin> fst ` set d \<Longrightarrow> dset k v d = d @ [(k, v)]"
  by (induction d) auto

lemma foldl_dset_distinct:
  "distinct (map fst ps) \<Longrightarrow> fst ` set ps \<inter> fst ` set d = {} \<Longrightarrow> foldl (\<lambda>d p. dset (fst p) (snd p) d) d ps = d @ ps"
  by (induction ps arbitrary: d) (auto simp: dset_fresh)

section \<open>Lists\<close>

text \<open>\<open>xs[-1] if xs else default\<close>, \<open>next(..., None)\<close> and friends.\<close>

definition last_or :: "'a \<Rightarrow> 'a list \<Rightarrow> 'a" where
  "last_or d xs = (if xs = [] then d else last xs)"

fun find_first :: "('a \<Rightarrow> bool) \<Rightarrow> 'a list \<Rightarrow> 'a option" where
  "find_first P [] = None"
| "find_first P (x # xs) = (if P x then Some x else find_first P xs)"

lemma find_first_None_iff: "find_first P xs = None \<longleftrightarrow> (\<forall>x \<in> set xs. \<not> P x)"
  by (induction xs) auto

lemma find_first_SomeD: "find_first P xs = Some x \<Longrightarrow> x \<in> set xs \<and> P x"
  by (induction xs) (auto split: if_splits)

text \<open>Order-preserving deduplication, as \<open>dict.fromkeys\<close> or repeated \<open>setdefault\<close> do.\<close>

fun uniq_acc :: "'a list \<Rightarrow> 'a list \<Rightarrow> 'a list" where
  "uniq_acc seen [] = seen"
| "uniq_acc seen (x # xs) =
     (if x \<in> set seen then uniq_acc seen xs else uniq_acc (seen @ [x]) xs)"

lemma set_uniq_acc: "set (uniq_acc seen xs) = set seen \<union> set xs"
  by (induction seen xs rule: uniq_acc.induct) auto

lemma distinct_uniq_acc: "distinct seen \<Longrightarrow> distinct (uniq_acc seen xs)"
  by (induction seen xs rule: uniq_acc.induct) auto

lemma length_filter_partition:
  "length (filter P xs) + length (filter (\<lambda>x. \<not> P x) xs) = length xs"
  by (induction xs) auto

lemma append_sep_inj:
  "a @ c # x = b @ c # y \<Longrightarrow> c \<notin> set a \<Longrightarrow> c \<notin> set b \<Longrightarrow> a = b \<and> x = y"
proof (induction a arbitrary: b)
  case Nil
  then show ?case by (cases b) auto
next
  case (Cons d a)
  then show ?case by (cases b) auto
qed

lemma takeWhile_all: "(\<forall>x \<in> set xs. P x) \<Longrightarrow> takeWhile P xs = xs"
  by simp

lemma dropWhile_eq_Nil_iff: "dropWhile P xs = [] \<longleftrightarrow> (\<forall>x \<in> set xs. P x)"
  by simp

lemma dropWhile_idem' [simp]: "dropWhile P (dropWhile P xs) = dropWhile P xs"
  by (induction xs) auto

end
