(* ===== verification/Pystr.thy ===== *)
theory Pystr
  imports Prelude
begin

text \<open>
  The string functions of Python the program uses, on sequences of code points:
  whitespace and line boundaries as \<open>str.isspace\<close> and \<open>str.splitlines\<close> define them,
  \<open>strip\<close>, \<open>split\<close>, \<open>join\<close>, \<open>lower\<close>, decimal conversion both ways, and UTF-8.
  Case conversion is exact for every code point whose result contains an ASCII letter,
  and for Latin-1; the remaining code points are left alone. The program only compares
  converted strings with ASCII words, where that makes no difference.
\<close>

section \<open>Literals\<close>

definition lit :: "string \<Rightarrow> str" where
  "lit s = map of_char s"

lemma lit_eq_iff [simp]: "lit a = lit b \<longleftrightarrow> a = b"
  unfolding lit_def by (rule inj_map_eq_map) (rule inj_onI, simp)

lemma lit_append: "lit (a @ b) = lit a @ lit b"
  by (simp add: lit_def)

lemma length_lit [simp]: "length (lit s) = length s"
  by (simp add: lit_def)

lemma lit_Nil [simp]: "lit [] = []"
  by (simp add: lit_def)

lemma lit_eq_Nil_iff [simp]: "lit s = [] \<longleftrightarrow> s = []"
  by (simp add: lit_def)

lemma Nil_eq_lit_iff [simp]: "[] = lit s \<longleftrightarrow> s = []"
  by (auto simp: lit_def)

lemma lit_Cons [str_eval]: "lit (c # s) = of_char c # lit s"
  by (simp add: lit_def)

abbreviation NL :: nat where "NL \<equiv> 10"

section \<open>Character classes\<close>

definition is_space :: "nat \<Rightarrow> bool" where
  "is_space c \<longleftrightarrow> (9 \<le> c \<and> c \<le> 13) \<or> (28 \<le> c \<and> c \<le> 32) \<or> c = 133 \<or> c = 160 \<or> c = 5760
     \<or> (8192 \<le> c \<and> c \<le> 8202) \<or> c = 8232 \<or> c = 8233 \<or> c = 8239 \<or> c = 8287 \<or> c = 12288"

text \<open>The characters \<open>str.splitlines\<close> breaks on.\<close>

definition is_linebreak :: "nat \<Rightarrow> bool" where
  "is_linebreak c \<longleftrightarrow> (10 \<le> c \<and> c \<le> 13) \<or> (28 \<le> c \<and> c \<le> 30) \<or> c = 133 \<or> c = 8232 \<or> c = 8233"

text \<open>The zero of every run of ten decimal digits (Unicode category Nd).\<close>

definition nd_zeros :: "nat list" where
  "nd_zeros = [48, 1632, 1776, 1984, 2406, 2534, 2662, 2790, 2918, 3046, 3174, 3302, 3430, 3558,
     3664, 3792, 3872, 4160, 4240, 6112, 6160, 6470, 6608, 6784, 6800, 6992, 7088, 7232, 7248,
     42528, 43216, 43264, 43472, 43504, 43600, 44016, 65296, 66720, 68912, 69734, 69872, 69942,
     70096, 70384, 70736, 70864, 71248, 71360, 71472, 71904, 72016, 72784, 73040, 73120, 92768,
     92864, 93008, 120782, 120792, 120802, 120812, 120822, 123200, 123632, 125264, 130032]"

definition digit_val :: "nat \<Rightarrow> nat option" where
  "digit_val c = map_option (\<lambda>z. c - z) (find_first (\<lambda>z. z \<le> c \<and> c < z + 10) nd_zeros)"

definition is_digit :: "nat \<Rightarrow> bool" where
  "is_digit c \<longleftrightarrow> digit_val c \<noteq> None"

lemma linebreak_is_space: "is_linebreak c \<Longrightarrow> is_space c"
  by (auto simp: is_linebreak_def is_space_def)

lemma NL_linebreak [simp]: "is_linebreak NL"
  by (simp add: is_linebreak_def)

lemma NL_space [simp]: "is_space NL"
  by (simp add: is_space_def)

section \<open>Case\<close>

definition lower_cp :: "nat \<Rightarrow> str" where
  "lower_cp c =
     (if 65 \<le> c \<and> c \<le> 90 then [c + 32]
      else if c = 8490 then [107]
      else if c = 304 then [105, 775]
      else if 192 \<le> c \<and> c \<le> 222 \<and> c \<noteq> 215 then [c + 32]
      else [c])"

definition lower :: "str \<Rightarrow> str" where
  "lower s = concat (map lower_cp s)"

definition upper_table :: "(nat \<times> str) list" where
  "upper_table =
     [(223, [83, 83]), (305, [73]), (329, [700, 78]), (383, [83]), (496, [74, 780]),
      (7830, [72, 817]), (7831, [84, 776]), (7832, [87, 778]), (7833, [89, 778]),
      (7834, [65, 702]), (64256, [70, 70]), (64257, [70, 73]), (64258, [70, 76]),
      (64259, [70, 70, 73]), (64260, [70, 70, 76]), (64261, [83, 84]), (64262, [83, 84])]"

definition upper_cp :: "nat \<Rightarrow> str" where
  "upper_cp c =
     (if 97 \<le> c \<and> c \<le> 122 then [c - 32]
      else (case map_of upper_table c of
         Some s \<Rightarrow> s
       | None \<Rightarrow> if 224 \<le> c \<and> c \<le> 254 \<and> c \<noteq> 247 then [c - 32] else [c]))"

definition upper :: "str \<Rightarrow> str" where
  "upper s = concat (map upper_cp s)"

lemma lower_append [simp]: "lower (s @ t) = lower s @ lower t"
  by (simp add: lower_def)

lemma lower_Nil [simp]: "lower [] = []"
  by (simp add: lower_def)

section \<open>Stripping and splitting\<close>

definition lstrip_p :: "(nat \<Rightarrow> bool) \<Rightarrow> str \<Rightarrow> str" where
  "lstrip_p P s = dropWhile P s"

definition rstrip_p :: "(nat \<Rightarrow> bool) \<Rightarrow> str \<Rightarrow> str" where
  "rstrip_p P s = rev (dropWhile P (rev s))"

definition strip_p :: "(nat \<Rightarrow> bool) \<Rightarrow> str \<Rightarrow> str" where
  "strip_p P s = rstrip_p P (lstrip_p P s)"

abbreviation strip :: "str \<Rightarrow> str" where "strip \<equiv> strip_p is_space"
abbreviation lstrip :: "str \<Rightarrow> str" where "lstrip \<equiv> lstrip_p is_space"
abbreviation rstrip :: "str \<Rightarrow> str" where "rstrip \<equiv> rstrip_p is_space"

lemma rstrip_p_Nil [simp]: "rstrip_p P [] = []"
  by (simp add: rstrip_p_def)

lemma strip_p_Nil [simp]: "strip_p P [] = []"
  by (simp add: strip_p_def lstrip_p_def)

lemma set_lstrip_p: "set (lstrip_p P s) \<subseteq> set s"
  unfolding lstrip_p_def by (auto dest: set_dropWhileD)

lemma set_rstrip_p: "set (rstrip_p P s) \<subseteq> set s"
  unfolding rstrip_p_def by (auto dest: set_dropWhileD)

lemma set_strip_p: "set (strip_p P s) \<subseteq> set s"
  unfolding strip_p_def using set_lstrip_p set_rstrip_p by blast

lemma strip_p_eq_Nil_iff [strip_simps]: "strip_p P s = [] \<longleftrightarrow> (\<forall>c \<in> set s. P c)"
proof -
  have "dropWhile P s = [] \<Longrightarrow> strip_p P s = []"
    by (simp add: strip_p_def lstrip_p_def del: dropWhile_eq_Nil_conv)
  moreover have "strip_p P s = [] \<Longrightarrow> dropWhile P s = []"
  proof (rule ccontr)
    assume a: "strip_p P s = []" and ne: "dropWhile P s \<noteq> []"
    then have "\<forall>c \<in> set (dropWhile P s). P c"
      by (simp add: strip_p_def lstrip_p_def rstrip_p_def)
    with ne hd_dropWhile [OF ne] show False by (metis hd_in_set)
  qed
  ultimately show ?thesis by auto
qed

lemma lstrip_p_id: "s = [] \<or> \<not> P (hd s) \<Longrightarrow> lstrip_p P s = s"
  by (cases s) (auto simp: lstrip_p_def)

lemma rstrip_p_id: "s = [] \<or> \<not> P (last s) \<Longrightarrow> rstrip_p P s = s"
  by (cases s rule: rev_cases) (auto simp: rstrip_p_def)

lemma strip_p_id: "s = [] \<or> \<not> P (hd s) \<and> \<not> P (last s) \<Longrightarrow> strip_p P s = s"
  unfolding strip_p_def by (metis lstrip_p_id rstrip_p_id)

lemma lstrip_p_head: "lstrip_p P s \<noteq> [] \<Longrightarrow> \<not> P (hd (lstrip_p P s))"
  unfolding lstrip_p_def by (rule hd_dropWhile)

lemma rstrip_p_snoc: "rstrip_p P (s @ [c]) = (if P c then rstrip_p P s else s @ [c])"
  by (simp add: rstrip_p_def)

lemma rstrip_p_prefix: "\<exists>t. s = rstrip_p P s @ t \<and> (\<forall>c \<in> set t. P c)"
proof (induction s rule: rev_induct)
  case (snoc c s)
  then obtain t where t: "s = rstrip_p P s @ t" "\<forall>c \<in> set t. P c" by blast
  show ?case
  proof (cases "P c")
    case True
    with t have "s @ [c] = rstrip_p P (s @ [c]) @ (t @ [c])" "\<forall>c \<in> set (t @ [c]). P c"
      by (auto simp: rstrip_p_snoc)
    then show ?thesis by blast
  qed (simp add: rstrip_p_snoc)
qed simp

lemma rstrip_p_hd: "rstrip_p P s \<noteq> [] \<Longrightarrow> hd (rstrip_p P s) = hd s"
  using rstrip_p_prefix [of s P] by (metis hd_append2)

lemma rstrip_p_last: "rstrip_p P s \<noteq> [] \<Longrightarrow> \<not> P (last (rstrip_p P s))"
  by (induction s rule: rev_induct) (auto simp: rstrip_p_snoc split: if_splits)

lemma strip_p_ends:
  assumes "strip_p P s \<noteq> []"
  shows "\<not> P (hd (strip_p P s))" and "\<not> P (last (strip_p P s))"
proof -
  have l: "lstrip_p P s \<noteq> []"
    using assms by (auto simp: strip_p_def)
  show "\<not> P (hd (strip_p P s))"
    using assms lstrip_p_head [OF l] by (simp add: strip_p_def rstrip_p_hd)
  show "\<not> P (last (strip_p P s))"
    using assms by (simp add: strip_p_def rstrip_p_last)
qed

lemma strip_p_idem [simp]: "strip_p P (strip_p P s) = strip_p P s"
  by (rule strip_p_id) (use strip_p_ends in blast)

lemma strip_p_append_all:
  assumes "\<forall>c \<in> set a. P c" "\<forall>c \<in> set b. P c"
  shows "strip_p P (a @ s @ b) = strip_p P s"
proof -
  have "lstrip_p P (a @ t) = lstrip_p P t" for t
    using assms(1) by (induction a) (auto simp: lstrip_p_def)
  moreover have "rstrip_p P (t @ b) = rstrip_p P t" for t
    using assms(2) by (induction b rule: rev_induct) (auto simp: rstrip_p_snoc simp flip: append_assoc)
  moreover have "lstrip_p P (s @ b) = lstrip_p P s @ b \<or> (\<forall>c \<in> set s. P c)"
    by (metis dropWhile_append1 dropWhile_eq_Nil_iff lstrip_p_def)
  moreover have "\<forall>c \<in> set s. P c \<Longrightarrow> strip_p P (s @ b) = [] \<and> strip_p P s = []"
    using assms(2) by (auto simp: strip_p_eq_Nil_iff)
  ultimately show ?thesis by (auto simp: strip_p_def)
qed

text \<open>\<open>str.split(sep)\<close> for a one-character separator: never empty.\<close>

fun split_on :: "nat \<Rightarrow> str \<Rightarrow> str list" where
  "split_on c [] = [[]]"
| "split_on c (x # xs) =
     (if x = c then [] # split_on c xs
      else (case split_on c xs of [] \<Rightarrow> [[x]] | w # ws \<Rightarrow> (x # w) # ws))"

fun join :: "str \<Rightarrow> str list \<Rightarrow> str" where
  "join sep [] = []"
| "join sep [w] = w"
| "join sep (w # ws) = w @ sep @ join sep ws"

lemma split_on_nonempty [simp]: "split_on c s \<noteq> []"
  by (induction s) (auto split: list.splits)

lemma join_split_on: "join [c] (split_on c s) = s"
proof (induction s)
  case (Cons x xs)
  obtain w ws where w: "split_on c xs = w # ws"
    by (meson neq_Nil_conv split_on_nonempty)
  show ?case
  proof (cases "x = c")
    case True
    with Cons w show ?thesis by simp
  next
    case False
    with Cons w show ?thesis by (cases ws) auto
  qed
qed simp

lemma split_on_no_sep: "w \<in> set (split_on c s) \<Longrightarrow> c \<notin> set w"
  by (induction s arbitrary: w) (auto split: if_splits list.splits)

lemma split_on_single: "c \<notin> set w \<Longrightarrow> split_on c w = [w]"
  by (induction w) auto

lemma split_on_append: "c \<notin> set w \<Longrightarrow> split_on c (w @ c # s) = w # split_on c s"
  by (induction w) auto

lemma split_on_join:
  "ws \<noteq> [] \<Longrightarrow> (\<And>w. w \<in> set ws \<Longrightarrow> c \<notin> set w) \<Longrightarrow> split_on c (join [c] ws) = ws"
proof (induction ws)
  case (Cons w ws)
  then show ?case by (cases ws) (auto simp: split_on_single split_on_append)
qed simp

text \<open>\<open>str.splitlines()\<close>: CR LF is one boundary, and a final boundary ends no extra line.\<close>

fun splitlines_acc :: "str \<Rightarrow> str \<Rightarrow> str list" where
  "splitlines_acc w [] = (if w = [] then [] else [rev w])"
| "splitlines_acc w (c # cs) =
     (if c = 13 \<and> cs \<noteq> [] \<and> hd cs = NL then rev w # splitlines_acc [] (tl cs)
      else if is_linebreak c then rev w # splitlines_acc [] cs
      else splitlines_acc (c # w) cs)"

definition splitlines :: "str \<Rightarrow> str list" where
  "splitlines s = splitlines_acc [] s"

lemma splitlines_acc_no_break:
  "(\<forall>c \<in> set w. \<not> is_linebreak c) \<Longrightarrow> l \<in> set (splitlines_acc w s) \<Longrightarrow> c \<in> set l \<Longrightarrow> \<not> is_linebreak c"
  by (induction w s arbitrary: l rule: splitlines_acc.induct) (auto split: if_splits)

lemma splitlines_no_break: "l \<in> set (splitlines s) \<Longrightarrow> c \<in> set l \<Longrightarrow> \<not> is_linebreak c"
  unfolding splitlines_def by (rule splitlines_acc_no_break [of "[]"]) auto

lemma splitlines_Nil [simp]: "splitlines [] = []"
  by (simp add: splitlines_def)

lemma splitlines_acc_line:
  "(\<forall>c \<in> set l. \<not> is_linebreak c) \<Longrightarrow>
   splitlines_acc w (l @ NL # s) = (rev w @ l) # splitlines_acc [] s"
  by (induction l arbitrary: w) (auto simp: is_linebreak_def)

lemma splitlines_line:
  "(\<forall>c \<in> set l. \<not> is_linebreak c) \<Longrightarrow> splitlines (l @ NL # s) = l # splitlines s"
  by (simp add: splitlines_def splitlines_acc_line)

lemma splitlines_acc_last:
  "(\<forall>c \<in> set l. \<not> is_linebreak c) \<Longrightarrow> w @ l \<noteq> [] \<Longrightarrow> splitlines_acc w l = [rev w @ l]"
  by (induction l arbitrary: w) (auto simp: is_linebreak_def)

lemma splitlines_single:
  "(\<forall>c \<in> set l. \<not> is_linebreak c) \<Longrightarrow> l \<noteq> [] \<Longrightarrow> splitlines l = [l]"
  by (simp add: splitlines_def splitlines_acc_last)

text \<open>\<open>str.split()\<close>: maximal runs of non-space characters.\<close>

fun split_ws_acc :: "str \<Rightarrow> str \<Rightarrow> str list" where
  "split_ws_acc w [] = (if w = [] then [] else [rev w])"
| "split_ws_acc w (c # cs) =
     (if is_space c then (if w = [] then split_ws_acc [] cs else rev w # split_ws_acc [] cs)
      else split_ws_acc (c # w) cs)"

definition split_ws :: "str \<Rightarrow> str list" where
  "split_ws s = split_ws_acc [] s"

lemma split_ws_acc_no_space:
  "list_all (\<lambda>c. \<not> is_space c) w \<Longrightarrow>
   list_all (\<lambda>l. l \<noteq> [] \<and> list_all (\<lambda>c. \<not> is_space c) l) (split_ws_acc w s)"
  by (induction w s rule: split_ws_acc.induct) simp_all

lemma split_ws_no_space: "l \<in> set (split_ws s) \<Longrightarrow> l \<noteq> [] \<and> (\<forall>c \<in> set l. \<not> is_space c)"
  using split_ws_acc_no_space [of "[]" s] by (simp add: split_ws_def list_all_iff)

lemma set_join_subset: "set (join sep ws) \<subseteq> set sep \<union> \<Union> (set ` set ws)"
  by (induction sep ws rule: join.induct) auto

section \<open>Substrings\<close>

definition startswith :: "str \<Rightarrow> str \<Rightarrow> bool" where
  "startswith s p \<longleftrightarrow> take (length p) s = p"

definition endswith :: "str \<Rightarrow> str \<Rightarrow> bool" where
  "endswith s p \<longleftrightarrow> startswith (rev s) (rev p)"

fun contains :: "str \<Rightarrow> str \<Rightarrow> bool" where
  "contains [] p = (p = [])"
| "contains (c # s) p = (startswith (c # s) p \<or> contains s p)"

lemma startswith_iff: "startswith s p \<longleftrightarrow> (\<exists>t. s = p @ t)"
  unfolding startswith_def by (metis append_eq_conv_conj append_take_drop_id)

lemma startswith_Nil [simp]: "startswith s []"
  by (simp add: startswith_def)

lemma startswith_append [simp]: "startswith (p @ t) p"
  by (simp add: startswith_def)

lemma startswith_Cons [str_eval]:
  "startswith (c # s) (d # p) \<longleftrightarrow> c = d \<and> startswith s p"
  by (auto simp: startswith_def)

lemma startswith_Nil_Cons [simp]: "\<not> startswith [] (d # p)"
  by (simp add: startswith_def)

lemma contains_iff: "contains s p \<longleftrightarrow> (\<exists>a b. s = a @ p @ b)"
proof (induction s)
  case (Cons c s)
  have "(\<exists>a b. c # s = a @ p @ b) \<longleftrightarrow> (\<exists>b. c # s = p @ b) \<or> (\<exists>a b. s = a @ p @ b)"
  proof
    assume "\<exists>a b. c # s = a @ p @ b"
    then obtain a b where "c # s = a @ p @ b" by blast
    then show "(\<exists>b. c # s = p @ b) \<or> (\<exists>a b. s = a @ p @ b)" by (cases a) auto
  next
    assume "(\<exists>b. c # s = p @ b) \<or> (\<exists>a b. s = a @ p @ b)"
    then show "\<exists>a b. c # s = a @ p @ b" by (metis append_Cons append_Nil)
  qed
  with Cons show ?case by (simp add: startswith_iff)
qed auto

text \<open>\<open>s.replace(old, new)\<close>, left to right without overlap, for a nonempty \<open>old\<close>.\<close>

function replace :: "str \<Rightarrow> str \<Rightarrow> str \<Rightarrow> str" where
  "replace old new s =
     (if s = [] then []
      else if old \<noteq> [] \<and> startswith s old then new @ replace old new (drop (length old) s)
      else hd s # replace old new (tl s))"
  by pat_completeness auto
termination
  by (relation "measure (\<lambda>(old, new, s). length s)") (simp_all add: diff_less)

declare replace.simps [simp del]

lemma replace_Nil [simp]: "replace old new [] = []"
  by (subst replace.simps) simp

lemma contains_appendI: "contains s p \<Longrightarrow> contains (a @ s @ b) p"
  unfolding contains_iff by (metis append.assoc)

lemma contains_refl: "contains s s"
  unfolding contains_iff by (metis append.right_neutral append_Nil)

lemma contains_join: "w \<in> set ws \<Longrightarrow> contains (join sep ws) w"
proof (induction sep ws rule: join.induct)
  case (3 sep v u ws)
  show ?case
  proof (cases "w = v")
    case True
    then show ?thesis using contains_appendI [OF contains_refl, of "[]" v] by simp
  next
    case False
    with 3 have "contains (join sep (u # ws)) w" by simp
    from contains_appendI [OF this, of "v @ sep" "[]"] show ?thesis by simp
  qed
qed (auto simp: contains_refl)

section \<open>Decimal conversion\<close>

fun show_nat :: "nat \<Rightarrow> str" where
  "show_nat n = (if n < 10 then [48 + n] else show_nat (n div 10) @ [48 + n mod 10])"

declare show_nat.simps [simp del]

definition show_int :: "int \<Rightarrow> str" where
  "show_int i = (if i < 0 then 45 # show_nat (nat (- i)) else show_nat (nat i))"

lemma show_nat_nonempty [simp]: "show_nat n \<noteq> []"
  by (subst show_nat.simps) simp

lemma show_nat_digits: "c \<in> set (show_nat n) \<Longrightarrow> 48 \<le> c \<and> c \<le> 57"
proof (induction n rule: show_nat.induct)
  case (1 n)
  show ?case
  proof (cases "n < 10")
    case True
    with "1.prems" show ?thesis by (simp add: show_nat.simps [of n])
  next
    case False
    then have "show_nat n = show_nat (n div 10) @ [48 + n mod 10]"
      by (simp add: show_nat.simps [of n])
    with "1.prems" have "c \<in> set (show_nat (n div 10)) \<or> c = 48 + n mod 10" by auto
    with "1.IH" [OF False] show ?thesis by auto
  qed
qed

lemma show_int_chars: "c \<in> set (show_int i) \<Longrightarrow> c = 45 \<or> 48 \<le> c \<and> c \<le> 57"
  by (auto simp: show_int_def dest: show_nat_digits split: if_splits)

definition read_nat :: "str \<Rightarrow> nat" where
  "read_nat s = foldl (\<lambda>a c. 10 * a + (c - 48)) 0 s"

lemma read_show_nat [simp]: "read_nat (show_nat n) = n"
proof (induction n rule: show_nat.induct)
  case (1 n)
  show ?case
  proof (cases "n < 10")
    case True
    then show ?thesis by (simp add: show_nat.simps [of n] read_nat_def)
  next
    case False
    with "1.IH" have "read_nat (show_nat (n div 10)) = n div 10" by simp
    with False show ?thesis by (simp add: show_nat.simps [of n] read_nat_def)
  qed
qed

lemma show_nat_inj [simp]: "show_nat m = show_nat n \<longleftrightarrow> m = n"
  by (metis read_show_nat)

lemma show_int_inj [simp]: "show_int i = show_int j \<longleftrightarrow> i = j"
proof
  have no_dash: "show_nat n \<noteq> 45 # s" for n s
    using show_nat_digits [of 45 n] by auto
  have no_dash': "45 # s \<noteq> show_nat n" for n s
    using no_dash by metis
  assume "show_int i = show_int j"
  then show "i = j"
    by (simp add: show_int_def no_dash no_dash' split: if_splits)
qed simp

text \<open>
  \<open>int(s)\<close>: surrounding whitespace, one sign, and digits of any script with single
  underscores between them; anything else is a \<open>ValueError\<close>.
\<close>

fun read_digits :: "int \<Rightarrow> bool \<Rightarrow> str \<Rightarrow> int option" where
  "read_digits a prev [] = (if prev then Some a else None)"
| "read_digits a prev (c # s) =
     (case digit_val c of
        Some d \<Rightarrow> read_digits (10 * a + int d) True s
      | None \<Rightarrow> if c = 95 \<and> prev \<and> s \<noteq> [] then read_digits a False s else None)"

definition int_of_str :: "str \<Rightarrow> int option" where
  "int_of_str s =
     (case strip s of
        [] \<Rightarrow> None
      | c # cs \<Rightarrow>
          if c = 45 then map_option uminus (read_digits 0 False cs)
          else if c = 43 then read_digits 0 False cs
          else read_digits 0 False (c # cs))"

lemma digit_val_48: "d < 10 \<Longrightarrow> digit_val (48 + d) = Some d"
  by (simp add: digit_val_def nd_zeros_def)

lemma digit_val_ascii: "48 \<le> c \<Longrightarrow> c \<le> 57 \<Longrightarrow> digit_val c = Some (c - 48)"
  using digit_val_48 [of "c - 48"] by simp

lemma read_digits_ascii:
  "list_all (\<lambda>c. 48 \<le> c \<and> c \<le> 57) s \<Longrightarrow> s \<noteq> [] \<or> prev \<Longrightarrow>
   read_digits (int a) prev s = Some (int (foldl (\<lambda>a c. 10 * a + (c - 48)) a s))"
proof (induction s arbitrary: a prev)
  case (Cons c s)
  let ?a = "10 * a + (c - 48)"
  have "read_digits (int ?a) True s = Some (int (foldl (\<lambda>a c. 10 * a + (c - 48)) ?a s))"
    by (rule Cons.IH) (use Cons.prems in simp_all)
  moreover have "read_digits (int a) prev (c # s) = read_digits (10 * int a + int (c - 48)) True s"
    using Cons.prems(1) by (simp add: digit_val_ascii del: of_nat_diff)
  ultimately show ?case by (simp del: of_nat_diff)
qed simp

lemma show_nat_list_all: "list_all (\<lambda>c. 48 \<le> c \<and> c \<le> 57) (show_nat n)"
  using show_nat_digits by (auto simp: list_all_iff)

lemma show_nat_is_digit: "c \<in> set (show_nat n) \<Longrightarrow> is_digit c"
  using show_nat_digits [of c n] by (simp add: is_digit_def digit_val_ascii)

lemma strip_show_nat [simp]: "strip (show_nat n) = show_nat n"
proof (rule strip_p_id)
  have "\<not> is_space c" if "c \<in> set (show_nat n)" for c
    using show_nat_digits [OF that] by (auto simp: is_space_def)
  then show "show_nat n = [] \<or> \<not> is_space (hd (show_nat n)) \<and> \<not> is_space (last (show_nat n))"
    by simp
qed

text \<open>\<open>int(str(n)) == n\<close>\<close>

lemma int_of_str_show_nat [simp]: "int_of_str (show_nat n) = Some (int n)"
proof -
  obtain c cs where c: "show_nat n = c # cs" by (cases "show_nat n") auto
  with show_nat_digits [of c n] have "c \<noteq> 45" "c \<noteq> 43" by auto
  have "read_digits (int 0) False (show_nat n) = Some (int (read_nat (show_nat n)))"
    unfolding read_nat_def by (rule read_digits_ascii) (simp_all add: show_nat_list_all)
  then have "read_digits (int 0) False (show_nat n) = Some (int n)"
    unfolding read_show_nat .
  then have "read_digits 0 False (c # cs) = Some (int n)" unfolding c of_nat_0 .
  then show ?thesis
    unfolding int_of_str_def strip_show_nat using c \<open>c \<noteq> 45\<close> \<open>c \<noteq> 43\<close> by simp
qed

text \<open>\<open>f"{x:.kf}"\<close> of an exact value: round half to even at \<open>k\<close> decimals.\<close>

definition round_half_even :: "rat \<Rightarrow> int" where
  "round_half_even x =
     (let f = \<lfloor>x\<rfloor>; d = x - of_int f
      in if d < 1 / 2 then f else if 1 / 2 < d then f + 1 else if even f then f else f + 1)"

definition zero_pad :: "nat \<Rightarrow> str \<Rightarrow> str" where
  "zero_pad k s = replicate (k - length s) 48 @ s"

definition show_fixed :: "nat \<Rightarrow> rat \<Rightarrow> str" where
  "show_fixed k x =
     (let n = round_half_even (\<bar>x\<bar> * 10 ^ k);
          sign = (if x < 0 then [45] else []);
          whole = show_nat (nat n div 10 ^ k)
      in sign @ (if k = 0 then whole else whole @ [46] @ zero_pad k (show_nat (nat n mod 10 ^ k))))"

section \<open>UTF-8\<close>

definition utf8_cp :: "nat \<Rightarrow> nat list" where
  "utf8_cp c =
     (if c < 128 then [c]
      else if c < 2048 then [192 + c div 64, 128 + c mod 64]
      else if c < 65536 then [224 + c div 4096, 128 + c div 64 mod 64, 128 + c mod 64]
      else [240 + c div 262144, 128 + c div 4096 mod 64, 128 + c div 64 mod 64, 128 + c mod 64])"

definition utf8 :: "str \<Rightarrow> nat list" where
  "utf8 s = concat (map utf8_cp s)"

text \<open>\<open>s.encode("utf-8")\<close> raises on a lone surrogate.\<close>

definition encodable :: "str \<Rightarrow> bool" where
  "encodable s \<longleftrightarrow> (\<forall>c \<in> set s. \<not> (55296 \<le> c \<and> c \<le> 57343))"

text \<open>
  \<open>b[:n].decode("utf-8", errors="ignore")\<close> of a valid encoding: every whole character of
  the first \<open>n\<close> bytes; the character the cut split, if any, is dropped.
\<close>

fun utf8_take :: "nat \<Rightarrow> str \<Rightarrow> str" where
  "utf8_take n [] = []"
| "utf8_take n (c # s) =
     (let k = length (utf8_cp c) in if k \<le> n then c # utf8_take (n - k) s else [])"

lemma utf8_Nil [simp]: "utf8 [] = []"
  by (simp add: utf8_def)

lemma utf8_Cons [simp]: "utf8 (c # s) = utf8_cp c @ utf8 s"
  by (simp add: utf8_def)

lemma utf8_append [simp]: "utf8 (s @ t) = utf8 s @ utf8 t"
  by (simp add: utf8_def)

lemma length_utf8_cp: "1 \<le> length (utf8_cp c) \<and> length (utf8_cp c) \<le> 4"
  by (simp add: utf8_cp_def)

lemma length_utf8_take: "length (utf8 (utf8_take n s)) \<le> n"
  by (induction n s rule: utf8_take.induct) (auto simp: Let_def)

lemma utf8_take_prefix: "\<exists>t. s = utf8_take n s @ t"
  by (induction n s rule: utf8_take.induct) (auto simp: Let_def)

lemma utf8_take_all: "length (utf8 s) \<le> n \<Longrightarrow> utf8_take n s = s"
  by (induction n s rule: utf8_take.induct) (auto simp: Let_def)

lemma utf8_take_maximal:
  "utf8_take n s \<noteq> s \<Longrightarrow> n < length (utf8 (utf8_take n s)) + 4"
proof (induction n s rule: utf8_take.induct)
  case (2 n c s)
  then show ?case
    using length_utf8_cp [of c] by (auto simp: Let_def split: if_splits)
qed simp

end
