(* ===== verification/Json.thy ===== *)
theory Json
  imports Pystr
begin

text \<open>
  What \<open>json.loads\<close> returns, and the operations the program applies to it: truthiness,
  \<open>d.get(k)\<close>, \<open>d[k]\<close>, \<open>x or y\<close>, \<open>int(x)\<close>, \<open>str(x)\<close> and iteration, each raising what Python
  raises on a value of the wrong shape. The text parser itself is the standard library's
  and is a parameter where it is used; so is \<open>repr\<close> of a float or a container.
\<close>

datatype pyfloat = Fin rat | PosInf | NegInf | NotANumber

datatype json =
    JNull
  | JBool bool
  | JInt int
  | JFloat pyfloat
  | JStr str
  | JList "json list"
  | JObj "(str \<times> json) list"

fun truthy :: "json \<Rightarrow> bool" where
  "truthy JNull = False"
| "truthy (JBool b) = b"
| "truthy (JInt i) = (i \<noteq> 0)"
| "truthy (JFloat x) = (x \<noteq> Fin 0)"
| "truthy (JStr s) = (s \<noteq> [])"
| "truthy (JList xs) = (xs \<noteq> [])"
| "truthy (JObj kvs) = (kvs \<noteq> [])"

definition jor :: "json \<Rightarrow> json \<Rightarrow> json" where
  "jor a b = (if truthy a then a else b)"

fun is_obj :: "json \<Rightarrow> bool" where
  "is_obj (JObj kvs) = True"
| "is_obj _ = False"

text \<open>\<open>d.get(k)\<close>, \<open>d.get(k, v)\<close> and \<open>d[k]\<close>.\<close>

fun jget :: "json \<Rightarrow> str \<Rightarrow> json res" where
  "jget (JObj kvs) k = Inr (case map_of kvs k of None \<Rightarrow> JNull | Some v \<Rightarrow> v)"
| "jget _ k = Inl AttributeError"

fun jget_or :: "json \<Rightarrow> str \<Rightarrow> json \<Rightarrow> json res" where
  "jget_or (JObj kvs) k d = Inr (case map_of kvs k of None \<Rightarrow> d | Some v \<Rightarrow> v)"
| "jget_or _ k d = Inl AttributeError"

fun jitem :: "json \<Rightarrow> str \<Rightarrow> json res" where
  "jitem (JObj kvs) k = (case map_of kvs k of None \<Rightarrow> Inl KeyError | Some v \<Rightarrow> Inr v)"
| "jitem _ k = Inl TypeError"

text \<open>\<open>(d.get(k) or {})\<close> and friends: the value if truthy, else the default.\<close>

definition jget_obj :: "json \<Rightarrow> str \<Rightarrow> json res" where
  "jget_obj j k = bindE (jget j k) (\<lambda>v. Inr (jor v (JObj [])))"

definition jget_list :: "json \<Rightarrow> str \<Rightarrow> json res" where
  "jget_list j k = bindE (jget j k) (\<lambda>v. Inr (jor v (JList [])))"

fun jiter :: "json \<Rightarrow> json list res" where
  "jiter (JList xs) = Inr xs"
| "jiter (JStr s) = Inr (map (\<lambda>c. JStr [c]) s)"
| "jiter (JObj kvs) = Inr (map (JStr \<circ> fst) kvs)"
| "jiter _ = Inl TypeError"

text \<open>\<open>int(x)\<close>: a float truncates towards zero, an infinity overflows.\<close>

definition trunc :: "rat \<Rightarrow> int" where
  "trunc r = (if r < 0 then \<lceil>r\<rceil> else \<lfloor>r\<rfloor>)"

fun py_int :: "json \<Rightarrow> int res" where
  "py_int (JInt i) = Inr i"
| "py_int (JBool b) = Inr (if b then 1 else 0)"
| "py_int (JFloat (Fin r)) = Inr (trunc r)"
| "py_int (JFloat NotANumber) = Inl ValueError"
| "py_int (JFloat _) = Inl OverflowError"
| "py_int (JStr s) = (case int_of_str s of None \<Rightarrow> Inl ValueError | Some i \<Rightarrow> Inr i)"
| "py_int _ = Inl TypeError"

text \<open>\<open>isinstance(x, int)\<close>, which a \<open>bool\<close> satisfies too, and the value then.\<close>

fun as_int :: "json \<Rightarrow> int option" where
  "as_int (JInt i) = Some i"
| "as_int (JBool b) = Some (if b then 1 else 0)"
| "as_int _ = None"

text \<open>\<open>str(x)\<close>, with \<open>repr\<close> of floats and containers as a parameter.\<close>

fun py_str :: "(json \<Rightarrow> str) \<Rightarrow> json \<Rightarrow> str" where
  "py_str rep JNull = lit ''None''"
| "py_str rep (JBool b) = (if b then lit ''True'' else lit ''False'')"
| "py_str rep (JInt i) = show_int i"
| "py_str rep (JStr s) = s"
| "py_str rep j = rep j"

fun hashable :: "json \<Rightarrow> bool" where
  "hashable (JList xs) = False"
| "hashable (JObj kvs) = False"
| "hashable _ = True"

text \<open>Python's \<open>==\<close> between a JSON value and a string.\<close>

definition eq_str :: "json \<Rightarrow> str \<Rightarrow> bool" where
  "eq_str j s \<longleftrightarrow> j = JStr s"

lemma jget_obj_is_obj: "jget (JObj kvs) k = Inr v \<Longrightarrow> \<not> truthy v \<Longrightarrow> jget_obj (JObj kvs) k = Inr (JObj [])"
  by (simp add: jget_obj_def jor_def)

lemma is_obj_iff: "is_obj j \<longleftrightarrow> (\<exists>kvs. j = JObj kvs)"
  by (cases j) auto

lemma jget_total [simp]: "is_obj j \<Longrightarrow> \<exists>v. jget j k = Inr v"
  by (cases j) auto

end
