(* ===== verification/Config.thy ===== *)
theory Config
  imports Json
begin

text \<open>
  The configuration (\<open>src/robbie/config.py\<close>): the repository, issue, budget and docker
  sections, their validators, which model arm reviews a commit, which arm stands in for
  it, and how the secrets are read and checked at boot. Hashing (\<open>hashlib.sha256\<close>) is a
  parameter: the properties hold for every digest function.
\<close>

section \<open>Severities\<close>

datatype severity = Critical | Must_fix | Should_fix | Nitpick

fun rank :: "severity \<Rightarrow> nat" where
  "rank Critical = 0"
| "rank Must_fix = 1"
| "rank Should_fix = 2"
| "rank Nitpick = 3"

instantiation severity :: linorder
begin

definition less_eq_severity :: "severity \<Rightarrow> severity \<Rightarrow> bool" where
  "less_eq_severity a b \<longleftrightarrow> rank a \<le> rank b"

definition less_severity :: "severity \<Rightarrow> severity \<Rightarrow> bool" where
  "less_severity a b \<longleftrightarrow> rank a < rank b"

instance
proof
  fix x y z :: severity
  show "x < y \<longleftrightarrow> x \<le> y \<and> \<not> y \<le> x" "x \<le> x" "x \<le> y \<or> y \<le> x"
    by (auto simp: less_severity_def less_eq_severity_def)
  show "x \<le> y \<Longrightarrow> y \<le> z \<Longrightarrow> x \<le> z" by (simp add: less_eq_severity_def)
  show "x \<le> y \<Longrightarrow> y \<le> x \<Longrightarrow> x = y"
    by (cases x; cases y) (simp_all add: less_eq_severity_def)
qed

end

section \<open>Records\<close>

record triage_rules =
  require :: "(str, str list) dict"
  needs :: "str list"
  block_if :: "(str, str list) dict"
  ask_if :: "(str, str list) dict"

record issue_config =
  ic_labels :: "str list"
  ic_clears :: str
  ic_fixable_label :: str
  ic_assignee :: "str list"
  ic_fix_timeout_s :: int
  ic_rules :: triage_rules
  ic_money_model :: "str option"
  ic_money_via_endpoint :: bool
  ic_fix_model :: "str option"
  ic_fix_via_endpoint :: bool
  ic_fix_image :: str
  ic_fix_db_url :: str

record repo_config =
  rc_slug :: str
  rc_reviewer_login :: str
  rc_bare :: str
  rc_label :: str
  rc_needs_work_label :: str
  rc_hold_labels :: "str list"
  rc_done_labels :: "str list"
  rc_self_review :: bool
  rc_review_command :: str
  rc_criteria_ref :: str
  rc_slack_channel :: "str option"
  rc_image :: str
  rc_ignore_checks :: "str list"
  rc_ci_phrase :: str
  rc_inline_min_severity :: severity
  rc_issues :: issue_config

record docker_config =
  dk_cpus :: str
  dk_memory :: str
  dk_pids_limit :: int
  dk_timeout_s :: int
  dk_network :: "str option"
  dk_fix_network :: "str option"
  dk_no_new_privileges :: bool

datatype via = Backend | Endpoint

record review_model =
  rm_model :: str
  rm_via :: via
  rm_weight :: nat

record choice =
  ch_model :: "str option"
  ch_via_endpoint :: bool

record budget_config =
  bc_daily_usd :: rat
  bc_stop_pct :: int
  bc_reserve_pct :: rat
  bc_reserve_usd :: rat
  bc_endpoint_stop_pct :: int
  bc_endpoint_reserve_pct :: rat
  bc_usage_poll_s :: int

record slack_config =
  sl_owner_id :: str
  sl_users_file :: str
  sl_approved_ids :: "str list"

datatype backend = Api | Oauth

record config =
  cfg_bot_name :: str
  cfg_slack :: slack_config
  cfg_repos :: "repo_config list"
  cfg_backend :: backend
  cfg_poll_interval_s :: int
  cfg_issue_interval_s :: int
  cfg_max_concurrent_reviews :: nat
  cfg_max_concurrent_checks :: nat
  cfg_state_dir :: str
  cfg_review_effort :: str
  cfg_stale_review_days :: int
  cfg_policy_dir :: "str option"
  cfg_review_mcp :: str
  cfg_fix_mcp :: str
  cfg_model_proxy :: str
  cfg_props_url :: str
  cfg_jane_socket :: str
  cfg_export_interval_s :: int
  cfg_digest_weekday :: "int option"
  cfg_digest_utc_hour :: int
  cfg_review_models :: "review_model list"
  cfg_docker :: docker_config
  cfg_budget :: budget_config

text \<open>\<open>Choice()\<close>: the account's own model.\<close>

definition default_choice :: choice where
  "default_choice = \<lparr>ch_model = None, ch_via_endpoint = False\<rparr>"

section \<open>Validators\<close>

text \<open>\<open>_clears_must_narrow_the_queue\<close>\<close>

definition check_issue_config :: "issue_config \<Rightarrow> issue_config res" where
  "check_issue_config ic =
     (if ic_labels ic \<noteq> [] \<and> ic_clears ic \<notin> set (ic_labels ic) then Inl ValueError
      else if ic_labels ic \<noteq> [] \<and> ic_fixable_label ic = [] then Inl ValueError
      else Inr ic)"

text \<open>
  The field patterns of \<open>RepoConfig\<close>. The pattern engine there is Rust's, whose \<open>\s\<close> leaves
  out the four separators 28 to 31 that \<open>str.isspace\<close> includes.
\<close>

definition slug_ok :: "str \<Rightarrow> bool" where
  "slug_ok s \<longleftrightarrow>
     (case split_on 47 s of
        [a, b] \<Rightarrow> a \<noteq> [] \<and> b \<noteq> [] \<and> (\<forall>c \<in> set s. is_space c \<longrightarrow> 28 \<le> c \<and> c \<le> 31)
      | _ \<Rightarrow> False)"

definition is_alnum_ascii :: "nat \<Rightarrow> bool" where
  "is_alnum_ascii c \<longleftrightarrow> (48 \<le> c \<and> c \<le> 57) \<or> (65 \<le> c \<and> c \<le> 90) \<or> (97 \<le> c \<and> c \<le> 122)"

definition login_ok :: "str \<Rightarrow> bool" where
  "login_ok s \<longleftrightarrow> s \<noteq> [] \<and> is_alnum_ascii (hd s) \<and> is_alnum_ascii (last s)
     \<and> (\<forall>c \<in> set s. is_alnum_ascii c \<or> c = 45)"

definition label_ok :: "str \<Rightarrow> bool" where
  "label_ok s \<longleftrightarrow> s \<noteq> [] \<and> 34 \<notin> set s \<and> NL \<notin> set s"

definition ref_ok :: "str \<Rightarrow> bool" where
  "ref_ok s \<longleftrightarrow> s \<noteq> [] \<and> (\<forall>c \<in> set s. is_alnum_ascii c \<or> c \<in> {46, 95, 47, 45})"

definition check_repo_config :: "repo_config \<Rightarrow> repo_config res" where
  "check_repo_config rc =
     (if slug_ok (rc_slug rc) \<and> login_ok (rc_reviewer_login rc) \<and> label_ok (rc_label rc)
         \<and> ref_ok (rc_criteria_ref rc)
      then bindE (check_issue_config (rc_issues rc)) (\<lambda>_. Inr rc)
      else Inl ValueError)"

text \<open>\<open>_proxy_needs_a_network\<close>\<close>

definition check_config :: "config \<Rightarrow> config res" where
  "check_config cfg =
     (if cfg_model_proxy cfg \<noteq> [] \<and> (case dk_network (cfg_docker cfg) of None \<Rightarrow> True | Some n \<Rightarrow> n = [])
      then Inl ValueError else Inr cfg)"

section \<open>Derived fields\<close>

definition brake_labels :: "repo_config \<Rightarrow> str list" where
  "brake_labels rc = rc_needs_work_label rc # rc_hold_labels rc"

definition rc_owner :: "repo_config \<Rightarrow> str" where
  "rc_owner rc = hd (split_on 47 (rc_slug rc))"

text \<open>\<open>slug.split("/", 1)[1]\<close>; the slug pattern has exactly one slash.\<close>

definition rc_name :: "repo_config \<Rightarrow> str" where
  "rc_name rc = join [47] (tl (split_on 47 (rc_slug rc)))"

definition endpoint_models :: "config \<Rightarrow> str list" where
  "endpoint_models cfg = map rm_model (filter (\<lambda>m. rm_via m = Endpoint) (cfg_review_models cfg))"

text \<open>\<open>Config.repo(slug)\<close>: the first match, else \<open>KeyError\<close>.\<close>

definition cfg_repo :: "config \<Rightarrow> str \<Rightarrow> repo_config res" where
  "cfg_repo cfg s =
     (case find_first (\<lambda>r. rc_slug r = s) (cfg_repos cfg) of None \<Rightarrow> Inl KeyError | Some r \<Rightarrow> Inr r)"

section \<open>Model arms\<close>

definition arm_choice :: "review_model \<Rightarrow> choice" where
  "arm_choice m = \<lparr>ch_model = Some (rm_model m), ch_via_endpoint = (rm_via m = Endpoint)\<rparr>"

definition arms :: "review_model list \<Rightarrow> review_model list" where
  "arms ms = concat (map (\<lambda>m. replicate (rm_weight m) m) ms)"

text \<open>\<open>int.from_bytes(digest[:8], "big")\<close>\<close>

definition from_bytes_big :: "nat list \<Rightarrow> nat" where
  "from_bytes_big bs = foldl (\<lambda>a b. 256 * a + b) 0 bs"

definition choose_model :: "(nat list \<Rightarrow> nat list) \<Rightarrow> config \<Rightarrow> str \<Rightarrow> choice" where
  "choose_model sha256 cfg key =
     (let as = arms (cfg_review_models cfg) in
      if as = [] then default_choice
      else arm_choice (as ! (from_bytes_big (take 8 (sha256 (utf8 key))) mod length as)))"

text \<open>\<open>max(xs, key=f)\<close> keeps the first of the largest.\<close>

fun max_by :: "('a \<Rightarrow> nat) \<Rightarrow> 'a \<Rightarrow> 'a list \<Rightarrow> 'a" where
  "max_by f b [] = b"
| "max_by f b (x # xs) = max_by f (if f b < f x then x else b) xs"

definition fallback_for :: "config \<Rightarrow> choice \<Rightarrow> choice option" where
  "fallback_for cfg ch =
     (case filter (\<lambda>m. (rm_via m = Endpoint) \<noteq> ch_via_endpoint ch) (cfg_review_models cfg) of
        [] \<Rightarrow> None
      | m # ms \<Rightarrow> Some (arm_choice (max_by rm_weight m ms)))"

definition named_model :: "config \<Rightarrow> str \<Rightarrow> choice" where
  "named_model cfg m = \<lparr>ch_model = Some m, ch_via_endpoint = (m \<in> set (endpoint_models cfg))\<rparr>"

lemma max_by_mem: "max_by f b xs \<in> set (b # xs)"
  by (induction f b xs rule: max_by.induct) auto

lemma max_by_ge: "x \<in> set (b # xs) \<Longrightarrow> f x \<le> f (max_by f b xs)"
proof (induction f b xs arbitrary: x rule: max_by.induct)
  case (2 f b y ys)
  let ?b = "if f b < f y then y else b"
  have "f b \<le> f ?b" "f y \<le> f ?b" "f ?b \<le> f (max_by f ?b ys)"
    using "2.IH" [of ?b] by auto
  moreover have "z \<in> set ys \<Longrightarrow> f z \<le> f (max_by f ?b ys)" for z
    using "2.IH" [of z] by simp
  ultimately show ?case using "2.prems" by (metis le_trans max_by.simps(2) set_ConsD)
qed simp

lemma set_arms: "set (arms ms) = {m \<in> set ms. rm_weight m > 0}"
  by (auto simp: arms_def)

lemma count_list_replicate: "count_list (replicate n x) y = (if x = y then n else 0)"
  by (induction n) auto

lemma arms_Cons: "arms (a # ms) = replicate (rm_weight a) a @ arms ms"
  by (simp add: arms_def)

lemma count_arms: "distinct ms \<Longrightarrow> m \<in> set ms \<Longrightarrow> count_list (arms ms) m = rm_weight m"
proof (induction ms)
  case (Cons a ms)
  have none: "count_list (arms ms) m' = 0" if "m' \<notin> set ms" for m'
    using that by (simp add: set_arms)
  show ?case
  proof (cases "m = a")
    case True
    with Cons.prems show ?thesis by (simp add: arms_Cons count_list_replicate none)
  next
    case False
    with Cons show ?thesis by (simp add: arms_Cons count_list_replicate)
  qed
qed simp

lemma card_positions: "card {n. n < length xs \<and> xs ! n = x} = count_list xs x"
proof -
  have "(=) x = (\<lambda>y. y = x)" by auto
  then show ?thesis by (simp add: count_list_eq_length_filter length_filter_conv_card)
qed

section \<open>Secrets\<close>

record secrets =
  sc_gh_token :: str
  sc_slack_bot_token :: str
  sc_reviewer_gh_token :: str
  sc_anthropic_api_key :: "str option"
  sc_claude_credentials :: "str option"
  sc_review_base_url :: "str option"
  sc_review_api_token :: "str option"
  sc_model_proxy_token :: "str option"
  sc_fixer_gh_token :: "str option"
  sc_jane_token :: "str option"

text \<open>\<open>os.environ\<close> as a map; \<open>require_env\<close> and \<open>optional_env\<close> are \<open>_require\<close> and \<open>_optional_secret\<close>.\<close>

type_synonym environ = "str \<Rightarrow> str option"

definition env_get :: "environ \<Rightarrow> string \<Rightarrow> str" where
  "env_get e n = (case e (lit n) of None \<Rightarrow> [] | Some v \<Rightarrow> v)"

definition require_env :: "environ \<Rightarrow> string \<Rightarrow> str res" where
  "require_env e n = (let v = strip (env_get e n) in if v = [] then Inl SystemExit else Inr v)"

definition optional_env :: "environ \<Rightarrow> string \<Rightarrow> str option" where
  "optional_env e n = (let v = strip (env_get e n) in if v = [] then None else Some v)"

text \<open>The record the loader builds, once the two required tokens are there.\<close>

definition read_secrets :: "environ \<Rightarrow> str \<Rightarrow> str \<Rightarrow> secrets" where
  "read_secrets e gh_token slack =
     (let reviewer = strip (env_get e ''GH_TOKEN_REVIEWER'') in
      \<lparr>sc_gh_token = gh_token, sc_slack_bot_token = slack,
       sc_reviewer_gh_token = (if reviewer = [] then gh_token else reviewer),
       sc_anthropic_api_key = optional_env e ''ANTHROPIC_API_KEY'',
       sc_claude_credentials =
         (if env_get e ''CLAUDE_CREDENTIALS'' = [] then None else Some (env_get e ''CLAUDE_CREDENTIALS'')),
       sc_review_base_url = optional_env e ''REVIEW_BASE_URL'',
       sc_review_api_token = optional_env e ''REVIEW_API_TOKEN'',
       sc_model_proxy_token = optional_env e ''MODEL_PROXY_TOKEN'',
       sc_fixer_gh_token = optional_env e ''FIXER_GH_TOKEN'',
       sc_jane_token = optional_env e ''JANE_TOKEN''\<rparr>)"

text \<open>The checks at the end of the loader, in its order.\<close>

definition check_secrets :: "config \<Rightarrow> (str \<Rightarrow> bool) \<Rightarrow> secrets \<Rightarrow> secrets res" where
  "check_secrets cfg is_file s =
     (if cfg_jane_socket cfg \<noteq> [] \<and> sc_jane_token s = None then Inl SystemExit
      else if cfg_model_proxy cfg \<noteq> [] \<and> sc_model_proxy_token s = None then Inl SystemExit
      else if cfg_backend cfg = Api \<and> sc_anthropic_api_key s = None then Inl SystemExit
      else if cfg_backend cfg = Oauth \<and>
              (case sc_claude_credentials s of None \<Rightarrow> True | Some p \<Rightarrow> \<not> is_file p)
           then Inl SystemExit
      else if sc_fixer_gh_token s = Some (sc_reviewer_gh_token s) then Inl SystemExit
      else Inr s)"

definition load_secrets :: "config \<Rightarrow> environ \<Rightarrow> (str \<Rightarrow> bool) \<Rightarrow> secrets res" where
  "load_secrets cfg e is_file =
     bindE (require_env e ''GH_TOKEN'') (\<lambda>gh_token.
     bindE (require_env e ''SLACK_BOT_TOKEN'') (\<lambda>slack.
       check_secrets cfg is_file (read_secrets e gh_token slack)))"

section \<open>A sample configuration\<close>

text \<open>Used by the witnesses.\<close>

definition sample_rules :: triage_rules where
  "sample_rules =
     \<lparr>require = [(lit ''Money'', [lit ''No''])], needs = [lit ''Steps''], block_if = [],
      ask_if = [(lit ''Money'', [lit ''Unsure''])]\<rparr>"

definition sample_issues :: issue_config where
  "sample_issues =
     \<lparr>ic_labels = [lit ''bug'', lit ''triage''], ic_clears = lit ''triage'', ic_fixable_label = lit ''robbie-fix'',
      ic_assignee = [lit ''ana''], ic_fix_timeout_s = 5400, ic_rules = sample_rules,
      ic_money_model = None, ic_money_via_endpoint = False, ic_fix_model = None,
      ic_fix_via_endpoint = False, ic_fix_image = [], ic_fix_db_url = []\<rparr>"

definition sample_repo :: repo_config where
  "sample_repo =
     \<lparr>rc_slug = lit ''acme/app'', rc_reviewer_login = lit ''bot'', rc_bare = lit ''/m'',
      rc_label = lit ''Code Review'', rc_needs_work_label = lit ''NEEDS WORK'', rc_hold_labels = [],
      rc_done_labels = [lit ''approved''], rc_self_review = False,
      rc_review_command = lit ''review.md'', rc_criteria_ref = lit ''main'',
      rc_slack_channel = Some (lit ''C1''), rc_image = lit ''robbie-reviewer:latest'',
      rc_ignore_checks = [lit ''CodeRabbit''], rc_ci_phrase = lit ''run-ci'',
      rc_inline_min_severity = Nitpick, rc_issues = sample_issues\<rparr>"

definition sample_config :: config where
  "sample_config =
     \<lparr>cfg_bot_name = lit ''robbie'',
      cfg_slack = \<lparr>sl_owner_id = lit ''U1'', sl_users_file = lit ''users.tsv'', sl_approved_ids = []\<rparr>,
      cfg_repos = [sample_repo], cfg_backend = Api,
      cfg_poll_interval_s = 600, cfg_issue_interval_s = 900, cfg_max_concurrent_reviews = 3,
      cfg_max_concurrent_checks = 8, cfg_state_dir = lit ''/var/lib/robbie'', cfg_review_effort = lit ''high'', cfg_stale_review_days = 7,
      cfg_policy_dir = None, cfg_review_mcp = [], cfg_fix_mcp = lit ''mcp'', cfg_model_proxy = [],
      cfg_props_url = [], cfg_jane_socket = [], cfg_export_interval_s = 0,
      cfg_digest_weekday = None, cfg_digest_utc_hour = 15,
      cfg_review_models = [\<lparr>rm_model = lit ''a'', rm_via = Backend, rm_weight = 2\<rparr>,
                           \<lparr>rm_model = lit ''b'', rm_via = Endpoint, rm_weight = 1\<rparr>],
      cfg_docker = \<lparr>dk_cpus = lit ''2'', dk_memory = lit ''4g'', dk_pids_limit = 512,
                    dk_timeout_s = 1800, dk_network = Some (lit ''robbie''),
                    dk_fix_network = Some (lit ''robbie-fix''), dk_no_new_privileges = True\<rparr>,
      cfg_budget = \<lparr>bc_daily_usd = 20, bc_stop_pct = 70, bc_reserve_pct = 8, bc_reserve_usd = 5,
                    bc_endpoint_stop_pct = 80, bc_endpoint_reserve_pct = 5, bc_usage_poll_s = 120\<rparr>\<rparr>"

section \<open>Properties\<close>

lemma choose_model_arm:
  assumes "\<exists>a \<in> set (cfg_review_models cfg). 0 < rm_weight a"
  shows "choose_model sha cfg key \<in> arm_choice ` {a \<in> set (cfg_review_models cfg). 0 < rm_weight a}"
proof -
  let ?as = "arms (cfg_review_models cfg)"
  from assms have ne: "?as \<noteq> []" using set_arms [of "cfg_review_models cfg"] by force
  then have "?as ! (from_bytes_big (take 8 (sha (utf8 key))) mod length ?as) \<in> set ?as"
    by (intro nth_mem) simp
  with ne show ?thesis by (simp add: choose_model_def Let_def set_arms)
qed

text \<open>
  Over one full period of the hash, every configured arm is drawn exactly as often as its
  weight says, and no key ever draws an arm of weight zero, so reviews split between the
  models in the configured ratio.
\<close>

theorem choose_model_share:
  assumes "distinct (cfg_review_models cfg)" and "m \<in> set (cfg_review_models cfg)" and "0 < rm_weight m"
  shows "card {n. n < length (arms (cfg_review_models cfg)) \<and> arms (cfg_review_models cfg) ! n = m}
           = rm_weight m \<and>
         choose_model sha cfg key \<in> arm_choice ` {a \<in> set (cfg_review_models cfg). 0 < rm_weight a}"
  using assms choose_model_arm [of cfg sha key] by (auto simp: card_positions count_arms)

theorem choose_model_share_witness:
  "choose_model (\<lambda>b. [1]) sample_config (lit ''k'') \<in>
     arm_choice ` {a \<in> set (cfg_review_models sample_config). 0 < rm_weight a}"
  by (rule conjunct2 [OF choose_model_share
      [where m = "\<lparr>rm_model = lit ''a'', rm_via = Backend, rm_weight = 2\<rparr>"]])
    (simp_all add: sample_config_def)

text \<open>
  The arm that stands in for one that cannot run is billed on the other side, weighs no
  less than any other arm of that side, and is missing only when that side has none.
\<close>

theorem fallback_other_side:
  "(fallback_for cfg ch = None \<longleftrightarrow>
      \<not> (\<exists>m \<in> set (cfg_review_models cfg). (rm_via m = Endpoint) \<noteq> ch_via_endpoint ch)) \<and>
   (fallback_for cfg ch = Some c \<longrightarrow>
      ch_via_endpoint c \<noteq> ch_via_endpoint ch \<and>
      (\<exists>m \<in> set (cfg_review_models cfg). c = arm_choice m \<and>
         (\<forall>n \<in> set (cfg_review_models cfg).
            (rm_via n = Endpoint) \<noteq> ch_via_endpoint ch \<longrightarrow> rm_weight n \<le> rm_weight m)))"
proof -
  let ?P = "\<lambda>m. (rm_via m = Endpoint) \<noteq> ch_via_endpoint ch"
  show ?thesis
  proof (cases "filter ?P (cfg_review_models cfg)")
    case Nil
    then have "\<not> (\<exists>m \<in> set (cfg_review_models cfg). ?P m)" by (simp add: filter_empty_conv)
    with Nil show ?thesis by (simp add: fallback_for_def)
  next
    case (Cons b xs)
    let ?m = "max_by rm_weight b xs"
    have mem: "set (b # xs) = {m \<in> set (cfg_review_models cfg). ?P m}"
      unfolding Cons [symmetric] by simp
    then have m: "?m \<in> set (cfg_review_models cfg)" "?P ?m" using max_by_mem [of rm_weight b xs] by auto
    have ge: "rm_weight n \<le> rm_weight ?m" if "n \<in> set (cfg_review_models cfg)" "?P n" for n
      by (rule max_by_ge) (use that mem in blast)
    have "\<exists>m \<in> set (cfg_review_models cfg). ?P m" using m by blast
    moreover have "fallback_for cfg ch = Some (arm_choice ?m)" using Cons by (simp add: fallback_for_def)
    moreover have "ch_via_endpoint (arm_choice ?m) \<noteq> ch_via_endpoint ch"
      using m(2) by (simp add: arm_choice_def)
    ultimately show ?thesis using m ge by auto
  qed
qed

theorem fallback_other_side_witness:
  "ch_via_endpoint \<lparr>ch_model = Some (lit ''b''), ch_via_endpoint = True\<rparr> \<noteq> ch_via_endpoint default_choice"
proof -
  have "fallback_for sample_config default_choice = Some \<lparr>ch_model = Some (lit ''b''), ch_via_endpoint = True\<rparr>"
    by (simp add: fallback_for_def sample_config_def default_choice_def arm_choice_def)
  with fallback_other_side [of sample_config default_choice] show ?thesis by blast
qed

text \<open>
  Secrets that load name a GitHub and a Slack token, the credential of the configured
  backend, the token of every service the configuration turns on, and never the reviewer's
  own token as the fixer's, so the fixer cannot approve what it wrote.
\<close>

theorem load_secrets_safe:
  assumes "load_secrets cfg e is_file = Inr s"
  shows "sc_gh_token s \<noteq> [] \<and> sc_slack_bot_token s \<noteq> [] \<and> sc_reviewer_gh_token s \<noteq> [] \<and>
    sc_fixer_gh_token s \<noteq> Some (sc_reviewer_gh_token s) \<and>
    (cfg_jane_socket cfg \<noteq> [] \<longrightarrow> sc_jane_token s \<noteq> None) \<and>
    (cfg_model_proxy cfg \<noteq> [] \<longrightarrow> sc_model_proxy_token s \<noteq> None) \<and>
    (case cfg_backend cfg of
       Api \<Rightarrow> sc_anthropic_api_key s \<noteq> None
     | Oauth \<Rightarrow> \<exists>p. sc_claude_credentials s = Some p \<and> is_file p)"
proof -
  have req: "require_env e n = Inr v \<Longrightarrow> v \<noteq> []" for n v
    by (auto simp: require_env_def Let_def split: if_splits)
  from assms obtain gh sl where gh: "require_env e ''GH_TOKEN'' = Inr gh"
    and sl: "require_env e ''SLACK_BOT_TOKEN'' = Inr sl"
    and chk: "check_secrets cfg is_file (read_secrets e gh sl) = Inr s"
    unfolding load_secrets_def bindE_Inr_iff by blast
  from chk have s: "s = read_secrets e gh sl"
    by (simp add: check_secrets_def split: if_splits)
  have "sc_gh_token s \<noteq> [] \<and> sc_slack_bot_token s \<noteq> [] \<and> sc_reviewer_gh_token s \<noteq> []"
    using req [OF gh] req [OF sl] unfolding s by (simp add: read_secrets_def Let_def)
  moreover have "sc_fixer_gh_token s \<noteq> Some (sc_reviewer_gh_token s) \<and>
    (cfg_jane_socket cfg \<noteq> [] \<longrightarrow> sc_jane_token s \<noteq> None) \<and>
    (cfg_model_proxy cfg \<noteq> [] \<longrightarrow> sc_model_proxy_token s \<noteq> None)"
    using chk unfolding s [symmetric] by (auto simp: check_secrets_def split: if_splits)
  moreover have "case cfg_backend cfg of
       Api \<Rightarrow> sc_anthropic_api_key s \<noteq> None
     | Oauth \<Rightarrow> \<exists>p. sc_claude_credentials s = Some p \<and> is_file p"
    using chk unfolding s [symmetric]
    by (cases "cfg_backend cfg"; cases "sc_claude_credentials s")
      (simp_all add: check_secrets_def split: if_splits)
  ultimately show ?thesis by blast
qed

definition sample_env :: environ where
  "sample_env n =
     (if n \<in> {lit ''GH_TOKEN'', lit ''SLACK_BOT_TOKEN'', lit ''ANTHROPIC_API_KEY''} then Some (lit ''t'')
      else if n = lit ''FIXER_GH_TOKEN'' then Some (lit ''f'') else None)"

theorem load_secrets_safe_witness:
  "\<exists>s. load_secrets sample_config sample_env (\<lambda>p. False) = Inr s \<and>
       sc_fixer_gh_token s = Some (lit ''f'') \<and> sc_reviewer_gh_token s \<noteq> lit ''f''"
proof -
  have t: "strip (lit ''t'') = lit ''t''" "strip (lit ''f'') = lit ''f''"
    by (rule strip_p_id; simp add: lit_def is_space_def)+
  have "\<exists>s. load_secrets sample_config sample_env (\<lambda>p. False) = Inr s \<and> sc_fixer_gh_token s = Some (lit ''f'')"
    by (simp add: load_secrets_def require_env_def optional_env_def env_get_def sample_env_def
        sample_config_def read_secrets_def check_secrets_def t)
  then show ?thesis using load_secrets_safe [of sample_config sample_env "\<lambda>p. False"] by fastforce
qed

end
