(* ===== verification/Proxy.thy ===== *)
theory Proxy
  imports Config
begin

text \<open>
  The model proxy (\<open>src/robbie_proxy/main.py\<close>): the sidecar that holds the model credentials
  and puts them on a reviewer's request on its way past. The HTTP server and client, the
  clock and the credentials file are an environment. The properties: only a request with the
  fleet's token is forwarded, only to a path below one that is listed, and with no credential
  on it but the proxy's own; and the two ways a bad request is answered with a crash.
\<close>

definition ACCOUNT_UPSTREAM :: str where "ACCOUNT_UPSTREAM = (lit ''https://api.anthropic.com'')"
definition OAUTH_BETA :: str where "OAUTH_BETA = (lit ''oauth-2025-04-20'')"

definition DROP_REQUEST :: "str list" where
  "DROP_REQUEST =
     map lit [''host'', ''authorization'', ''x-api-key'', ''content-length'', ''connection'', ''transfer-encoding'']"

definition DROP_RESPONSE :: "str list" where
  "DROP_RESPONSE = map lit [''content-length'', ''transfer-encoding'']"

definition DEFAULT_PATHS :: "str list" where
  "DEFAULT_PATHS = map lit [''v1/messages'', ''v1/models'']"

definition error_type :: "nat \<Rightarrow> str" where
  "error_type status =
     (if status = 401 then lit ''authentication_error''
      else if status = 403 then lit ''permission_error'' else lit ''api_error'')"

section \<open>Settings\<close>

record settings =
  se_token :: str
  se_credentials :: "str option"
  se_api_key :: "str option"
  se_review_base_url :: "str option"
  se_review_api_token :: "str option"
  se_host :: str
  se_port :: int
  se_paths :: "str list"

definition serves_account :: "settings \<Rightarrow> bool" where
  "serves_account st \<longleftrightarrow> se_credentials st \<noteq> None \<or> se_api_key st \<noteq> None"

definition or_none :: "str \<Rightarrow> str option" where
  "or_none s = (if s = [] then None else Some s)"

text \<open>\<open>x or ""\<close>\<close>

definition text_of :: "str option \<Rightarrow> str" where
  "text_of x = (case x of None \<Rightarrow> [] | Some s \<Rightarrow> s)"

definition is_slash :: "nat \<Rightarrow> bool" where
  "is_slash c \<longleftrightarrow> c = 47"

text \<open>\<open>_paths\<close>\<close>

definition paths_of :: "str \<Rightarrow> str list" where
  "paths_of raw =
     (let listed = filter (\<lambda>p. p \<noteq> []) (map (\<lambda>p. strip_p is_slash (strip p)) (split_on 44 raw))
      in if listed = [] then DEFAULT_PATHS else listed)"

definition env_or :: "environ \<Rightarrow> string \<Rightarrow> string \<Rightarrow> str" where
  "env_or e n d = (case e (lit n) of None \<Rightarrow> lit d | Some v \<Rightarrow> v)"

definition from_env :: "environ \<Rightarrow> settings res" where
  "from_env e =
     (let token = strip (env_get e ''MODEL_PROXY_TOKEN'');
          creds = strip (env_get e ''CLAUDE_CREDENTIALS'');
          key = strip (env_get e ''ANTHROPIC_API_KEY'');
          base = strip (env_get e ''REVIEW_BASE_URL'');
          endpoint_key = strip (env_get e ''REVIEW_API_TOKEN'')
      in if token = [] then Inl SystemExit
         else if creds = [] \<and> key = [] \<and> base = [] then Inl SystemExit
         else case int_of_str (env_or e ''MODEL_PROXY_PORT'' ''8080'') of
           None \<Rightarrow> Inl ValueError
         | Some port \<Rightarrow>
             Inr \<lparr>se_token = token, se_credentials = or_none creds, se_api_key = or_none key,
                  se_review_base_url = or_none (rstrip_p is_slash base),
                  se_review_api_token = or_none endpoint_key,
                  se_host = env_or e ''MODEL_PROXY_HOST'' ''0.0.0.0'', se_port = port,
                  se_paths = paths_of (env_get e ''MODEL_PROXY_PATHS'')\<rparr>)"

section \<open>The account's token\<close>

text \<open>
  What the proxy reads from outside: the parsed credentials file, the link count of the file,
  the clock in seconds, \<open>float\<close> and \<open>str\<close> of a value, \<open>str\<close> of an exception and \<open>repr\<close>.
\<close>

record outside =
  px_file :: "json res"
  px_nlink :: "nat option"
  px_now :: rat
  px_float :: "json \<Rightarrow> pyfloat res"
  px_rep :: "json \<Rightarrow> str"
  px_show :: "exn \<Rightarrow> str"

definition stale_hint :: "outside \<Rightarrow> str \<Rightarrow> str" where
  "stale_hint px path =
     (if px_nlink px = Some 0 then
        (lit ''the host has already replaced '' @ path
       @ lit '' and this container still has the old one '' @ [8212]
       @ lit '' bind-mount the directory, not the file, and restart'')
      else (lit ''run `claude` on the host to renew it''))"

text \<open>\<open>float(...) / 1000 - time.time() <= 0\<close>; a comparison with not-a-number is false.\<close>

fun minutes_late :: "rat \<Rightarrow> pyfloat \<Rightarrow> str option" where
  "minutes_late t (Fin ms) = (if ms / 1000 - t \<le> 0 then Some (show_fixed 0 ((t - ms / 1000) / 60)) else None)"
| "minutes_late t NegInf = Some (lit ''inf'')"
| "minutes_late t PosInf = None"
| "minutes_late t NotANumber = None"

text \<open>\<open>except (OSError, KeyError, json.JSONDecodeError)\<close>; \<open>OtherError\<close> stands for \<open>OSError\<close>.\<close>

fun read_failure :: "exn \<Rightarrow> bool" where
  "read_failure (OtherError s) = True"
| "read_failure KeyError = True"
| "read_failure ValueError = True"
| "read_failure _ = False"

definition account_bearer :: "outside \<Rightarrow> str \<Rightarrow> str res" where
  "account_bearer px path =
     (case bindE (px_file px) (\<lambda>j. jitem j (lit ''claudeAiOauth'')) of
        Inl e \<Rightarrow>
          if read_failure e
          then Inl (Denied (lit ''could not read the account credentials: '' @ px_show px e) 502)
          else Inl e
      | Inr oauth \<Rightarrow>
          bindE (jget_or oauth (lit ''expiresAt'') (JInt 0)) (\<lambda>x.
          bindE (px_float px x) (\<lambda>ms.
          case minutes_late (px_now px) ms of
            Some late \<Rightarrow>
              Inl (Denied (lit ''the account's access token expired '' @ late
       @ lit '' min ago and this proxy does not refresh it; '' @ stale_hint px path) 502)
          | None \<Rightarrow> bindE (jitem oauth (lit ''accessToken'')) (\<lambda>t. Inr (py_str (px_rep px) t)))))"

section \<open>Headers\<close>

text \<open>\<open>re.split(r"\s*,\s*", s)\<close>: no white space is left beside a comma.\<close>

fun comma_parts :: "str list \<Rightarrow> str list" where
  "comma_parts [] = []"
| "comma_parts [p] = [lstrip p]"
| "comma_parts (p # ps) = strip p # comma_parts ps"

definition flags_of :: "str \<Rightarrow> str list" where
  "flags_of s =
     filter (\<lambda>f. f \<noteq> [])
       (case split_on 44 s of
          [] \<Rightarrow> []
        | [p] \<Rightarrow> [p]
        | p # ps \<Rightarrow> rstrip p # comma_parts ps)"

definition merge_beta :: "str \<Rightarrow> str \<Rightarrow> str" where
  "merge_beta existing flag =
     (let flags = flags_of existing
      in join [44] (if flag \<notin> set flags then flag # flags else flags))"

text \<open>\<open>secrets.compare_digest\<close> on strings: both must be ASCII.\<close>

definition ascii_text :: "str \<Rightarrow> bool" where
  "ascii_text s \<longleftrightarrow> (\<forall>c \<in> set s. c < 128)"

definition compare_digest :: "str \<Rightarrow> str \<Rightarrow> bool res" where
  "compare_digest a b = (if ascii_text a \<and> ascii_text b then Inr (a = b) else Inl TypeError)"

definition offered_token :: "str \<Rightarrow> str" where
  "offered_token header = (if startswith (lower header) (lit ''bearer '') then drop 7 header else header)"

definition authorize :: "str \<Rightarrow> str \<Rightarrow> unit res" where
  "authorize header expected =
     bindE (compare_digest (offered_token header) expected) (\<lambda>same.
       if same then Inr () else Inl (Denied (lit ''this token is not the one the fleet was given'') 401))"

definition allow_path :: "str \<Rightarrow> str list \<Rightarrow> str res" where
  "allow_path path allowed =
     (let clean = strip_p is_slash path in
      if lit ''..'' \<in> set (split_on 47 clean)
      then Inl (Denied (lit ''a path segment of '..' is not forwarded'') 403)
      else if \<not> (\<exists>p \<in> set allowed. clean = p \<or> startswith clean (p @ [47]))
      then Inl (Denied (lit ''this proxy forwards '' @ join (lit '', '') allowed @ lit '' only, not /'' @ clean
       @ lit ''. Set MODEL_PROXY_PATHS if the CLI legitimately needs it'') 403)
      else Inr clean)"

section \<open>Where it goes\<close>

record upstream =
  us_base :: str
  us_auth :: "(str, str) dict"
  us_beta :: "str option"

definition bearer :: "str \<Rightarrow> (str, str) dict" where
  "bearer t = [(lit ''authorization'', (lit ''Bearer '' @ t))]"

definition upstream_for :: "outside \<Rightarrow> str \<Rightarrow> settings \<Rightarrow> upstream res" where
  "upstream_for px arm st =
     (if arm = lit ''account'' then
        (case se_credentials st of
           Some path \<Rightarrow>
             bindE (account_bearer px path) (\<lambda>t.
               Inr \<lparr>us_base = ACCOUNT_UPSTREAM, us_auth = bearer t, us_beta = Some OAUTH_BETA\<rparr>)
         | None \<Rightarrow>
             (case se_api_key st of
                Some key \<Rightarrow>
                  Inr \<lparr>us_base = ACCOUNT_UPSTREAM, us_auth = [(lit ''x-api-key'', key)], us_beta = None\<rparr>
              | None \<Rightarrow> Inl (Denied (lit ''no account credentials are configured on this proxy'') 502)))
      else if arm = lit ''endpoint'' then
        (let base = text_of (se_review_base_url st) in
         if base = [] then Inl (Denied (lit ''no REVIEW_BASE_URL is configured on this proxy'') 502)
         else Inr \<lparr>us_base = base, us_auth = bearer (text_of (se_review_api_token st)), us_beta = None\<rparr>)
      else Inl (Denied (lit ''unknown arm '' @ px_rep px (JStr arm) @ lit ''; expected /account or /endpoint'') 502))"

section \<open>Forwarding\<close>

text \<open>A request, its header names in the lower case the server hands them over in.\<close>

record request =
  rq_method :: str
  rq_arm :: str
  rq_path :: str
  rq_query :: "(str, str) dict"
  rq_headers :: "(str \<times> str) list"
  rq_body :: "nat list"

definition header_of :: "(str \<times> str) list \<Rightarrow> str \<Rightarrow> str" where
  "header_of hs k = (case find_first (\<lambda>h. fst h = k) hs of None \<Rightarrow> [] | Some h \<Rightarrow> snd h)"

definition without :: "str list \<Rightarrow> (str \<times> str) list \<Rightarrow> (str, str) dict" where
  "without drops hs =
     foldl (\<lambda>d h. dset (fst h) (snd h) d) [] (filter (\<lambda>h. lower (fst h) \<notin> set drops) hs)"

definition BETA :: str where "BETA = lit ''anthropic-beta''"

definition outbound_headers :: "upstream \<Rightarrow> (str \<times> str) list \<Rightarrow> (str, str) dict" where
  "outbound_headers up hs =
     (let d = foldl (\<lambda>d h. dset (fst h) (snd h) d) (without DROP_REQUEST hs) (us_auth up)
      in case us_beta up of
           None \<Rightarrow> d
         | Some flag \<Rightarrow> dset BETA (merge_beta (dget_or d BETA []) flag) d)"

record outbound =
  ob_method :: str
  ob_target :: str
  ob_query :: "(str, str) dict"
  ob_headers :: "(str, str) dict"
  ob_body :: "nat list"

datatype reply = Refused nat str str | Forward outbound

definition check_request :: "outside \<Rightarrow> settings \<Rightarrow> request \<Rightarrow> (str \<times> upstream) res" where
  "check_request px st rq =
     bindE (authorize (header_of (rq_headers rq) (lit ''authorization'')) (se_token st)) (\<lambda>_.
     bindE (allow_path (rq_path rq) (se_paths st)) (\<lambda>rest.
     bindE (upstream_for px (rq_arm rq) st) (\<lambda>up. Inr (rest, up))))"

definition target_of :: "str \<Rightarrow> str \<Rightarrow> str" where
  "target_of base rest = (if rest = [] then base else base @ [47] @ rest)"

definition forward :: "outside \<Rightarrow> settings \<Rightarrow> request \<Rightarrow> reply res" where
  "forward px st rq =
     (case check_request px st rq of
        Inl (Denied msg status) \<Rightarrow> Inr (Refused status (error_type status) msg)
      | Inl e \<Rightarrow> Inl e
      | Inr (rest, up) \<Rightarrow>
          Inr (Forward
            \<lparr>ob_method = rq_method rq, ob_target = target_of (us_base up) rest, ob_query = rq_query rq,
             ob_headers = outbound_headers up (rq_headers rq), ob_body = rq_body rq\<rparr>))"

definition response_headers :: "(str \<times> str) list \<Rightarrow> (str, str) dict" where
  "response_headers hs = without DROP_RESPONSE hs"

definition healthz :: "settings \<Rightarrow> str list" where
  "healthz st =
     (if serves_account st then [lit ''account''] else []) @
     (if text_of (se_review_base_url st) \<noteq> [] then [lit ''endpoint''] else [])"

text \<open>\<open>verify\<close>: the status and, for a refusal, the detail.\<close>

definition verify :: "settings \<Rightarrow> (str \<times> str) list \<Rightarrow> (nat \<times> str) res" where
  "verify st hs =
     (case authorize (header_of hs (lit ''authorization'')) (se_token st) of
        Inl (Denied msg status) \<Rightarrow> Inr (status, msg)
      | Inl e \<Rightarrow> Inl e
      | Inr _ \<Rightarrow> Inr (200, []))"

text \<open>The check of \<open>main\<close> before it serves.\<close>

definition boot :: "outside \<Rightarrow> settings \<Rightarrow> unit res" where
  "boot px st =
     (case se_credentials st of
        None \<Rightarrow> Inr ()
      | Some path \<Rightarrow>
          (case account_bearer px path of
             Inl (Denied msg status) \<Rightarrow> Inl SystemExit
           | Inl e \<Rightarrow> Inl e
           | Inr t \<Rightarrow> Inr ()))"

section \<open>What is forwarded\<close>

lemma authorize_Inr: "authorize header expected = Inr u \<Longrightarrow> offered_token header = expected"
  by (auto simp: authorize_def compare_digest_def split: if_splits)

text \<open>Below a listed path, segment by segment.\<close>

definition under :: "str list \<Rightarrow> str \<Rightarrow> bool" where
  "under allowed rest \<longleftrightarrow>
     lit ''..'' \<notin> set (split_on 47 rest) \<and>
     (\<exists>p \<in> set allowed. rest = p \<or> startswith rest (p @ [47]))"

lemma allow_path_Inr: "allow_path path allowed = Inr rest \<longleftrightarrow> rest = strip_p is_slash path \<and> under allowed rest"
  by (auto simp: allow_path_def Let_def under_def)

lemma foldl_dset_subset:
  "set (foldl (\<lambda>d h. dset (fst h) (snd h) d) d hs) \<subseteq> set d \<union> set hs"
proof (induction hs arbitrary: d)
  case (Cons h hs)
  have "set (dset k v d) \<subseteq> insert (k, v) (set d)" for k v and d :: "('a, 'b) dict"
    by (induction d) auto
  from Cons [of "dset (fst h) (snd h) d"] this [of "fst h" "snd h" d] show ?case by auto
qed simp

lemma without_mem: "h \<in> set (without drops hs) \<Longrightarrow> h \<in> set hs \<and> lower (fst h) \<notin> set drops"
  using foldl_dset_subset [of "[]" "filter (\<lambda>h. lower (fst h) \<notin> set drops) hs"]
  by (auto simp: without_def)

definition credential_header :: "str \<times> str \<Rightarrow> bool" where
  "credential_header h \<longleftrightarrow> lower (fst h) = lit ''authorization'' \<or> lower (fst h) = lit ''x-api-key''"

lemma lower_beta: "lower BETA = lit ''anthropic-beta''"
  by (simp add: BETA_def lit_def lower_def lower_cp_def)

lemma outbound_credentials:
  assumes "h \<in> set (outbound_headers up hs)" "credential_header h"
  shows "h \<in> set (us_auth up)"
proof -
  let ?d = "foldl (\<lambda>d h. dset (fst h) (snd h) d) (without DROP_REQUEST hs) (us_auth up)"
  have drop: "g \<notin> set (without DROP_REQUEST hs)" if "credential_header g" for g
    using that without_mem [of g DROP_REQUEST hs]
    by (auto simp: credential_header_def DROP_REQUEST_def)
  have d: "h \<in> set ?d \<Longrightarrow> h \<in> set (us_auth up)"
    using foldl_dset_subset [of "without DROP_REQUEST hs" "us_auth up"] drop [OF assms(2)] by auto
  have beta: "fst h \<noteq> BETA"
    using assms(2) lower_beta by (auto simp: credential_header_def)
  have "h \<in> set (dset BETA v e) \<Longrightarrow> h \<in> set e" for v e
    using beta by (induction e) (auto split: if_splits)
  with assms(1) d show ?thesis by (auto simp: outbound_headers_def Let_def split: option.splits)
qed

text \<open>
  C28: a request leaves the proxy only with the fleet's token on it, to a path at or below one
  that is listed and with no step up in it, and the only credentials on it are the ones this
  proxy holds for that arm: nothing a reviewer sends as a credential reaches the upstream.
\<close>

theorem forwarded_is_authorized:
  assumes "forward px st rq = Inr (Forward ob)"
  shows "offered_token (header_of (rq_headers rq) (lit ''authorization'')) = se_token st \<and>
    (\<exists>up rest. upstream_for px (rq_arm rq) st = Inr up \<and> under (se_paths st) rest \<and>
       ob_target ob = target_of (us_base up) rest \<and>
       (\<forall>h \<in> set (ob_headers ob). credential_header h \<longrightarrow> h \<in> set (us_auth up)))"
proof -
  from assms obtain rest up where c: "check_request px st rq = Inr (rest, up)"
    and ob: "ob_target ob = target_of (us_base up) rest" "ob_headers ob = outbound_headers up (rq_headers rq)"
    by (auto simp: forward_def split: sum.splits exn.splits)
  from c have "offered_token (header_of (rq_headers rq) (lit ''authorization'')) = se_token st"
    "under (se_paths st) rest" "upstream_for px (rq_arm rq) st = Inr up"
    by (auto simp: check_request_def bindE_Inr_iff allow_path_Inr dest: authorize_Inr)
  with ob outbound_credentials show ?thesis by auto
qed

section \<open>Settings that were read\<close>

text \<open>
  Settings read from the environment are usable: there is a token, something to forward to,
  and a list of paths, each of them clean, so that a path below one of them can be matched
  after its own slashes are stripped.
\<close>

theorem settings_wellformed:
  assumes "from_env e = Inr st"
  shows "se_token st \<noteq> [] \<and> strip (se_token st) = se_token st \<and> se_paths st \<noteq> [] \<and>
    (\<forall>p \<in> set (se_paths st). p \<noteq> [] \<and> strip_p is_slash p = p) \<and>
    (serves_account st \<or> strip (env_get e ''REVIEW_BASE_URL'') \<noteq> [])"
proof -
  from assms obtain port where st: "se_token st = strip (env_get e ''MODEL_PROXY_TOKEN'')" "se_token st \<noteq> []"
    "se_paths st = paths_of (env_get e ''MODEL_PROXY_PATHS'')"
    "se_credentials st = or_none (strip (env_get e ''CLAUDE_CREDENTIALS''))"
    "se_api_key st = or_none (strip (env_get e ''ANTHROPIC_API_KEY''))"
    "strip (env_get e ''CLAUDE_CREDENTIALS'') \<noteq> [] \<or> strip (env_get e ''ANTHROPIC_API_KEY'') \<noteq> [] \<or>
     strip (env_get e ''REVIEW_BASE_URL'') \<noteq> []"
    by (auto simp: from_env_def Let_def split: if_splits option.splits)
  have d: "p \<noteq> [] \<and> strip_p is_slash p = p" if "p \<in> set DEFAULT_PATHS" for p
    using that by (auto simp: DEFAULT_PATHS_def lit_def is_slash_def intro!: strip_p_id)
  have "se_paths st \<noteq> [] \<and> (\<forall>p \<in> set (se_paths st). p \<noteq> [] \<and> strip_p is_slash p = p)"
  proof (cases "se_paths st = DEFAULT_PATHS")
    case True
    have "DEFAULT_PATHS \<noteq> []" by (simp add: DEFAULT_PATHS_def)
    with True d show ?thesis by simp
  next
    case False
    then show ?thesis unfolding st(3) by (auto simp: paths_of_def Let_def split: if_splits)
  qed
  moreover have "serves_account st \<or> strip (env_get e ''REVIEW_BASE_URL'') \<noteq> []"
    using st(4-6) by (auto simp: serves_account_def or_none_def)
  ultimately show ?thesis using st(1,2) by simp
qed

section \<open>The beta flags\<close>

definition clean_flag :: "str \<Rightarrow> bool" where
  "clean_flag f \<longleftrightarrow> f \<noteq> [] \<and> 44 \<notin> set f \<and> \<not> is_space (hd f) \<and> \<not> is_space (last f)"

lemma clean_strip: "clean_flag f \<Longrightarrow> strip f = f" "clean_flag f \<Longrightarrow> lstrip f = f" "clean_flag f \<Longrightarrow> rstrip f = f"
  by (simp_all add: clean_flag_def strip_p_id lstrip_p_id rstrip_p_id)

lemma last_lstrip: "lstrip_p P s \<noteq> [] \<Longrightarrow> last (lstrip_p P s) = last s"
  unfolding lstrip_p_def by (metis last_appendR takeWhile_dropWhile_id)

lemma join_nonempty: "ws \<noteq> [] \<Longrightarrow> last ws \<noteq> [] \<Longrightarrow> join sep ws \<noteq> []"
proof (induction ws)
  case (Cons w ws)
  then show ?case by (cases ws) simp_all
qed simp

lemma last_join: "ws \<noteq> [] \<Longrightarrow> last ws \<noteq> [] \<Longrightarrow> last (join sep ws) = last (last ws)"
proof (induction ws)
  case (Cons w ws)
  with join_nonempty [of ws sep] show ?case by (cases ws) simp_all
qed simp

lemma comma_parts_clean:
  assumes "qs \<noteq> []" "\<And>q. q \<in> set qs \<Longrightarrow> 44 \<notin> set q" "last qs \<noteq> [] \<Longrightarrow> \<not> is_space (last (last qs))"
    and "f \<in> set (comma_parts qs)" "f \<noteq> []"
  shows "clean_flag f"
  using assms
proof (induction qs rule: comma_parts.induct)
  case (2 q)
  then have f: "f = lstrip q" by simp
  with 2 have "q \<noteq> []" by (auto simp: lstrip_p_def)
  with 2 f lstrip_p_head [of is_space q] last_lstrip [of is_space q] set_lstrip_p [of is_space q]
  show ?case by (auto simp: clean_flag_def)
next
  case (3 q r rs)
  show ?case
  proof (cases "f = strip q")
    case True
    with 3 strip_p_ends [of is_space q] set_strip_p [of is_space q] show ?thesis by (auto simp: clean_flag_def)
  next
    case False
    with 3 show ?thesis by simp
  qed
qed simp

lemma flags_clean:
  assumes "strip s = s" "f \<in> set (flags_of s)" shows "clean_flag f"
proof -
  obtain p ps where ps: "split_on 44 s = p # ps" by (meson neq_Nil_conv split_on_nonempty)
  have no: "44 \<notin> set q" if "q \<in> set (p # ps)" for q using split_on_no_sep [of q 44 s] that ps by simp
  have f: "f \<noteq> []" using assms(2) by (simp add: flags_of_def)
  have s: "s = join [44] (p # ps)" using join_split_on [of 44 s] ps by simp
  have ends: "s \<noteq> [] \<Longrightarrow> \<not> is_space (hd s) \<and> \<not> is_space (last s)"
    using strip_p_ends [of is_space s] assms(1) by simp
  show ?thesis
  proof (cases ps)
    case Nil
    with ps s assms(2) f have "f = s" by (auto simp: flags_of_def split: if_splits)
    with f ends no [of p] s Nil show ?thesis by (simp add: clean_flag_def)
  next
    case (Cons q qs)
    have "s \<noteq> []" using s Cons by simp
    from assms(2) ps Cons have "f = rstrip p \<or> f \<in> set (comma_parts ps)" by (auto simp: flags_of_def split: if_splits)
    then show ?thesis
    proof
      assume r: "f = rstrip p"
      with f have "p \<noteq> []" by auto
      with s Cons have "hd s = hd p" by simp
      with r f ends \<open>s \<noteq> []\<close> rstrip_p_hd [of is_space p] rstrip_p_last [of is_space p]
        set_rstrip_p [of is_space p] no [of p]
      show ?thesis by (auto simp: clean_flag_def)
    next
      assume c: "f \<in> set (comma_parts ps)"
      have l: "\<not> is_space (last (last ps))" if "last ps \<noteq> []"
        using last_join [of "p # ps" "[44]"] that Cons s ends \<open>s \<noteq> []\<close> by simp
      show ?thesis by (rule comma_parts_clean [OF _ _ l c f]) (use Cons no in auto)
    qed
  qed
qed

lemma flags_of_join:
  assumes "\<And>f. f \<in> set fs \<Longrightarrow> clean_flag f" shows "flags_of (join [44] fs) = fs"
proof (cases fs)
  case Nil
  then show ?thesis by (simp add: flags_of_def)
next
  case (Cons g gs)
  have split: "split_on 44 (join [44] fs) = fs"
    using assms Cons by (intro split_on_join) (auto simp: clean_flag_def)
  have keep: "filter (\<lambda>f. f \<noteq> []) hs = hs" if "\<And>f. f \<in> set hs \<Longrightarrow> clean_flag f" for hs
    using that by (auto simp: filter_id_conv clean_flag_def)
  have "comma_parts hs = hs" if "\<And>f. f \<in> set hs \<Longrightarrow> clean_flag f" for hs
    using that by (induction hs rule: comma_parts.induct) (simp_all add: clean_strip)
  then have "(case fs of [] \<Rightarrow> [] | [p] \<Rightarrow> [p] | p # ps \<Rightarrow> rstrip p # comma_parts ps) = fs"
    using assms Cons by (auto simp: clean_strip split: list.splits)
  with split keep [OF assms] show ?thesis by (simp add: flags_of_def)
qed

text \<open>
  Adding the beta flag loses none the CLI asked for: read back, the header lists the
  flags it had, in their order, and the wanted one once, in front if it was not there.
\<close>

theorem merge_beta_keeps_flags:
  assumes "strip existing = existing" "clean_flag flag"
  shows "flags_of (merge_beta existing flag) =
    (if flag \<in> set (flags_of existing) then flags_of existing else flag # flags_of existing)"
proof -
  have "clean_flag f" if "f \<in> set (flag # flags_of existing)" for f
    using that assms flags_clean by auto
  then show ?thesis by (auto simp: merge_beta_def Let_def intro!: flags_of_join)
qed

theorem merge_beta_keeps_flags_witness:
  "flags_of (merge_beta (lit ''a, b'') OAUTH_BETA) = OAUTH_BETA # flags_of (lit ''a, b'')"
proof -
  have "strip (lit ''a, b'') = lit ''a, b''" "clean_flag OAUTH_BETA"
    by (simp_all add: strip_p_id clean_flag_def OAUTH_BETA_def is_space_def str_eval lit_def)
  from merge_beta_keeps_flags [OF this] show ?thesis
    by (simp add: flags_of_def OAUTH_BETA_def lit_def lstrip_p_def rstrip_p_def)
qed

section \<open>Requests it cannot answer\<close>

text \<open>
  A token with a character outside ASCII is not refused with a 401: the comparison
  raises, the handler catches only its own error, and the request ends as a crash.
\<close>

theorem non_ascii_token_crashes:
  assumes "\<not> ascii_text (offered_token (header_of (rq_headers rq) (lit ''authorization'')))"
  shows "forward px st rq = Inl TypeError \<and> verify st (rq_headers rq) = Inl TypeError"
  using assms by (simp add: forward_def check_request_def verify_def authorize_def compare_digest_def)

text \<open>A segment of dots that is still encoded when it arrives is not one of dots.\<close>

lemma encoded_dots_pass:
  "allow_path (lit ''v1/messages/%2e%2e/%2e%2e/usage'') DEFAULT_PATHS = Inr (lit ''v1/messages/%2e%2e/%2e%2e/usage'')"
  by (simp add: allow_path_def Let_def DEFAULT_PATHS_def lit_def strip_p_def lstrip_p_def rstrip_p_def is_slash_def
      startswith_def)

section \<open>Witnesses\<close>

definition sample_outside :: outside where
  "sample_outside =
     \<lparr>px_file = Inl (OtherError []), px_nlink = None, px_now = 0, px_float = (\<lambda>j. Inl TypeError),
      px_rep = (\<lambda>j. []), px_show = (\<lambda>e. [])\<rparr>"

definition sample_settings :: settings where
  "sample_settings =
     \<lparr>se_token = lit ''t'', se_credentials = None, se_api_key = Some (lit ''sk''), se_review_base_url = None,
      se_review_api_token = None, se_host = [], se_port = 8080, se_paths = DEFAULT_PATHS\<rparr>"

definition sample_request :: "str \<Rightarrow> request" where
  "sample_request token =
     \<lparr>rq_method = lit ''POST'', rq_arm = lit ''account'', rq_path = lit ''v1/messages'', rq_query = [],
      rq_headers = [(lit ''authorization'', token), (lit ''x-api-key'', lit ''stolen'')], rq_body = []\<rparr>"

theorem forwarded_is_authorized_witness:
  "\<exists>ob. forward sample_outside sample_settings (sample_request (lit ''t'')) = Inr (Forward ob) \<and>
     (lit ''x-api-key'', lit ''stolen'') \<notin> set (ob_headers ob)"
proof -
  have a: "authorize (lit ''t'') (lit ''t'') = Inr ()"
    by (simp add: authorize_def offered_token_def compare_digest_def ascii_text_def lit_def lower_def lower_cp_def
        startswith_def)
  have p: "allow_path (lit ''v1/messages'') DEFAULT_PATHS = Inr (lit ''v1/messages'')"
    by (simp add: allow_path_def Let_def DEFAULT_PATHS_def lit_def strip_p_def lstrip_p_def rstrip_p_def is_slash_def)
  have u: "upstream_for sample_outside (lit ''account'') sample_settings
      = Inr \<lparr>us_base = ACCOUNT_UPSTREAM, us_auth = [(lit ''x-api-key'', lit ''sk'')], us_beta = None\<rparr>"
    by (simp add: upstream_for_def sample_settings_def)
  have h: "header_of (rq_headers (sample_request (lit ''t''))) (lit ''authorization'') = lit ''t''"
    by (simp add: header_of_def sample_request_def)
  obtain ob where ob: "forward sample_outside sample_settings (sample_request (lit ''t'')) = Inr (Forward ob)"
    using a p u h by (simp add: forward_def check_request_def sample_settings_def sample_request_def)
  have "credential_header (lit ''x-api-key'', lit ''stolen'')"
    by (simp add: credential_header_def lit_def lower_def lower_cp_def)
  moreover have "(lit ''x-api-key'', lit ''stolen'') \<notin> set [(lit ''x-api-key'', lit ''sk'')]"
    by (simp add: lit_def)
  ultimately have "(lit ''x-api-key'', lit ''stolen'') \<notin> set (ob_headers ob)"
    using forwarded_is_authorized [OF ob] u by (auto simp: sample_request_def)
  with ob show ?thesis by blast
qed

definition sample_environ :: environ where
  "sample_environ k =
     (if k = lit ''MODEL_PROXY_TOKEN'' then Some (lit ''t'') else if k = lit ''ANTHROPIC_API_KEY'' then Some (lit ''sk'') else None)"

theorem settings_wellformed_witness:
  "\<exists>st. from_env sample_environ = Inr st \<and> se_paths st \<noteq> [] \<and> se_token st \<noteq> []"
proof -
  have port: "int_of_str (lit ''8080'') = Some 8080"
  proof -
    have "show_nat 8080 = lit ''8080''" by (simp add: lit_def show_nat.simps)
    then show ?thesis using int_of_str_show_nat [of 8080] by simp
  qed
  have sk: "strip (lit ''sk'') = lit ''sk''" "strip (lit ''t'') = lit ''t''"
    by (simp_all add: strip_p_id is_space_def lit_def)
  obtain st where st: "from_env sample_environ = Inr st"
    by (simp add: from_env_def sample_environ_def env_get_def env_or_def port sk Let_def)
  from settings_wellformed [OF st] st show ?thesis by blast
qed

theorem non_ascii_token_crashes_witness:
  "forward sample_outside sample_settings (sample_request [233]) = Inl TypeError"
  using non_ascii_token_crashes [of "sample_request [233]"]
  by (simp add: header_of_def sample_request_def offered_token_def ascii_text_def lit_def lower_def lower_cp_def
      startswith_def)

end
