(* ===== verification/Regex.thy ===== *)
theory Regex
  imports Pystr
begin

text \<open>
  A backtracking matcher with the semantics of Python's \<open>re\<close> for the constructs the
  program's patterns use. A position is a pair of the text to its left, reversed, and the
  text to its right; a run returns every way to match, in the order the backtracking
  search would try them, so its first element is the match \<open>re\<close> reports. \<open>Bol\<close> and
  \<open>Eol\<close> are the anchors of \<open>re.M\<close>; repetition is over single characters, which is the
  only repetition the patterns contain.
\<close>

datatype re =
    Eps
  | Chr "nat \<Rightarrow> bool"
  | Seq re re
  | Alt re re
  | Greedy "nat \<Rightarrow> bool"
  | Lazy "nat \<Rightarrow> bool"
  | Bol
  | Eol
  | Cap re

type_synonym pos = "str \<times> str"
type_synonym match = "pos \<times> str list"

fun greedy :: "(nat \<Rightarrow> bool) \<Rightarrow> str \<Rightarrow> str \<Rightarrow> pos list" where
  "greedy p l [] = [(l, [])]"
| "greedy p l (c # x) = (if p c then greedy p (c # l) x @ [(l, c # x)] else [(l, c # x)])"

fun lazy :: "(nat \<Rightarrow> bool) \<Rightarrow> str \<Rightarrow> str \<Rightarrow> pos list" where
  "lazy p l [] = [(l, [])]"
| "lazy p l (c # x) = (l, c # x) # (if p c then lazy p (c # l) x else [])"

definition bol :: "str \<Rightarrow> bool" where
  "bol l \<longleftrightarrow> l = [] \<or> hd l = NL"

definition eol :: "str \<Rightarrow> bool" where
  "eol x \<longleftrightarrow> x = [] \<or> hd x = NL"

fun run :: "re \<Rightarrow> pos \<Rightarrow> match list" where
  "run Eps q = [(q, [])]"
| "run (Chr p) q = (case q of (l, x) \<Rightarrow>
     (case x of [] \<Rightarrow> [] | c # x' \<Rightarrow> if p c then [((c # l, x'), [])] else []))"
| "run (Seq r s) q =
     concat (map (\<lambda>m. map (\<lambda>m'. (fst m', snd m @ snd m')) (run s (fst m))) (run r q))"
| "run (Alt r s) q = run r q @ run s q"
| "run (Greedy p) q = map (\<lambda>q'. (q', [])) (greedy p (fst q) (snd q))"
| "run (Lazy p) q = map (\<lambda>q'. (q', [])) (lazy p (fst q) (snd q))"
| "run Bol q = (if bol (fst q) then [(q, [])] else [])"
| "run Eol q = (if eol (snd q) then [(q, [])] else [])"
| "run (Cap r) q =
     map (\<lambda>m. (fst m, take (length (snd q) - length (snd (fst m))) (snd q) # snd m)) (run r q)"

section \<open>Derived patterns\<close>

fun word :: "str \<Rightarrow> re" where
  "word [] = Eps"
| "word (c # s) = Seq (Chr (\<lambda>d. d = c)) (word s)"

definition Plus :: "(nat \<Rightarrow> bool) \<Rightarrow> re" where
  "Plus p = Seq (Chr p) (Greedy p)"

definition LazyPlus :: "(nat \<Rightarrow> bool) \<Rightarrow> re" where
  "LazyPlus p = Seq (Chr p) (Lazy p)"

definition Opt :: "re \<Rightarrow> re" where
  "Opt r = Alt r Eps"

fun seqs :: "re list \<Rightarrow> re" where
  "seqs [] = Eps"
| "seqs [r] = r"
| "seqs (r # rs) = Seq r (seqs rs)"

text \<open>\<open>.\<close> without \<open>re.S\<close>.\<close>

definition not_nl :: "nat \<Rightarrow> bool" where
  "not_nl c \<longleftrightarrow> c \<noteq> NL"

section \<open>match, search, findall\<close>

definition re_match :: "re \<Rightarrow> str \<Rightarrow> match option" where
  "re_match r s = (case run r ([], s) of [] \<Rightarrow> None | m # _ \<Rightarrow> Some m)"

fun search_from :: "re \<Rightarrow> str \<Rightarrow> str \<Rightarrow> match option" where
  "search_from r l [] = (case run r (l, []) of [] \<Rightarrow> None | m # _ \<Rightarrow> Some m)"
| "search_from r l (c # x) =
     (case run r (l, c # x) of [] \<Rightarrow> search_from r (c # l) x | m # _ \<Rightarrow> Some m)"

definition re_search :: "re \<Rightarrow> str \<Rightarrow> bool" where
  "re_search r s \<longleftrightarrow> search_from r [] s \<noteq> None"

function findall_from :: "re \<Rightarrow> str \<Rightarrow> str \<Rightarrow> str list list" where
  "findall_from r l x =
     (case run r (l, x) of
        [] \<Rightarrow> (case x of [] \<Rightarrow> [] | c # y \<Rightarrow> findall_from r (c # l) y)
      | m # _ \<Rightarrow>
          snd m #
          (if length (snd (fst m)) < length x then findall_from r (fst (fst m)) (snd (fst m))
           else (case x of [] \<Rightarrow> [] | c # y \<Rightarrow> findall_from r (c # l) y)))"
  by pat_completeness auto
termination
  by (relation "measure (\<lambda>(r, l, x). length x)") auto

declare findall_from.simps [simp del]

text \<open>The captured groups of every match, left to right, without overlap.\<close>

definition findall :: "re \<Rightarrow> str \<Rightarrow> str list list" where
  "findall r s = findall_from r [] s"

section \<open>Facts about runs\<close>

lemma run_word:
  "run (word s) (l, x) = (if startswith x s then [((rev s @ l, drop (length s) x), [])] else [])"
proof (induction s arbitrary: l x)
  case (Cons c s)
  then show ?case by (cases x) (auto simp: startswith_def)
qed simp

lemma greedy_splits:
  "q \<in> set (greedy p l x) \<Longrightarrow> \<exists>w. x = w @ snd q \<and> fst q = rev w @ l \<and> (\<forall>c \<in> set w. p c)"
proof (induction x arbitrary: l)
  case (Cons c x)
  show ?case
  proof (cases "p c \<and> q \<in> set (greedy p (c # l) x)")
    case True
    with Cons.IH obtain w where
      "x = w @ snd q \<and> fst q = rev w @ c # l \<and> (\<forall>d \<in> set w. p d)" by blast
    with True have "c # x = (c # w) @ snd q \<and> fst q = rev (c # w) @ l \<and> (\<forall>d \<in> set (c # w). p d)"
      by simp
    then show ?thesis by blast
  next
    case False
    with Cons.prems show ?thesis by (auto split: if_splits)
  qed
qed simp

lemma lazy_splits:
  "q \<in> set (lazy p l x) \<Longrightarrow> \<exists>w. x = w @ snd q \<and> fst q = rev w @ l \<and> (\<forall>c \<in> set w. p c)"
proof (induction x arbitrary: l)
  case (Cons c x)
  show ?case
  proof (cases "p c \<and> q \<in> set (lazy p (c # l) x)")
    case True
    with Cons.IH obtain w where
      "x = w @ snd q \<and> fst q = rev w @ c # l \<and> (\<forall>d \<in> set w. p d)" by blast
    with True have "c # x = (c # w) @ snd q \<and> fst q = rev (c # w) @ l \<and> (\<forall>d \<in> set (c # w). p d)"
      by simp
    then show ?thesis by blast
  next
    case False
    with Cons.prems show ?thesis by (auto split: if_splits)
  qed
qed simp

text \<open>Every match consumes a piece of the text to the right, and nothing else.\<close>

lemma run_consumes: "m \<in> set (run r (l, x)) \<Longrightarrow> \<exists>w. x = w @ snd (fst m) \<and> fst (fst m) = rev w @ l"
proof (induction r arbitrary: l x m)
  case (Chr p)
  then show ?case by (auto split: list.splits if_splits)
next
  case (Seq r s)
  from Seq.prems obtain m1 m2 where
    1: "m1 \<in> set (run r (l, x))" and 2: "m2 \<in> set (run s (fst m1))" and "fst m = fst m2" by auto
  from Seq.IH(1) [OF 1] obtain w1 where w1: "x = w1 @ snd (fst m1)" "fst (fst m1) = rev w1 @ l" by blast
  from Seq.IH(2) [of m2 "fst (fst m1)" "snd (fst m1)"] 2 obtain w2 where
    "snd (fst m1) = w2 @ snd (fst m2)" "fst (fst m2) = rev w2 @ fst (fst m1)" by auto
  with w1 \<open>fst m = fst m2\<close> have "x = (w1 @ w2) @ snd (fst m) \<and> fst (fst m) = rev (w1 @ w2) @ l"
    by simp
  then show ?case by blast
next
  case (Greedy p)
  then show ?case by (auto dest: greedy_splits)
next
  case (Lazy p)
  then show ?case by (auto dest: lazy_splits)
next
  case (Cap r)
  then show ?case by auto
qed (auto split: if_splits)

lemma run_seq_Bol [simp]:
  "run (Seq Bol r) (l, x) = (if bol l then run r (l, x) else [])"
  by simp

lemma findall_from_no_match:
  "run r (l, x) = [] \<Longrightarrow>
   findall_from r l x = (case x of [] \<Rightarrow> [] | c # y \<Rightarrow> findall_from r (c # l) y)"
  by (subst findall_from.simps) simp

lemma findall_from_match:
  "run r (l, x) = m # ms \<Longrightarrow> length (snd (fst m)) < length x \<Longrightarrow>
   findall_from r l x = snd m # findall_from r (fst (fst m)) (snd (fst m))"
  by (subst findall_from.simps) simp

text \<open>A pattern that starts with \<open>^\<close> is only ever tried at the start of a line.\<close>

lemma findall_from_skip_line:
  assumes "\<And>l x. \<not> bol l \<Longrightarrow> run r (l, x) = []" and "\<not> bol l" and "NL \<notin> set w"
  shows "findall_from r l (w @ NL # y) = findall_from r (NL # rev w @ l) y"
    and "findall_from r l w = []"
proof -
  have "findall_from r l (w @ NL # y) = findall_from r (NL # rev w @ l) y \<and> findall_from r l w = []"
    using assms(2,3)
  proof (induction w arbitrary: l)
    case Nil
    then show ?case by (simp add: findall_from_no_match assms(1))
  next
    case (Cons c w)
    then have "\<not> bol (c # l)" by (simp add: bol_def)
    with Cons show ?case by (simp add: findall_from_no_match assms(1))
  qed
  then show "findall_from r l (w @ NL # y) = findall_from r (NL # rev w @ l) y"
    and "findall_from r l w = []" by simp_all
qed

text \<open>At the start of a line that does not match, the search goes on at the next line.\<close>

lemma findall_from_next_line:
  assumes anch: "\<And>l x. \<not> bol l \<Longrightarrow> run r (l, x) = []" and "NL \<notin> set w"
  shows "run r (l, w @ NL # y) = [] \<Longrightarrow>
         findall_from r l (w @ NL # y) = findall_from r (NL # rev w @ l) y"
    and "run r (l, w) = [] \<Longrightarrow> findall_from r l w = []"
  using assms(2) findall_from_skip_line [OF anch, where l = "hd w # l" and w = "tl w"]
  by (cases w; simp add: findall_from_no_match bol_def)+

section \<open>The first match\<close>

text \<open>
  The match the search settles on, when no step of it has to backtrack: each piece of the
  pattern takes its first choice and the rest still matches.
\<close>

definition first_run :: "re \<Rightarrow> pos \<Rightarrow> match option" where
  "first_run r q = (case run r q of [] \<Rightarrow> None | m # _ \<Rightarrow> Some m)"

lemma first_run_Some: "first_run r q = Some m \<longleftrightarrow> (\<exists>ms. run r q = m # ms)"
  by (auto simp: first_run_def split: list.splits)

lemma re_match_first: "re_match r s = first_run r ([], s)"
  by (simp add: re_match_def first_run_def)

lemma first_Seq:
  "first_run r q = Some m \<Longrightarrow> first_run s (fst m) = Some m' \<Longrightarrow>
   first_run (Seq r s) q = Some (fst m', snd m @ snd m')"
  by (auto simp: first_run_Some)

lemma first_Alt: "first_run r q = Some m \<Longrightarrow> first_run (Alt r s) q = Some m"
  by (auto simp: first_run_Some)

lemma first_word: "first_run (word w) (l, w @ x) = Some ((rev w @ l, x), [])"
  by (simp add: first_run_def run_word)

lemma greedy_first:
  "list_all p w \<Longrightarrow> x = [] \<or> \<not> p (hd x) \<Longrightarrow> \<exists>qs. greedy p l (w @ x) = (rev w @ l, x) # qs"
proof (induction w arbitrary: l)
  case Nil
  then show ?case by (cases x) auto
next
  case (Cons c w)
  then obtain qs where "greedy p (c # l) (w @ x) = (rev w @ c # l, x) # qs" by fastforce
  with Cons.prems show ?case by simp
qed

lemma first_Greedy:
  "list_all p w \<Longrightarrow> x = [] \<or> \<not> p (hd x) \<Longrightarrow> first_run (Greedy p) (l, w @ x) = Some ((rev w @ l, x), [])"
  using greedy_first [of p w x l] by (auto simp: first_run_Some)

lemma first_Plus:
  assumes "list_all p w" "w \<noteq> []" "x = [] \<or> \<not> p (hd x)"
  shows "first_run (Plus p) (l, w @ x) = Some ((rev w @ l, x), [])"
proof -
  from assms(2) obtain c v where w: "w = c # v" by (cases w) auto
  with assms(1) have "first_run (Chr p) (l, w @ x) = Some ((c # l, v @ x), [])"
    by (simp add: first_run_def)
  from first_Seq [OF this] show ?thesis
    using first_Greedy [of p v x "c # l"] assms w by (simp add: Plus_def)
qed

lemma first_Cap:
  "first_run r (l, w @ x) = Some ((l', x), gs) \<Longrightarrow>
   first_run (Cap r) (l, w @ x) = Some ((l', x), w # gs)"
  by (auto simp: first_run_Some)

section \<open>Patterns that stay on one line\<close>

text \<open>No character class of the pattern contains a line end, and it has no \<open>^\<close> of its own.\<close>

fun one_line_re :: "re \<Rightarrow> bool" where
  "one_line_re Eps = True"
| "one_line_re (Chr p) = (\<not> p NL)"
| "one_line_re (Seq r s) = (one_line_re r \<and> one_line_re s)"
| "one_line_re (Alt r s) = (one_line_re r \<and> one_line_re s)"
| "one_line_re (Greedy p) = (\<not> p NL)"
| "one_line_re (Lazy p) = (\<not> p NL)"
| "one_line_re Bol = False"
| "one_line_re Eol = True"
| "one_line_re (Cap r) = one_line_re r"

definition shift :: "str \<Rightarrow> str \<Rightarrow> match \<Rightarrow> match" where
  "shift l y m = ((fst (fst m) @ l, snd (fst m) @ y), snd m)"

lemma greedy_shift:
  "y = [] \<or> hd y = NL \<Longrightarrow> \<not> p NL \<Longrightarrow>
   greedy p (k @ l) (x @ y) = map (\<lambda>q. (fst q @ l, snd q @ y)) (greedy p k x)"
proof (induction x arbitrary: k)
  case Nil
  then show ?case by (cases y) auto
next
  case (Cons c x)
  from Cons.IH [of "c # k"] Cons.prems show ?case by simp
qed

lemma lazy_shift:
  "y = [] \<or> hd y = NL \<Longrightarrow> \<not> p NL \<Longrightarrow>
   lazy p (k @ l) (x @ y) = map (\<lambda>q. (fst q @ l, snd q @ y)) (lazy p k x)"
proof (induction x arbitrary: k)
  case Nil
  then show ?case by (cases y) auto
next
  case (Cons c x)
  from Cons.IH [of "c # k"] Cons.prems show ?case by simp
qed

lemma run_rest_length: "m \<in> set (run r (k, x)) \<Longrightarrow> length (snd (fst m)) \<le> length x"
  using run_consumes [of m r k x] by auto

text \<open>Such a pattern matches a line the same way wherever the line stands.\<close>

lemma run_shift:
  assumes "y = [] \<or> hd y = NL"
  shows "one_line_re r \<Longrightarrow> run r (k @ l, x @ y) = map (shift l y) (run r (k, x))"
proof (induction r arbitrary: k x)
  case Eps
  then show ?case by (simp add: shift_def)
next
  case (Chr p)
  with assms show ?case by (cases x; cases y) (auto simp: shift_def)
next
  case (Seq r s)
  have "run s (fst (shift l y m)) = map (shift l y) (run s (fst m))" for m
    using Seq.IH(2) [of "fst (fst m)" "snd (fst m)"] Seq.prems by (simp add: shift_def)
  with Seq.IH(1) [of k x] Seq.prems show ?case
    by (simp add: map_concat comp_def) (simp add: shift_def)
next
  case (Alt r s)
  then show ?case by simp
next
  case (Greedy p)
  with greedy_shift [OF assms, of p k l x] show ?case by (simp add: shift_def)
next
  case (Lazy p)
  with lazy_shift [OF assms, of p k l x] show ?case by (simp add: shift_def)
next
  case Bol
  then show ?case by simp
next
  case Eol
  with assms show ?case by (cases x) (auto simp: shift_def eol_def)
next
  case (Cap r)
  have len: "length (x @ y) - length (snd (fst (shift l y m))) = length x - length (snd (fst m))" for m
    by (simp add: shift_def)
  have "m \<in> set (run r (k, x)) \<Longrightarrow>
      take (length (x @ y) - length (snd (fst (shift l y m)))) (x @ y) =
      take (length x - length (snd (fst m))) x" for m
    unfolding len by simp
  with Cap show ?case by (simp add: shift_def)
qed

text \<open>The groups of the first match at the start of one line, if there is one.\<close>

definition line_groups :: "re \<Rightarrow> str \<Rightarrow> str list list" where
  "line_groups r w = (case run r ([], w) of [] \<Rightarrow> [] | m # _ \<Rightarrow> [snd m])"

text \<open>
  With \<open>^\<close> in front, and a match that never is empty, \<open>findall\<close> reads a text line by line.
\<close>

lemma findall_lines:
  assumes r: "one_line_re r" and ne: "\<And>m k x. m \<in> set (run r (k, x)) \<Longrightarrow> length (snd (fst m)) < length x"
  shows "bol l \<Longrightarrow> ls \<noteq> [] \<Longrightarrow> list_all (\<lambda>w. NL \<notin> set w) ls \<Longrightarrow>
         findall_from (Seq Bol r) l (join [NL] ls) = concat (map (line_groups r) ls)"
proof (induction ls arbitrary: l)
  case (Cons w ls)
  let ?r = "Seq Bol r"
  have anch: "\<not> bol l \<Longrightarrow> run ?r (l, x) = []" for l x by simp
  let ?y = "if ls = [] then [] else NL # join [NL] ls"
  have x: "join [NL] (w # ls) = w @ ?y" by (cases ls) simp_all
  have y: "?y = [] \<or> hd ?y = NL" by simp
  from Cons.prems have w: "NL \<notin> set w" by simp
  have run: "run ?r (l, w @ ?y) = map (shift l ?y) (run r ([], w))"
    using run_shift [OF y r, of "[]" l w] Cons.prems(1) by simp
  have rest: "findall_from ?r (NL # rev v @ k) (join [NL] ls) = concat (map (line_groups r) ls)"
    if "ls \<noteq> []" for v k
    using that Cons.IH [of "NL # rev v @ k"] Cons.prems(3) by (simp add: bol_def)
  show ?case
  proof (cases "run r ([], w)")
    case Nil
    then have none: "run ?r (l, w @ ?y) = []" using run by simp
    have "findall_from ?r l (w @ ?y) = concat (map (line_groups r) ls)"
      using findall_from_next_line [OF anch w, of l] none rest [of w l] by (cases "ls = []") simp_all
    moreover have "line_groups r w = []" using Nil by (simp add: line_groups_def)
    ultimately show ?thesis using x by simp
  next
    case (Cons m ms)
    then have m: "m \<in> set (run r ([], w))" by simp
    from run_consumes [OF m] obtain v where v: "w = v @ snd (fst m)" "fst (fst m) = rev v" by auto
    from ne [OF m] v have vne: "v \<noteq> []" by auto
    have "run ?r (l, w @ ?y) = shift l ?y m # map (shift l ?y) ms" using run Cons by simp
    from findall_from_match [OF this] ne [OF m] have
      1: "findall_from ?r l (w @ ?y) = snd m # findall_from ?r (rev v @ l) (snd (fst m) @ ?y)"
      by (simp add: shift_def v(2))
    obtain c v' where c: "rev v = c # v'" using vne by (cases "rev v") auto
    have "c \<in> set w" using c v(1) by (metis Un_iff list.set_intros(1) set_append set_rev)
    with w c have nb: "\<not> bol (rev v @ l)" by (auto simp: bol_def)
    have nr: "NL \<notin> set (snd (fst m))" using w v(1) by (metis Un_iff set_append)
    have "findall_from ?r (rev v @ l) (snd (fst m) @ ?y) = concat (map (line_groups r) ls)"
      using findall_from_skip_line [OF anch nb nr] rest [of "snd (fst m)" "rev v @ l"]
      by (cases "ls = []") simp_all
    moreover have "line_groups r w = [snd m]" using Cons by (simp add: line_groups_def)
    ultimately show ?thesis using 1 x by simp
  qed
qed simp

end
