(* ===== verification/Mcp_Pr.thy ===== *)
theory Mcp_Pr
  imports Config Regex Json
begin

text \<open>
  The fixer's one write (\<open>src/robbie_mcp/pr.py\<close>): a sidecar that turns a patch into a draft
  pull request, or refuses it. Git, the API of GitHub and the second reviewer are an
  environment; every command and request is a call on a trace. The properties: what a patch
  that is not refused looks like, that nothing is pushed for one that is, the place the token
  may stand, and a patch the checks do not see all of.
\<close>

section \<open>Limits\<close>

definition MAX_FILES :: nat where "MAX_FILES = 12"
definition MAX_LINES :: nat where "MAX_LINES = 400"
definition MAX_PATCH_BYTES :: nat where "MAX_PATCH_BYTES = 200000"

definition TEST_DIRS :: "str list" where
  "TEST_DIRS = map lit [''spec/'', ''test/'', ''tests/'', ''__tests__/'']"

definition OFF_LIMITS :: "str list" where
  "OFF_LIMITS =
     map lit [''.github/'', ''db/migrate/'', ''db/schema.rb'', ''db/structure.sql'',
       ''Gemfile'', ''Gemfile.lock'', ''package.json'', ''yarn.lock'', ''package-lock.json'',
       ''Dockerfile'', ''docker-compose.yml'', ''.env'', ''config/credentials'']"

section \<open>Paths\<close>

text \<open>\<open>PurePosixPath(p).as_posix()\<close>: empty and \<open>.\<close> parts go, and exactly two leading slashes stay.\<close>

definition posix_root :: "str \<Rightarrow> str" where
  "posix_root p =
     (if startswith p (lit ''//'') \<and> \<not> startswith p (lit ''///'') then lit ''//''
      else if startswith p (lit ''/'') then lit ''/'' else [])"

definition as_posix :: "str \<Rightarrow> str" where
  "as_posix p =
     (let s = posix_root p @ join [47] (filter (\<lambda>w. w \<noteq> [] \<and> w \<noteq> lit ''.'') (split_on 47 p))
      in if s = [] then lit ''.'' else s)"

section \<open>Settings\<close>

record pr_settings =
  ps_token :: str
  ps_repo :: str
  ps_mirror :: str
  ps_base :: str
  ps_label :: str
  ps_branch_prefix :: str
  ps_author_name :: str
  ps_author_email :: str
  ps_review_socket :: "str option"
  ps_review_dir :: "str option"
  ps_review_timeout_s :: int
  ps_host :: str
  ps_port :: int
  ps_allowed_hosts :: "str list"

definition path_or_none :: "environ \<Rightarrow> string \<Rightarrow> str option" where
  "path_or_none e n = (let raw = strip (env_get e n) in if raw \<noteq> [] then Some (as_posix raw) else None)"

text \<open>\<open>s or default\<close>, and \<open>os.environ.get(n, d)\<close>.\<close>

definition or_else :: "str \<Rightarrow> str \<Rightarrow> str" where
  "or_else s d = (if s \<noteq> [] then s else d)"

definition env_default :: "environ \<Rightarrow> string \<Rightarrow> string \<Rightarrow> str" where
  "env_default e n d = (case e (lit n) of None \<Rightarrow> lit d | Some v \<Rightarrow> v)"

definition hosts_of :: "str \<Rightarrow> str list" where
  "hosts_of raw =
     (if raw \<noteq> [] then filter (\<lambda>h. h \<noteq> []) (map strip (split_on 44 raw))
      else map lit [''mcp-pr:8080'', ''mcp-pr'', ''localhost:8080''])"

definition pr_from_env :: "environ \<Rightarrow> pr_settings res" where
  "pr_from_env e =
     (let token = strip (env_get e ''FIXER_GH_TOKEN'');
          repo = strip (env_get e ''FIXER_REPO'');
          mirror = strip (env_get e ''FIXER_MIRROR'')
      in if token = [] \<or> repo = [] \<or> mirror = [] then Inl SystemExit
         else case int_of_str (env_default e ''FIXER_REVIEW_TIMEOUT_S'' ''1500'') of
           None \<Rightarrow> Inl ValueError
         | Some limit \<Rightarrow>
             (case int_of_str (env_default e ''MCP_PORT'' ''8080'') of
                None \<Rightarrow> Inl ValueError
              | Some port \<Rightarrow>
                  Inr \<lparr>ps_token = token, ps_repo = repo, ps_mirror = as_posix mirror,
                       ps_base = or_else (strip (env_default e ''FIXER_BASE'' ''main'')) (lit ''main''),
                       ps_label = or_else (strip (env_default e ''FIXER_LABEL'' ''robbie-fix'')) (lit ''robbie-fix''),
                       ps_branch_prefix = (lit ''robbie/issue-''),
                       ps_author_name = or_else (strip (env_get e ''FIXER_AUTHOR'')) (lit ''robbie-fixer''),
                       ps_author_email =
                         or_else (strip (env_get e ''FIXER_AUTHOR_EMAIL'')) (lit ''robbie-fixer@noreply.invalid''),
                       ps_review_socket = path_or_none e ''FIXER_REVIEWQ_SOCKET'',
                       ps_review_dir = path_or_none e ''FIXER_REVIEW_DIR'',
                       ps_review_timeout_s = limit,
                       ps_host = env_default e ''MCP_HOST'' ''0.0.0.0'', ps_port = port,
                       ps_allowed_hosts = hosts_of (strip (env_get e ''MCP_ALLOWED_HOSTS''))\<rparr>))"

section \<open>What a patch names\<close>

text \<open>The header \<open>diff --git "?a/(.+?)"? "?b/(.+?)"?$\<close>, after \<open>^\<close>.\<close>

definition QUOTE :: re where
  "QUOTE = Opt (Chr (\<lambda>c. c = 34))"

definition HEADER :: re where
  "HEADER =
     seqs [word (lit ''diff --git ''), QUOTE, word (lit ''a/''), Cap (LazyPlus not_nl), QUOTE, word (lit '' ''),
       QUOTE, word (lit ''b/''), Cap (LazyPlus not_nl), QUOTE, Eol]"

definition DIFF_LINE :: re where
  "DIFF_LINE = Seq Bol HEADER"

definition changed_paths :: "str \<Rightarrow> str list" where
  "changed_paths patch =
     uniq_acc [] (map as_posix (filter (\<lambda>p. p \<noteq> lit ''/dev/null'') (concat (findall DIFF_LINE patch))))"

definition counted :: "str \<Rightarrow> bool" where
  "counted line \<longleftrightarrow>
     (startswith line (lit ''+'') \<or> startswith line (lit ''-'')) \<and>
     \<not> (startswith line (lit ''+++'') \<or> startswith line (lit ''---''))"

definition changed_lines :: "str \<Rightarrow> nat" where
  "changed_lines patch = length (filter counted (splitlines patch))"

section \<open>What is refused\<close>

definition path_fault :: "str \<Rightarrow> str option" where
  "path_fault path =
     (if startswith path (lit ''../'') \<or> startswith path (lit ''/'') then Some (path @ lit '' is outside the repository'')
      else if \<exists>banned \<in> set OFF_LIMITS. path = banned \<or> startswith path banned
      then Some (path @ lit '' is off limits to an automated fix'')
      else None)"

fun first_fault :: "str list \<Rightarrow> str option" where
  "first_fault [] = None"
| "first_fault (p # ps) = (case path_fault p of None \<Rightarrow> first_fault ps | Some why \<Rightarrow> Some why)"

definition has_test :: "str list \<Rightarrow> bool" where
  "has_test paths \<longleftrightarrow> (\<exists>path \<in> set paths. \<exists>part \<in> set TEST_DIRS. contains path part)"

text \<open>The checks of \<open>refuse\<close> from the paths on.\<close>

definition refuse_paths :: "str \<Rightarrow> str option" where
  "refuse_paths patch =
     (let paths = changed_paths patch in
      if paths = [] then Some (lit ''no `diff --git` header in the patch, so nothing can be read from it'')
      else case first_fault paths of
        Some why \<Rightarrow> Some why
      | None \<Rightarrow>
          if \<not> has_test paths then Some (lit ''the patch changes no test, so CI cannot show the bug was fixed'')
          else if MAX_FILES < length paths
          then Some (lit ''the patch touches '' @ show_nat (length paths) @ lit '' files, over the limit of ''
       @ show_nat MAX_FILES)
          else if MAX_LINES < changed_lines patch
          then Some (lit ''the patch changes '' @ show_nat (changed_lines patch) @ lit '' lines, over the limit of ''
       @ show_nat MAX_LINES)
          else None)"

definition refuse :: "str \<Rightarrow> str option res" where
  "refuse patch =
     (if strip patch = [] then Inr (Some (lit ''the patch is empty''))
      else if \<not> encodable patch then Inl ValueError
      else if MAX_PATCH_BYTES < length (utf8 patch)
      then Inr (Some (lit ''the patch is over '' @ show_nat MAX_PATCH_BYTES @ lit '' bytes''))
      else Inr (refuse_paths patch))"

definition clean_title :: "str \<Rightarrow> int \<Rightarrow> str" where
  "clean_title raw issue =
     (let title = strip (take 120 (join [32] (split_ws raw)))
      in if title \<noteq> [] then title else (lit ''fix: issue #'' @ show_int issue))"

section \<open>Calls\<close>

text \<open>
  A call outside: git with its arguments, its directory and the variables added to its
  environment; a file written; a request to the API of GitHub, a \<open>POST\<close> with its fields; a
  directory made or removed; a tool of the second reviewer.
\<close>

datatype call =
    Git "str list" str "(str \<times> str) list"
  | Write_file str str
  | Api_get str
  | Api_post str "(str \<times> json) list"
  | Mkdtemp str "str option"
  | Rmtree str
  | Reviewq str "(str \<times> json) list"

text \<open>
  The exceptions this server tells apart: \<open>GitError\<close>, an \<open>OSError\<close> with its class,
  \<open>TimeoutError\<close>, \<open>RuntimeError\<close>, and any other.
\<close>

datatype fault =
    Git_error str
  | Os_error str str
  | Time_out
  | Runtime_error str
  | Raised exn

datatype git_end = Exited int str str | Late | Not_started str str

record pr_outside =
  po_git :: "call list \<Rightarrow> call \<Rightarrow> git_end"
  po_write :: "call list \<Rightarrow> call \<Rightarrow> fault option"
  po_http :: "call list \<Rightarrow> call \<Rightarrow> fault + int \<times> json res"
  po_temp :: "call list \<Rightarrow> call \<Rightarrow> fault + str"
  po_reviewq :: "call list \<Rightarrow> call \<Rightarrow> fault + bool \<times> (str \<times> json) list option \<times> str"
  po_rep :: "json \<Rightarrow> str"
  po_show :: "exn \<Rightarrow> str"
  po_class :: "exn \<Rightarrow> str"

type_synonym 'a act = "call list \<Rightarrow> (fault + 'a) \<times> call list"

definition retA :: "'a \<Rightarrow> 'a act" where
  "retA x = (\<lambda>tr. (Inr x, tr))"

definition failA :: "fault \<Rightarrow> 'a act" where
  "failA e = (\<lambda>tr. (Inl e, tr))"

definition bindA :: "'a act \<Rightarrow> ('a \<Rightarrow> 'b act) \<Rightarrow> 'b act" where
  "bindA m f = (\<lambda>tr. case m tr of (Inl e, tr') \<Rightarrow> (Inl e, tr') | (Inr x, tr') \<Rightarrow> f x tr')"

definition catchA :: "'a act \<Rightarrow> (fault \<Rightarrow> 'a act) \<Rightarrow> 'a act" where
  "catchA m h = (\<lambda>tr. case m tr of (Inl e, tr') \<Rightarrow> h e tr' | (Inr x, tr') \<Rightarrow> (Inr x, tr'))"

text \<open>\<open>try: m finally: c\<close>, for a \<open>c\<close> that raises nothing.\<close>

definition finallyA :: "'a act \<Rightarrow> call \<Rightarrow> 'a act" where
  "finallyA m c = (\<lambda>tr. case m tr of (r, tr') \<Rightarrow> (r, tr' @ [c]))"

definition callA :: "(call list \<Rightarrow> call \<Rightarrow> fault + 'a) \<Rightarrow> call \<Rightarrow> 'a act" where
  "callA f c = (\<lambda>tr. (f tr c, tr @ [c]))"

definition liftA :: "'a res \<Rightarrow> 'a act" where
  "liftA r = (case r of Inl e \<Rightarrow> failA (Raised e) | Inr x \<Rightarrow> retA x)"

text \<open>\<open>str(ex)\<close> and \<open>type(ex).__name__\<close>\<close>

fun fault_text :: "pr_outside \<Rightarrow> fault \<Rightarrow> str" where
  "fault_text po (Git_error s) = s"
| "fault_text po (Os_error k s) = s"
| "fault_text po Time_out = []"
| "fault_text po (Runtime_error s) = s"
| "fault_text po (Raised e) = po_show po e"

fun fault_class :: "pr_outside \<Rightarrow> fault \<Rightarrow> str" where
  "fault_class po (Git_error s) = (lit ''GitError'')"
| "fault_class po (Os_error k s) = k"
| "fault_class po Time_out = (lit ''TimeoutError'')"
| "fault_class po (Runtime_error s) = (lit ''RuntimeError'')"
| "fault_class po (Raised e) = po_class po e"

definition git_result :: "str list \<Rightarrow> git_end \<Rightarrow> fault + str" where
  "git_result args r =
     (case r of
        Exited rc out err \<Rightarrow>
          if rc \<noteq> 0 then Inl (Git_error (lit ''git '' @ hd args @ lit '': '' @ take 600 err)) else Inr out
      | Late \<Rightarrow> Inl Time_out
      | Not_started k s \<Rightarrow> Inl (Os_error k s))"

text \<open>\<open>_git\<close>\<close>

definition git :: "pr_outside \<Rightarrow> str list \<Rightarrow> str \<Rightarrow> (str \<times> str) list \<Rightarrow> unit act" where
  "git po args cwd vars =
     bindA (callA (\<lambda>tr c. git_result args (po_git po tr c)) (Git args cwd vars)) (\<lambda>_. retA ())"

definition write_patch :: "pr_outside \<Rightarrow> str \<Rightarrow> str \<Rightarrow> unit act" where
  "write_patch po work patch =
     callA (\<lambda>tr c. case po_write po tr c of None \<Rightarrow> Inr () | Some e \<Rightarrow> Inl e)
       (Write_file ((work @ lit ''/fix.patch'')) (if endswith patch [NL] then patch else patch @ [NL]))"

fun in_order :: "unit act list \<Rightarrow> unit act" where
  "in_order [] = retA ()"
| "in_order (m # ms) = bindA m (\<lambda>_. in_order ms)"

section \<open>The issue\<close>

text \<open>\<open>{lbl.get("name") for lbl in data.get("labels") or []}\<close>\<close>

definition label_names :: "json \<Rightarrow> json list res" where
  "label_names data =
     bindE (jget_list data (lit ''labels'')) (\<lambda>ls.
     bindE (jiter ls) (\<lambda>xs.
     mapE (\<lambda>x. bindE (jget x (lit ''name'')) (\<lambda>v. if hashable v then Inr v else Inl TypeError)) xs))"

definition guard_reply :: "pr_outside \<Rightarrow> pr_settings \<Rightarrow> int \<Rightarrow> json \<Rightarrow> str option res" where
  "guard_reply po ps issue data =
     bindE (jget data (lit ''state'')) (\<lambda>state.
     if state \<noteq> JStr (lit ''open'') then Inr (Some (lit ''issue #'' @ show_int issue @ lit '' is not open''))
     else
       bindE (label_names data) (\<lambda>labels.
       if JStr (ps_label ps) \<notin> set labels
       then Inr (Some (lit ''issue #'' @ show_int issue @ lit '' does not carry the '' @ po_rep po (JStr (ps_label ps))
       @ lit '' label, so it is not one an automated fix was asked for''))
       else Inr None))"

text \<open>\<open>_guard_issue\<close>\<close>

definition guard_issue :: "pr_outside \<Rightarrow> pr_settings \<Rightarrow> int \<Rightarrow> str option act" where
  "guard_issue po ps issue =
     bindA (callA (po_http po) (Api_get (lit ''/repos/'' @ ps_repo ps @ lit ''/issues/'' @ show_int issue))) (\<lambda>resp.
     if fst resp \<noteq> 200 then retA (Some (lit ''issue #'' @ show_int issue @ lit '' could not be read ('' @ show_int (fst resp)
       @ lit '')''))
     else bindA (liftA (snd resp)) (\<lambda>data. liftA (guard_reply po ps issue data)))"

section \<open>The pull request\<close>

definition CRED_HELPER :: str where
  "CRED_HELPER = (lit ''!f() { echo username=x-access-token; echo '' @ [34] @ lit ''password=$GIT_PASSWORD''
       @ [34] @ lit ''; }; f'')"

definition branch_of :: "pr_settings \<Rightarrow> int \<Rightarrow> str" where
  "branch_of ps issue = ps_branch_prefix ps @ show_int issue"

definition credentials :: "pr_settings \<Rightarrow> (str \<times> str) list" where
  "credentials ps = [(lit ''GIT_PASSWORD'', ps_token ps), (lit ''GIT_TERMINAL_PROMPT'', lit ''0'')]"

definition checkout_trunk :: "pr_outside \<Rightarrow> pr_settings \<Rightarrow> str \<Rightarrow> int \<Rightarrow> str \<Rightarrow> unit act" where
  "checkout_trunk po ps work issue patch =
     (let repo_dir = (work @ lit ''/repo'') in
      in_order
        [git po [lit ''clone'', lit ''--quiet'', lit ''--shared'', ps_mirror ps, repo_dir] work [],
         git po [lit ''remote'', lit ''set-url'', lit ''origin'', (lit ''https://github.com/'' @ ps_repo ps @ lit ''.git'')] repo_dir [],
         git po [lit ''config'', lit ''credential.helper'', CRED_HELPER] repo_dir [],
         git po [lit ''config'', lit ''user.name'', ps_author_name ps] repo_dir [],
         git po [lit ''config'', lit ''user.email'', ps_author_email ps] repo_dir [],
         git po [lit ''fetch'', lit ''--quiet'', lit ''origin'', ps_base ps] repo_dir (credentials ps),
         git po [lit ''checkout'', lit ''--quiet'', lit ''-b'', branch_of ps issue, lit ''FETCH_HEAD''] repo_dir [],
         write_patch po work patch])"

definition apply_patch :: "pr_outside \<Rightarrow> str \<Rightarrow> unit act" where
  "apply_patch po work =
     git po [lit ''apply'', lit ''--index'', lit ''--whitespace=nowarn'', (work @ lit ''/fix.patch'')] ((work @ lit ''/repo'')) []"

text \<open>\<open>except GitError as ex: ... the patch did not apply\<close>\<close>

definition unless_git_error :: "unit act \<Rightarrow> str option act" where
  "unless_git_error m =
     catchA (bindA m (\<lambda>_. retA None))
       (\<lambda>e. case e of Git_error s \<Rightarrow> retA (Some (lit ''the patch did not apply: '' @ s)) | _ \<Rightarrow> failA e)"

definition commit_and_push :: "pr_outside \<Rightarrow> pr_settings \<Rightarrow> str \<Rightarrow> int \<Rightarrow> str \<Rightarrow> unit act" where
  "commit_and_push po ps work issue title =
     (let repo_dir = (work @ lit ''/repo'') in
      in_order
        [git po [lit ''commit'', lit ''--quiet'', lit ''-m'', clean_title title issue] repo_dir [],
         git po [lit ''push'', lit ''--quiet'', lit ''origin'', (lit ''HEAD:refs/heads/'' @ branch_of ps issue)] repo_dir
           (credentials ps)])"

text \<open>\<open>except (GitError, OSError, TimeoutError)\<close>\<close>

fun reported :: "fault \<Rightarrow> bool" where
  "reported (Git_error s) = True"
| "reported (Os_error k s) = True"
| "reported Time_out = True"
| "reported _ = False"

text \<open>The \<open>try\<close> block.\<close>

definition push_steps :: "pr_outside \<Rightarrow> pr_settings \<Rightarrow> str \<Rightarrow> int \<Rightarrow> str \<Rightarrow> str \<Rightarrow> str option act" where
  "push_steps po ps work issue title patch =
     bindA (checkout_trunk po ps work issue patch) (\<lambda>_.
     bindA (unless_git_error (apply_patch po work)) (\<lambda>why.
     case why of
       Some s \<Rightarrow> retA (Some s)
     | None \<Rightarrow> bindA (commit_and_push po ps work issue title) (\<lambda>_. retA None)))"

definition push_fix :: "pr_outside \<Rightarrow> pr_settings \<Rightarrow> str \<Rightarrow> int \<Rightarrow> str \<Rightarrow> str \<Rightarrow> str option act" where
  "push_fix po ps work issue title patch =
     finallyA
       (catchA (push_steps po ps work issue title patch)
         (\<lambda>e. if reported e then retA (Some (take 600 (fault_text po e))) else failA e))
       (Rmtree work)"

datatype tool_reply =
    Error str
  | Opened json str nat nat
  | Reviewed "(str \<times> json) list"
  | Unavailable str

definition pull_fields :: "pr_settings \<Rightarrow> int \<Rightarrow> str \<Rightarrow> str \<Rightarrow> (str \<times> json) list" where
  "pull_fields ps issue title summary =
     [(lit ''title'', JStr (clean_title title issue)),
      (lit ''head'', JStr (branch_of ps issue)),
      (lit ''base'', JStr (ps_base ps)),
      (lit ''body'', JStr (lit ''Closes #'' @ show_int issue @ [NL, NL] @ strip summary @ [NL])),
      (lit ''draft'', JBool True)]"

definition open_draft :: "pr_outside \<Rightarrow> pr_settings \<Rightarrow> int \<Rightarrow> str \<Rightarrow> str \<Rightarrow> str \<Rightarrow> tool_reply act" where
  "open_draft po ps issue title summary patch =
     bindA (callA (po_http po) (Api_post (lit ''/repos/'' @ ps_repo ps @ lit ''/pulls'') (pull_fields ps issue title summary))) (\<lambda>created.
     if fst created \<noteq> 200 \<and> fst created \<noteq> 201
     then retA (Error (lit ''the branch is pushed but the pull request was refused ('' @ show_int (fst created)
       @ lit ''); a person can open it from '' @ branch_of ps issue))
     else
       bindA (liftA (bindE (snd created) (\<lambda>j. jget_or j (lit ''html_url'') (JStr [])))) (\<lambda>url.
       retA (Opened url (branch_of ps issue) (length (changed_paths patch)) (changed_lines patch))))"

definition open_branch :: "pr_outside \<Rightarrow> pr_settings \<Rightarrow> int \<Rightarrow> str \<Rightarrow> str \<Rightarrow> str \<Rightarrow> tool_reply act" where
  "open_branch po ps issue title summary patch =
     bindA (callA (po_http po) (Api_get (lit ''/repos/'' @ ps_repo ps @ lit ''/git/ref/heads/'' @ branch_of ps issue))) (\<lambda>exists.
     if fst exists = 200 then retA (Error (lit ''the branch '' @ branch_of ps issue @ lit '' already exists''))
     else
       bindA (callA (po_temp po) (Mkdtemp (lit ''robbie-fix-'') None)) (\<lambda>work.
       bindA (push_fix po ps work issue title patch) (\<lambda>why.
       case why of Some s \<Rightarrow> retA (Error s) | None \<Rightarrow> open_draft po ps issue title summary patch)))"

text \<open>The two checks both tools begin with.\<close>

definition if_allowed :: "pr_outside \<Rightarrow> pr_settings \<Rightarrow> int \<Rightarrow> str \<Rightarrow> tool_reply act \<Rightarrow> tool_reply act" where
  "if_allowed po ps issue patch go =
     bindA (liftA (refuse patch)) (\<lambda>r.
     case r of
       Some why \<Rightarrow> retA (Error why)
     | None \<Rightarrow>
         bindA (guard_issue po ps issue) (\<lambda>g.
         case g of Some why \<Rightarrow> retA (Error why) | None \<Rightarrow> go))"

definition open_pull_request :: "pr_outside \<Rightarrow> pr_settings \<Rightarrow> int \<Rightarrow> str \<Rightarrow> str \<Rightarrow> str \<Rightarrow> tool_reply act" where
  "open_pull_request po ps issue title summary patch =
     if_allowed po ps issue patch (open_branch po ps issue title summary patch)"

section \<open>The second opinion\<close>

definition REVIEW_POLL_S :: int where "REVIEW_POLL_S = 15"

definition has_review :: "pr_settings \<Rightarrow> bool" where
  "has_review ps \<longleftrightarrow> ps_review_socket ps \<noteq> None \<and> ps_review_dir ps \<noteq> None"

text \<open>\<open>_review_workspace\<close>\<close>

definition review_workspace :: "pr_outside \<Rightarrow> pr_settings \<Rightarrow> str \<Rightarrow> int \<Rightarrow> str \<Rightarrow> unit act" where
  "review_workspace po ps work issue patch =
     (let repo_dir = (work @ lit ''/repo'') in
      in_order
        [git po [lit ''clone'', lit ''--quiet'', lit ''--depth'', lit ''50'', lit ''--branch'', ps_base ps,
           (lit ''file://'' @ ps_mirror ps), repo_dir] work [],
         git po [lit ''checkout'', lit ''--quiet'', lit ''-b'', branch_of ps issue] repo_dir [],
         write_patch po work patch,
         apply_patch po work])"

text \<open>
  \<open>call\<close> of \<open>_ask_reviewq\<close>: whether the tool failed, its structured content, and \<open>str\<close> of its
  content come from outside.
\<close>

definition reviewq_data :: "pr_outside \<Rightarrow> str \<Rightarrow> bool \<times> (str \<times> json) list option \<times> str \<Rightarrow> fault + (str \<times> json) list" where
  "reviewq_data po name res =
     (let data = (case fst (snd res) of None \<Rightarrow> [] | Some d \<Rightarrow> d);
          err = dget_or data (lit ''error'') JNull
      in if fst res \<or> (dget data (lit ''error'') \<noteq> None \<and> \<not> truthy (dget_or data (lit ''state'') JNull))
         then Inl (Runtime_error
           ((name @ lit '': '' @ (if truthy err then py_str (po_rep po) err else snd (snd res)))))
         else Inr data)"

definition reviewq_call :: "pr_outside \<Rightarrow> str \<Rightarrow> (str \<times> json) list \<Rightarrow> (str \<times> json) list act" where
  "reviewq_call po name args =
     callA (\<lambda>tr c. case po_reviewq po tr c of Inl e \<Rightarrow> Inl e | Inr res \<Rightarrow> reviewq_data po name res) (Reviewq name args)"

definition field :: "(str \<times> json) list \<Rightarrow> string \<Rightarrow> json act" where
  "field d k = (case dget d (lit k) of None \<Rightarrow> failA (Raised KeyError) | Some v \<Rightarrow> retA v)"

text \<open>
  One round of the loop per poll. A round sleeps \<open>REVIEW_POLL_S\<close> seconds, so the deadline
  of \<open>asyncio.wait_for\<close> ends the loop after \<open>rounds\<close> of them at the latest; it may end it
  sooner, in a call that times out.
\<close>

fun await_review :: "pr_outside \<Rightarrow> json \<Rightarrow> nat \<Rightarrow> unit act" where
  "await_review po i 0 = failA Time_out"
| "await_review po i (Suc k) =
     bindA (reviewq_call po (lit ''review_status'') [(lit ''review_id'', i)]) (\<lambda>d.
     bindA (field d ''state'') (\<lambda>state.
     if state = JStr (lit ''queued'') \<or> state = JStr (lit ''running'') then await_review po i k
     else retA ()))"

definition rounds :: "int \<Rightarrow> nat" where
  "rounds limit = nat ((limit + (REVIEW_POLL_S - 1)) div REVIEW_POLL_S)"

definition RESULT_KEYS :: "str list" where
  "RESULT_KEYS =
     map lit [''verdict'', ''summary'', ''findings'', ''blocking'', ''should_fix'', ''verdict_understated'']"

definition review_result :: "pr_outside \<Rightarrow> (str \<times> json) list \<Rightarrow> tool_reply act" where
  "review_result po d =
     (let state = dget_or d (lit ''state'') JNull in
      if state \<noteq> JStr (lit ''done'')
      then failA (Runtime_error
        (lit ''the review '' @ py_str (po_rep po) state @ lit '': ''
       @ py_str (po_rep po) (dget_or d (lit ''error'') JNull)))
      else retA (Reviewed (map (\<lambda>k. (k, dget_or d k JNull)) RESULT_KEYS)))"

text \<open>\<open>asyncio.wait_for(_ask_reviewq(...), timeout)\<close>: no call is made when no time is given.\<close>

definition ask_reviewq :: "pr_outside \<Rightarrow> str \<Rightarrow> str \<Rightarrow> int \<Rightarrow> tool_reply act" where
  "ask_reviewq po work context limit =
     (if limit \<le> 0 then failA Time_out
      else
        bindA (reviewq_call po (lit ''request_review'')
          [(lit ''workspace'', JStr ((work @ lit ''/repo''))), (lit ''context'', JStr context), (lit ''base_ref'', JStr (lit ''HEAD''))]) (\<lambda>queued.
        bindA (field queued ''id'') (\<lambda>i.
        bindA (await_review po i (rounds limit)) (\<lambda>_.
        bindA (reviewq_call po (lit ''review_results'') [(lit ''review_id'', i)]) (review_result po)))))"

definition review_in :: "pr_outside \<Rightarrow> pr_settings \<Rightarrow> str \<Rightarrow> int \<Rightarrow> str \<Rightarrow> str \<Rightarrow> tool_reply act" where
  "review_in po ps work issue patch context =
     finallyA
       (catchA
         (bindA (unless_git_error (review_workspace po ps work issue patch)) (\<lambda>why.
          case why of Some s \<Rightarrow> retA (Error s) | None \<Rightarrow> ask_reviewq po work context (ps_review_timeout_s ps)))
         (\<lambda>e. retA (Unavailable (take 300 ((fault_class po e @ lit '': '' @ fault_text po e))))))
       (Rmtree work)"

definition review_patch :: "pr_outside \<Rightarrow> pr_settings \<Rightarrow> int \<Rightarrow> str \<Rightarrow> str \<Rightarrow> tool_reply act" where
  "review_patch po ps issue patch context =
     if_allowed po ps issue patch
       (bindA (callA (po_temp po) (Mkdtemp (lit ''issue-'' @ show_int issue @ lit ''-'') (ps_review_dir ps))) (\<lambda>work.
        review_in po ps work issue patch context))"

section \<open>Only headers are read\<close>

lemma one_line_word: "one_line_re (word s) \<longleftrightarrow> NL \<notin> set s"
  by (induction s) auto

lemma header_one_line: "one_line_re HEADER"
  by (simp add: HEADER_def QUOTE_def Opt_def LazyPlus_def one_line_word not_nl_def lit_def)

text \<open>What stands after the first words of the header.\<close>

definition HEADER_REST :: re where
  "HEADER_REST =
     seqs [QUOTE, word (lit ''a/''), Cap (LazyPlus not_nl), QUOTE, word (lit '' ''),
       QUOTE, word (lit ''b/''), Cap (LazyPlus not_nl), QUOTE, Eol]"

lemma HEADER_split: "HEADER = Seq (word (lit ''diff --git '')) HEADER_REST"
  by (simp add: HEADER_def HEADER_REST_def)

lemma header_starts: "\<not> startswith x (lit ''diff --git '') \<Longrightarrow> run HEADER (k, x) = []"
  by (simp add: HEADER_split run_word)

lemma header_consumes:
  assumes "m \<in> set (run HEADER (k, x))" shows "length (snd (fst m)) < length x"
proof -
  have st: "startswith x (lit ''diff --git '')" using assms header_starts by force
  with assms obtain k' m' where m': "m' \<in> set (run HEADER_REST (k', drop (length (lit ''diff --git '')) x))"
    "fst m = fst m'"
    unfolding HEADER_split by (auto simp: run_word)
  have "length (snd (fst m')) \<le> length (drop (length (lit ''diff --git '')) x)"
    by (rule run_rest_length [OF m'(1)])
  moreover have "x \<noteq> []" using st by (cases x) (auto simp: startswith_def)
  ultimately show ?thesis using m'(2) by (cases x) auto
qed

lemma headers_by_line:
  assumes "ls \<noteq> []" "list_all (\<lambda>w. NL \<notin> set w) ls"
  shows "findall DIFF_LINE (join [NL] ls) = concat (map (line_groups HEADER) ls)"
  unfolding findall_def DIFF_LINE_def
  by (rule findall_lines [OF header_one_line header_consumes]) (use assms in \<open>simp_all add: bol_def\<close>)

definition headless :: "str \<Rightarrow> bool" where
  "headless w \<longleftrightarrow> \<not> startswith w (lit ''diff --git '')"

lemma headless_groups: "headless w \<Longrightarrow> line_groups HEADER w = []"
  by (simp add: headless_def line_groups_def header_starts)

lemma headless_unseen:
  assumes "ls \<noteq> []" "list_all (\<lambda>w. NL \<notin> set w) (ls @ hs)" "list_all headless hs"
  shows "changed_paths (join [NL] (ls @ hs)) = changed_paths (join [NL] ls)"
proof -
  have "concat (map (line_groups HEADER) hs) = []"
    using assms(3) by (induction hs) (simp_all add: headless_groups)
  with assms have "findall DIFF_LINE (join [NL] (ls @ hs)) = findall DIFF_LINE (join [NL] ls)"
    by (simp only: headers_by_line map_append concat_append append_Nil2 list_all_append
        append_is_Nil_conv simp_thms)
  then show ?thesis by (simp add: changed_paths_def)
qed

section \<open>What is not refused\<close>

lemma first_fault_None: "first_fault ps = None \<longleftrightarrow> (\<forall>p \<in> set ps. path_fault p = None)"
  by (induction ps) (auto split: option.splits)

lemma refuse_None:
  "refuse patch = Inr None \<longleftrightarrow>
     strip patch \<noteq> [] \<and> encodable patch \<and> length (utf8 patch) \<le> MAX_PATCH_BYTES \<and>
     changed_paths patch \<noteq> [] \<and> (\<forall>p \<in> set (changed_paths patch). path_fault p = None) \<and>
     has_test (changed_paths patch) \<and> length (changed_paths patch) \<le> MAX_FILES \<and>
     changed_lines patch \<le> MAX_LINES"
proof -
  have "refuse_paths patch = None \<longleftrightarrow>
      changed_paths patch \<noteq> [] \<and> first_fault (changed_paths patch) = None \<and>
      has_test (changed_paths patch) \<and> length (changed_paths patch) \<le> MAX_FILES \<and>
      changed_lines patch \<le> MAX_LINES"
    by (auto simp: refuse_paths_def Let_def not_less split: option.splits)
  then show ?thesis by (auto simp: refuse_def first_fault_None not_less)
qed

lemma path_fault_None:
  "path_fault p = None \<longleftrightarrow>
     \<not> startswith p (lit ''../'') \<and> \<not> startswith p (lit ''/'') \<and>
     (\<forall>b \<in> set OFF_LIMITS. \<not> startswith p b)"
proof -
  have "startswith p p" for p using startswith_append [of p "[]"] by simp
  then show ?thesis by (auto simp: path_fault_def)
qed

text \<open>
  A patch that is not refused is at most 200000 bytes of text, names between one and twelve
  paths, each of them once, none of them above or outside the repository or below a place
  that is off limits, changes at most 400 counted lines, and names a test.
\<close>

theorem accepted_patch_bounds:
  assumes "refuse patch = Inr None"
  shows "length (utf8 patch) \<le> 200000 \<and> changed_lines patch \<le> 400 \<and>
    distinct (changed_paths patch) \<and> length (changed_paths patch) \<in> {1..12} \<and>
    has_test (changed_paths patch) \<and>
    (\<forall>p \<in> set (changed_paths patch). \<not> startswith p (lit ''../'') \<and> \<not> startswith p (lit ''/'') \<and>
       (\<forall>b \<in> set OFF_LIMITS. \<not> startswith p b))"
proof -
  have "distinct (changed_paths patch)"
    by (simp add: changed_paths_def distinct_uniq_acc)
  moreover have "1 \<le> length (changed_paths patch)"
    using assms by (simp add: refuse_None Suc_le_eq)
  ultimately show ?thesis
    using assms
    by (simp add: refuse_None path_fault_None MAX_PATCH_BYTES_def MAX_LINES_def MAX_FILES_def)
qed

text \<open>
  A section of a patch without a \<open>diff --git\<close> header is not seen by any check of its path: a
  patch that may pass still may with such a section added, whatever file the section changes,
  as long as the whole stays within the limits of size.
\<close>

theorem unheaded_section_unseen:
  assumes "refuse (join [NL] ls) = Inr None"
    and "list_all (\<lambda>w. NL \<notin> set w) (ls @ hs)" "list_all headless hs"
    and "encodable (join [NL] (ls @ hs))" "length (utf8 (join [NL] (ls @ hs))) \<le> MAX_PATCH_BYTES"
    and "changed_lines (join [NL] (ls @ hs)) \<le> MAX_LINES"
  shows "refuse (join [NL] (ls @ hs)) = Inr None"
proof -
  have ls: "ls \<noteq> []" using assms(1) by (auto simp: refuse_None)
  have "set (join [NL] ls) \<subseteq> set (join [NL] (ls @ hs))"
    using ls by (induction ls rule: join.induct [of _ "[NL]", case_names a b c]) (cases hs; auto)+
  then have "strip (join [NL] (ls @ hs)) \<noteq> []"
    using assms(1) by (auto simp: refuse_None strip_p_eq_Nil_iff)
  with assms headless_unseen [OF ls assms(2,3)] show ?thesis by (simp add: refuse_None)
qed

section \<open>What is called\<close>

text \<open>Every call a computation adds to the trace satisfies \<open>P\<close>.\<close>

definition calls :: "(call \<Rightarrow> bool) \<Rightarrow> 'a act \<Rightarrow> bool" where
  "calls P m \<longleftrightarrow> (\<forall>tr. \<exists>cs. snd (m tr) = tr @ cs \<and> list_all P cs)"

lemma calls_ret: "calls P (retA x)" "calls P (failA e)" "calls P (liftA r)"
  by (auto simp: calls_def retA_def failA_def liftA_def split: sum.splits)

lemma calls_call: "P c \<Longrightarrow> calls P (callA f c)"
  by (auto simp: calls_def callA_def)

lemma calls_bind: "calls P m \<Longrightarrow> (\<And>x. calls P (f x)) \<Longrightarrow> calls P (bindA m f)"
proof -
  assume m: "calls P m" and f: "\<And>x. calls P (f x)"
  have "\<exists>cs. snd (bindA m f tr) = tr @ cs \<and> list_all P cs" for tr
  proof -
    obtain r tr' where p: "m tr = (r, tr')" by (cases "m tr") auto
    from m [unfolded calls_def, rule_format, of tr] p obtain cs where cs: "tr' = tr @ cs" "list_all P cs" by auto
    show ?thesis
    proof (cases r)
      case (Inr x)
      from f [of x, unfolded calls_def, rule_format, of tr'] obtain ds where
        "snd (f x tr') = tr' @ ds" "list_all P ds" by blast
      with p Inr cs show ?thesis by (simp add: bindA_def)
    qed (use p cs in \<open>simp add: bindA_def\<close>)
  qed
  then show ?thesis by (simp add: calls_def)
qed

lemma calls_catch: "calls P m \<Longrightarrow> (\<And>e. calls P (h e)) \<Longrightarrow> calls P (catchA m h)"
proof -
  assume m: "calls P m" and h: "\<And>e. calls P (h e)"
  have "\<exists>cs. snd (catchA m h tr) = tr @ cs \<and> list_all P cs" for tr
  proof -
    obtain r tr' where p: "m tr = (r, tr')" by (cases "m tr") auto
    from m [unfolded calls_def, rule_format, of tr] p obtain cs where cs: "tr' = tr @ cs" "list_all P cs" by auto
    show ?thesis
    proof (cases r)
      case (Inl e)
      from h [of e, unfolded calls_def, rule_format, of tr'] obtain ds where
        "snd (h e tr') = tr' @ ds" "list_all P ds" by blast
      with p Inl cs show ?thesis by (simp add: catchA_def)
    qed (use p cs in \<open>simp add: catchA_def\<close>)
  qed
  then show ?thesis by (simp add: calls_def)
qed

lemma calls_finally: "calls P m \<Longrightarrow> P c \<Longrightarrow> calls P (finallyA m c)"
proof -
  assume m: "calls P m" and c: "P c"
  have "\<exists>cs. snd (finallyA m c tr) = tr @ cs \<and> list_all P cs" for tr
  proof -
    obtain r tr' where p: "m tr = (r, tr')" by (cases "m tr") auto
    from m [unfolded calls_def, rule_format, of tr] p obtain cs where "tr' = tr @ cs" "list_all P cs" by auto
    with p c show ?thesis by (intro exI [of _ "cs @ [c]"]) (simp add: finallyA_def)
  qed
  then show ?thesis by (simp add: calls_def)
qed

lemma calls_git: "P (Git args cwd vars) \<Longrightarrow> calls P (git po args cwd vars)"
  unfolding git_def by (intro calls_bind calls_call calls_ret)

lemma calls_order:
  "calls P (in_order [])"
  "calls P m \<Longrightarrow> calls P (in_order ms) \<Longrightarrow> calls P (in_order (m # ms))"
  by (auto intro: calls_bind calls_ret)

lemma calls_cases:
  "(b \<Longrightarrow> calls P x) \<Longrightarrow> (\<not> b \<Longrightarrow> calls P y) \<Longrightarrow> calls P (if b then x else y)"
  "(v = None \<Longrightarrow> calls P x) \<Longrightarrow> (\<And>a. v = Some a \<Longrightarrow> calls P (f a)) \<Longrightarrow>
     calls P (case v of None \<Rightarrow> x | Some a \<Rightarrow> f a)"
  by (simp_all split: option.splits)

lemma calls_mem:
  assumes "calls P m" "c \<in> set (snd (m []))" shows "P c"
  using assms(1) [unfolded calls_def, rule_format, of "[]"] assms(2) by (auto simp: list_all_iff)

lemmas calls_closed = calls_order calls_ret calls_bind calls_catch calls_cases calls_finally calls_git calls_call

text \<open>
  Every call the tool may make for one fix, in the order it makes them; what it makes is cut
  short by the first that fails, but for the last, which cleans up.
\<close>

definition planned :: "pr_settings \<Rightarrow> str \<Rightarrow> int \<Rightarrow> str \<Rightarrow> str \<Rightarrow> str \<Rightarrow> call list" where
  "planned ps work issue title summary patch =
     (let repo_dir = (work @ lit ''/repo''); patch_file = (work @ lit ''/fix.patch'') in
      [Api_get (lit ''/repos/'' @ ps_repo ps @ lit ''/issues/'' @ show_int issue),
       Api_get (lit ''/repos/'' @ ps_repo ps @ lit ''/git/ref/heads/'' @ branch_of ps issue),
       Mkdtemp (lit ''robbie-fix-'') None,
       Git [lit ''clone'', lit ''--quiet'', lit ''--shared'', ps_mirror ps, repo_dir] work [],
       Git [lit ''remote'', lit ''set-url'', lit ''origin'', (lit ''https://github.com/'' @ ps_repo ps @ lit ''.git'')]
         repo_dir [],
       Git [lit ''config'', lit ''credential.helper'', CRED_HELPER] repo_dir [],
       Git [lit ''config'', lit ''user.name'', ps_author_name ps] repo_dir [],
       Git [lit ''config'', lit ''user.email'', ps_author_email ps] repo_dir [],
       Git [lit ''fetch'', lit ''--quiet'', lit ''origin'', ps_base ps] repo_dir (credentials ps),
       Git [lit ''checkout'', lit ''--quiet'', lit ''-b'', branch_of ps issue, lit ''FETCH_HEAD''] repo_dir [],
       Write_file patch_file (if endswith patch [NL] then patch else patch @ [NL]),
       Git [lit ''apply'', lit ''--index'', lit ''--whitespace=nowarn'', patch_file] repo_dir [],
       Git [lit ''commit'', lit ''--quiet'', lit ''-m'', clean_title title issue] repo_dir [],
       Git [lit ''push'', lit ''--quiet'', lit ''origin'', (lit ''HEAD:refs/heads/'' @ branch_of ps issue)] repo_dir
         (credentials ps),
       Api_post (lit ''/repos/'' @ ps_repo ps @ lit ''/pulls'') (pull_fields ps issue title summary),
       Rmtree work])"

definition in_plan :: "pr_settings \<Rightarrow> int \<Rightarrow> str \<Rightarrow> str \<Rightarrow> str \<Rightarrow> call \<Rightarrow> bool" where
  "in_plan ps issue title summary patch c \<longleftrightarrow> (\<exists>work. c \<in> set (planned ps work issue title summary patch))"

lemma in_planI: "c \<in> set (planned ps work issue title summary patch) \<Longrightarrow> in_plan ps issue title summary patch c"
  by (auto simp: in_plan_def)

lemma plan_cases:
  "calls P m \<Longrightarrow> calls P (unless_git_error m)"
  unfolding unless_git_error_def by (auto intro!: calls_closed split: fault.splits)

lemma push_fix_plan: "calls (in_plan ps issue title summary patch) (push_fix po ps work issue title patch)"
  unfolding push_fix_def push_steps_def checkout_trunk_def commit_and_push_def apply_patch_def write_patch_def Let_def
  by (intro calls_closed plan_cases; rule in_planI [of _ ps work]; simp add: planned_def Let_def)

lemma open_draft_plan:
  "calls (in_plan ps issue title summary patch) (open_draft po ps issue title summary patch)"
  unfolding open_draft_def
  by (intro calls_closed; rule in_planI [of _ ps w for w]; simp add: planned_def Let_def)

lemma open_branch_plan:
  "calls (in_plan ps issue title summary patch) (open_branch po ps issue title summary patch)"
  unfolding open_branch_def
  by (intro calls_bind calls_cases calls_ret calls_call push_fix_plan open_draft_plan;
      rule in_planI [of _ ps w for w]; simp add: planned_def Let_def)

lemma guard_plan: "calls (\<lambda>c. \<exists>url. c = Api_get url) (guard_issue po ps issue)"
  unfolding guard_issue_def by (intro calls_closed) simp

section \<open>What is published\<close>

fun publishes :: "call \<Rightarrow> bool" where
  "publishes (Git args cwd vars) = (hd args = lit ''push'')"
| "publishes (Api_post url fs) = True"
| "publishes _ = False"

definition push_call :: "pr_settings \<Rightarrow> str \<Rightarrow> int \<Rightarrow> call" where
  "push_call ps work issue =
     Git [lit ''push'', lit ''--quiet'', lit ''origin'', (lit ''HEAD:refs/heads/'' @ branch_of ps issue)]
       (work @ lit ''/repo'') (credentials ps)"

definition post_call :: "pr_settings \<Rightarrow> int \<Rightarrow> str \<Rightarrow> str \<Rightarrow> call" where
  "post_call ps issue title summary =
     Api_post (lit ''/repos/'' @ ps_repo ps @ lit ''/pulls'') (pull_fields ps issue title summary)"

lemma plan_publishes:
  "in_plan ps issue title summary patch c \<Longrightarrow> publishes c \<Longrightarrow>
     (\<exists>work. c = push_call ps work issue) \<or> c = post_call ps issue title summary"
  by (auto simp: in_plan_def planned_def Let_def push_call_def post_call_def)

lemma git_trace: "snd (git po args cwd vars tr) = tr @ [Git args cwd vars]"
  by (simp add: git_def bindA_def callA_def retA_def split: sum.splits)

lemma order_last:
  "bindA m (\<lambda>_. bindA (git po args cwd vars) (\<lambda>_. retA ())) tr = (Inr u, tr') \<Longrightarrow> Git args cwd vars \<in> set tr'"
proof -
  assume run: "bindA m (\<lambda>_. bindA (git po args cwd vars) (\<lambda>_. retA ())) tr = (Inr u, tr')"
  then obtain tr1 where "bindA (git po args cwd vars) (\<lambda>_. retA ()) tr1 = (Inr u, tr')"
    by (cases "m tr"; cases "fst (m tr)") (auto simp: bindA_def)
  with git_trace [of po args cwd vars tr1] show ?thesis
    by (cases "git po args cwd vars tr1"; cases "fst (git po args cwd vars tr1)") (auto simp: bindA_def retA_def)
qed

lemma push_fix_None:
  assumes "fst (push_fix po ps work issue title patch tr) = Inr None"
  shows "push_call ps work issue \<in> set (snd (push_fix po ps work issue title patch tr))"
proof -
  let ?body = "push_steps po ps work issue title patch"
  obtain r tr1 where b: "?body tr = (r, tr1)" by (cases "?body tr") auto
  have r: "r = Inr None"
    using assms b by (cases r)
      (auto simp: push_fix_def finallyA_def catchA_def retA_def failA_def split: if_splits)
  then have "?body tr = (Inr None, tr1)" using b by simp
  then obtain tr2 u where "commit_and_push po ps work issue title tr2 = (Inr u, tr1)"
    by (auto simp: push_steps_def bindA_def retA_def split: prod.splits sum.splits option.splits)
  then have "push_call ps work issue \<in> set tr1"
    unfolding commit_and_push_def Let_def in_order.simps push_call_def
    by (rule order_last)
  with b r show ?thesis by (simp add: push_fix_def finallyA_def catchA_def)
qed

lemma push_fix_no_post:
  "calls (\<lambda>c. \<forall>url fs. c \<noteq> Api_post url fs) (push_fix po ps work issue title patch)"
  unfolding push_fix_def push_steps_def checkout_trunk_def commit_and_push_def apply_patch_def write_patch_def Let_def
  by (intro calls_closed plan_cases; simp)

text \<open>What is called beside the check of the issue is called for an accepted patch and issue.\<close>

lemma if_allowed_trace:
  assumes "c \<in> set (snd (if_allowed po ps issue patch go []))" "\<nexists>url. c = Api_get url"
  shows "refuse patch = Inr None \<and> fst (guard_issue po ps issue []) = Inr None \<and>
    c \<in> set (snd (go (snd (guard_issue po ps issue []))))"
proof -
  have g: "c \<notin> set (snd (guard_issue po ps issue []))"
    using calls_mem [OF guard_plan] assms(2) by blast
  obtain r tr where gr: "guard_issue po ps issue [] = (r, tr)" by (cases "guard_issue po ps issue []") auto
  with assms g show ?thesis
    by (auto simp: if_allowed_def bindA_def liftA_def failA_def retA_def split: sum.splits option.splits)
qed

lemma open_branch_trace:
  assumes "c \<in> set (snd (open_branch po ps issue title summary patch tr)) - set tr" "publishes c"
  defines "ref \<equiv> Api_get (lit ''/repos/'' @ ps_repo ps @ lit ''/git/ref/heads/'' @ branch_of ps issue)"
  shows "(\<exists>resp. po_http po tr ref = Inr resp \<and> fst resp \<noteq> 200) \<and>
    (\<exists>work. c = push_call ps work issue \<or>
       c = post_call ps issue title summary \<and>
       push_call ps work issue \<in> set (snd (open_branch po ps issue title summary patch tr)))"
proof -
  let ?tr1 = "tr @ [ref]" and ?tmp = "Mkdtemp (lit ''robbie-fix-'') None"
  let ?tr2 = "?tr1 @ [?tmp]"
  note ob = open_branch_def [of po ps issue title summary patch, folded ref_def]
  have ref: "\<not> publishes ref" "\<not> publishes ?tmp" by (simp_all add: ref_def)
  then have "c \<noteq> ref" "c \<noteq> ?tmp" using assms(2) by auto
  obtain resp where resp: "po_http po tr ref = Inr resp" "fst resp \<noteq> 200"
    using assms(1) \<open>c \<noteq> ref\<close>
    by (cases "po_http po tr ref") (auto simp: ob bindA_def callA_def retA_def split: if_splits)
  obtain work where work: "po_temp po ?tr1 ?tmp = Inr work"
    using assms(1) resp \<open>c \<noteq> ref\<close> \<open>c \<noteq> ?tmp\<close>
    by (cases "po_temp po ?tr1 ?tmp") (auto simp: ob bindA_def callA_def)
  obtain r tr3 where p: "push_fix po ps work issue title patch ?tr2 = (r, tr3)"
    by (cases "push_fix po ps work issue title patch ?tr2") auto
  have run: "open_branch po ps issue title summary patch tr =
      (case r of Inl e \<Rightarrow> (Inl e, tr3) | Inr (Some s) \<Rightarrow> (Inr (Error s), tr3)
       | Inr None \<Rightarrow> open_draft po ps issue title summary patch tr3)"
    using resp work p by (simp add: ob bindA_def callA_def retA_def split: sum.splits option.splits)
  have "\<exists>cs. snd (push_fix po ps work issue title patch ?tr2) = ?tr2 @ cs \<and>
      list_all (in_plan ps issue title summary patch) cs"
    using push_fix_plan unfolding calls_def by blast
  with p obtain cs where tr3: "tr3 = ?tr2 @ cs" "list_all (in_plan ps issue title summary patch) cs" by auto
  obtain ds where ds: "snd (open_draft po ps issue title summary patch tr3) = tr3 @ ds"
    "list_all (in_plan ps issue title summary patch) ds"
    using open_draft_plan unfolding calls_def by blast
  have plan: "in_plan ps issue title summary patch c"
    using assms(1) run tr3 ds \<open>c \<noteq> ref\<close> \<open>c \<noteq> ?tmp\<close>
    by (auto simp: list_all_iff split: sum.splits option.splits)
  have "push_call ps work issue \<in> set (snd (open_branch po ps issue title summary patch tr))"
    if c: "c = post_call ps issue title summary"
  proof -
    have "c \<notin> set cs"
    proof -
      have "\<exists>cs. snd (push_fix po ps work issue title patch ?tr2) = ?tr2 @ cs \<and>
          list_all (\<lambda>c. \<forall>url fs. c \<noteq> Api_post url fs) cs"
        using push_fix_no_post unfolding calls_def by blast
      with p tr3 c show ?thesis by (auto simp: post_call_def list_all_iff)
    qed
    with assms(1) \<open>c \<noteq> ref\<close> \<open>c \<noteq> ?tmp\<close> tr3 have "c \<notin> set tr3" by auto
    with assms(1) run have "r = Inr None" by (auto split: sum.splits option.splits)
    with p push_fix_None [of po ps work issue title patch ?tr2] run ds show ?thesis by simp
  qed
  with resp plan_publishes [OF plan assms(2)] show ?thesis by blast
qed

text \<open>
  C29: Nothing leaves the sidecar for a patch that is refused or an issue that did not ask: the tool
  pushes only to the branch of the issue, only when the patch passed every check, the issue is
  open with the label, and the branch is not there yet; and it opens only a draft, onto the
  configured base, after the push.
\<close>

theorem publishes_only_allowed:
  assumes "c \<in> set (snd (open_pull_request po ps issue title summary patch []))" "publishes c"
  shows "refuse patch = Inr None \<and> fst (guard_issue po ps issue []) = Inr None \<and>
    (\<exists>resp. fst resp \<noteq> 200 \<and> po_http po (snd (guard_issue po ps issue []))
        (Api_get (lit ''/repos/'' @ ps_repo ps @ lit ''/git/ref/heads/'' @ branch_of ps issue)) = Inr resp) \<and>
    (\<exists>work. c = push_call ps work issue \<or>
       c = post_call ps issue title summary \<and> dget (pull_fields ps issue title summary) (lit ''draft'') = Some (JBool True) \<and>
       push_call ps work issue \<in> set (snd (open_pull_request po ps issue title summary patch [])))"
proof -
  have no: "\<nexists>url. c = Api_get url" using assms(2) by auto
  let ?tr = "snd (guard_issue po ps issue [])"
  have ok: "refuse patch = Inr None" "fst (guard_issue po ps issue []) = Inr None"
    and c: "c \<in> set (snd (open_branch po ps issue title summary patch ?tr))"
    using if_allowed_trace [OF assms(1) [unfolded open_pull_request_def] no] by auto
  have eq: "open_pull_request po ps issue title summary patch [] = open_branch po ps issue title summary patch ?tr"
    using ok by (cases "guard_issue po ps issue []")
      (simp add: open_pull_request_def if_allowed_def bindA_def liftA_def retA_def)
  have "c \<notin> set ?tr" using calls_mem [OF guard_plan] no by blast
  with c have "c \<in> set (snd (open_branch po ps issue title summary patch ?tr)) - set ?tr" by simp
  from open_branch_trace [OF this assms(2)] ok show ?thesis
    unfolding eq by (auto simp: pull_fields_def)
qed

section \<open>Where the token stands\<close>

text \<open>The call with the values of its variables blanked.\<close>

fun hide_vars :: "call \<Rightarrow> call" where
  "hide_vars (Git args cwd vars) = Git args cwd (map (\<lambda>kv. (fst kv, [])) vars)"
| "hide_vars c = c"

lemma planned_hides_token:
  "map hide_vars (planned (ps\<lparr>ps_token := token\<rparr>) work issue title summary patch)
   = map hide_vars (planned ps work issue title summary patch)"
  by (simp add: planned_def Let_def credentials_def branch_of_def pull_fields_def)

lemma open_pull_request_plan:
  "calls (in_plan ps issue title summary patch) (open_pull_request po ps issue title summary patch)"
proof -
  have "in_plan ps issue title summary patch (Api_get (lit ''/repos/'' @ ps_repo ps @ lit ''/issues/'' @ show_int issue))"
    by (rule in_planI [of _ ps "[]"]) (simp add: planned_def Let_def)
  then show ?thesis
    unfolding open_pull_request_def if_allowed_def guard_issue_def
    by (intro calls_closed open_branch_plan)
qed

text \<open>
  The token stands in the variables of the two commands that talk to GitHub, as a password
  git asks a helper for, and nowhere else: every call of a run is one that a sidecar with any
  other token would make, up to the values of those variables.
\<close>

theorem token_only_in_environment:
  assumes "c \<in> set (snd (open_pull_request po ps issue title summary patch []))"
  shows "\<exists>c'. in_plan (ps\<lparr>ps_token := token\<rparr>) issue title summary patch c' \<and> hide_vars c' = hide_vars c \<and>
    (\<forall>args cwd vars. c = Git args cwd vars \<longrightarrow>
       vars = [] \<or> hd args \<in> {lit ''fetch'', lit ''push''} \<and> vars = credentials ps)"
proof -
  from calls_mem [OF open_pull_request_plan assms] obtain work where
    c: "c \<in> set (planned ps work issue title summary patch)" by (auto simp: in_plan_def)
  then have "hide_vars c \<in> set (map hide_vars (planned (ps\<lparr>ps_token := token\<rparr>) work issue title summary patch))"
    unfolding planned_hides_token by auto
  then obtain c' where c': "c' \<in> set (planned (ps\<lparr>ps_token := token\<rparr>) work issue title summary patch)"
    "hide_vars c' = hide_vars c" by auto
  have "vars = [] \<or> hd args \<in> {lit ''fetch'', lit ''push''} \<and> vars = credentials ps"
    if "c = Git args cwd vars" for args cwd vars
    using c that unfolding planned_def Let_def by auto
  with in_planI [OF c'(1)] c'(2) show ?thesis by blast
qed

section \<open>The review is optional\<close>

lemma calls_rounds: "P (Reviewq (lit ''review_status'') [(lit ''review_id'', i)]) \<Longrightarrow> calls P (await_review po i k)"
  by (induction k) (auto simp: reviewq_call_def field_def intro!: calls_closed)

lemma review_publishes_nothing: "calls (\<lambda>c. \<not> publishes c) (review_in po ps work issue patch context)"
  unfolding review_in_def review_workspace_def ask_reviewq_def apply_patch_def write_patch_def Let_def
    reviewq_call_def field_def review_result_def
  by (intro calls_closed plan_cases calls_rounds; simp)

text \<open>
  A review that fails never stands in the way of the fix: once the patch is accepted and a
  directory is there, the tool answers, whatever git and the reviewer do and however long
  they take, it publishes nothing, and the directory is removed at the end.
\<close>

theorem review_always_answers:
  assumes "refuse patch = Inr None" "fst (guard_issue po ps issue []) = Inr None"
    and "po_temp po (snd (guard_issue po ps issue [])) (Mkdtemp (lit ''issue-'' @ show_int issue @ lit ''-'') (ps_review_dir ps)) = Inr work"
  shows "(\<exists>reply. fst (review_patch po ps issue patch context []) = Inr reply) \<and>
    last (snd (review_patch po ps issue patch context [])) = Rmtree work \<and>
    (\<forall>c \<in> set (snd (review_patch po ps issue patch context [])). \<not> publishes c)"
proof -
  let ?tr = "snd (guard_issue po ps issue [])"
  let ?mk = "Mkdtemp (lit ''issue-'' @ show_int issue @ lit ''-'') (ps_review_dir ps)"
  have eq: "review_patch po ps issue patch context [] = review_in po ps work issue patch context (?tr @ [?mk])"
    using assms by (cases "guard_issue po ps issue []")
      (simp add: review_patch_def if_allowed_def bindA_def liftA_def retA_def callA_def)
  have "\<exists>reply tr'. review_in po ps work issue patch context tr = (Inr reply, tr' @ [Rmtree work])" for tr
    by (auto simp: review_in_def finallyA_def catchA_def retA_def split: prod.splits sum.splits)
  then obtain reply tr' where r: "review_in po ps work issue patch context (?tr @ [?mk]) = (Inr reply, tr' @ [Rmtree work])"
    by blast
  have "c \<in> set ?tr \<Longrightarrow> \<not> publishes c" for c
    using calls_mem [OF guard_plan] by fastforce
  moreover obtain cs where "snd (review_in po ps work issue patch context (?tr @ [?mk])) = (?tr @ [?mk]) @ cs"
    "list_all (\<lambda>c. \<not> publishes c) cs"
    using review_publishes_nothing unfolding calls_def by blast
  ultimately have "\<forall>c \<in> set (snd (review_patch po ps issue patch context [])). \<not> publishes c"
    unfolding eq by (auto simp: list_all_iff)
  with r show ?thesis unfolding eq by simp
qed

section \<open>Witnesses\<close>

definition sample_lines :: "str list" where
  "sample_lines = [lit ''diff --git a/test/a b/test/a'', lit ''+x'']"

definition gemfile_lines :: "str list" where
  "gemfile_lines = [lit ''--- a/Gemfile'', lit ''+++ b/Gemfile'', lit ''@@ -1 +1 @@'', lit ''-x'', lit ''+y'']"

definition sample_patch :: str where "sample_patch = join [NL] sample_lines"

lemma sample_groups: "line_groups HEADER (lit ''diff --git a/test/a b/test/a'') = [[lit ''test/a'', lit ''test/a'']]"
  by (simp add: line_groups_def HEADER_def QUOTE_def Opt_def LazyPlus_def not_nl_def lit_def eol_def)

lemma sample_paths: "changed_paths sample_patch = [lit ''test/a'']"
proof -
  have "findall DIFF_LINE (join [NL] sample_lines) = concat (map (line_groups HEADER) sample_lines)"
    by (rule headers_by_line) (simp_all add: sample_lines_def lit_def)
  moreover have "headless (lit ''+x'')" by (simp add: headless_def lit_def startswith_def)
  ultimately have "findall DIFF_LINE sample_patch = [[lit ''test/a'', lit ''test/a'']]"
    by (simp add: sample_patch_def sample_lines_def sample_groups headless_groups)
  then show ?thesis
    by (simp add: changed_paths_def as_posix_def posix_root_def lit_def startswith_def Let_def)
qed

lemma sample_accepted: "refuse sample_patch = Inr None"
proof -
  have "has_test [lit ''test/a'']" by (simp add: has_test_def TEST_DIRS_def lit_def startswith_def)
  moreover have "path_fault (lit ''test/a'') = None"
    by (simp add: path_fault_def OFF_LIMITS_def lit_def startswith_def)
  moreover have "changed_lines sample_patch = 1"
    by (simp add: changed_lines_def sample_patch_def sample_lines_def lit_def splitlines_def is_linebreak_def counted_def
        startswith_def)
  moreover have "strip sample_patch \<noteq> []" "encodable sample_patch" "length (utf8 sample_patch) \<le> MAX_PATCH_BYTES"
    by (auto simp: sample_patch_def sample_lines_def lit_def strip_p_eq_Nil_iff is_space_def encodable_def utf8_def
        utf8_cp_def MAX_PATCH_BYTES_def)
  ultimately show ?thesis
    by (simp add: refuse_None sample_paths MAX_FILES_def MAX_LINES_def)
qed

theorem accepted_patch_bounds_witness: "length (utf8 sample_patch) \<le> 200000 \<and> has_test (changed_paths sample_patch)"
  using accepted_patch_bounds [OF sample_accepted] by simp

theorem unheaded_section_unseen_witness: "refuse (join [NL] (sample_lines @ gemfile_lines)) = Inr None"
proof (rule unheaded_section_unseen [OF sample_accepted [unfolded sample_patch_def]])
  show "list_all (\<lambda>w. NL \<notin> set w) (sample_lines @ gemfile_lines)"
    by (simp add: sample_lines_def gemfile_lines_def lit_def)
  show "list_all headless gemfile_lines"
    by (simp add: gemfile_lines_def headless_def lit_def startswith_def)
  show "encodable (join [NL] (sample_lines @ gemfile_lines))"
    by (simp add: sample_lines_def gemfile_lines_def encodable_def lit_def)
  show "length (utf8 (join [NL] (sample_lines @ gemfile_lines))) \<le> MAX_PATCH_BYTES"
    by (simp add: sample_lines_def gemfile_lines_def utf8_def utf8_cp_def MAX_PATCH_BYTES_def lit_def)
  show "changed_lines (join [NL] (sample_lines @ gemfile_lines)) \<le> MAX_LINES"
    by (simp add: sample_lines_def gemfile_lines_def changed_lines_def lit_def splitlines_def is_linebreak_def counted_def
        startswith_def MAX_LINES_def)
qed

definition sample_pr_settings :: pr_settings where
  "sample_pr_settings =
     \<lparr>ps_token = lit ''t'', ps_repo = lit ''o/r'', ps_mirror = lit ''/m'', ps_base = lit ''main'', ps_label = lit ''fix'',
      ps_branch_prefix = lit ''robbie/issue-'', ps_author_name = lit ''n'', ps_author_email = lit ''e'',
      ps_review_socket = Some (lit ''/s''), ps_review_dir = Some (lit ''/d''), ps_review_timeout_s = 30,
      ps_host = [], ps_port = 8080, ps_allowed_hosts = []\<rparr>"

definition sample_pr_outside :: pr_outside where
  "sample_pr_outside =
     \<lparr>po_git = (\<lambda>tr c. Exited 0 [] []), po_write = (\<lambda>tr c. None),
      po_http = (\<lambda>tr c. if tr = [] then Inr (200, Inr (JObj [(lit ''state'', JStr (lit ''open'')),
          (lit ''labels'', JList [JObj [(lit ''name'', JStr (lit ''fix''))]])]))
        else Inr (404, Inr (JObj []))),
      po_temp = (\<lambda>tr c. Inr (lit ''/w'')), po_reviewq = (\<lambda>tr c. Inl Time_out),
      po_rep = (\<lambda>j. []), po_show = (\<lambda>e. []), po_class = (\<lambda>e. [])\<rparr>"

lemma sample_guard:
  "guard_issue sample_pr_outside sample_pr_settings 1 [] = 
     (Inr None, [Api_get (lit ''/repos/'' @ lit ''o/r'' @ lit ''/issues/'' @ show_int 1)])"
  by (simp add: guard_issue_def guard_reply_def label_names_def jget_list_def jor_def bindA_def callA_def liftA_def retA_def
      sample_pr_outside_def sample_pr_settings_def)

lemma sample_answers:
  "po_git sample_pr_outside tr c = Exited 0 [] []" "po_write sample_pr_outside tr c = None"
  "po_temp sample_pr_outside tr c = Inr (lit ''/w'')"
  "tr \<noteq> [] \<Longrightarrow> po_http sample_pr_outside tr c = Inr (404, Inr (JObj []))"
  by (simp_all add: sample_pr_outside_def)

lemma sample_pushes:
  "push_call sample_pr_settings (lit ''/w'') 1 \<in>
     set (snd (open_pull_request sample_pr_outside sample_pr_settings 1 [] [] sample_patch []))"
  by (simp add: open_pull_request_def if_allowed_def sample_accepted sample_guard bindA_def liftA_def retA_def
      open_branch_def callA_def push_fix_def push_steps_def finallyA_def catchA_def checkout_trunk_def git_def git_result_def
      write_patch_def unless_git_error_def apply_patch_def commit_and_push_def open_draft_def push_call_def
      sample_answers Let_def)

theorem publishes_only_allowed_witness:
  "\<exists>c \<in> set (snd (open_pull_request sample_pr_outside sample_pr_settings 1 [] [] sample_patch [])).
     publishes c \<and> refuse sample_patch = Inr None"
proof -
  have p: "publishes (push_call sample_pr_settings (lit ''/w'') 1)" by (simp add: push_call_def)
  from publishes_only_allowed [OF sample_pushes p] have "refuse sample_patch = Inr None" by blast
  with p sample_pushes show ?thesis by blast
qed

theorem token_only_in_environment_witness:
  "\<exists>c'. in_plan (sample_pr_settings\<lparr>ps_token := lit ''u''\<rparr>) 1 [] [] sample_patch c' \<and>
     hide_vars c' = hide_vars (push_call sample_pr_settings (lit ''/w'') 1)"
  using token_only_in_environment [OF sample_pushes, of "lit ''u''"] by blast

theorem review_always_answers_witness:
  "\<exists>reply. fst (review_patch sample_pr_outside sample_pr_settings 1 sample_patch [] []) = Inr reply"
  using review_always_answers [OF sample_accepted, of sample_pr_outside sample_pr_settings 1 "lit ''/w''" "[]"]
  by (simp add: sample_guard sample_answers)

end
