(* ===== verification/Mcp_Sentry.thy ===== *)
theory Mcp_Sentry
  imports Mcp_Pr
begin

text \<open>
  The read tools over Sentry (\<open>src/robbie_mcp/sentry.py\<close>): what a query asks, what is kept of
  an answer, and the three tools. The HTTP client is an environment; a lookup that fails is an
  empty answer. The properties: a lookup over the paths of a pull request makes a bounded
  number of requests inside its own organisation and sorts every path it checked into one of
  two lists, the frames it shows are the innermost of one kind, and one count too large for
  an integer loses the whole answer.
\<close>

definition MAX_PATHS :: nat where "MAX_PATHS = 12"
definition DEFAULT_DAYS :: int where "DEFAULT_DAYS = 14"

record sn_settings =
  sn_token :: str
  sn_org :: str
  sn_projects :: "str list"
  sn_host :: str
  sn_port :: int
  sn_allowed_hosts :: "str list"

definition sn_hosts :: "str \<Rightarrow> str list" where
  "sn_hosts raw =
     (if raw \<noteq> [] then filter (\<lambda>h. h \<noteq> []) (map strip (split_on 44 raw))
      else map lit [''mcp-sentry:8080'', ''mcp-sentry'', ''localhost:8080''])"

text \<open>\<open>SENTRY_PROJECTS\<close>: a JSON list, which \<open>loads\<close> parses, or names between commas.\<close>

definition projects_of :: "(str \<Rightarrow> json res) \<Rightarrow> (json \<Rightarrow> str) \<Rightarrow> str \<Rightarrow> str list res" where
  "projects_of loads rep raw =
     (if raw = [] then Inr []
      else if startswith raw (lit ''['') then
        bindE (loads raw) (\<lambda>j. bindE (jiter j) (\<lambda>xs. Inr (map (py_str rep) xs)))
      else Inr (filter (\<lambda>p. p \<noteq> []) (map strip (split_on 44 raw))))"

definition sn_from_env :: "(str \<Rightarrow> json res) \<Rightarrow> (json \<Rightarrow> str) \<Rightarrow> environ \<Rightarrow> sn_settings res" where
  "sn_from_env loads rep e =
     (let token = strip (env_get e ''SENTRY_TOKEN''); org = strip (env_get e ''SENTRY_ORG_SLUG'')
      in if token = [] \<or> org = [] then Inl SystemExit
         else
           bindE (projects_of loads rep (strip (env_get e ''SENTRY_PROJECTS''))) (\<lambda>projects.
           case int_of_str (env_default e ''MCP_PORT'' ''8080'') of
             None \<Rightarrow> Inl ValueError
           | Some port \<Rightarrow>
               Inr \<lparr>sn_token = token, sn_org = org, sn_projects = projects,
                    sn_host = env_default e ''MCP_HOST'' ''0.0.0.0'', sn_port = port,
                    sn_allowed_hosts = sn_hosts (strip (env_get e ''MCP_ALLOWED_HOSTS''))\<rparr>))"

section \<open>Queries and answers\<close>

text \<open>\<open>PurePosixPath(p).name\<close>\<close>

definition path_name :: "str \<Rightarrow> str" where
  "path_name p = last_or [] (filter (\<lambda>w. w \<noteq> [] \<and> w \<noteq> lit ''.'') (split_on 47 p))"

definition path_query :: "str \<Rightarrow> bool \<Rightarrow> str" where
  "path_query path exact =
     (if exact then (lit ''is:unresolved stack.filename:'' @ [34] @ path @ [34])
      else (lit ''is:unresolved stack.filename:'' @ [34] @ lit ''*'' @ path_name path @ [34]))"

text \<open>\<open>_int\<close>: what is caught is \<open>TypeError\<close> and \<open>ValueError\<close>.\<close>

definition int_or_zero :: "json \<Rightarrow> json res" where
  "int_or_zero v =
     (case py_int v of
        Inr i \<Rightarrow> Inr (JInt i)
      | Inl e \<Rightarrow> if e = TypeError \<or> e = ValueError then Inr (JInt 0) else Inl e)"

definition shape_issue :: "json \<Rightarrow> (str \<times> json) list res" where
  "shape_issue raw =
     bindE (jget raw (lit ''id'')) (\<lambda>i.
     bindE (jget raw (lit ''title'')) (\<lambda>title.
     bindE (jget raw (lit ''culprit'')) (\<lambda>culprit.
     bindE (jget raw (lit ''level'')) (\<lambda>level.
     bindE (bindE (jget raw (lit ''count'')) int_or_zero) (\<lambda>events.
     bindE (bindE (jget raw (lit ''userCount'')) int_or_zero) (\<lambda>users.
     bindE (jget raw (lit ''firstSeen'')) (\<lambda>since.
     bindE (jget raw (lit ''lastSeen'')) (\<lambda>latest.
     bindE (jget raw (lit ''permalink'')) (\<lambda>link.
       Inr [(lit ''id'', i), (lit ''title'', title), (lit ''culprit'', culprit), (lit ''level'', level),
            (lit ''events'', events), (lit ''users'', users), (lit ''first_seen'', since),
            (lit ''last_seen'', latest), (lit ''permalink'', link)])))))))))"

record frame =
  fr_filename :: json
  fr_function :: json
  fr_line :: json
  fr_in_app :: bool

definition frame_of :: "json \<Rightarrow> frame res" where
  "frame_of f =
     bindE (jget f (lit ''filename'')) (\<lambda>filename.
     bindE (jget f (lit ''function'')) (\<lambda>func.
     bindE (jget f (lit ''lineNo'')) (\<lambda>line.
     bindE (jget f (lit ''inApp'')) (\<lambda>app.
       Inr \<lparr>fr_filename = filename, fr_function = func, fr_line = line, fr_in_app = truthy app\<rparr>))))"

definition value_frames :: "json \<Rightarrow> frame list res" where
  "value_frames v =
     bindE (jget_obj v (lit ''stacktrace'')) (\<lambda>st.
     bindE (jget_list st (lit ''frames'')) (\<lambda>fs.
     bindE (jiter fs) (mapE frame_of)))"

definition entry_frames :: "json \<Rightarrow> frame list res" where
  "entry_frames x =
     bindE (jget x (lit ''type'')) (\<lambda>t.
     if t \<noteq> JStr (lit ''exception'') then Inr []
     else
       bindE (jget_obj x (lit ''data'')) (\<lambda>d.
       bindE (jget_list d (lit ''values'')) (\<lambda>vs.
       bindE (jiter vs) (\<lambda>xs.
       bindE (mapE value_frames xs) (\<lambda>fss. Inr (concat fss))))))"

definition all_frames :: "json \<Rightarrow> frame list res" where
  "all_frames event =
     bindE (jget_list event (lit ''entries'')) (\<lambda>es.
     bindE (jiter es) (\<lambda>xs.
     bindE (mapE entry_frames xs) (\<lambda>fss. Inr (concat fss))))"

text \<open>\<open>chosen[-limit:]\<close> is all of it when the limit is zero.\<close>

definition chosen_frames :: "nat \<Rightarrow> frame list \<Rightarrow> frame list" where
  "chosen_frames limit frames =
     (let in_app = filter fr_in_app frames; chosen = (if in_app \<noteq> [] then in_app else frames)
      in rev (if limit = 0 then chosen else drop (length chosen - limit) chosen))"

definition shape_frames :: "json \<Rightarrow> nat \<Rightarrow> frame list res" where
  "shape_frames event limit = bindE (all_frames event) (\<lambda>fs. Inr (chosen_frames limit fs))"

section \<open>Requests\<close>

text \<open>What the client got: a parsed body, an error status, or an exception.\<close>

datatype got = Got json | Status int | Broken

type_synonym query = "str \<times> (str \<times> json) list"
type_synonym client = "query list \<Rightarrow> query \<Rightarrow> got"

text \<open>\<open>_http_fetch\<close>: a failed lookup is an empty list.\<close>

definition fetch :: "client \<Rightarrow> query \<Rightarrow> query list \<Rightarrow> json \<times> query list" where
  "fetch http q tr = ((case http tr q of Got j \<Rightarrow> j | _ \<Rightarrow> JList []), tr @ [q])"

definition project_params :: "sn_settings \<Rightarrow> (str \<times> json) list" where
  "project_params st =
     (if sn_projects st \<noteq> [] then [(lit ''project'', JList (map JStr (sn_projects st)))] else [])"

definition issues_url :: "sn_settings \<Rightarrow> str" where
  "issues_url st = (lit ''/organizations/'' @ sn_org st @ lit ''/issues/'')"

definition period :: "int \<Rightarrow> str" where
  "period days = (show_int (max 1 days) @ lit ''d'')"

definition path_lookup :: "sn_settings \<Rightarrow> str \<Rightarrow> bool \<Rightarrow> int \<Rightarrow> int \<Rightarrow> query" where
  "path_lookup st path exact days limit =
     (issues_url st,
      [(lit ''query'', JStr (path_query path exact)), (lit ''statsPeriod'', JStr (period days)),
       (lit ''limit'', JInt (max 1 limit))] @ project_params st)"

definition shaped :: "json \<Rightarrow> (str \<times> json) list list res" where
  "shaped raw = bindE (jiter raw) (mapE shape_issue)"

record hit =
  ht_path :: str
  ht_match :: str
  ht_issues :: "(str \<times> json) list list"

text \<open>One path: exact first, then by its name.\<close>

definition look_up :: "client \<Rightarrow> sn_settings \<Rightarrow> int \<Rightarrow> int \<Rightarrow> str \<Rightarrow> query list \<Rightarrow> hit res \<times> query list" where
  "look_up http st days limit path tr =
     (let (raw, tr1) = fetch http (path_lookup st path True days limit) tr in
      if truthy raw then
        (bindE (shaped raw) (\<lambda>found. Inr \<lparr>ht_path = path, ht_match = (lit ''exact''), ht_issues = found\<rparr>), tr1)
      else
        let (raw, tr2) = fetch http (path_lookup st path False days limit) tr1 in
        if truthy raw then
          (bindE (shaped raw) (\<lambda>found.
             Inr \<lparr>ht_path = path, ht_match = (lit ''basename-wildcard''), ht_issues = found\<rparr>), tr2)
        else (Inr \<lparr>ht_path = path, ht_match = (lit ''none''), ht_issues = []\<rparr>, tr2))"

fun look_up_all :: "client \<Rightarrow> sn_settings \<Rightarrow> int \<Rightarrow> int \<Rightarrow> str list \<Rightarrow> query list \<Rightarrow> hit list res \<times> query list" where
  "look_up_all http st days limit [] tr = (Inr [], tr)"
| "look_up_all http st days limit (p # ps) tr =
     (case look_up http st days limit p tr of
        (Inl e, tr1) \<Rightarrow> (Inl e, tr1)
      | (Inr h, tr1) \<Rightarrow>
          (case look_up_all http st days limit ps tr1 of
             (Inl e, tr2) \<Rightarrow> (Inl e, tr2)
           | (Inr hs, tr2) \<Rightarrow> (Inr (if ht_issues h \<noteq> [] then h # hs else hs), tr2)))"

record path_report =
  pr_checked :: "str list"
  pr_truncated :: bool
  pr_window_days :: int
  pr_with_errors :: "hit list"
  pr_clean :: "str list"

definition issues_for_paths :: "client \<Rightarrow> sn_settings \<Rightarrow> str list \<Rightarrow> int \<Rightarrow> int \<Rightarrow> path_report res \<times> query list" where
  "issues_for_paths http st paths days limit =
     (let asked = take MAX_PATHS paths in
      case look_up_all http st days limit asked [] of
        (Inl e, tr) \<Rightarrow> (Inl e, tr)
      | (Inr hits, tr) \<Rightarrow>
          (Inr \<lparr>pr_checked = asked, pr_truncated = MAX_PATHS < length paths, pr_window_days = days,
                pr_with_errors = hits,
                pr_clean = filter (\<lambda>p. p \<notin> ht_path ` set hits) asked\<rparr>, tr))"

definition search_issues :: "client \<Rightarrow> sn_settings \<Rightarrow> str \<Rightarrow> int \<Rightarrow> int \<Rightarrow> (str \<times> json) list list res \<times> query list" where
  "search_issues http st q days limit =
     (let (raw, tr) = fetch http
        (issues_url st,
         [(lit ''query'', JStr q), (lit ''statsPeriod'', JStr (period days)),
          (lit ''limit'', JInt (max 1 (min limit 25)))] @ project_params st) []
      in (shaped (jor raw (JList [])), tr))"

text \<open>The fields of the answer, and the frames of its latest event.\<close>

datatype detail = Missing str | Detail "(str \<times> json) list" json json "frame list"

definition latest_event :: "json \<Rightarrow> (json \<times> json \<times> frame list) res" where
  "latest_event raw =
     (let event = jor raw (JObj []) in
      bindE (jget event (lit ''id'')) (\<lambda>i.
      bindE (jget event (lit ''dateCreated'')) (\<lambda>date.
      bindE (shape_frames event 8) (\<lambda>fs. Inr (i, date, fs)))))"

definition issue_detail :: "client \<Rightarrow> str \<Rightarrow> detail res \<times> query list" where
  "issue_detail http issue_id =
     (let (issue, tr) = fetch http ((lit ''/issues/'' @ issue_id @ lit ''/''), []) [] in
      if \<not> truthy issue
      then (Inr (Missing (lit ''issue '' @ issue_id @ lit '' not found or not visible to this token'')), tr)
      else
        case bindE (shape_issue issue) (\<lambda>out.
               bindE (jget_obj issue (lit ''metadata'')) (\<lambda>meta. Inr (out @ [(lit ''metadata'', meta)]))) of
          Inl e \<Rightarrow> (Inl e, tr)
        | Inr out \<Rightarrow>
            (let (event, tr2) = fetch http ((lit ''/issues/'' @ issue_id @ lit ''/events/latest/''), []) tr in
             (bindE (latest_event event) (\<lambda>r. Inr (Detail out (fst r) (fst (snd r)) (snd (snd r)))), tr2)))"

section \<open>Every path is accounted for\<close>

text \<open>A request a lookup over paths makes: the organisation's issues, its projects, a period and a limit.\<close>

definition scoped :: "sn_settings \<Rightarrow> query \<Rightarrow> bool" where
  "scoped st q \<longleftrightarrow>
     (\<exists>text days limit. 1 \<le> limit \<and>
        q = (issues_url st,
             [(lit ''query'', JStr text), (lit ''statsPeriod'', JStr (period days)), (lit ''limit'', JInt limit)]
             @ project_params st))"

lemma path_lookup_scoped: "scoped st (path_lookup st path exact days limit)"
  unfolding scoped_def path_lookup_def
  by (rule exI [of _ "path_query path exact"], rule exI [of _ days], rule exI [of _ "max 1 limit"]) simp

text \<open>What the client makes of an answer: what it parsed, or an empty list for any failure.\<close>

definition answer :: "client \<Rightarrow> query list \<Rightarrow> query \<Rightarrow> json" where
  "answer http tr q = (case http tr q of Got j \<Rightarrow> j | _ \<Rightarrow> JList [])"

text \<open>
  The requests one path is worth, after \<open>before\<close>: its exact name, and the name at its end only
  when nothing came back; and whether Sentry knew of an error there.
\<close>

definition path_turn :: "client \<Rightarrow> sn_settings \<Rightarrow> int \<Rightarrow> int \<Rightarrow> query list \<Rightarrow> str \<Rightarrow> query list" where
  "path_turn http st days limit before p =
     (let exact = path_lookup st p True days limit; by_name = path_lookup st p False days limit
      in if truthy (answer http before exact) then [exact] else [exact, by_name])"

definition errors_known :: "client \<Rightarrow> sn_settings \<Rightarrow> int \<Rightarrow> int \<Rightarrow> query list \<Rightarrow> str \<Rightarrow> bool" where
  "errors_known http st days limit before p \<longleftrightarrow>
     (let exact = path_lookup st p True days limit; by_name = path_lookup st p False days limit
      in truthy (answer http before exact) \<or> truthy (answer http (before @ [exact]) by_name))"

lemma path_turn_scoped: "list_all (scoped st) (path_turn http st days limit before p)"
  by (simp add: path_turn_def path_lookup_scoped Let_def)

lemma shaped_found: "truthy raw \<Longrightarrow> shaped raw = Inr found \<Longrightarrow> found \<noteq> []"
  by (cases raw) (auto simp: shaped_def bindE_Inr_iff mapE_Inr_conv)

lemma look_up_turn:
  "snd (look_up http st days limit p tr) = tr @ path_turn http st days limit tr p"
  "fst (look_up http st days limit p tr) = Inr h \<Longrightarrow>
     ht_path h = p \<and> (ht_issues h \<noteq> [] \<longleftrightarrow> errors_known http st days limit tr p)"
  using shaped_found
  by (auto simp: look_up_def fetch_def path_turn_def errors_known_def answer_def Let_def bindE_Inr_iff
      split: if_splits)

text \<open>The requests of each path in turn, and of which paths a hit is kept.\<close>

definition in_turn :: "client \<Rightarrow> sn_settings \<Rightarrow> int \<Rightarrow> int \<Rightarrow> query list \<Rightarrow> str list \<Rightarrow> query list list \<Rightarrow> bool" where
  "in_turn http st days limit tr ps qss \<longleftrightarrow> length qss \<le> length ps \<and>
     (\<forall>j < length qss. qss ! j = path_turn http st days limit (tr @ concat (take j qss)) (ps ! j))"

definition some_known :: "client \<Rightarrow> sn_settings \<Rightarrow> int \<Rightarrow> int \<Rightarrow> query list \<Rightarrow> str list \<Rightarrow> query list list \<Rightarrow> str \<Rightarrow> bool" where
  "some_known http st days limit tr ps qss p \<longleftrightarrow>
     (\<exists>j < length qss. ps ! j = p \<and> errors_known http st days limit (tr @ concat (take j qss)) p)"

lemma in_turn_Cons:
  assumes "in_turn http st days limit (tr @ qs) ps qss" "qs = path_turn http st days limit tr p"
  shows "in_turn http st days limit tr (p # ps) (qs # qss)"
  using assms by (auto simp: in_turn_def nth_Cons' take_Cons')

lemma some_known_Cons:
  "some_known http st days limit tr (p # ps) (qs # qss) x \<longleftrightarrow>
     p = x \<and> errors_known http st days limit tr x \<or> some_known http st days limit (tr @ qs) ps qss x"
  by (auto simp: some_known_def less_Suc_eq_0_disj)

lemma look_up_all_turns:
  "\<exists>qss. snd (look_up_all http st days limit ps tr) = tr @ concat qss \<and> in_turn http st days limit tr ps qss \<and>
     (\<forall>hs. fst (look_up_all http st days limit ps tr) = Inr hs \<longrightarrow> length qss = length ps \<and>
        (\<forall>x. x \<in> ht_path ` set hs \<longleftrightarrow> some_known http st days limit tr ps qss x) \<and>
        (\<forall>h \<in> set hs. ht_issues h \<noteq> []))"
proof (induction ps arbitrary: tr)
  case Nil
  show ?case by (intro exI [of _ "[]"]) (simp add: in_turn_def some_known_def)
next
  case (Cons p ps)
  let ?qs = "path_turn http st days limit tr p"
  obtain r where l: "look_up http st days limit p tr = (r, tr @ ?qs)"
    using look_up_turn(1) [of http st days limit p tr] by (metis prod.collapse)
  show ?case
  proof (cases r)
    case (Inl e)
    have "in_turn http st days limit tr (p # ps) [?qs]" by (rule in_turn_Cons) (simp_all add: in_turn_def)
    with l Inl show ?thesis by (intro exI [of _ "[?qs]"]) simp
  next
    case (Inr h)
    have h: "ht_path h = p" "ht_issues h \<noteq> [] \<longleftrightarrow> errors_known http st days limit tr p"
      using look_up_turn(2) [of http st days limit p tr h] l Inr by simp_all
    from Cons [of "tr @ ?qs"] obtain qss where
      q: "snd (look_up_all http st days limit ps (tr @ ?qs)) = tr @ concat (?qs # qss)"
      "in_turn http st days limit (tr @ ?qs) ps qss"
      and hs: "\<forall>hs. fst (look_up_all http st days limit ps (tr @ ?qs)) = Inr hs \<longrightarrow> length qss = length ps \<and>
        (\<forall>x. x \<in> ht_path ` set hs \<longleftrightarrow> some_known http st days limit (tr @ ?qs) ps qss x) \<and> (\<forall>h \<in> set hs. ht_issues h \<noteq> [])"
      by auto
    obtain res tr2 where a: "look_up_all http st days limit ps (tr @ ?qs) = (res, tr2)"
      by (cases "look_up_all http st days limit ps (tr @ ?qs)") auto
    have "in_turn http st days limit tr (p # ps) (?qs # qss)" using in_turn_Cons [OF q(2) refl] .
    with l Inr a q(1) hs h show ?thesis
      by (intro exI [of _ "?qs # qss"]) (cases res; auto simp: some_known_Cons)
  qed
qed

text \<open>
  C30: A lookup over the paths of a pull request goes through at most twelve of them in order,
  and stops only at an exception; each is asked for by its exact name, and once more by its last
  part only if that came back empty, always inside its own organisation and projects. When it
  returns, a path is listed as clean exactly if no question about it brought anything, every other
  one is shown with at least one error, and a path beyond the twelfth is announced by \<open>truncated\<close>.
\<close>

theorem paths_accounted_for:
  assumes "issues_for_paths http st paths days limit = (res, tr)"
  shows "\<exists>qss. tr = concat qss \<and> list_all (scoped st) tr \<and> length qss \<le> length (take 12 paths) \<and>
    (\<forall>j < length qss. qss ! j = path_turn http st days limit (concat (take j qss)) (paths ! j)) \<and>
    (\<forall>r. res = Inr r \<longrightarrow> length qss = length (take 12 paths) \<and> pr_checked r = take 12 paths \<and>
       (pr_truncated r \<longleftrightarrow> 12 < length paths) \<and>
       (\<forall>p \<in> set (take 12 paths).
          (p \<in> set (pr_clean r) \<longleftrightarrow> (\<forall>j < length qss. paths ! j = p \<longrightarrow>
              \<not> errors_known http st days limit (concat (take j qss)) p)) \<and>
          (p \<in> set (pr_clean r)) \<noteq> (\<exists>h \<in> set (pr_with_errors r). ht_path h = p)) \<and>
       (\<forall>h \<in> set (pr_with_errors r). ht_issues h \<noteq> [] \<and> ht_path h \<in> set (take 12 paths)))"
proof -
  let ?asked = "take 12 paths"
  have m: "MAX_PATHS = 12" by (simp add: MAX_PATHS_def)
  from look_up_all_turns [of http st days limit ?asked "[]"] obtain qss where
    q: "snd (look_up_all http st days limit ?asked []) = concat qss" "in_turn http st days limit [] ?asked qss"
    and hs: "\<And>hs. fst (look_up_all http st days limit ?asked []) = Inr hs \<Longrightarrow> length qss = length ?asked \<and>
      (\<forall>x. x \<in> ht_path ` set hs \<longleftrightarrow> some_known http st days limit [] ?asked qss x) \<and> (\<forall>h \<in> set hs. ht_issues h \<noteq> [])"
    by auto
  have tr: "tr = concat qss"
    using assms q(1) by (auto simp: issues_for_paths_def m Let_def split: prod.splits sum.splits)
  have len: "length qss \<le> length ?asked" using q(2) by (simp add: in_turn_def)
  then have at: "?asked ! j = paths ! j" if "j < length qss" for j using that by simp
  have turns: "qss ! j = path_turn http st days limit (concat (take j qss)) (paths ! j)" if "j < length qss" for j
    using q(2) that at by (simp add: in_turn_def)
  have scoped: "list_all (scoped st) tr"
    unfolding tr by (simp add: list_all_iff) (metis in_set_conv_nth list_all_iff path_turn_scoped turns)
  have known: "some_known http st days limit [] ?asked qss p \<longleftrightarrow>
      (\<exists>j < length qss. paths ! j = p \<and> errors_known http st days limit (concat (take j qss)) p)" for p
    using at by (auto simp: some_known_def)
  have report: "length qss = length ?asked \<and> pr_checked r = ?asked \<and> (pr_truncated r \<longleftrightarrow> 12 < length paths) \<and>
      pr_clean r = filter (\<lambda>p. \<not> some_known http st days limit [] ?asked qss p) ?asked \<and>
      (\<forall>p. p \<in> ht_path ` set (pr_with_errors r) \<longleftrightarrow> some_known http st days limit [] ?asked qss p) \<and>
      (\<forall>h \<in> set (pr_with_errors r). ht_issues h \<noteq> [])" if "res = Inr r" for r
    using assms that hs by (auto simp: issues_for_paths_def m Let_def split: prod.splits sum.splits)
  have mem: "p \<in> set ?asked" if "some_known http st days limit [] ?asked qss p" for p
    using that len by (auto simp: some_known_def) (metis at len nth_mem order_less_le_trans)
  have sorted: "length qss = length ?asked \<and> pr_checked r = ?asked \<and> (pr_truncated r \<longleftrightarrow> 12 < length paths) \<and>
      (\<forall>p \<in> set ?asked. (p \<in> set (pr_clean r) \<longleftrightarrow> \<not> some_known http st days limit [] ?asked qss p) \<and>
         (p \<in> set (pr_clean r)) \<noteq> (\<exists>h \<in> set (pr_with_errors r). ht_path h = p)) \<and>
      (\<forall>h \<in> set (pr_with_errors r). ht_issues h \<noteq> [] \<and> ht_path h \<in> set ?asked)" if "res = Inr r" for r
  proof -
    note rep = report [OF that]
    have shown: "(\<exists>h \<in> set (pr_with_errors r). ht_path h = p) \<longleftrightarrow> some_known http st days limit [] ?asked qss p" for p
      using rep by (metis imageE imageI)
    have "ht_path h \<in> set ?asked" if "h \<in> set (pr_with_errors r)" for h
      using mem shown that by blast
    with rep shown show ?thesis by simp
  qed
  have clean: "\<not> some_known http st days limit [] ?asked qss p \<longleftrightarrow>
      (\<forall>j < length qss. paths ! j = p \<longrightarrow> \<not> errors_known http st days limit (concat (take j qss)) p)" for p
    unfolding known by blast
  show ?thesis
    using tr scoped len turns sorted [unfolded clean] by (intro exI [of _ qss]) blast
qed

section \<open>Frames\<close>

text \<open>
  Of the frames of an event at most \<open>limit\<close> are shown, the innermost first, and no library
  frame beside one of the application: when any frame is the application's, all that are
  shown are.
\<close>

theorem frames_shown:
  assumes "0 < limit" "all_frames event = Inr frames" "shape_frames event limit = Inr shown"
  shows "length shown \<le> limit \<and>
    (if \<exists>f \<in> set frames. fr_in_app f
     then (\<forall>f \<in> set shown. fr_in_app f) \<and> shown = take limit (rev (filter fr_in_app frames))
     else shown = take limit (rev frames))"
proof -
  have shown: "shown = chosen_frames limit frames" using assms(2,3) by (simp add: shape_frames_def)
  have rd: "rev (drop (length xs - limit) xs) = take limit (rev xs)" for xs :: "frame list"
    by (cases "limit \<le> length xs") (simp_all add: rev_drop)
  have "(\<exists>f \<in> set frames. fr_in_app f) \<longleftrightarrow> filter fr_in_app frames \<noteq> []"
    by (auto simp: filter_empty_conv)
  then have "shown = take limit (rev (if \<exists>f \<in> set frames. fr_in_app f then filter fr_in_app frames else frames))"
    using assms(1) by (simp add: shown chosen_frames_def Let_def rd)
  then show ?thesis by (auto dest!: in_set_takeD)
qed

section \<open>A count that is no integer\<close>

text \<open>\<open>1e999\<close> parses to an infinity, which \<open>int\<close> refuses with an exception \<open>_int\<close> does not catch.\<close>

lemma huge_count_raises:
  assumes "jget raw (lit ''count'') = Inr (JFloat PosInf)" shows "shape_issue raw = Inl OverflowError"
proof -
  from assms obtain kvs where "raw = JObj kvs" by (cases raw) auto
  with assms show ?thesis by (simp add: shape_issue_def int_or_zero_def)
qed

text \<open>
  One issue with such a count among the answers ends the whole lookup with an exception, for
  every path that was asked about, although the failure of a request does not.
\<close>

theorem huge_count_loses_answer:
  assumes "http [] (path_lookup st p True days limit) = Got (JList raws)"
    and "raw \<in> set raws" "jget raw (lit ''count'') = Inr (JFloat PosInf)"
  shows "\<exists>e tr. issues_for_paths http st (p # paths) days limit = (Inl e, tr)"
proof -
  have "shape_issue raw = Inl OverflowError" by (rule huge_count_raises) fact
  then have "\<exists>e. mapE shape_issue raws = Inl e" using assms(2) by (auto simp: mapE_Inl)
  then obtain e where e: "shaped (JList raws) = Inl e" by (auto simp: shaped_def)
  have "raws \<noteq> []" using assms(2) by auto
  with assms(1) e have "fst (look_up http st days limit p []) = Inl e"
    by (simp add: look_up_def fetch_def)
  then show ?thesis
    by (auto simp: issues_for_paths_def MAX_PATHS_def numeral_eq_Suc Let_def split: prod.splits)
qed

section \<open>Witnesses\<close>

definition sample_sn :: sn_settings where
  "sample_sn = \<lparr>sn_token = lit ''t'', sn_org = lit ''o'', sn_projects = [], sn_host = [], sn_port = 8080, sn_allowed_hosts = []\<rparr>"

definition sample_raw :: json where
  "sample_raw = JObj [(lit ''id'', JStr (lit ''1'')), (lit ''count'', JStr (lit ''7''))]"

definition sample_client :: client where
  "sample_client tr q = (if tr = [] then Got (JList [sample_raw]) else Status 404)"

definition sample_frames :: "frame list" where
  "sample_frames =
     [\<lparr>fr_filename = JNull, fr_function = JNull, fr_line = JInt 1, fr_in_app = True\<rparr>,
      \<lparr>fr_filename = JNull, fr_function = JNull, fr_line = JInt 2, fr_in_app = False\<rparr>]"

definition sample_event :: json where
  "sample_event =
     JObj [(lit ''entries'', JList [JObj [(lit ''type'', JStr (lit ''exception'')),
       (lit ''data'', JObj [(lit ''values'', JList [JObj [(lit ''stacktrace'', JObj [(lit ''frames'', JList
          [JObj [(lit ''lineNo'', JInt 1), (lit ''inApp'', JBool True)], JObj [(lit ''lineNo'', JInt 2)]])])]])])]])]"

theorem paths_accounted_for_witness:
  "\<exists>r tr. issues_for_paths sample_client sample_sn [lit ''a'', lit ''b''] 14 3 = (Inr r, tr) \<and>
     pr_checked r = [lit ''a'', lit ''b''] \<and> \<not> pr_truncated r"
proof -
  have "\<exists>out. shape_issue sample_raw = Inr out"
    by (auto simp: shape_issue_def sample_raw_def int_or_zero_def split: sum.splits option.splits)
  then obtain r tr where r: "issues_for_paths sample_client sample_sn [lit ''a'', lit ''b''] 14 3 = (Inr r, tr)"
    by (auto simp: issues_for_paths_def MAX_PATHS_def look_up_def fetch_def sample_client_def shaped_def)
  from paths_accounted_for [OF this] have "pr_checked r = [lit ''a'', lit ''b''] \<and> \<not> pr_truncated r" by auto
  with r show ?thesis by blast
qed

theorem frames_shown_witness: "shape_frames sample_event 8 = Inr (take 1 sample_frames)"
proof -
  have a: "all_frames sample_event = Inr sample_frames"
    by (simp add: all_frames_def entry_frames_def value_frames_def frame_of_def sample_event_def sample_frames_def
        jget_list_def jget_obj_def jor_def)
  then obtain shown where s: "shape_frames sample_event 8 = Inr shown" by (simp add: shape_frames_def)
  from frames_shown [OF _ a s] have "shown = take 8 (rev (filter fr_in_app sample_frames))"
    by (simp add: sample_frames_def)
  with s show ?thesis by (simp add: sample_frames_def)
qed

theorem huge_count_loses_answer_witness:
  "\<exists>e tr. issues_for_paths (\<lambda>tr q. Got (JList [JObj [(lit ''count'', JFloat PosInf)]])) sample_sn [lit ''a''] 14 3 = (Inl e, tr)"
  by (rule huge_count_loses_answer [where raw = "JObj [(lit ''count'', JFloat PosInf)]"]) auto

end
