(* ===== verification/Github.thy ===== *)
theory Github
  imports Config "HOL-Library.List_Lexorder"
begin

text \<open>
  What the program makes of GitHub's answers (\<open>src/robbie/github.py\<close>): pull-request and
  issue metadata, review threads and their paging, the standing rejection, and the
  bucketing of a commit's checks that both the gate and the prompt read. The \<open>gh\<close>
  process is in theory \<open>Gh\<close>: here each function takes the decoded answer. A value whose
  type differs from the one the API documents is a \<open>TypeError\<close> here at the read, where
  Python would carry it to its first use.
\<close>

section \<open>Records\<close>

text \<open>
  One entry of \<open>statusCheckRollup\<close>; an absent or null field is the empty string, which
  every \<open>or\<close> of the code treats alike.
\<close>

record check =
  ck_context :: str
  ck_name :: str
  ck_state :: str
  ck_conclusion :: str
  ck_status :: str

record pr_meta =
  pm_number :: int
  pm_title :: str
  pm_url :: str
  pm_author :: str
  pm_head_sha :: str
  pm_changed_files :: int
  pm_labels :: "str list"
  pm_checks :: "check list"
  pm_base_ref :: str
  pm_state :: str

definition has_label :: "pr_meta \<Rightarrow> str \<Rightarrow> bool" where
  "has_label m n \<longleftrightarrow> n \<in> set (pm_labels m)"

record issue_meta =
  im_number :: int
  im_title :: str
  im_url :: str
  im_author :: str
  im_body :: str
  im_labels :: "str list"
  im_state :: str

record thread =
  th_path :: str
  th_line :: "int option"
  th_resolved :: bool
  th_outdated :: bool
  th_mine :: str
  th_replies :: "(str \<times> str) list"
  th_node_id :: str
  th_comment_id :: int
  th_mine_is_last :: bool

definition live :: "thread \<Rightarrow> bool" where
  "live t \<longleftrightarrow> \<not> th_resolved t \<and> \<not> th_outdated t"

definition awaiting_author :: "thread \<Rightarrow> bool" where
  "awaiting_author t \<longleftrightarrow> live t \<and> th_mine_is_last t"

definition answered :: "thread \<Rightarrow> bool" where
  "answered t \<longleftrightarrow> \<not> th_resolved t \<and> \<not> th_mine_is_last t"

record pr_threads =
  pt_state :: str
  pt_threads :: "thread list"

section \<open>Reading fields\<close>

text \<open>\<open>data.get(k) or d\<close> for a field documented as a string.\<close>

definition jstr :: "json \<Rightarrow> string \<Rightarrow> str \<Rightarrow> str res" where
  "jstr j k d =
     bindE (jget j (lit k)) (\<lambda>v.
       case v of
         JStr s \<Rightarrow> Inr (if s = [] then d else s)
       | _ \<Rightarrow> if truthy v then Inl TypeError else Inr d)"

text \<open>\<open>(data.get("author") or {}).get("login")\<close>\<close>

definition login_of :: "json \<Rightarrow> json res" where
  "login_of j = bindE (jget_obj j (lit ''author'')) (\<lambda>a. jget a (lit ''login''))"

definition author_or :: "json \<Rightarrow> str \<Rightarrow> str res" where
  "author_or j d =
     bindE (login_of j) (\<lambda>v.
       case v of
         JStr s \<Rightarrow> Inr (if s = [] then d else s)
       | _ \<Rightarrow> if truthy v then Inl TypeError else Inr d)"

definition names_of :: "json \<Rightarrow> str list res" where
  "names_of j =
     bindE (jget_list j (lit ''labels'')) (\<lambda>ls. bindE (jiter ls) (\<lambda>xs.
       mapE (\<lambda>l. bindE (jitem l (lit ''name'')) (\<lambda>v.
         case v of JStr s \<Rightarrow> Inr s | _ \<Rightarrow> Inl TypeError)) xs))"

definition check_of_json :: "json \<Rightarrow> check res" where
  "check_of_json j =
     bindE (jstr j ''context'' []) (\<lambda>c. bindE (jstr j ''name'' []) (\<lambda>n.
     bindE (jstr j ''state'' []) (\<lambda>s. bindE (jstr j ''conclusion'' []) (\<lambda>k.
     bindE (jstr j ''status'' []) (\<lambda>u.
       Inr \<lparr>ck_context = c, ck_name = n, ck_state = s, ck_conclusion = k, ck_status = u\<rparr>)))))"

text \<open>The end of \<open>pr_meta\<close>: an empty answer is an error, never a blank pull request.\<close>

definition pr_meta_of_json :: "json \<Rightarrow> pr_meta res" where
  "pr_meta_of_json data =
     (if \<not> truthy data then Inl (GhError (lit ''could not fetch''))
      else
        bindE (jstr data ''baseRefName'' (lit ''main'')) (\<lambda>base.
        bindE (jstr data ''state'' (lit ''OPEN'')) (\<lambda>state.
        bindE (bindE (jitem data (lit ''number'')) py_int) (\<lambda>number.
        bindE (jstr data ''title'' []) (\<lambda>title.
        bindE (jstr data ''url'' []) (\<lambda>url.
        bindE (author_or data (lit ''someone'')) (\<lambda>author.
        bindE (jstr data ''headRefOid'' []) (\<lambda>sha.
        bindE (bindE (jget data (lit ''changedFiles'')) (\<lambda>v. py_int (jor v (JInt 0)))) (\<lambda>files.
        bindE (names_of data) (\<lambda>labels.
        bindE (bindE (jget_list data (lit ''statusCheckRollup'')) jiter) (\<lambda>rollup.
        bindE (mapE check_of_json rollup) (\<lambda>checks.
          Inr \<lparr>pm_number = number, pm_title = title, pm_url = url, pm_author = author,
               pm_head_sha = sha, pm_changed_files = files, pm_labels = labels,
               pm_checks = checks, pm_base_ref = base, pm_state = state\<rparr>))))))))))))"

definition issue_meta_of_json :: "json \<Rightarrow> issue_meta res" where
  "issue_meta_of_json data =
     (if \<not> truthy data then Inl (GhError (lit ''could not fetch''))
      else
        bindE (bindE (jitem data (lit ''number'')) py_int) (\<lambda>number.
        bindE (jstr data ''title'' []) (\<lambda>title.
        bindE (jstr data ''url'' []) (\<lambda>url.
        bindE (author_or data (lit ''someone'')) (\<lambda>author.
        bindE (jstr data ''body'' []) (\<lambda>body.
        bindE (names_of data) (\<lambda>labels.
        bindE (jstr data ''state'' (lit ''OPEN'')) (\<lambda>state.
          Inr \<lparr>im_number = number, im_title = title, im_url = url, im_author = author,
               im_body = body, im_labels = labels, im_state = state\<rparr>))))))))"

text \<open>\<open>queue\<close>, \<open>authored\<close> and \<open>issue_queue\<close>: \<open>[int(r["number"]) for r in rows or []]\<close>.\<close>

definition numbers_of :: "json \<Rightarrow> int list res" where
  "numbers_of rows =
     bindE (jiter (jor rows (JList []))) (\<lambda>rs.
       mapE (\<lambda>r. bindE (jitem r (lit ''number'')) py_int) rs)"

definition QUEUE_LIMIT :: nat where "QUEUE_LIMIT = 200"

text \<open>\<open>issue_queue\<close> refuses an empty label set before it asks GitHub anything.\<close>

definition issue_queue_of :: "str list \<Rightarrow> json res \<Rightarrow> int list res" where
  "issue_queue_of labels answer =
     (if labels = [] then Inl (GhError (lit ''issue_queue: at least one label''))
      else bindE answer numbers_of)"

text \<open>\<open>last_review_request\<close>: the last nonblank line, or the sentinel \<open>norq\<close>.\<close>

definition last_review_request :: "str \<Rightarrow> str" where
  "last_review_request raw =
     last_or (lit ''norq'') (filter (\<lambda>l. strip l \<noteq> []) (splitlines raw))"

text \<open>\<open>fixing_prs\<close>: open or merged closing references.\<close>

definition fixing_prs_of_json :: "json \<Rightarrow> str list res" where
  "fixing_prs_of_json data =
     bindE (jget_obj (jor data (JObj [])) (lit ''data'')) (\<lambda>d.
     bindE (jget_obj d (lit ''repository'')) (\<lambda>r.
     bindE (jget_obj r (lit ''issue'')) (\<lambda>issue.
     bindE (jget_obj issue (lit ''closedByPullRequestsReferences'')) (\<lambda>refs.
     bindE (bindE (jget_list refs (lit ''nodes'')) jiter) (\<lambda>nodes.
       bindE (mapE (\<lambda>n.
         if \<not> truthy n then Inr None
         else bindE (jstr n ''url'' []) (\<lambda>url. bindE (jget n (lit ''state'')) (\<lambda>st.
                Inr (if url \<noteq> [] \<and> (eq_str st (lit ''OPEN'') \<or> eq_str st (lit ''MERGED''))
                     then Some url else None)))) nodes)
       (\<lambda>us. Inr (List.map_filter id us)))))))"

section \<open>Review threads\<close>

definition reply_of_json :: "json \<Rightarrow> (str \<times> str) res" where
  "reply_of_json c =
     bindE (author_or c (lit ''?'')) (\<lambda>who. bindE (jstr c ''body'' []) (\<lambda>body. Inr (who, body)))"

text \<open>
  One node of \<open>reviewThreads\<close>: \<open>None\<close> for a thread without comments or one the reviewer
  did not open.
\<close>

definition thread_of_node :: "str \<Rightarrow> json \<Rightarrow> thread option res" where
  "thread_of_node reviewer node =
     bindE (jget_obj node (lit ''comments'')) (\<lambda>conn.
     bindE (bindE (jget_list conn (lit ''nodes'')) jiter) (\<lambda>comments.
       case comments of
         [] \<Rightarrow> Inr None
       | first # rest \<Rightarrow>
           bindE (login_of first) (\<lambda>who.
           if \<not> eq_str who reviewer then Inr None
           else
             bindE (jstr node ''path'' (lit ''?'')) (\<lambda>path.
             bindE (jget node (lit ''line'')) (\<lambda>line.
             bindE (jget node (lit ''isResolved'')) (\<lambda>resolved.
             bindE (jget node (lit ''isOutdated'')) (\<lambda>outdated.
             bindE (jstr first ''body'' []) (\<lambda>mine.
             bindE (mapE reply_of_json rest) (\<lambda>replies.
             bindE (jstr node ''id'' []) (\<lambda>node_id.
             bindE (bindE (jget first (lit ''databaseId'')) (\<lambda>v. py_int (jor v (JInt 0)))) (\<lambda>cid.
             bindE (login_of (last comments)) (\<lambda>lastwho.
               Inr (Some \<lparr>th_path = path, th_line = as_int line, th_resolved = truthy resolved,
                     th_outdated = truthy outdated, th_mine = mine, th_replies = replies,
                     th_node_id = node_id, th_comment_id = cid,
                     th_mine_is_last = eq_str lastwho reviewer\<rparr>)))))))))))))"

text \<open>One page: its state, its nodes, and the cursor of the next page if there is one.\<close>

definition read_page :: "json \<Rightarrow> (str \<times> json list \<times> str option) res" where
  "read_page data =
     bindE (jget_obj (jor data (JObj [])) (lit ''data'')) (\<lambda>d.
     bindE (jget_obj d (lit ''repository'')) (\<lambda>r.
     bindE (jget_obj r (lit ''pullRequest'')) (\<lambda>pull.
     bindE (jstr pull ''state'' []) (\<lambda>state.
     bindE (jget_obj pull (lit ''reviewThreads'')) (\<lambda>conn.
     bindE (bindE (jget_list conn (lit ''nodes'')) jiter) (\<lambda>nodes.
     bindE (jget_obj conn (lit ''pageInfo'')) (\<lambda>page.
     bindE (jget page (lit ''hasNextPage'')) (\<lambda>more.
     if \<not> truthy more then Inr (state, nodes, None)
     else bindE (jstr page ''endCursor'' []) (\<lambda>cur.
       Inr (state, nodes, if cur = [] then None else Some cur))))))))))"

text \<open>
  The \<open>while True\<close> of \<open>my_threads\<close>. \<open>ask\<close> is the query at a cursor; a server that never
  stops offering a next page is the value \<open>None\<close>.
\<close>

partial_function (option) page_loop ::
  "(str option \<Rightarrow> json res) \<Rightarrow> str option \<Rightarrow> json list \<Rightarrow> (exn + str \<times> json list) option" where
  "page_loop ask after nodes =
     (case bindE (ask after) read_page of
        Inl e \<Rightarrow> Some (Inl e)
      | Inr p \<Rightarrow>
          (case snd (snd p) of
             None \<Rightarrow> Some (Inr (fst p, nodes @ fst (snd p)))
           | Some c \<Rightarrow> page_loop ask (Some c) (nodes @ fst (snd p))))"

definition threads_of_nodes :: "str \<Rightarrow> str \<times> json list \<Rightarrow> pr_threads res" where
  "threads_of_nodes reviewer p =
     bindE (mapE (thread_of_node reviewer) (snd p))
       (\<lambda>ts. Inr \<lparr>pt_state = fst p, pt_threads = List.map_filter id ts\<rparr>)"

definition my_threads :: "(str option \<Rightarrow> json res) \<Rightarrow> str \<Rightarrow> pr_threads res option" where
  "my_threads ask reviewer =
     map_option (\<lambda>r. bindE r (threads_of_nodes reviewer)) (page_loop ask None [])"

text \<open>A chain of pages: each cursor leads to the next, and the last page has none.\<close>

fun page_chain :: "(str option \<Rightarrow> json res) \<Rightarrow> str option \<Rightarrow> (str \<times> json list) list \<Rightarrow> bool" where
  "page_chain ask after [] = False"
| "page_chain ask after [p] = (bindE (ask after) read_page = Inr (fst p, snd p, None))"
| "page_chain ask after (p # q # ps) =
     (\<exists>c. bindE (ask after) read_page = Inr (fst p, snd p, Some c) \<and> page_chain ask (Some c) (q # ps))"

lemma page_loop_chain:
  "page_chain ask after ps \<Longrightarrow>
   page_loop ask after nodes = Some (Inr (fst (last ps), nodes @ concat (map snd ps)))"
proof (induction ps arbitrary: after nodes rule: induct_list012)
  case (2 p)
  then show ?case by (subst page_loop.simps) simp
next
  case (3 p q ps)
  then obtain c where c: "bindE (ask after) read_page = Inr (fst p, snd p, Some c)"
    "page_chain ask (Some c) (q # ps)" by auto
  with "3.IH"(2) [OF c(2)] show ?case by (subst page_loop.simps) simp
qed simp

section \<open>Standing rejection, labelled heads, the CI phrase\<close>

definition rejection_node :: "str \<Rightarrow> json \<Rightarrow> bool res" where
  "rejection_node reviewer node =
     (if \<not> truthy node then Inr False
      else bindE (jget node (lit ''state'')) (\<lambda>st.
        if \<not> eq_str st (lit ''CHANGES_REQUESTED'') then Inr False
        else bindE (login_of node) (\<lambda>who. Inr (eq_str (jor who (JStr [])) reviewer))))"

fun first_rejection :: "str \<Rightarrow> json list \<Rightarrow> str option res" where
  "first_rejection reviewer [] = Inr None"
| "first_rejection reviewer (n # ns) =
     bindE (rejection_node reviewer n) (\<lambda>hit.
       if hit then bindE (jstr n ''id'' []) (\<lambda>i. Inr (if i = [] then None else Some i))
       else first_rejection reviewer ns)"

definition standing_rejection_of_json :: "str \<Rightarrow> json \<Rightarrow> str option res" where
  "standing_rejection_of_json reviewer data =
     bindE (jget_obj (jor data (JObj [])) (lit ''data'')) (\<lambda>d.
     bindE (jget_obj d (lit ''repository'')) (\<lambda>r.
     bindE (jget_obj r (lit ''pullRequest'')) (\<lambda>pull.
     bindE (jget_obj pull (lit ''latestOpinionatedReviews'')) (\<lambda>revs.
     bindE (bindE (jget_list revs (lit ''nodes'')) jiter) (first_rejection reviewer)))))"

record labeled_pr =
  lp_head :: str
  lp_labels :: "str list"

definition labeled_row :: "json \<Rightarrow> (int \<times> labeled_pr) res" where
  "labeled_row r =
     bindE (bindE (jitem r (lit ''number'')) py_int) (\<lambda>n.
     bindE (jstr r ''headRefOid'' []) (\<lambda>head.
     bindE (bindE (jget_list r (lit ''labels'')) jiter) (\<lambda>ls.
     bindE (mapE (\<lambda>l. jstr l ''name'' []) ls) (\<lambda>names.
       Inr (n, \<lparr>lp_head = head, lp_labels = names\<rparr>)))))"

definition labeled_heads_of_json :: "json \<Rightarrow> (int, labeled_pr) dict res" where
  "labeled_heads_of_json rows =
     bindE (jiter (jor rows (JList []))) (\<lambda>rs.
     bindE (mapE labeled_row rs) (\<lambda>kvs. Inr (foldl (\<lambda>d kv. dset (fst kv) (snd kv) d) [] kvs)))"

text \<open>\<open>ci_already_asked\<close>: \<open>since\<close> is the commit date, \<open>bodies\<close> the comments after it.\<close>

definition phrase_posted :: "str \<Rightarrow> str \<Rightarrow> str list \<Rightarrow> bool" where
  "phrase_posted since phrase bodies \<longleftrightarrow>
     strip since \<noteq> [] \<and> (\<exists>b \<in> set bodies. strip b = phrase)"

section \<open>Checks\<close>

record check_summary =
  cs_passing :: "str list"
  cs_failing :: "str list"
  cs_running :: "str list"
  cs_other :: "str list"

definition CHECK_NAME_CAP :: nat where "CHECK_NAME_CAP = 120"

definition one_line :: "str \<Rightarrow> str" where
  "one_line name =
     (let flat = join [32] (split_ws name)
      in if length flat \<le> CHECK_NAME_CAP then flat else take CHECK_NAME_CAP flat @ [8230])"

definition check_name :: "check \<Rightarrow> str" where
  "check_name c =
     one_line (if ck_context c \<noteq> [] then ck_context c
               else if ck_name c \<noteq> [] then ck_name c else lit ''check'')"

definition FAILED :: "str list" where
  "FAILED = map lit [''FAILURE'', ''ERROR'', ''TIMED_OUT'', ''STARTUP_FAILURE'', ''ACTION_REQUIRED'']"

definition PENDING :: "str list" where
  "PENDING = map lit [''PENDING'', ''EXPECTED'', ''IN_PROGRESS'', ''QUEUED'', ''WAITING'']"

definition check_state :: "check \<Rightarrow> str" where
  "check_state c = upper (if ck_state c \<noteq> [] then ck_state c else ck_conclusion c)"

definition check_status :: "check \<Rightarrow> str" where
  "check_status c = upper (ck_status c)"

datatype bucket = Passing | Failing | Running | Other

text \<open>The \<open>if\<close>/\<open>elif\<close> chain of \<open>summarize_checks\<close>.\<close>

definition bucket_of :: "check \<Rightarrow> bucket" where
  "bucket_of c =
     (if check_state c = lit ''SUCCESS'' then Passing
      else if check_state c \<in> set FAILED then Failing
      else if check_state c \<in> set PENDING \<or> (check_state c = [] \<and> check_status c \<in> set PENDING)
           then Running
      else Other)"

definition other_name :: "check \<Rightarrow> str" where
  "other_name c =
     check_name c @ [61] @
       (if check_state c \<noteq> [] then check_state c
        else if check_status c \<noteq> [] then check_status c else [63])"

definition in_bucket :: "bucket \<Rightarrow> check list \<Rightarrow> check list" where
  "in_bucket b cs = filter (\<lambda>c. bucket_of c = b) cs"

text \<open>\<open>tuple(sorted(set(xs)))\<close>\<close>

definition sorted_set :: "str list \<Rightarrow> str list" where
  "sorted_set xs = sort (remdups xs)"

definition summarize_checks :: "pr_meta \<Rightarrow> check_summary" where
  "summarize_checks m =
     \<lparr>cs_passing = sorted_set (map check_name (in_bucket Passing (pm_checks m))),
      cs_failing = sorted_set (map check_name (in_bucket Failing (pm_checks m))),
      cs_running = sorted_set (map check_name (in_bucket Running (pm_checks m))),
      cs_other = sorted_set (map other_name (in_bucket Other (pm_checks m)))\<rparr>"

definition summary_empty :: "check_summary \<Rightarrow> bool" where
  "summary_empty s \<longleftrightarrow> cs_passing s = [] \<and> cs_failing s = [] \<and> cs_running s = [] \<and> cs_other s = []"

definition as_prompt :: "check_summary \<Rightarrow> str" where
  "as_prompt s =
     (if summary_empty s then lit ''No CI checks are reporting on this commit.''
      else join (lit '' '' @ [183] @ lit '' '')
        ((if cs_passing s = [] then []
          else [lit ''passing ('' @ show_nat (length (cs_passing s)) @ lit ''): ''
                @ join (lit '', '') (cs_passing s)])
         @ (if cs_running s = [] then []
            else [lit ''STILL RUNNING: '' @ join (lit '', '') (cs_running s)])
         @ (if cs_failing s = [] then []
            else [lit ''FAILING: '' @ join (lit '', '') (cs_failing s)])
         @ (if cs_other s = [] then []
            else [lit ''neutral/skipped: '' @ join (lit '', '') (cs_other s)])))"

definition ci_started :: "pr_meta \<Rightarrow> str list \<Rightarrow> bool" where
  "ci_started m ignore \<longleftrightarrow> (\<exists>c \<in> set (pm_checks m). check_name c \<notin> set ignore)"

datatype ci_result = Green | Red | Waiting

definition kept :: "str list \<Rightarrow> str list \<Rightarrow> str list" where
  "kept ignore names = filter (\<lambda>n. n \<notin> set ignore) names"

definition ci_outcome :: "pr_meta \<Rightarrow> str list \<Rightarrow> ci_result" where
  "ci_outcome m ignore =
     (let s = summarize_checks m in
      if kept ignore (cs_failing s) \<noteq> [] then Red
      else if kept ignore (cs_running s) \<noteq> [] \<or> kept ignore (cs_passing s) = [] then Waiting
      else Green)"

definition failing_checks :: "pr_meta \<Rightarrow> str list \<Rightarrow> str list" where
  "failing_checks m ignore = kept ignore (cs_failing (summarize_checks m))"

lemma set_sorted_set [simp]: "set (sorted_set xs) = set xs"
  by (simp add: sorted_set_def)

lemma sorted_sorted_set: "sorted (sorted_set xs) \<and> distinct (sorted_set xs)"
  by (simp add: sorted_set_def)

lemma sorted_set_Nil_iff [simp]: "sorted_set xs = [] \<longleftrightarrow> xs = []"
  by (metis set_empty set_sorted_set)

lemma kept_Nil_iff: "kept ignore ns = [] \<longleftrightarrow> set ns \<subseteq> set ignore"
  by (auto simp: kept_def filter_empty_conv)

lemma set_in_bucket: "c \<in> set (in_bucket b cs) \<longleftrightarrow> c \<in> set cs \<and> bucket_of c = b"
  by (auto simp: in_bucket_def)

lemma failing_checks_mem:
  "n \<in> set (failing_checks m ignore) \<longleftrightarrow>
   n \<notin> set ignore \<and> (\<exists>c \<in> set (pm_checks m). bucket_of c = Failing \<and> check_name c = n)"
  by (auto simp: failing_checks_def kept_def summarize_checks_def set_in_bucket image_iff)

lemma failing_checks_Nil_iff:
  "failing_checks m ignore = [] \<longleftrightarrow>
   (\<forall>c \<in> set (pm_checks m). bucket_of c = Failing \<longrightarrow> check_name c \<in> set ignore)"
  by (auto simp: failing_checks_def kept_Nil_iff summarize_checks_def set_in_bucket image_subset_iff)

text \<open>A check's name reaches a prompt on one line, whatever the pull request called it.\<close>

lemma one_line_no_break: "c \<in> set (one_line n) \<Longrightarrow> \<not> is_linebreak c"
proof -
  have flat: "\<not> is_linebreak d" if "d \<in> set (join [32] (split_ws n))" for d
  proof -
    from that have "d = 32 \<or> (\<exists>w \<in> set (split_ws n). d \<in> set w)"
      using set_join_subset [of "[32]" "split_ws n"] by auto
    then show ?thesis
      using split_ws_no_space linebreak_is_space by (auto simp: is_linebreak_def)
  qed
  assume "c \<in> set (one_line n)"
  then have "c = 8230 \<or> c \<in> set (join [32] (split_ws n))"
    by (auto simp: one_line_def Let_def split: if_splits dest: in_set_takeD)
  with flat show ?thesis by (auto simp: is_linebreak_def)
qed

lemma length_one_line: "length (one_line n) \<le> CHECK_NAME_CAP + 1"
  by (simp add: one_line_def Let_def)

section \<open>A sample pull request\<close>

text \<open>Used by the witnesses: an open pull request with two files, no label and no check.\<close>

definition sample_meta :: pr_meta where
  "sample_meta =
     \<lparr>pm_number = 7, pm_title = lit ''Add widgets'', pm_url = lit ''u'', pm_author = lit ''dev'',
      pm_head_sha = lit ''abc'', pm_changed_files = 2, pm_labels = [], pm_checks = [],
      pm_base_ref = lit ''main'', pm_state = lit ''OPEN''\<rparr>"

definition sample_thread :: thread where
  "sample_thread =
     \<lparr>th_path = lit ''a.rb'', th_line = Some 3, th_resolved = False, th_outdated = False,
      th_mine = lit ''guard it'', th_replies = [(lit ''dev'', lit ''why'')], th_node_id = lit ''T1'',
      th_comment_id = 11, th_mine_is_last = False\<rparr>"

end
