(* ===== verification/Gates.thy ===== *)
theory Gates
  imports Github
begin

text \<open>
  The review policy (\<open>src/robbie/gates.py\<close>): what to do with one pull request, as a pure
  function of data already fetched. The lemmas give the exact condition of every branch;
  the properties say when a review may start, which holds leave a record, and that two
  different requests never share a dedup key.
\<close>

section \<open>Decisions\<close>

text \<open>The values of the \<open>state\<close> column of a review row.\<close>

datatype review_state = RvRunning | RvPublished | RvHeld | RvFailed

datatype action = Review | Skip | Hold | Ci_note

record decision =
  dc_action :: action
  dc_reason :: str
  dc_dm :: "str option"
  dc_record :: bool
  dc_checks :: "str list"

text \<open>\<open>Decision(action, reason)\<close> with the dataclass defaults.\<close>

definition mk_decision :: "action \<Rightarrow> str \<Rightarrow> decision" where
  "mk_decision a r =
     \<lparr>dc_action = a, dc_reason = r, dc_dm = None, dc_record = True, dc_checks = []\<rparr>"

definition label_hold :: "pr_meta \<Rightarrow> repo_config \<Rightarrow> decision option" where
  "label_hold m rc =
     map_option (\<lambda>n. (mk_decision Hold (n @ lit '' still on''))\<lparr>dc_record := False\<rparr>)
       (find_first (has_label m) (brake_labels rc))"

definition done_label :: "pr_meta \<Rightarrow> repo_config \<Rightarrow> str option" where
  "done_label m rc = find_first (has_label m) (rc_done_labels rc)"

definition already_judged :: "review_state option \<Rightarrow> decision option" where
  "already_judged st =
     (if st = Some RvPublished \<or> st = Some RvHeld
      then Some (mk_decision Skip (lit ''already judged at this commit and request'')) else None)"

section \<open>The gate\<close>

definition pr_link :: "pr_meta \<Rightarrow> repo_config \<Rightarrow> str" where
  "pr_link m rc =
     lit ''<'' @ pm_url m @ lit ''|'' @ rc_slug rc @ lit ''#'' @ show_int (pm_number m) @ lit ''> ''
     @ [8212] @ lit '' '' @ take 70 (pm_title m) @ lit '' '' @ [8212]"

definition rerequest_dm :: "pr_meta \<Rightarrow> repo_config \<Rightarrow> nat \<Rightarrow> str" where
  "rerequest_dm m rc open_threads =
     lit ''*'' @ pm_author m @ lit ''* asked for a review again on '' @ pr_link m rc
     @ lit '' but the head commit hasn't moved since my last pass, so there's no new code for me to judge. ''
     @ (if open_threads > 0
        then show_nat open_threads @ lit '' of my comments there are still open with no reply ''
             @ [8212] @ lit '' my read is they want to talk one of them through.''
        else lit ''nothing of mine is left open there either, so I can't tell what changed for them.'')
     @ lit '' Over to you.''"

definition unanswered_dm :: "pr_meta \<Rightarrow> repo_config \<Rightarrow> nat \<Rightarrow> str" where
  "unanswered_dm m rc open_threads =
     lit ''*'' @ pm_author m @ lit ''* pushed to '' @ pr_link m rc @ lit '' but '' @ show_nat open_threads
     @ lit '' of my review comments are still open there with no reply, fix or resolve. I'm holding my pass while the ball is in their court; it comes back on its own the moment they answer. ''
     @ lit ''(`robbie once --repo '' @ rc_slug rc @ lit '' --pr '' @ show_int (pm_number m)
     @ lit ''` to force it.)''"

definition evaluate :: "pr_meta \<Rightarrow> repo_config \<Rightarrow> bool \<Rightarrow> nat \<Rightarrow> decision" where
  "evaluate m rc sha_judged open_threads =
     (case label_hold m rc of
        Some held \<Rightarrow> held
      | None \<Rightarrow>
          if pm_changed_files m = 0 then mk_decision Hold (lit ''changes no files'')
          else if sha_judged then
            (mk_decision Hold (lit ''nothing new pushed''))\<lparr>dc_dm := Some (rerequest_dm m rc open_threads)\<rparr>
          else if open_threads > 0 then
            (mk_decision Hold (show_nat open_threads @ lit '' of my comments unanswered''))
              \<lparr>dc_dm := Some (unanswered_dm m rc open_threads), dc_record := False\<rparr>
          else
            (let red = failing_checks m (rc_ignore_checks rc) in
             if red \<noteq> [] then
               (mk_decision Ci_note (lit ''ci red ('' @ join (lit '', '') red @ lit '')''))
                 \<lparr>dc_record := False, dc_checks := red\<rparr>
             else mk_decision Review []))"

definition dedup_key :: "str \<Rightarrow> int \<Rightarrow> str \<Rightarrow> str \<Rightarrow> str" where
  "dedup_key repo pr head_sha requested_at =
     repo @ [58] @ show_int pr @ [58] @ head_sha @ [58] @ requested_at"

section \<open>Branch lemmas\<close>

definition braked :: "pr_meta \<Rightarrow> repo_config \<Rightarrow> bool" where
  "braked m rc \<longleftrightarrow> (\<exists>n \<in> set (brake_labels rc). has_label m n)"

lemma label_hold_None_iff: "label_hold m rc = None \<longleftrightarrow> \<not> braked m rc"
  by (simp add: label_hold_def braked_def find_first_None_iff)

lemma label_hold_Some:
  "label_hold m rc = Some d \<Longrightarrow> dc_action d = Hold \<and> \<not> dc_record d \<and> dc_dm d = None"
  by (auto simp: label_hold_def mk_decision_def)

lemma done_label_iff: "done_label m rc = None \<longleftrightarrow> (\<forall>n \<in> set (rc_done_labels rc). \<not> has_label m n)"
  by (simp add: done_label_def find_first_None_iff)

lemma already_judged_iff: "already_judged st = None \<longleftrightarrow> st \<noteq> Some RvPublished \<and> st \<noteq> Some RvHeld"
  by (auto simp: already_judged_def)

lemma already_judged_Skip: "already_judged st = Some d \<Longrightarrow> dc_action d = Skip"
  by (auto simp: already_judged_def mk_decision_def split: if_splits)

lemma evaluate_brake: "label_hold m rc = Some d \<Longrightarrow> evaluate m rc j n = d"
  by (simp add: evaluate_def)

lemma evaluate_empty:
  "\<not> braked m rc \<Longrightarrow> pm_changed_files m = 0 \<Longrightarrow>
   evaluate m rc j n = mk_decision Hold (lit ''changes no files'')"
  by (simp add: evaluate_def flip: label_hold_None_iff)

lemma evaluate_judged:
  "\<not> braked m rc \<Longrightarrow> pm_changed_files m \<noteq> 0 \<Longrightarrow>
   evaluate m rc True n =
     (mk_decision Hold (lit ''nothing new pushed''))\<lparr>dc_dm := Some (rerequest_dm m rc n)\<rparr>"
  by (simp add: evaluate_def flip: label_hold_None_iff)

lemma evaluate_threads:
  "\<not> braked m rc \<Longrightarrow> pm_changed_files m \<noteq> 0 \<Longrightarrow> n > 0 \<Longrightarrow>
   evaluate m rc False n =
     (mk_decision Hold (show_nat n @ lit '' of my comments unanswered''))
       \<lparr>dc_dm := Some (unanswered_dm m rc n), dc_record := False\<rparr>"
  by (simp add: evaluate_def flip: label_hold_None_iff)

lemma evaluate_red:
  "\<not> braked m rc \<Longrightarrow> pm_changed_files m \<noteq> 0 \<Longrightarrow> failing_checks m (rc_ignore_checks rc) \<noteq> [] \<Longrightarrow>
   evaluate m rc False 0 =
     (mk_decision Ci_note
        (lit ''ci red ('' @ join (lit '', '') (failing_checks m (rc_ignore_checks rc)) @ lit '')''))
       \<lparr>dc_record := False, dc_checks := failing_checks m (rc_ignore_checks rc)\<rparr>"
  by (simp add: evaluate_def Let_def flip: label_hold_None_iff)

lemma evaluate_review:
  "\<not> braked m rc \<Longrightarrow> pm_changed_files m \<noteq> 0 \<Longrightarrow> failing_checks m (rc_ignore_checks rc) = [] \<Longrightarrow>
   evaluate m rc False 0 = mk_decision Review []"
  by (simp add: evaluate_def Let_def flip: label_hold_None_iff)

lemma evaluate_cases:
  obtains (brake) "braked m rc" "label_hold m rc = Some (evaluate m rc j n)"
    "dc_action (evaluate m rc j n) = Hold" "\<not> dc_record (evaluate m rc j n)"
  | (empty) "\<not> braked m rc" "pm_changed_files m = 0" "dc_action (evaluate m rc j n) = Hold"
    "dc_record (evaluate m rc j n)"
  | (judged) "\<not> braked m rc" "pm_changed_files m \<noteq> 0" "j" "dc_action (evaluate m rc j n) = Hold"
    "dc_record (evaluate m rc j n)"
  | (threads) "\<not> braked m rc" "pm_changed_files m \<noteq> 0" "\<not> j" "n > 0"
    "dc_action (evaluate m rc j n) = Hold" "\<not> dc_record (evaluate m rc j n)"
  | (red) "\<not> braked m rc" "pm_changed_files m \<noteq> 0" "\<not> j" "n = 0"
    "failing_checks m (rc_ignore_checks rc) \<noteq> []"
    "dc_action (evaluate m rc j n) = Ci_note" "\<not> dc_record (evaluate m rc j n)"
    "dc_checks (evaluate m rc j n) = failing_checks m (rc_ignore_checks rc)"
  | (review) "\<not> braked m rc" "pm_changed_files m \<noteq> 0" "\<not> j" "n = 0"
    "failing_checks m (rc_ignore_checks rc) = []" "evaluate m rc j n = mk_decision Review []"
proof (cases "braked m rc")
  case True
  then obtain d where d: "label_hold m rc = Some d"
    using label_hold_None_iff [of m rc] by auto
  with True label_hold_Some [OF d] evaluate_brake [OF d] show ?thesis using brake by simp
next
  case nb: False
  show ?thesis
  proof (cases "pm_changed_files m = 0")
    case True
    with nb evaluate_empty [OF nb True] show ?thesis using empty by (simp add: mk_decision_def)
  next
    case ch: False
    show ?thesis
    proof (cases j)
      case True
      with nb ch evaluate_judged [OF nb ch] show ?thesis using judged by (simp add: mk_decision_def)
    next
      case nj: False
      show ?thesis
      proof (cases "n = 0")
        case False
        with nb ch nj evaluate_threads [OF nb ch] show ?thesis
          using threads by (simp add: mk_decision_def)
      next
        case n: True
        show ?thesis
          using nb ch nj n evaluate_red [OF nb ch] evaluate_review [OF nb ch] red review
          by (cases "failing_checks m (rc_ignore_checks rc) = []") (simp_all add: mk_decision_def)
      qed
    qed
  qed
qed

section \<open>Properties\<close>

text \<open>
  C8: a pull request is sent to review exactly when it carries no brake label, changes
  something, its commit has not been judged, none of our comments is waiting for the
  author, and every check that failed is one the repository ignores.
\<close>

theorem evaluate_reviews_iff:
  "dc_action (evaluate m rc sha_judged open_threads) = Review \<longleftrightarrow>
     \<not> braked m rc \<and> pm_changed_files m \<noteq> 0 \<and> \<not> sha_judged \<and> open_threads = 0 \<and>
     (\<forall>c \<in> set (pm_checks m). bucket_of c = Failing \<longrightarrow> check_name c \<in> set (rc_ignore_checks rc))"
  by (cases m rc sha_judged open_threads rule: evaluate_cases)
    (auto simp: failing_checks_Nil_iff mk_decision_def simp del: split_paired_Ex)

theorem evaluate_reviews_iff_witness:
  "dc_action (evaluate sample_meta sample_repo False 0) = Review"
  by (subst evaluate_reviews_iff)
    (simp add: braked_def brake_labels_def has_label_def sample_meta_def sample_repo_def)

text \<open>
  The only holds that leave a row, and so are not looked at again, are the one of an
  empty pull request and the one of a commit already judged; a brake label, an unanswered
  comment and a red build leave none, so the next tick looks again.
\<close>

theorem evaluate_unrecorded_iff:
  "\<not> dc_record (evaluate m rc sha_judged open_threads) \<longleftrightarrow>
     braked m rc \<or>
     (pm_changed_files m \<noteq> 0 \<and> \<not> sha_judged \<and>
        (open_threads > 0 \<or> failing_checks m (rc_ignore_checks rc) \<noteq> []))"
  by (cases m rc sha_judged open_threads rule: evaluate_cases) (auto simp: mk_decision_def)

theorem evaluate_unrecorded_iff_witness:
  "\<not> dc_record (evaluate sample_meta sample_repo False 2) \<and> dc_record (evaluate sample_meta sample_repo True 2)"
  using evaluate_unrecorded_iff [of sample_meta sample_repo False 2]
    evaluate_unrecorded_iff [of sample_meta sample_repo True 2]
  by (simp add: braked_def brake_labels_def has_label_def sample_meta_def sample_repo_def)

text \<open>
  Two requests share a dedup key only when they are the same repository, pull request,
  commit and request time, for a slug and commit ids without a colon.
\<close>

theorem dedup_key_inj:
  assumes "58 \<notin> set r1" "58 \<notin> set r2" "58 \<notin> set s1" "58 \<notin> set s2"
    and "dedup_key r1 p1 s1 q1 = dedup_key r2 p2 s2 q2"
  shows "r1 = r2 \<and> p1 = p2 \<and> s1 = s2 \<and> q1 = q2"
proof -
  have num: "58 \<notin> set (show_int p)" for p
    using show_int_chars [of 58 p] by auto
  from assms have 1: "r1 = r2" "show_int p1 @ 58 # s1 @ 58 # q1 = show_int p2 @ 58 # s2 @ 58 # q2"
    using append_sep_inj [of r1 58 _ r2] by (simp_all add: dedup_key_def)
  from append_sep_inj [OF 1(2) num num] have 2: "p1 = p2" "s1 @ 58 # q1 = s2 @ 58 # q2" by simp_all
  from append_sep_inj [OF 2(2) assms(3,4)] 1(1) 2(1) show ?thesis by simp
qed

theorem dedup_key_inj_witness:
  "lit ''o/r'' = lit ''o/r'' \<and> (7::int) = 7 \<and> lit ''ab'' = lit ''ab'' \<and> lit ''norq'' = lit ''norq''"
  by (rule dedup_key_inj) (simp_all add: lit_def)

end
