(* ===== verification/Anchor.thy ===== *)
theory Anchor
  imports Gates Regex "HOL-Library.Product_Lexorder"
begin

text \<open>
  Turning findings into inline review comments (\<open>src/robbie/anchor.py\<close>). A finding is a
  JSON object; the lines a comment may point at are the right-hand side of the diff. The
  lemmas describe where each finding goes; the properties say that no comment leaves the
  diff, that no finding is lost, which malformed findings raise, and that the line numbers
  read from a patch are those of the diff that was rendered.
\<close>

section \<open>The diff\<close>

text \<open>\<open>HUNK\<close>\<close>

definition HUNK :: re where
  "HUNK =
     Seq Bol (Seq (word (lit ''@@ -'')) (Seq (Plus is_digit)
       (Seq (Opt (Seq (word (lit '','')) (Plus is_digit)))
         (Seq (word (lit '' +'')) (Seq (Cap (Plus is_digit))
           (Seq (Opt (Seq (word (lit '','')) (Cap (Plus is_digit)))) (word (lit '' @@''))))))))"

definition hunk_start :: "str \<Rightarrow> int option" where
  "hunk_start row = Option.bind (re_match HUNK row) (\<lambda>m. int_of_str (hd (snd m)))"

fun commentable_step :: "int list \<times> int \<Rightarrow> str \<Rightarrow> int list \<times> int" where
  "commentable_step (ls, new) row =
     (case hunk_start row of
        Some n \<Rightarrow> (ls, n)
      | None \<Rightarrow>
          if new = 0 then (ls, new)
          else if startswith row (lit ''+'') \<or> startswith row (lit '' '') \<or> row = [] then (ls @ [new], new + 1)
          else (ls, new))"

text \<open>The set of \<open>commentable\<close>, in the order the lines were added.\<close>

definition commentable :: "str \<Rightarrow> int list" where
  "commentable patch = fst (foldl commentable_step ([], 0) (splitlines patch))"

section \<open>Findings\<close>

type_synonym finding = "(str \<times> json) list"

definition fget :: "finding \<Rightarrow> string \<Rightarrow> json" where
  "fget f k = (case map_of f (lit k) of None \<Rightarrow> JNull | Some v \<Rightarrow> v)"

definition fget_or :: "finding \<Rightarrow> string \<Rightarrow> str \<Rightarrow> json" where
  "fget_or f k d = (case map_of f (lit k) of None \<Rightarrow> JStr d | Some v \<Rightarrow> v)"

text \<open>
  \<open>loads\<close> is \<open>json.loads\<close>, its \<open>JSONDecodeError\<close> the \<open>ValueError\<close> it is a subclass of.
\<close>

definition parse_findings :: "(str \<Rightarrow> json res) \<Rightarrow> str \<Rightarrow> finding list res" where
  "parse_findings loads raw =
     (if strip raw = [] then Inr []
      else case loads (strip raw) of
        Inr (JList xs) \<Rightarrow> Inr (List.map_filter (\<lambda>x. case x of JObj kvs \<Rightarrow> Some kvs | _ \<Rightarrow> None) xs)
      | Inr _ \<Rightarrow> Inr []
      | Inl ValueError \<Rightarrow> Inr []
      | Inl e \<Rightarrow> Inl e)"

definition SNAP :: int where "SNAP = 3"

definition MAX_BODY :: nat where "MAX_BODY = 3000"

definition severity_table :: "(str \<times> severity) list" where
  "severity_table =
     [(lit ''critical'', Critical), (lit ''must-fix'', Must_fix),
      (lit ''should-fix'', Should_fix), (lit ''nitpick'', Nitpick)]"

definition BADGE :: "(str \<times> str) list" where
  "BADGE =
     [(lit ''critical'', 128721 # lit '' **Critical**''), (lit ''must-fix'', 128308 # lit '' **Must-fix**''),
      (lit ''should-fix'', 128992 # lit '' **Should-fix**''), (lit ''nitpick'', 128309 # lit '' **Nitpick**'')]"

definition signature_sub :: "str \<Rightarrow> str" where
  "signature_sub name = lit ''<sub>'' @ 129302 # lit '' automated pre-review by '' @ name @ lit ''</sub>''"

definition signature :: "str \<Rightarrow> str" where
  "signature name = 129302 # lit '' **Automated pre-review by '' @ name @ lit ''**''"

definition sev_text :: "(json \<Rightarrow> str) \<Rightarrow> finding \<Rightarrow> str" where
  "sev_text rep f = lower (strip (py_str rep (fget_or f ''severity'' [])))"

definition render :: "(json \<Rightarrow> str) \<Rightarrow> str \<Rightarrow> finding \<Rightarrow> int option \<Rightarrow> str" where
  "render rep name f snapped =
     (let badge = dget_or BADGE (sev_text rep f) (128309 # lit '' **Note**'');
          title = strip (py_str rep (jor (fget f ''title'') (JStr [])));
          head = (if title \<noteq> [] then badge @ lit '' '' @ [8212] @ lit '' '' @ title else badge);
          body = take MAX_BODY (head @ [NL, NL] @ strip (py_str rep (fget_or f ''body'' [])));
          note = (case snapped of None \<Rightarrow> [] | Some l \<Rightarrow>
                    if l = 0 then [] else [NL, NL] @ lit ''<sub>reported for line '' @ show_int l @ lit ''</sub>'')
      in body @ note @ [NL, NL] @ signature_sub name)"

definition sev_key :: "(json \<Rightarrow> str) \<Rightarrow> finding \<Rightarrow> str" where
  "sev_key rep f = replace (lit '' '') (lit ''-'') (sev_text rep f)"

text \<open>\<open>_rank\<close>: \<open>None\<close> for a severity that cannot be read.\<close>

definition severity_of :: "(json \<Rightarrow> str) \<Rightarrow> finding \<Rightarrow> severity option" where
  "severity_of rep f =
     (let s = sev_key rep f in
      map_of severity_table
        (if s = lit ''mustfix'' then lit ''must-fix''
         else if s = lit ''shouldfix'' then lit ''should-fix'' else s))"

text \<open>\<open>_leftover\<close>: \<open>line\<close> is what the f-string prints and tests for truth.\<close>

definition leftover :: "(json \<Rightarrow> str) \<Rightarrow> json \<Rightarrow> json \<Rightarrow> finding \<Rightarrow> str" where
  "leftover rep path line f =
     lit ''- `'' @ py_str rep path @ (if truthy line then 58 # py_str rep line else [])
     @ lit ''` '' @ [8212] @ lit '' '' @ py_str rep (fget_or f ''title'' (lit ''(no title)''))
     @ [NL, NL] @ lit ''  '' @ py_str rep (fget_or f ''body'' [])"

section \<open>Placing one finding\<close>

record comment =
  cm_path :: json
  cm_line :: int
  cm_body :: str
  cm_start :: "int option"

datatype placed = Inline comment | Leftover str | Folded str

text \<open>\<open>valid.get(path or "", set())\<close>: a container is not hashable.\<close>

definition lines_for :: "(str, int list) dict \<Rightarrow> json \<Rightarrow> int list res" where
  "lines_for valid path =
     (let key = jor path (JStr []) in
      if \<not> hashable key then Inl TypeError
      else Inr (case key of JStr s \<Rightarrow> dget_or valid s [] | _ \<Rightarrow> []))"

text \<open>\<open>int(f["line"])\<close>, the three exceptions the handler catches as \<open>None\<close>.\<close>

definition reported_line :: "finding \<Rightarrow> int option res" where
  "reported_line f =
     (case bindE (jitem (JObj f) (lit ''line'')) py_int of
        Inr i \<Rightarrow> Inr (Some i)
      | Inl KeyError \<Rightarrow> Inr None
      | Inl TypeError \<Rightarrow> Inr None
      | Inl ValueError \<Rightarrow> Inr None
      | Inl e \<Rightarrow> Inl e)"

text \<open>The line to comment on: the reported one, or the nearest within \<open>SNAP\<close>, lowest first.\<close>

definition target_line :: "int list \<Rightarrow> int \<Rightarrow> int option" where
  "target_line lines l =
     (if l \<in> set lines then Some l
      else case sort_key (\<lambda>n. (\<bar>n - l\<bar>, n)) lines of
        [] \<Rightarrow> None
      | n # _ \<Rightarrow> if \<bar>n - l\<bar> > SNAP then None else Some n)"

definition start_for :: "finding \<Rightarrow> int list \<Rightarrow> int \<Rightarrow> int option" where
  "start_for f lines target =
     (case as_int (fget f ''start_line'') of
        None \<Rightarrow> None
      | Some s \<Rightarrow> if s < target \<and> s \<in> set lines then Some s else None)"

definition folds :: "(json \<Rightarrow> str) \<Rightarrow> severity \<Rightarrow> finding \<Rightarrow> bool" where
  "folds rep inline_min f = (case severity_of rep f of None \<Rightarrow> False | Some s \<Rightarrow> inline_min < s)"

text \<open>The rest of the loop body, once the lines of the file and the reported line are known.\<close>

definition place_at ::
  "(json \<Rightarrow> str) \<Rightarrow> str \<Rightarrow> finding \<Rightarrow> int list \<Rightarrow> int option \<Rightarrow> placed" where
  "place_at rep name f lines reported =
     (let path = fget f ''path'' in
      case reported of
        None \<Rightarrow> Leftover (leftover rep path JNull f)
      | Some l \<Rightarrow>
          (case target_line lines l of
             None \<Rightarrow> Leftover (leftover rep path (JInt l) f)
           | Some t \<Rightarrow>
               Inline \<lparr>cm_path = path, cm_line = t,
                       cm_body = render rep name f (if t = l then None else Some l),
                       cm_start = start_for f lines t\<rparr>))"

definition place ::
  "(json \<Rightarrow> str) \<Rightarrow> str \<Rightarrow> (str, int list) dict \<Rightarrow> severity \<Rightarrow> finding \<Rightarrow> placed res" where
  "place rep name valid inline_min f =
     (let path = fget f ''path'' in
      if folds rep inline_min f then Inr (Folded (leftover rep path (fget f ''line'') f))
      else
        bindE (lines_for valid path) (\<lambda>lines.
        bindE (reported_line f) (\<lambda>reported. Inr (place_at rep name f lines reported))))"

record anchored =
  an_comments :: "comment list"
  an_leftovers :: str
  an_folded :: str
  an_folded_count :: nat

definition inlined :: "placed list \<Rightarrow> comment list" where
  "inlined ps = List.map_filter (\<lambda>p. case p of Inline c \<Rightarrow> Some c | _ \<Rightarrow> None) ps"

definition left_rows :: "placed list \<Rightarrow> str list" where
  "left_rows ps = List.map_filter (\<lambda>p. case p of Leftover r \<Rightarrow> Some r | _ \<Rightarrow> None) ps"

definition folded_rows :: "placed list \<Rightarrow> str list" where
  "folded_rows ps = List.map_filter (\<lambda>p. case p of Folded r \<Rightarrow> Some r | _ \<Rightarrow> None) ps"

definition collect :: "placed list \<Rightarrow> anchored" where
  "collect ps =
     \<lparr>an_comments = inlined ps,
      an_leftovers =
        (if left_rows ps = [] then []
         else lit ''**Not tied to a changed line:**'' @ [NL, NL] @ join [NL] (left_rows ps)),
      an_folded =
        (if folded_rows ps = [] then []
         else lit ''<details><summary>'' @ show_nat (length (folded_rows ps)) @ lit '' ''
              @ (if length (folded_rows ps) = 1 then lit ''nitpick'' else lit ''nitpicks'')
              @ lit '', kept out of the threads '' @ [8212] @ lit '' nothing to reply to</summary>'' @ [NL, NL]
              @ join [NL] (folded_rows ps) @ [NL, NL] @ lit ''</details>''),
      an_folded_count = length (folded_rows ps)\<rparr>"

definition anchor ::
  "(json \<Rightarrow> str) \<Rightarrow> str \<Rightarrow> finding list \<Rightarrow> (str, int list) dict \<Rightarrow> severity \<Rightarrow> anchored res" where
  "anchor rep name findings valid inline_min =
     bindE (mapE (place rep name valid inline_min) findings) (\<lambda>ps. Inr (collect ps))"

section \<open>Counting\<close>

text \<open>\<open>SEVERITY_LINE\<close>\<close>

definition SEVERITY_LINE :: re where
  "SEVERITY_LINE = Seq (word (lit '':'')) (Plus is_digit)"

definition summary_findings :: "str \<Rightarrow> nat" where
  "summary_findings body =
     length (filter (\<lambda>l. (\<exists>w \<in> set (map fst BADGE). contains (lower l) w) \<and> re_search SEVERITY_LINE l)
               (splitlines body))"

definition severity_count :: "(json \<Rightarrow> str) \<Rightarrow> bool \<Rightarrow> finding list \<Rightarrow> nat" where
  "severity_count rep blocking fs =
     (let wanted = (if blocking then map lit [''critical'', ''must-fix'', ''mustfix'']
                    else map lit [''should-fix'', ''shouldfix''])
      in length (filter (\<lambda>f. sev_key rep f \<in> set wanted) fs))"

section \<open>Where a finding goes\<close>

lemma place_folds:
  "folds rep m f \<Longrightarrow>
   place rep name valid m f = Inr (Folded (leftover rep (fget f ''path'') (fget f ''line'') f))"
  by (simp add: place_def Let_def)

lemma place_at_Inline:
  assumes "place_at rep name f lines r = Inline c"
  obtains l where "r = Some l" "target_line lines l = Some (cm_line c)"
    "cm_path c = fget f ''path''" "cm_start c = start_for f lines (cm_line c)"
    "cm_body c = render rep name f (if cm_line c = l then None else Some l)"
proof (cases r)
  case None
  with assms show ?thesis by (simp add: place_at_def Let_def)
next
  case (Some l)
  with assms show ?thesis
    by (cases "target_line lines l") (auto simp: place_at_def Let_def intro: that [of l])
qed

lemma place_at_Leftover:
  "place_at rep name f lines r = Leftover t \<Longrightarrow> \<exists>j. t = leftover rep (fget f ''path'') j f"
  by (auto simp: place_at_def Let_def split: option.splits)

lemma place_at_not_Folded: "place_at rep name f lines r \<noteq> Folded t"
  by (simp add: place_at_def Let_def split: option.splits)

lemma place_unfolded:
  assumes "place rep name valid m f = Inr p" "\<not> folds rep m f"
  obtains lines r where "lines_for valid (fget f ''path'') = Inr lines" "reported_line f = Inr r"
    "p = place_at rep name f lines r"
  using assms by (auto simp: place_def Let_def bindE_Inr_iff)

lemma place_Inline:
  assumes "place rep name valid m f = Inr (Inline c)"
  obtains lines l where "\<not> folds rep m f" "lines_for valid (fget f ''path'') = Inr lines"
    "reported_line f = Inr (Some l)" "target_line lines l = Some (cm_line c)"
    "cm_path c = fget f ''path''" "cm_start c = start_for f lines (cm_line c)"
    "cm_body c = render rep name f (if cm_line c = l then None else Some l)"
proof -
  have nf: "\<not> folds rep m f" using assms place_folds [of rep m f name valid] by auto
  obtain lines r where 1: "lines_for valid (fget f ''path'') = Inr lines" "reported_line f = Inr r"
    "Inline c = place_at rep name f lines r" by (rule place_unfolded [OF assms nf])
  show ?thesis by (rule place_at_Inline [OF 1(3) [symmetric]]) (use nf 1 in \<open>auto intro: that\<close>)
qed

lemma place_cases:
  assumes "place rep name valid m f = Inr p"
  obtains (inline) c where "p = Inline c" "\<not> folds rep m f"
  | (left) j where "p = Leftover (leftover rep (fget f ''path'') j f)" "\<not> folds rep m f"
  | (folded) "p = Folded (leftover rep (fget f ''path'') (fget f ''line'') f)" "folds rep m f"
proof (cases "folds rep m f")
  case True
  with assms place_folds [OF True, of name valid] show ?thesis by (simp add: folded)
next
  case False
  obtain lines r where p: "p = place_at rep name f lines r" by (rule place_unfolded [OF assms False])
  show ?thesis
  proof (cases p)
    case (Inline c)
    then show ?thesis using False inline by blast
  next
    case (Leftover t)
    with p place_at_Leftover [of rep name f lines r t] False left show ?thesis by metis
  next
    case (Folded t)
    with p place_at_not_Folded [of rep name f lines r t] show ?thesis by simp
  qed
qed

lemma target_line_near:
  assumes "target_line lines l = Some t"
  shows "t \<in> set lines" and "\<bar>t - l\<bar> \<le> SNAP" and "n \<in> set lines \<Longrightarrow> \<bar>t - l\<bar> \<le> \<bar>n - l\<bar>"
proof -
  have "t \<in> set lines \<and> \<bar>t - l\<bar> \<le> SNAP \<and> (n \<in> set lines \<longrightarrow> \<bar>t - l\<bar> \<le> \<bar>n - l\<bar>)"
  proof (cases "l \<in> set lines")
    case True
    with assms show ?thesis by (auto simp: target_line_def SNAP_def)
  next
    case False
    let ?s = "sort_key (\<lambda>n. (\<bar>n - l\<bar>, n)) lines"
    from assms False obtain ns where s: "?s = t # ns" and near: "\<bar>t - l\<bar> \<le> SNAP"
      by (auto simp: target_line_def split: list.splits if_splits)
    have mem: "set (t # ns) = set lines" unfolding s [symmetric] by simp
    have "sorted (map (\<lambda>n. (\<bar>n - l\<bar>, n)) ?s)" by simp
    then have "\<forall>m \<in> set ns. (\<bar>t - l\<bar>, t) \<le> (\<bar>m - l\<bar>, m)" unfolding s by simp
    then have "\<forall>m \<in> set (t # ns). \<bar>t - l\<bar> \<le> \<bar>m - l\<bar>" by auto
    with mem near show ?thesis by auto
  qed
  then show "t \<in> set lines" "\<bar>t - l\<bar> \<le> SNAP" "n \<in> set lines \<Longrightarrow> \<bar>t - l\<bar> \<le> \<bar>n - l\<bar>" by blast+
qed

lemma target_line_exact: "l \<in> set lines \<Longrightarrow> target_line lines l = Some l"
  by (simp add: target_line_def)

lemma target_line_None_iff: "target_line lines l = None \<longleftrightarrow> (\<forall>n \<in> set lines. SNAP < \<bar>n - l\<bar>)"
proof
  assume none: "target_line lines l = None"
  let ?s = "sort_key (\<lambda>n. (\<bar>n - l\<bar>, n)) lines"
  from none have nin: "l \<notin> set lines" by (auto simp: target_line_def split: if_splits)
  show "\<forall>n \<in> set lines. SNAP < \<bar>n - l\<bar>"
  proof (cases ?s)
    case Nil
    then have "set ?s = {}" by simp
    then show ?thesis by simp
  next
    case (Cons t ns)
    with none nin have far: "SNAP < \<bar>t - l\<bar>" by (auto simp: target_line_def split: if_splits)
    have mem: "set (t # ns) = set lines" unfolding Cons [symmetric] by simp
    have "sorted (map (\<lambda>n. (\<bar>n - l\<bar>, n)) ?s)" by simp
    then have "\<forall>m \<in> set (t # ns). \<bar>t - l\<bar> \<le> \<bar>m - l\<bar>" unfolding Cons by auto
    with mem far show ?thesis by fastforce
  qed
next
  assume far: "\<forall>n \<in> set lines. SNAP < \<bar>n - l\<bar>"
  show "target_line lines l = None"
  proof (cases "target_line lines l")
    case (Some t)
    with target_line_near [OF Some] far show ?thesis by fastforce
  qed
qed

lemma start_for_Some:
  "start_for f lines t = Some s \<Longrightarrow> s < t \<and> s \<in> set lines"
  by (auto simp: start_for_def split: option.splits if_splits)

section \<open>Collecting\<close>

lemma anchor_Inr:
  "anchor rep name fs valid m = Inr a \<longleftrightarrow>
   (\<exists>ps. list_all2 (\<lambda>f p. place rep name valid m f = Inr p) fs ps \<and> a = collect ps)"
  by (auto simp: anchor_def bindE_Inr_iff mapE_Inr_conv)

lemma inlined_mem: "c \<in> set (inlined ps) \<longleftrightarrow> Inline c \<in> set ps"
  by (induction ps) (auto simp: inlined_def List.map_filter_simps split: placed.splits)

lemma left_rows_mem: "r \<in> set (left_rows ps) \<longleftrightarrow> Leftover r \<in> set ps"
  by (induction ps) (auto simp: left_rows_def List.map_filter_simps split: placed.splits)

lemma folded_rows_mem: "r \<in> set (folded_rows ps) \<longleftrightarrow> Folded r \<in> set ps"
  by (induction ps) (auto simp: folded_rows_def List.map_filter_simps split: placed.splits)

lemma placed_count:
  "length (inlined ps) + length (left_rows ps) + length (folded_rows ps) = length ps"
  by (induction ps)
    (auto simp: inlined_def left_rows_def folded_rows_def List.map_filter_simps split: placed.splits)

lemma collect_left: "Leftover r \<in> set ps \<Longrightarrow> contains (an_leftovers (collect ps)) r"
proof -
  assume "Leftover r \<in> set ps"
  then have r: "r \<in> set (left_rows ps)" by (simp add: left_rows_mem)
  then have ne: "left_rows ps \<noteq> []" by auto
  from contains_appendI [OF contains_join [OF r, of "[NL]"],
      of "lit ''**Not tied to a changed line:**'' @ [NL, NL]" "[]"] ne
  show ?thesis by (simp add: collect_def)
qed

lemma collect_folded: "Folded r \<in> set ps \<Longrightarrow> contains (an_folded (collect ps)) r"
proof -
  assume "Folded r \<in> set ps"
  then have r: "r \<in> set (folded_rows ps)" by (simp add: folded_rows_mem)
  then have ne: "folded_rows ps \<noteq> []" by auto
  show ?thesis
    using ne contains_appendI [OF contains_join [OF r, of "[NL]"],
      of "lit ''<details><summary>'' @ show_nat (length (folded_rows ps)) @ lit '' ''
              @ (if length (folded_rows ps) = 1 then lit ''nitpick'' else lit ''nitpicks'')
              @ lit '', kept out of the threads '' @ [8212] @ lit '' nothing to reply to</summary>'' @ [NL, NL]"
         "[NL, NL] @ lit ''</details>''"]
    unfolding collect_def by simp
qed

section \<open>When a finding raises\<close>

definition infinite_line :: "finding \<Rightarrow> bool" where
  "infinite_line f \<longleftrightarrow> fget f ''line'' \<in> {JFloat PosInf, JFloat NegInf}"

lemma reported_line_Inl: "reported_line f = Inl e \<longleftrightarrow> infinite_line f \<and> e = OverflowError"
proof (cases "map_of f (lit ''line'')")
  case None
  then show ?thesis by (simp add: reported_line_def infinite_line_def fget_def)
next
  case (Some v)
  then have v: "reported_line f = (case py_int v of Inr i \<Rightarrow> Inr (Some i)
      | Inl KeyError \<Rightarrow> Inr None | Inl TypeError \<Rightarrow> Inr None | Inl ValueError \<Rightarrow> Inr None
      | Inl e \<Rightarrow> Inl e)" "infinite_line f \<longleftrightarrow> v \<in> {JFloat PosInf, JFloat NegInf}"
    by (simp_all add: reported_line_def infinite_line_def fget_def)
  show ?thesis unfolding v
    by (cases v rule: py_int.cases) (auto split: option.splits)
qed

lemma lines_for_Inl:
  "(\<exists>e. lines_for valid path = Inl e) \<longleftrightarrow> truthy path \<and> \<not> hashable path"
  by (auto simp: lines_for_def Let_def jor_def)

lemma place_Inl:
  "(\<exists>e. place rep name valid m f = Inl e) \<longleftrightarrow>
   \<not> folds rep m f \<and> (truthy (fget f ''path'') \<and> \<not> hashable (fget f ''path'') \<or> infinite_line f)"
proof (cases "lines_for valid (fget f ''path'')")
  case (Inl e)
  then have "truthy (fget f ''path'') \<and> \<not> hashable (fget f ''path'')"
    using lines_for_Inl [of valid "fget f ''path''"] by blast
  with Inl show ?thesis by (simp add: place_def Let_def)
next
  case (Inr ls)
  then have "\<not> (truthy (fget f ''path'') \<and> \<not> hashable (fget f ''path''))"
    using lines_for_Inl [of valid "fget f ''path''"] by auto
  moreover have "(\<exists>e. reported_line f = Inl e) \<longleftrightarrow> infinite_line f"
    by (simp add: reported_line_Inl)
  ultimately show ?thesis
    using Inr by (cases "reported_line f") (auto simp: place_def Let_def)
qed

section \<open>A sample finding\<close>

text \<open>Used by the witnesses: reported for line 6 of a file whose diff ends at line 5.\<close>

definition sample_finding :: finding where
  "sample_finding = [(lit ''path'', JStr (lit ''a.rb'')), (lit ''line'', JInt 6)]"

definition sample_valid :: "(str, int list) dict" where
  "sample_valid = [(lit ''a.rb'', [3, 4, 5])]"

definition sample_comment :: comment where
  "sample_comment =
     \<lparr>cm_path = JStr (lit ''a.rb''), cm_line = 5,
      cm_body = render (\<lambda>j. []) (lit ''robbie'') sample_finding (Some 6), cm_start = None\<rparr>"

lemma sample_place:
  "place (\<lambda>j. []) (lit ''robbie'') sample_valid Nitpick sample_finding = Inr (Inline sample_comment)"
proof -
  have "\<not> folds (\<lambda>j. []) Nitpick sample_finding"
    by (simp add: folds_def severity_of_def sev_key_def sev_text_def fget_or_def sample_finding_def
        severity_table_def)
  moreover have "lines_for sample_valid (fget sample_finding ''path'') = Inr [3, 4, 5]"
    by (simp add: lines_for_def fget_def sample_finding_def sample_valid_def jor_def dget_or_def)
  moreover have "reported_line sample_finding = Inr (Some 6)"
    by (simp add: reported_line_def sample_finding_def)
  moreover have "target_line [3, 4, 5] 6 = Some 5" by (simp add: target_line_def SNAP_def)
  moreover have "start_for sample_finding [3, 4, 5] 5 = None"
    by (simp add: start_for_def fget_def sample_finding_def)
  ultimately show ?thesis
    by (simp add: place_def place_at_def Let_def sample_comment_def fget_def sample_finding_def)
qed

lemma sample_anchor:
  "anchor (\<lambda>j. []) (lit ''robbie'') [sample_finding] sample_valid Nitpick =
     Inr (collect [Inline sample_comment])"
  by (simp add: anchor_def sample_place)

lemma sample_inlined: "an_comments (collect [Inline sample_comment]) = [sample_comment]"
  by (simp add: collect_def inlined_def List.map_filter_simps)

section \<open>Properties of anchoring\<close>

text \<open>
  C17: every inline comment points at a line of its file that the diff shows, at most three
  lines from where the finding was reported and no further than any other such line, and
  its range, if it has one, starts at an earlier line of the same diff.
\<close>

theorem anchor_inside_diff:
  assumes "anchor rep name fs valid m = Inr a" and "c \<in> set (an_comments a)"
  shows "\<exists>f lines l. f \<in> set fs \<and> lines_for valid (fget f ''path'') = Inr lines \<and>
           reported_line f = Inr (Some l) \<and> cm_path c = fget f ''path'' \<and>
           cm_line c \<in> set lines \<and> \<bar>cm_line c - l\<bar> \<le> 3 \<and>
           (\<forall>n \<in> set lines. \<bar>cm_line c - l\<bar> \<le> \<bar>n - l\<bar>) \<and>
           (\<forall>s. cm_start c = Some s \<longrightarrow> s < cm_line c \<and> s \<in> set lines)"
proof -
  from assms(1) obtain ps where ps: "list_all2 (\<lambda>f p. place rep name valid m f = Inr p) fs ps"
    "a = collect ps" by (auto simp: anchor_Inr)
  with assms(2) have "Inline c \<in> set ps" by (simp add: collect_def inlined_mem)
  from list_all2_mem2 [OF ps(1) this] obtain f where
    f: "f \<in> set fs" "place rep name valid m f = Inr (Inline c)" by blast
  obtain lines l where 1: "lines_for valid (fget f ''path'') = Inr lines"
    "reported_line f = Inr (Some l)" "target_line lines l = Some (cm_line c)"
    "cm_path c = fget f ''path''" "cm_start c = start_for f lines (cm_line c)"
    by (rule place_Inline [OF f(2)]) blast
  have near: "\<bar>cm_line c - l\<bar> \<le> 3" using target_line_near(2) [OF 1(3)] by (simp add: SNAP_def)
  show ?thesis
    using f(1) 1 near target_line_near(1,3) [OF 1(3)] start_for_Some [of f lines "cm_line c"] by auto
qed

theorem anchor_inside_diff_witness:
  "\<exists>f lines l. f \<in> set [sample_finding] \<and> lines_for sample_valid (fget f ''path'') = Inr lines \<and>
     reported_line f = Inr (Some l) \<and> cm_path sample_comment = fget f ''path'' \<and>
     cm_line sample_comment \<in> set lines \<and> \<bar>cm_line sample_comment - l\<bar> \<le> 3 \<and>
     (\<forall>n \<in> set lines. \<bar>cm_line sample_comment - l\<bar> \<le> \<bar>n - l\<bar>) \<and>
     (\<forall>s. cm_start sample_comment = Some s \<longrightarrow> s < cm_line sample_comment \<and> s \<in> set lines)"
  by (rule anchor_inside_diff [OF sample_anchor]) (simp add: sample_inlined)

text \<open>
  C18: no finding is lost: each one is an inline comment, or its text is in the part of the
  summary for findings off the diff, or, when its severity is below the threshold, in the
  folded part; and comments and folded findings never outnumber the findings.
\<close>

theorem anchor_conserves:
  assumes "anchor rep name fs valid m = Inr a" and "f \<in> set fs"
  shows "((\<not> folds rep m f \<and> (\<exists>c \<in> set (an_comments a). place rep name valid m f = Inr (Inline c)))
       \<or> (\<not> folds rep m f \<and> (\<exists>j. contains (an_leftovers a) (leftover rep (fget f ''path'') j f)))
       \<or> (folds rep m f \<and> contains (an_folded a) (leftover rep (fget f ''path'') (fget f ''line'') f)))
       \<and> length (an_comments a) + an_folded_count a \<le> length fs"
proof -
  from assms(1) obtain ps where ps: "list_all2 (\<lambda>f p. place rep name valid m f = Inr p) fs ps"
    and a: "a = collect ps" by (auto simp: anchor_Inr)
  from list_all2_mem1 [OF ps assms(2)] obtain p where
    p: "p \<in> set ps" "place rep name valid m f = Inr p" by blast
  have "(\<not> folds rep m f \<and> (\<exists>c \<in> set (an_comments a). place rep name valid m f = Inr (Inline c)))
       \<or> (\<not> folds rep m f \<and> (\<exists>j. contains (an_leftovers a) (leftover rep (fget f ''path'') j f)))
       \<or> (folds rep m f \<and> contains (an_folded a) (leftover rep (fget f ''path'') (fget f ''line'') f))"
    using p(2)
  proof (cases rule: place_cases)
    case (inline c)
    with p have "c \<in> set (an_comments a)" by (simp add: a collect_def inlined_mem)
    with inline p(2) show ?thesis by blast
  next
    case (left j)
    with p(1) collect_left show ?thesis unfolding a by blast
  next
    case folded
    with p(1) collect_folded show ?thesis unfolding a by blast
  qed
  moreover have "length (an_comments a) + an_folded_count a \<le> length fs"
    using placed_count [of ps] list_all2_lengthD [OF ps] by (simp add: a collect_def)
  ultimately show ?thesis by blast
qed

theorem anchor_conserves_witness:
  "length (an_comments (collect [Inline sample_comment]))
     + an_folded_count (collect [Inline sample_comment]) \<le> 1"
  using anchor_conserves [OF sample_anchor, of sample_finding] by simp

text \<open>
  Anchoring raises exactly when a finding that is not folded away has a container for
  its path or an infinite number for its line; every other malformed finding is demoted.
\<close>

theorem anchor_raises_iff:
  "(\<exists>e. anchor rep name fs valid m = Inl e) \<longleftrightarrow>
   (\<exists>f \<in> set fs. \<not> folds rep m f \<and>
      (truthy (fget f ''path'') \<and> \<not> hashable (fget f ''path'') \<or> infinite_line f))"
proof -
  have "(\<exists>e. anchor rep name fs valid m = Inl e) \<longleftrightarrow>
        (\<exists>e. mapE (place rep name valid m) fs = Inl e)"
    by (cases "mapE (place rep name valid m) fs") (auto simp: anchor_def)
  then show ?thesis by (simp add: mapE_Inl place_Inl)
qed

theorem anchor_raises_iff_witness:
  "\<exists>e. anchor (\<lambda>j. []) (lit ''robbie'') [[(lit ''line'', JFloat PosInf)]] [] Nitpick = Inl e"
  by (subst anchor_raises_iff)
    (simp add: folds_def severity_of_def sev_key_def sev_text_def fget_or_def severity_table_def
      infinite_line_def fget_def)

section \<open>Reading a rendered diff\<close>

text \<open>
  A reference for \<open>commentable\<close>: a diff as hunks, each with the first line number of either
  side and its rows, the patch text it renders to, and the right-hand line numbers of the
  rows a comment may point at.
\<close>

datatype diff_row = Added str | Context str | Removed str | No_newline str

record hunk =
  hk_old :: nat
  hk_old_count :: "nat option"
  hk_new :: nat
  hk_new_count :: "nat option"
  hk_section :: str
  hk_rows :: "diff_row list"

fun row_body :: "diff_row \<Rightarrow> str" where
  "row_body (Added t) = t"
| "row_body (Context t) = t"
| "row_body (Removed t) = t"
| "row_body (No_newline t) = t"

fun row_text :: "diff_row \<Rightarrow> str" where
  "row_text (Added t) = 43 # t"
| "row_text (Context t) = 32 # t"
| "row_text (Removed t) = 45 # t"
| "row_text (No_newline t) = 92 # t"

definition count_text :: "nat option \<Rightarrow> str" where
  "count_text k = (case k of None \<Rightarrow> [] | Some n \<Rightarrow> lit '','' @ show_nat n)"

definition hunk_header :: "hunk \<Rightarrow> str" where
  "hunk_header h =
     lit ''@@ -'' @ show_nat (hk_old h) @ count_text (hk_old_count h)
     @ lit '' +'' @ show_nat (hk_new h) @ count_text (hk_new_count h) @ lit '' @@'' @ hk_section h"

definition hunk_text :: "hunk \<Rightarrow> str list" where
  "hunk_text h = hunk_header h # map row_text (hk_rows h)"

definition patch_text :: "hunk list \<Rightarrow> str" where
  "patch_text hs = join [NL] (concat (map hunk_text hs))"

fun right_lines :: "int \<Rightarrow> diff_row list \<Rightarrow> int list" where
  "right_lines n [] = []"
| "right_lines n (Added t # rs) = n # right_lines (n + 1) rs"
| "right_lines n (Context t # rs) = n # right_lines (n + 1) rs"
| "right_lines n (Removed t # rs) = right_lines n rs"
| "right_lines n (No_newline t # rs) = right_lines n rs"

definition one_line_text :: "str \<Rightarrow> bool" where
  "one_line_text t \<longleftrightarrow> list_all (\<lambda>c. \<not> is_linebreak c) t"

definition plain_hunk :: "hunk \<Rightarrow> bool" where
  "plain_hunk h \<longleftrightarrow> hk_new h > 0 \<and> one_line_text (hk_section h) \<and>
     list_all (\<lambda>r. one_line_text (row_body r)) (hk_rows h)"

lemma show_nat_all_digits: "list_all is_digit (show_nat n)"
  using show_nat_is_digit by (simp add: list_all_iff)

lemma not_digit_marks [simp]: "\<not> is_digit 32" "\<not> is_digit 44"
  by (simp_all add: is_digit_def digit_val_def nd_zeros_def)

lemma first_count:
  assumes "x \<noteq> []" "hd x = 32" and "first_run (Plus is_digit) = first_run r \<or> r = Cap (Plus is_digit)"
  shows "\<exists>l' gs. first_run (Opt (Seq (word (lit '','')) r)) (l, count_text k @ x) = Some ((l', x), gs)"
proof (cases k)
  case None
  obtain y where x: "x = 32 # y" using assms by (cases x) auto
  have "run (word (lit '','')) (l, x) = []" by (simp add: run_word x lit_Cons startswith_Cons)
  with None show ?thesis by (simp add: Opt_def count_text_def first_run_def)
next
  case (Some n)
  have word: "first_run (word (lit '','')) (l, count_text k @ x) =
      Some ((rev (lit '','') @ l, show_nat n @ x), [])"
    using first_word [of "lit '',''" l "show_nat n @ x"] Some by (simp add: count_text_def)
  have plus: "first_run (Plus is_digit) (rev (lit '','') @ l, show_nat n @ x) =
      Some ((rev (show_nat n) @ rev (lit '','') @ l, x), [])"
    using assms by (intro first_Plus) (simp_all add: show_nat_all_digits)
  have "\<exists>l' gs. first_run r (rev (lit '','') @ l, show_nat n @ x) = Some ((l', x), gs)"
    using assms(3) plus first_Cap [OF plus] by auto
  then obtain l' gs where "first_run r (rev (lit '','') @ l, show_nat n @ x) = Some ((l', x), gs)" by blast
  with first_Seq [OF word, of r] have
    "first_run (Seq (word (lit '','')) r) (l, count_text k @ x) = Some ((l', x), gs)" by simp
  from first_Alt [OF this] show ?thesis by (auto simp: Opt_def)
qed

lemma hunk_start_header: "hunk_start (hunk_header h) = Some (int (hk_new h))"
proof -
  define x5 where "x5 = lit '' @@'' @ hk_section h"
  define x4 where "x4 = count_text (hk_new_count h) @ x5"
  define x3 where "x3 = show_nat (hk_new h) @ x4"
  define x2 where "x2 = lit '' +'' @ x3"
  define x1 where "x1 = count_text (hk_old_count h) @ x2"
  have hdr: "hunk_header h = lit ''@@ -'' @ show_nat (hk_old h) @ x1"
    by (simp add: hunk_header_def x1_def x2_def x3_def x4_def x5_def)
  have sp: "x2 \<noteq> []" "hd x2 = 32" "x5 \<noteq> []" "hd x5 = 32"
    by (simp_all add: x2_def x5_def lit_Cons)
  have nd: "x1 = [] \<or> \<not> is_digit (hd x1)" "x4 = [] \<or> \<not> is_digit (hd x4)"
    using sp by (simp_all add: x1_def x4_def count_text_def lit_Cons split: option.splits)
  have a: "first_run Bol ([], hunk_header h) = Some (([], hunk_header h), [])"
    by (simp add: first_run_def bol_def)
  have b: "first_run (word (lit ''@@ -'')) ([], hunk_header h) =
      Some ((rev (lit ''@@ -'') @ [], show_nat (hk_old h) @ x1), [])"
    unfolding hdr by (rule first_word)
  have c: "first_run (Plus is_digit) (l, show_nat (hk_old h) @ x1) = Some ((rev (show_nat (hk_old h)) @ l, x1), [])" for l
    by (rule first_Plus [OF show_nat_all_digits _ nd(1)]) simp
  have d: "\<exists>l' gs. first_run (Opt (Seq (word (lit '','')) (Plus is_digit))) (l, x1) = Some ((l', x2), gs)" for l
    unfolding x1_def by (rule first_count) (use sp in simp_all)
  have e: "first_run (word (lit '' +'')) (l, x2) = Some ((rev (lit '' +'') @ l, x3), [])" for l
    unfolding x2_def by (rule first_word)
  have f0: "first_run (Plus is_digit) (l, show_nat (hk_new h) @ x4) = Some ((rev (show_nat (hk_new h)) @ l, x4), [])" for l
    by (rule first_Plus [OF show_nat_all_digits _ nd(2)]) simp
  have f: "first_run (Cap (Plus is_digit)) (l, x3) = Some ((rev (show_nat (hk_new h)) @ l, x4), [show_nat (hk_new h)])" for l
    unfolding x3_def by (rule first_Cap [OF f0])
  have g: "\<exists>l' gs. first_run (Opt (Seq (word (lit '','')) (Cap (Plus is_digit)))) (l, x4) = Some ((l', x5), gs)" for l
    unfolding x4_def by (rule first_count) (use sp in simp_all)
  have i: "first_run (word (lit '' @@'')) (l, x5) = Some ((rev (lit '' @@'') @ l, hk_section h), [])" for l
    unfolding x5_def by (rule first_word)
  let ?l2 = "rev (show_nat (hk_old h)) @ rev (lit ''@@ -'') @ []"
  obtain l3 g3 where d': "first_run (Opt (Seq (word (lit '','')) (Plus is_digit))) (?l2, x1) = Some ((l3, x2), g3)"
    using d by blast
  have g3: "g3 = []"
  proof -
    from d' obtain ms where "run (Opt (Seq (word (lit '','')) (Plus is_digit))) (?l2, x1) = ((l3, x2), g3) # ms"
      by (auto simp: first_run_Some)
    then have "((l3, x2), g3) \<in> set (run (Opt (Seq (word (lit '','')) (Plus is_digit))) (?l2, x1))" by simp
    then show ?thesis by (auto simp: Opt_def Plus_def run_word split: if_splits list.splits)
  qed
  let ?l5 = "rev (show_nat (hk_new h)) @ rev (lit '' +'') @ l3"
  obtain l6 g6 where g': "first_run (Opt (Seq (word (lit '','')) (Cap (Plus is_digit)))) (?l5, x4) = Some ((l6, x5), g6)"
    using g by blast
  have "\<exists>q gs. first_run HUNK ([], hunk_header h) = Some (q, show_nat (hk_new h) # gs)"
    unfolding HUNK_def
    using first_Seq [OF a] first_Seq [OF b] first_Seq [OF c] first_Seq [OF d'] first_Seq [OF e]
      first_Seq [OF f] first_Seq [OF g'] i g3
    by simp
  then show ?thesis by (auto simp: hunk_start_def re_match_first)
qed

lemma hunk_start_no_at: "row = [] \<or> hd row \<noteq> 64 \<Longrightarrow> hunk_start row = None"
  by (cases row) (simp_all add: hunk_start_def re_match_def HUNK_def bol_def lit_Cons)

lemma hunk_start_row [simp]: "hunk_start (row_text r) = None"
  by (rule hunk_start_no_at) (cases r; simp)

lemma fold_rows:
  "n > 0 \<Longrightarrow> \<exists>n'. n' > 0 \<and>
   foldl commentable_step (ls, n) (map row_text rs) = (ls @ right_lines n rs, n')"
proof (induction rs arbitrary: ls n)
  case (Cons r rs)
  have marks: "startswith (c # t) (lit ''+'') \<longleftrightarrow> c = 43" "startswith (c # t) (lit '' '') \<longleftrightarrow> c = 32" for c t
    by (auto simp: lit_Cons startswith_Cons)
  show ?case
  proof (cases r)
    case (Added t)
    with Cons.prems Cons.IH [of "n + 1" "ls @ [n]"] hunk_start_row [of "Added t"]
    show ?thesis by (simp add: marks)
  next
    case (Context t)
    with Cons.prems Cons.IH [of "n + 1" "ls @ [n]"] hunk_start_row [of "Context t"]
    show ?thesis by (simp add: marks)
  next
    case (Removed t)
    with Cons.prems Cons.IH [of n ls] hunk_start_row [of "Removed t"] show ?thesis by (simp add: marks)
  next
    case (No_newline t)
    with Cons.prems Cons.IH [of n ls] hunk_start_row [of "No_newline t"] show ?thesis by (simp add: marks)
  qed
qed auto

lemma fold_hunk:
  "plain_hunk h \<Longrightarrow> \<exists>n'. foldl commentable_step (ls, n) (hunk_text h) =
     (ls @ right_lines (int (hk_new h)) (hk_rows h), n')"
  using fold_rows [of "int (hk_new h)" ls "hk_rows h"]
  by (auto simp: hunk_text_def hunk_start_header plain_hunk_def)

lemma fold_hunks:
  "list_all plain_hunk hs \<Longrightarrow>
   fst (foldl commentable_step (ls, n) (concat (map hunk_text hs))) =
   ls @ concat (map (\<lambda>h. right_lines (int (hk_new h)) (hk_rows h)) hs)"
proof (induction hs arbitrary: ls n)
  case (Cons h hs)
  then obtain n' where "foldl commentable_step (ls, n) (hunk_text h) =
     (ls @ right_lines (int (hk_new h)) (hk_rows h), n')" using fold_hunk [of h ls n] by auto
  with Cons show ?case by simp
qed simp

lemma splitlines_join:
  "list_all (\<lambda>w. w \<noteq> [] \<and> one_line_text w) ws \<Longrightarrow> splitlines (join [NL] ws) = ws"
proof (induction "[NL]" ws rule: join.induct)
  case (2 w)
  then show ?case by (simp add: splitlines_single one_line_text_def list_all_iff)
next
  case (3 w v ws)
  then show ?case by (simp add: splitlines_line one_line_text_def list_all_iff)
qed simp

lemma plain_hunk_lines:
  "plain_hunk h \<Longrightarrow> list_all (\<lambda>w. w \<noteq> [] \<and> one_line_text w) (hunk_text h)"
proof -
  assume h: "plain_hunk h"
  have num: "one_line_text (show_nat n)" for n
    unfolding one_line_text_def list_all_iff using show_nat_digits by (fastforce simp: is_linebreak_def)
  have cnt: "one_line_text (count_text k)" for k
    using num by (simp add: count_text_def one_line_text_def lit_Cons is_linebreak_def split: option.splits)
  have "hunk_header h \<noteq> [] \<and> one_line_text (hunk_header h)"
    using h num [of "hk_old h"] num [of "hk_new h"] cnt [of "hk_old_count h"] cnt [of "hk_new_count h"]
    by (simp add: hunk_header_def plain_hunk_def one_line_text_def lit_Cons is_linebreak_def)
  moreover have "row_text r \<noteq> [] \<and> one_line_text (row_text r)" if "r \<in> set (hk_rows h)" for r
  proof -
    have "one_line_text (row_body r)" using h that by (simp add: plain_hunk_def list_all_iff)
    then show ?thesis by (cases r) (simp_all add: one_line_text_def is_linebreak_def)
  qed
  ultimately show ?thesis by (simp add: hunk_text_def list_all_iff)
qed

text \<open>
  C20: the lines \<open>commentable\<close> reads from a patch are exactly the right-hand line numbers of
  the added and context rows of the diff it was rendered from, for hunks that start past
  line zero and rows free of the characters \<open>splitlines\<close> takes for a line end.
\<close>

theorem commentable_patch:
  assumes "list_all plain_hunk hs"
  shows "commentable (patch_text hs) =
           concat (map (\<lambda>h. right_lines (int (hk_new h)) (hk_rows h)) hs)"
proof -
  have "list_all (\<lambda>w. w \<noteq> [] \<and> one_line_text w) (concat (map hunk_text hs))"
    using assms plain_hunk_lines by (fastforce simp: list_all_iff)
  then have "splitlines (patch_text hs) = concat (map hunk_text hs)"
    unfolding patch_text_def by (rule splitlines_join)
  with fold_hunks [OF assms, of "[]" 0] show ?thesis by (simp add: commentable_def)
qed

definition sample_hunk :: "str \<Rightarrow> hunk" where
  "sample_hunk t =
     \<lparr>hk_old = 3, hk_old_count = Some 2, hk_new = 3, hk_new_count = Some 3, hk_section = [],
      hk_rows = [Context (lit ''a''), Removed (lit ''b''), Added t, Added (lit ''c'')]\<rparr>"

theorem commentable_patch_witness: "commentable (patch_text [sample_hunk (lit ''x'')]) = [3, 4, 5]"
  by (subst commentable_patch)
    (simp_all add: sample_hunk_def plain_hunk_def one_line_text_def lit_Cons is_linebreak_def)

text \<open>
  Without that condition the numbering drifts: a form feed ending an added row makes
  \<open>splitlines\<close> see one more row, and every later line of the file is numbered one too high.
\<close>

theorem commentable_form_feed:
  "commentable (patch_text [sample_hunk [12]]) = [3, 4, 5, 6] \<and>
   right_lines (int (hk_new (sample_hunk [12]))) (hk_rows (sample_hunk [12])) = [3, 4, 5]"
proof
  let ?h = "sample_hunk [12]"
  have hdr: "list_all (\<lambda>c. \<not> is_linebreak c) (hunk_header ?h)"
    using plain_hunk_lines [of "sample_hunk []"]
    by (simp add: plain_hunk_def sample_hunk_def hunk_text_def hunk_header_def one_line_text_def
        lit_Cons is_linebreak_def)
  have "splitlines (patch_text [?h]) = hunk_header ?h # splitlines (join [NL] (map row_text (hk_rows ?h)))"
    using hdr by (simp add: patch_text_def hunk_text_def splitlines_line list_all_iff sample_hunk_def)
  moreover have "splitlines (join [NL] (map row_text (hk_rows ?h))) =
      [32 # lit ''a'', 45 # lit ''b'', [43], [], 43 # lit ''c'']"
    by (simp add: sample_hunk_def lit_Cons splitlines_def is_linebreak_def)
  moreover have "hk_new ?h = 3" by (simp add: sample_hunk_def)
  moreover have "hunk_start (32 # t) = None" "hunk_start (45 # t) = None" "hunk_start (43 # t) = None"
    "hunk_start [] = None" for t
    by (rule hunk_start_no_at; simp)+
  ultimately show "commentable (patch_text [?h]) = [3, 4, 5, 6]"
    by (simp add: commentable_def hunk_start_header lit_Cons startswith_Cons)
qed (simp add: sample_hunk_def)

end
