(* ===== verification/Contract.thy ===== *)
theory Contract
  imports Anchor
begin

text \<open>
  The output contract (\<open>src/robbie/contract.py\<close>): how delimited blocks are read out of a
  model's answer, and how text from GitHub is flattened before it enters a prompt. The
  block parser is the program's regular expression on the matcher of \<open>Regex\<close>; \<open>scan\<close> is a
  line-by-line automaton, proved equal to it, and the properties of the parser are proved
  on the automaton.
\<close>

section \<open>The block parser\<close>

definition marker :: "str \<Rightarrow> str" where
  "marker name = lit ''<<<'' @ name @ lit ''>>>''"

definition END_MARK :: str where
  "END_MARK = marker (lit ''END'')"

text \<open>\<open>^<<<NAME>>>\s*$(.*?)^<<<END>>>\<close> with \<open>re.S | re.M\<close>\<close>

definition BODY :: re where
  "BODY = Seq (Cap (Lazy (\<lambda>c. True))) (Seq Bol (word END_MARK))"

definition BLOCK :: "str \<Rightarrow> re" where
  "BLOCK name = Seq Bol (Seq (word (marker name)) (Seq (Greedy is_space) (Seq Eol BODY)))"

definition block_of :: "str \<Rightarrow> str \<Rightarrow> str" where
  "block_of s name =
     (case findall (BLOCK name) s of [] \<Rightarrow> [] | gs \<Rightarrow> strip (hd (last gs)))"

datatype verdict = Needs_work | Comment | Ok_verdict

definition verdict_table :: "(str \<times> verdict) list" where
  "verdict_table =
     [(lit ''needs-work'', Needs_work), (lit ''comment'', Comment), (lit ''ok'', Ok_verdict)]"

text \<open>\<open>re.sub(r"[^a-z-]", "", s)\<close>\<close>

definition letters_only :: "str \<Rightarrow> str" where
  "letters_only s = filter (\<lambda>c. (97 \<le> c \<and> c \<le> 122) \<or> c = 45) s"

record blocks =
  bl_verdict :: "verdict option"
  bl_github :: str
  bl_inline :: str

definition parse_blocks :: "str \<Rightarrow> blocks" where
  "parse_blocks s =
     \<lparr>bl_verdict =
        map_of verdict_table (letters_only (lower (strip (block_of s (lit ''VERDICT''))))),
      bl_github = block_of s (lit ''GITHUB''),
      bl_inline = block_of s (lit ''INLINE'')\<rparr>"

definition publishable :: "blocks \<Rightarrow> bool" where
  "publishable b \<longleftrightarrow>
     (bl_verdict b = Some Needs_work \<or> bl_verdict b = Some Comment) \<and> strip (bl_github b) \<noteq> []"

datatype fix_verdict = Fixed | Cannot

record fix_blocks =
  fb_verdict :: "fix_verdict option"
  fb_body :: str

definition parse_fix :: "str \<Rightarrow> fix_blocks" where
  "parse_fix s =
     \<lparr>fb_verdict =
        map_of [(lit ''fixed'', Fixed), (lit ''cannot'', Cannot)]
          (letters_only (lower (strip (block_of s (lit ''VERDICT''))))),
      fb_body = block_of s (lit ''GITHUB'')\<rparr>"

definition fix_usable :: "fix_blocks \<Rightarrow> bool" where
  "fix_usable b \<longleftrightarrow> fb_verdict b = Some Fixed \<and> strip (fb_body b) \<noteq> []"

section \<open>Thread verdicts\<close>

datatype thread_action = Resolve | Reply | Leave

definition thread_actions :: "(str \<times> thread_action) list" where
  "thread_actions = [(lit ''resolve'', Resolve), (lit ''reply'', Reply), (lit ''leave'', Leave)]"

record thread_verdict =
  tv_comment_id :: int
  tv_action :: thread_action
  tv_body :: str

text \<open>\<open>^<<<THREAD (\d+)>>>\s*$(.*?)^<<<END>>>\s*$\<close>\<close>

definition THREAD_BLOCK :: re where
  "THREAD_BLOCK =
     Seq Bol (Seq (word (lit ''<<<THREAD '')) (Seq (Cap (Plus is_digit)) (Seq (word (lit ''>>>''))
       (Seq (Greedy is_space) (Seq Eol (Seq (Cap (Lazy (\<lambda>c. True)))
         (Seq Bol (Seq (word END_MARK) (Seq (Greedy is_space) Eol)))))))))"

text \<open>One match; \<open>None\<close> where the loop continues or the verdict is not \<open>valid\<close>.\<close>

definition thread_verdict_of :: "str list \<Rightarrow> thread_verdict option" where
  "thread_verdict_of gs =
     (case splitlines (strip (gs ! 1)) of
        [] \<Rightarrow> None
      | l # ls \<Rightarrow>
          (case (int_of_str (gs ! 0), map_of thread_actions (lower (strip l))) of
             (Some i, Some a) \<Rightarrow>
               (let body = strip (join [NL] ls) in
                if a = Reply \<and> strip body = [] then None
                else Some \<lparr>tv_comment_id = i, tv_action = a, tv_body = body\<rparr>)
           | _ \<Rightarrow> None))"

definition parse_thread_verdicts :: "str \<Rightarrow> thread_verdict list" where
  "parse_thread_verdicts s = List.map_filter thread_verdict_of (findall THREAD_BLOCK s)"

section \<open>Flattening what came from GitHub\<close>

definition BODY_CAP :: nat where "BODY_CAP = 400"

text \<open>\<open>s.rsplit(" ", 1)[0]\<close>\<close>

definition rsplit_space :: "str \<Rightarrow> str" where
  "rsplit_space s = (if 32 \<in> set s then rev (tl (dropWhile (\<lambda>c. c \<noteq> 32) (rev s))) else s)"

text \<open>\<open>_strip\<close>; \<open>name\<close> is the bot's name in its signature.\<close>

definition flatten :: "str \<Rightarrow> nat \<Rightarrow> str \<Rightarrow> str" where
  "flatten name cap body =
     (let flat = join [32]
            (filter (\<lambda>l. strip l \<noteq> [] \<and> \<not> contains l (signature_sub name) \<and> \<not> startswith l (lit ''<sub>''))
              (splitlines body))
      in if length flat \<le> cap then flat else rsplit_space (take cap flat) @ [8230])"

definition where_of :: "str \<Rightarrow> thread \<Rightarrow> str" where
  "where_of name t =
     (let path = flatten name 200 (th_path t) in
      case th_line t of None \<Rightarrow> path | Some l \<Rightarrow> if l = 0 then path else path @ 58 # show_int l)"

definition thread_rows :: "str \<Rightarrow> thread \<Rightarrow> str list" where
  "thread_rows name t =
     (let settled = (if th_resolved t then lit ''RESOLVED''
                     else if th_replies t \<noteq> [] then lit ''ANSWERED'' else lit ''no reply yet'');
          state = (if th_outdated t then lit ''OUTDATED '' @ 183 # lit '' '' @ settled else settled)
      in (lit ''- ['' @ state @ lit ''] '' @ where_of name t @ NL # lit ''    you said: ''
            @ flatten name BODY_CAP (th_mine t))
         # map (\<lambda>r. lit ''    '' @ fst r @ lit '' replied: '' @ flatten name BODY_CAP (snd r)) (th_replies t))"

definition threads_block :: "str \<Rightarrow> thread list \<Rightarrow> str" where
  "threads_block name ts =
     join [NL] (concat (map (thread_rows name)
       (filter (\<lambda>t. \<not> th_outdated t \<or> th_replies t \<noteq> []) ts)))"

text \<open>The listing inside \<open>thread_preamble\<close>.\<close>

definition listing_rows :: "str \<Rightarrow> thread \<Rightarrow> str list" where
  "listing_rows name t =
     [lit ''THREAD '' @ show_int (th_comment_id t) @ lit '' '' @ 8212 # lit '' '' @ where_of name t
        @ (if th_outdated t
           then lit '' (OUTDATED '' @ 8212 # lit '' the code moved; a reply here stays collapsed)'' else []),
      lit ''  you said: '' @ flatten name 1200 (th_mine t)]
     @ map (\<lambda>r. lit ''  '' @ fst r @ lit '' replied: '' @ flatten name 1200 (snd r)) (th_replies t)"

definition thread_listing :: "str \<Rightarrow> thread list \<Rightarrow> str" where
  "thread_listing name ts = join [NL, NL] (map (\<lambda>t. join [NL] (listing_rows name t)) ts)"

section \<open>The automaton\<close>

text \<open>A line that opens a block of this name, and one that closes a block.\<close>

definition opens :: "str \<Rightarrow> str \<Rightarrow> bool" where
  "opens name l \<longleftrightarrow>
     startswith l (marker name) \<and> list_all is_space (drop (length (marker name)) l)"

definition closes :: "str \<Rightarrow> bool" where
  "closes l \<longleftrightarrow> startswith l END_MARK"

function scan :: "str \<Rightarrow> str list \<Rightarrow> str list" where
  "scan name [] = []"
| "scan name (l # ls) =
     (if opens name l then
        (case dropWhile (\<lambda>k. \<not> closes k) ls of
           [] \<Rightarrow> scan name ls
         | k # ks \<Rightarrow> strip (join [NL] (takeWhile (\<lambda>k. \<not> closes k) ls)) # scan name ks)
      else scan name ls)"
  by pat_completeness auto
termination
proof (relation "measure (\<lambda>(name, ls). length ls)", goal_cases)
  case (3 name l ls k ks)
  have "length (k # ks) \<le> length ls" unfolding 3(2) [symmetric] by (rule length_dropWhile_le)
  then show ?case by simp
qed auto

section \<open>The regular expression is the automaton\<close>

text \<open>The first closing marker at the start of a line: the text before it and after it.\<close>

fun find_end :: "bool \<Rightarrow> str \<Rightarrow> (str \<times> str) option" where
  "find_end b [] = None"
| "find_end b (c # x) =
     (if b \<and> closes (c # x) then Some ([], drop (length END_MARK) (c # x))
      else map_option (\<lambda>p. (c # fst p, snd p)) (find_end (c = NL) x))"

lemma END_MARK_Cons: "END_MARK = 60 # lit ''<<END>>>''"
  by (simp add: END_MARK_def marker_def lit_def)

lemma marker_Cons: "marker name = 60 # lit ''<<'' @ name @ lit ''>>>''"
  by (simp add: marker_def lit_Cons)

lemma closes_Nil [simp]: "\<not> closes []"
  by (simp add: closes_def END_MARK_Cons)

lemma closes_hd: "c \<noteq> 60 \<Longrightarrow> \<not> closes (c # x)"
  by (simp add: closes_def END_MARK_Cons startswith_Cons)

lemma space_not_60: "is_space c \<Longrightarrow> c \<noteq> 60"
  by (auto simp: is_space_def)

text \<open>The lazy group and the closing marker, tried from every position of the suffix \<open>y\<close>.\<close>

lemma lazy_end:
  defines "K \<equiv> Seq Bol (word END_MARK)"
  shows "find_end (bol l) y = None \<Longrightarrow> \<forall>q \<in> set (lazy (\<lambda>c. True) l y). run K q = []"
    and "find_end (bol l) y = Some (g, r) \<Longrightarrow>
         \<exists>pre post q. lazy (\<lambda>c. True) l y = pre @ q # post \<and> (\<forall>q' \<in> set pre. run K q' = []) \<and>
           y = g @ snd q \<and> run K q = [((rev END_MARK @ rev g @ l, r), [])]"
proof -
  have K: "run K (l, x) = (if bol l \<and> closes x
      then [((rev END_MARK @ l, drop (length END_MARK) x), [])] else [])" for l x
    by (simp add: K_def run_word closes_def del: run.simps(3))
  show "find_end (bol l) y = None \<Longrightarrow> \<forall>q \<in> set (lazy (\<lambda>c. True) l y). run K q = []"
  proof (induction y arbitrary: l)
    case Nil
    then show ?case by (simp add: K)
  next
    case (Cons c y)
    then have "\<not> (bol l \<and> closes (c # y))" "find_end (bol (c # l)) y = None"
      by (auto simp: bol_def split: if_splits)
    with Cons.IH [of "c # l"] show ?case by (simp add: K)
  qed
  show "find_end (bol l) y = Some (g, r) \<Longrightarrow>
         \<exists>pre post q. lazy (\<lambda>c. True) l y = pre @ q # post \<and> (\<forall>q' \<in> set pre. run K q' = []) \<and>
           y = g @ snd q \<and> run K q = [((rev END_MARK @ rev g @ l, r), [])]"
  proof (induction y arbitrary: l g)
    case Nil
    then show ?case by simp
  next
    case (Cons c y)
    show ?case
    proof (cases "bol l \<and> closes (c # y)")
      case True
      with Cons.prems have gr: "g = []" "r = drop (length END_MARK) (c # y)" by auto
      have "lazy (\<lambda>c. True) l (c # y) = [] @ (l, c # y) # lazy (\<lambda>c. True) (c # l) y" by simp
      moreover have "run K (l, c # y) = [((rev END_MARK @ rev g @ l, r), [])]"
        using True gr by (simp add: K)
      ultimately show ?thesis using gr(1)
        by (metis append_Nil empty_iff list.set(1) snd_conv)
    next
      case False
      with Cons.prems obtain g' where g': "g = c # g'" "find_end (bol (c # l)) y = Some (g', r)"
        by (auto simp: bol_def)
      from Cons.IH [OF g'(2)] obtain pre post q where
        1: "lazy (\<lambda>c. True) (c # l) y = pre @ q # post" "\<forall>q' \<in> set pre. run K q' = []"
          "y = g' @ snd q" "run K q = [((rev END_MARK @ rev g' @ c # l, r), [])]" by blast
      from False have "run K (l, c # y) = []" by (simp add: K)
      with 1 g' have "lazy (\<lambda>c. True) l (c # y) = ((l, c # y) # pre) @ q # post \<and>
          (\<forall>q' \<in> set ((l, c # y) # pre). run K q' = []) \<and>
          c # y = g @ snd q \<and> run K q = [((rev END_MARK @ rev g @ l, r), [])]" by simp
      then show ?thesis by blast
    qed
  qed
qed

lemma run_BODY:
  "first_run BODY (l, y) =
     map_option (\<lambda>p. ((rev END_MARK @ rev (fst p) @ l, snd p), [fst p])) (find_end (bol l) y)"
proof -
  let ?K = "Seq Bol (word END_MARK)"
  let ?f = "\<lambda>q. map (\<lambda>m'. (fst m', take (length y - length (snd q)) y # snd m')) (run ?K q)"
  have run: "run BODY (l, y) = concat (map ?f (lazy (\<lambda>c. True) l y))"
    by (simp add: BODY_def comp_def del: run.simps(7,8) run_seq_Bol)
  show ?thesis
  proof (cases "find_end (bol l) y")
    case None
    from lazy_end(1) [OF None] have "\<forall>q \<in> set (lazy (\<lambda>c. True) l y). ?f q = []" by simp
    then have "run BODY (l, y) = []" unfolding run by simp
    with None show ?thesis by (simp add: first_run_def)
  next
    case (Some p)
    obtain g r where p: "p = (g, r)" by (cases p)
    from lazy_end(2) [OF Some [unfolded p]] obtain pre post q where
      1: "lazy (\<lambda>c. True) l y = pre @ q # post" "\<forall>q' \<in> set pre. run ?K q' = []"
        "y = g @ snd q" "run ?K q = [((rev END_MARK @ rev g @ l, r), [])]" by blast
    from 1(2) have "concat (map ?f pre) = []" by simp
    moreover from 1(3,4) have "?f q = [((rev END_MARK @ rev g @ l, r), [g])]" by simp
    ultimately have "run BODY (l, y) = ((rev END_MARK @ rev g @ l, r), [g]) # concat (map ?f post)"
      unfolding run 1(1) by simp
    then show ?thesis using Some p by (simp add: first_run_def)
  qed
qed

text \<open>The text after the first line end, when only white space precedes it.\<close>

fun line_rest :: "str \<Rightarrow> str option" where
  "line_rest [] = None"
| "line_rest (c # x) = (if c = NL then Some x else if is_space c then line_rest x else None)"

lemma line_rest_SomeD:
  "line_rest x = Some z \<Longrightarrow> \<exists>v. x = v @ NL # z \<and> list_all is_space v \<and> NL \<notin> set v"
proof (induction x)
  case (Cons c x)
  show ?case
  proof (cases "c = NL")
    case True
    with Cons.prems show ?thesis by (intro exI [of _ "[]"]) simp
  next
    case False
    with Cons.prems have c: "is_space c" "line_rest x = Some z" by (auto split: if_splits)
    from Cons.IH [OF c(2)] obtain v where "x = v @ NL # z \<and> list_all is_space v \<and> NL \<notin> set v" by blast
    with c False show ?thesis by (intro exI [of _ "c # v"]) simp
  qed
qed simp

lemma line_rest_append:
  "NL \<notin> set v \<Longrightarrow> line_rest (v @ NL # z) = (if list_all is_space v then Some z else None)"
  by (induction v) auto

lemma line_rest_None: "NL \<notin> set v \<Longrightarrow> line_rest v = None"
  by (induction v) auto

lemma find_end_NL: "find_end b (NL # x) = map_option (\<lambda>p. (NL # fst p, snd p)) (find_end True x)"
  by (simp add: closes_hd)

lemma find_end_spaces:
  "list_all is_space v \<Longrightarrow>
   find_end b (v @ NL # z) = map_option (\<lambda>p. (v @ NL # fst p, snd p)) (find_end True z)"
proof (induction v arbitrary: b)
  case Nil
  show ?case by (simp add: find_end_NL del: find_end.simps)
next
  case (Cons c v)
  then have "\<not> closes (c # v @ NL # z)" by (intro closes_hd) (auto dest: space_not_60)
  with Cons show ?case by (simp add: option.map_comp comp_def)
qed

lemma strip_NL_prefix: "list_all is_space v \<Longrightarrow> strip (v @ NL # g) = strip g"
  using strip_p_append_all [of "v @ [NL]" is_space "[]" g] by (simp add: list_all_iff)

lemma END_MARK_rev: "rev END_MARK = 62 # rev (lit ''<<<END>>'')"
  by (simp add: END_MARK_def marker_def lit_def)

text \<open>The white space after the opening marker, the \<open>$\<close> and the rest of the pattern.\<close>

lemma run_space:
  defines "R \<equiv> \<lambda>q. run (Seq Eol BODY) q"
  shows "case Option.bind (line_rest x) (find_end True) of
           None \<Rightarrow> concat (map R (greedy is_space l x)) = []
         | Some p \<Rightarrow> \<exists>L g ms. concat (map R (greedy is_space l x)) = ((L, snd p), [g]) # ms
             \<and> strip g = strip (fst p) \<and> \<not> bol L"
proof (induction x arbitrary: l)
  have R: "R (l, x) = (if eol x then run BODY (l, x) else [])" for l x
    by (simp add: R_def)
  have none: "find_end b x = None \<Longrightarrow> bol l = b \<Longrightarrow> run BODY (l, x) = []" for b l x
    using run_BODY [of l x] by (auto simp: first_run_def split: list.splits)
  {
    case Nil
    then show ?case by (simp add: R none eol_def)
  next
    case (Cons c x)
    show ?case
    proof (cases "c = NL")
      case False
      show ?thesis
      proof (cases "is_space c")
        case True
        with False have eq: "concat (map R (greedy is_space l (c # x))) =
            concat (map R (greedy is_space (c # l) x))" by (simp add: R eol_def)
        have lr: "line_rest (c # x) = line_rest x" using True False by simp
        show ?thesis unfolding eq lr by (rule Cons.IH)
      next
        case ns: False
        with False show ?thesis by (simp add: R eol_def)
      qed
    next
      case True
      have last: "first_run BODY (l, NL # x) =
          map_option (\<lambda>p. ((rev END_MARK @ rev (NL # fst p) @ l, snd p), [NL # fst p])) (find_end True x)"
        unfolding run_BODY find_end_NL by (simp add: option.map_comp comp_def)
      have body: "R (l, NL # x) = run BODY (l, NL # x)" by (simp add: R eol_def)
      have split: "concat (map R (greedy is_space l (c # x))) =
          concat (map R (greedy is_space (NL # l) x)) @ R (l, NL # x)" by (simp add: True)
      show ?thesis
      proof (cases "Option.bind (line_rest x) (find_end True)")
        case None
        with Cons.IH [of "NL # l"] have nil: "concat (map R (greedy is_space (NL # l) x)) = []" by simp
        show ?thesis
        proof (cases "find_end True x")
          case None
          with last have "run BODY (l, NL # x) = []" by (auto simp: first_run_def split: list.splits)
          with nil split body None True show ?thesis by simp
        next
          case (Some p)
          with last obtain ms where
            "run BODY (l, NL # x) = ((rev END_MARK @ rev (NL # fst p) @ l, snd p), [NL # fst p]) # ms"
            by (auto simp: first_run_Some)
          moreover have "strip (NL # fst p) = strip (fst p)" using strip_NL_prefix [of "[]"] by simp
          moreover have "\<not> bol (rev END_MARK @ rev (NL # fst p) @ l)" by (simp add: bol_def END_MARK_rev)
          moreover have "concat (map R (greedy is_space l (c # x))) = run BODY (l, NL # x)"
            unfolding split nil body by simp
          ultimately show ?thesis using Some True by auto
        qed
      next
        case (Some p)
        then obtain z where z: "line_rest x = Some z" "find_end True z = Some p"
          by (auto simp: bind_eq_Some_conv)
        from line_rest_SomeD [OF z(1)] obtain v where v: "x = v @ NL # z" "list_all is_space v" by blast
        have x: "find_end True x = Some (v @ NL # fst p, snd p)"
          using find_end_spaces [OF v(2), of True z] z(2) v(1) by simp
        from Cons.IH [of "NL # l"] Some obtain L g ms where
          1: "concat (map R (greedy is_space (NL # l) x)) = ((L, snd p), [g]) # ms"
            "strip g = strip (fst p)" "\<not> bol L" by auto
        have "strip (v @ NL # fst p) = strip (fst p)" by (rule strip_NL_prefix [OF v(2)])
        with 1 split x True show ?thesis by auto
      qed
    qed
  }
qed

lemma startswith_stop: "c \<notin> set p \<Longrightarrow> startswith (w @ c # y) p = startswith w p"
proof (induction p arbitrary: w)
  case (Cons d p)
  then show ?case by (cases w) (auto simp: startswith_Cons)
qed simp

lemma NL_END_MARK: "NL \<notin> set END_MARK"
  by (simp add: END_MARK_def marker_def lit_def)

lemma NL_marker: "NL \<notin> set name \<Longrightarrow> NL \<notin> set (marker name)"
  by (simp add: marker_def lit_def)

lemma closes_line: "closes (w @ NL # y) = closes w"
  unfolding closes_def by (rule startswith_stop [OF NL_END_MARK])

lemma find_end_inside:
  "NL \<notin> set w \<Longrightarrow> find_end False (w @ NL # y) = map_option (\<lambda>p. (w @ NL # fst p, snd p)) (find_end True y)"
  "NL \<notin> set w \<Longrightarrow> find_end False w = None"
  by (induction w) (simp_all add: option.map_comp comp_def)

lemma find_end_line:
  assumes "NL \<notin> set w"
  shows "find_end True (w @ NL # y) =
           (if closes w then Some ([], drop (length END_MARK) (w @ NL # y))
            else map_option (\<lambda>p. (w @ NL # fst p, snd p)) (find_end True y))"
    and "find_end True w = (if closes w then Some ([], drop (length END_MARK) w) else None)"
proof -
  show "find_end True (w @ NL # y) =
           (if closes w then Some ([], drop (length END_MARK) (w @ NL # y))
            else map_option (\<lambda>p. (w @ NL # fst p, snd p)) (find_end True y))"
  proof (cases w)
    case Nil
    then show ?thesis by (simp add: find_end_NL del: find_end.simps)
  next
    case (Cons c v)
    with assms closes_line [of w y] find_end_inside(1) [of v y] show ?thesis
      by (simp add: option.map_comp comp_def)
  qed
  show "find_end True w = (if closes w then Some ([], drop (length END_MARK) w) else None)"
  proof (cases w)
    case (Cons c v)
    with assms find_end_inside(2) [of v] show ?thesis by simp
  qed simp
qed

lemma join_NL_Cons: "ls \<noteq> [] \<Longrightarrow> join [NL] (w # ls) = w @ NL # join [NL] ls"
  by (cases ls) simp_all

lemma strip_NL_suffix: "strip (g @ [NL]) = strip g"
  using strip_p_append_all [of "[]" is_space "[NL]" g] by simp

text \<open>On whole lines: the body up to the first line that closes, and what follows it.\<close>

lemma find_end_lines:
  "ls \<noteq> [] \<Longrightarrow> list_all (\<lambda>l. NL \<notin> set l) ls \<Longrightarrow>
   find_end True (join [NL] ls) =
     (case dropWhile (\<lambda>k. \<not> closes k) ls of
        [] \<Rightarrow> None
      | k # ks \<Rightarrow> Some (concat (map (\<lambda>l. l @ [NL]) (takeWhile (\<lambda>k. \<not> closes k) ls)),
                        drop (length END_MARK) (join [NL] (k # ks))))"
proof (induction ls)
  case (Cons w ls)
  then have w: "NL \<notin> set w" by simp
  show ?case
  proof (cases "ls = []")
    case True
    with find_end_line(2) [OF w] show ?thesis by simp
  next
    case False
    with Cons have IH: "find_end True (join [NL] ls) =
     (case dropWhile (\<lambda>k. \<not> closes k) ls of
        [] \<Rightarrow> None
      | k # ks \<Rightarrow> Some (concat (map (\<lambda>l. l @ [NL]) (takeWhile (\<lambda>k. \<not> closes k) ls)),
                        drop (length END_MARK) (join [NL] (k # ks))))" by simp
    show ?thesis
    proof (cases "closes w")
      case True
      with False find_end_line(1) [OF w, of "join [NL] ls"] show ?thesis by (simp add: join_NL_Cons)
    next
      case nc: False
      have "find_end True (join [NL] (w # ls)) =
          map_option (\<lambda>p. (w @ NL # fst p, snd p)) (find_end True (join [NL] ls))"
        using nc find_end_line(1) [OF w, of "join [NL] ls"] join_NL_Cons [OF False, of w]
        by (simp del: join.simps)
      with nc show ?thesis unfolding IH
        by (cases "dropWhile (\<lambda>k. \<not> closes k) ls") (simp_all del: dropWhile_eq_Nil_conv)
    qed
  qed
qed simp

lemma strip_body: "strip (concat (map (\<lambda>l. l @ [NL]) ls)) = strip (join [NL] ls)"
proof (cases "ls = []")
  case False
  then have "concat (map (\<lambda>l. l @ [NL]) ls) = join [NL] ls @ [NL]"
  proof (induction ls)
    case (Cons w ls)
    then show ?case by (cases ls) simp_all
  qed simp
  then show ?thesis by (simp add: strip_NL_suffix)
qed simp

lemma run_seq_Greedy:
  "run (Seq (Greedy p) r) q = concat (map (run r) (greedy p (fst q) (snd q)))"
  by (simp add: comp_def)

lemma run_seq_word:
  "run (Seq (word s) r) (l, x) =
     (if startswith x s then run r (rev s @ l, drop (length s) x) else [])"
  by (simp add: run_word comp_def)

text \<open>One attempt of the pattern at the start of the line \<open>w\<close>, with the lines \<open>ls\<close> after it.\<close>

lemma run_BLOCK:
  assumes bol: "bol l" and w: "NL \<notin> set w" and ls: "list_all (\<lambda>l. NL \<notin> set l) ls"
    and name: "NL \<notin> set name" and x: "x = join [NL] (w # ls)"
  shows "\<not> opens name w \<or> dropWhile (\<lambda>k. \<not> closes k) ls = [] \<Longrightarrow> run (BLOCK name) (l, x) = []"
    and "opens name w \<Longrightarrow> dropWhile (\<lambda>k. \<not> closes k) ls = k # ks \<Longrightarrow>
         \<exists>L g ms. run (BLOCK name) (l, x) = ((L, drop (length END_MARK) (join [NL] (k # ks))), [g]) # ms
           \<and> strip g = strip (join [NL] (takeWhile (\<lambda>k. \<not> closes k) ls)) \<and> \<not> bol L"
proof -
  let ?m = "marker name" and ?x = "join [NL] (w # ls)"
  let ?R = "\<lambda>q. run (Seq Eol BODY) q"
  let ?u = "drop (length ?m) w"
  have starts: "startswith ?x ?m = startswith w ?m"
    using startswith_stop [OF NL_marker [OF name], of w "join [NL] ls"] by (cases ls) simp_all
  have run: "run (BLOCK name) (l, ?x) =
      (if startswith ?x ?m
       then concat (map ?R (greedy is_space (rev ?m @ l) (drop (length ?m) ?x))) else [])"
    using bol by (simp add: BLOCK_def run_seq_word run_seq_Greedy del: run.simps(3))
  have u: "NL \<notin> set ?u" using w by (auto dest: in_set_dropD)
  have rest: "line_rest (drop (length ?m) ?x) =
      (if list_all is_space ?u \<and> ls \<noteq> [] then Some (join [NL] ls) else None)" if "startswith w ?m"
  proof (cases "ls = []")
    case True
    then show ?thesis using line_rest_None [OF u] by simp
  next
    case False
    from that have "length ?m \<le> length w" by (auto simp: startswith_iff)
    with False have "drop (length ?m) ?x = ?u @ NL # join [NL] ls" by (simp add: join_NL_Cons)
    with line_rest_append [OF u] False show ?thesis by simp
  qed
  note lines = find_end_lines [OF _ ls]
  show "\<not> opens name w \<or> dropWhile (\<lambda>k. \<not> closes k) ls = [] \<Longrightarrow> run (BLOCK name) (l, x) = []"
  proof (cases "startswith w ?m")
    case True
    assume no: "\<not> opens name w \<or> dropWhile (\<lambda>k. \<not> closes k) ls = []"
    have "Option.bind (line_rest (drop (length ?m) ?x)) (find_end True) = None"
    proof (cases "opens name w \<and> ls \<noteq> []")
      case t: True
      with no have "dropWhile (\<lambda>k. \<not> closes k) ls = []" by blast
      with lines t have "find_end True (join [NL] ls) = None" by (simp del: dropWhile_eq_Nil_conv)
      with rest [OF True] t show ?thesis by (simp add: opens_def)
    next
      case False
      with rest [OF True] True show ?thesis by (auto simp: opens_def)
    qed
    with run_space [where x = "drop (length ?m) ?x" and l = "rev ?m @ l"]
    have "concat (map ?R (greedy is_space (rev ?m @ l) (drop (length ?m) ?x))) = []"
      by (simp only: option.case)
    then show ?thesis unfolding x run by (simp only: if_cancel)
  next
    case False
    with run starts show ?thesis unfolding x by simp
  qed
  assume o: "opens name w" and d: "dropWhile (\<lambda>k. \<not> closes k) ls = k # ks"
  from d have ne: "ls \<noteq> []" by auto
  from o have sw: "startswith w ?m" by (simp add: opens_def)
  let ?p = "(concat (map (\<lambda>l. l @ [NL]) (takeWhile (\<lambda>k. \<not> closes k) ls)),
                        drop (length END_MARK) (join [NL] (k # ks)))"
  have "Option.bind (line_rest (drop (length ?m) ?x)) (find_end True) = Some ?p"
    using rest [OF sw] o ne lines [OF ne] d by (simp add: opens_def)
  with run_space [where x = "drop (length ?m) ?x" and l = "rev ?m @ l"] obtain L g ms where
    "concat (map ?R (greedy is_space (rev ?m @ l) (drop (length ?m) ?x))) = ((L, snd ?p), [g]) # ms"
    "strip g = strip (fst ?p)" "\<not> bol L" by (simp only: option.case) blast
  with run starts sw strip_body [of "takeWhile (\<lambda>k. \<not> closes k) ls"]
  show "\<exists>L g ms. run (BLOCK name) (l, x) = ((L, drop (length END_MARK) (join [NL] (k # ks))), [g]) # ms
           \<and> strip g = strip (join [NL] (takeWhile (\<lambda>k. \<not> closes k) ls)) \<and> \<not> bol L"
    unfolding x by auto
qed

lemma findall_scan:
  assumes name: "NL \<notin> set name"
  shows "bol l \<Longrightarrow> ls \<noteq> [] \<Longrightarrow> list_all (\<lambda>l. NL \<notin> set l) ls \<Longrightarrow>
         map (strip \<circ> hd) (findall_from (BLOCK name) l (join [NL] ls)) = scan name ls"
proof (induction "length ls" arbitrary: l ls rule: less_induct)
  case less
  have anch: "\<not> bol l \<Longrightarrow> run (BLOCK name) (l, x) = []" for l x
    by (simp add: BLOCK_def)
  from less.prems obtain w vs where ls: "ls = w # vs" by (cases ls) auto
  with less.prems have w: "NL \<notin> set w" and vs: "list_all (\<lambda>l. NL \<notin> set l) vs" by simp_all
  let ?x = "join [NL] ls"
  have skip: "run (BLOCK name) (l, ?x) = [] \<Longrightarrow>
      map (strip \<circ> hd) (findall_from (BLOCK name) l ?x) = scan name vs"
  proof (cases "vs = []")
    case True
    with findall_from_next_line(2) [of "BLOCK name" w l] anch w ls
    show "run (BLOCK name) (l, ?x) = [] \<Longrightarrow>
      map (strip \<circ> hd) (findall_from (BLOCK name) l ?x) = scan name vs" by simp
  next
    case False
    moreover have "bol (NL # rev w @ l)" by (simp add: bol_def)
    ultimately have "map (strip \<circ> hd) (findall_from (BLOCK name) (NL # rev w @ l) (join [NL] vs)) = scan name vs"
      using less.hyps [of vs "NL # rev w @ l"] vs ls by simp
    with False findall_from_next_line(1) [of "BLOCK name" w l "join [NL] vs"] anch w ls
    show "run (BLOCK name) (l, ?x) = [] \<Longrightarrow>
      map (strip \<circ> hd) (findall_from (BLOCK name) l ?x) = scan name vs" by (simp add: join_NL_Cons)
  qed
  note attempt = run_BLOCK [OF less.prems(1) w vs name, of ?x]
  show ?case
  proof (cases "opens name w")
    case False
    with skip attempt(1) ls show ?thesis by simp
  next
    case o: True
    show ?thesis
    proof (cases "dropWhile (\<lambda>k. \<not> closes k) vs")
      case Nil
      with skip attempt(1) ls o show ?thesis by (simp del: dropWhile_eq_Nil_conv)
    next
      case (Cons k ks)
      let ?r = "drop (length END_MARK) (join [NL] (k # ks))"
      from attempt(2) [OF _ o Cons] ls obtain L g ms where
        1: "run (BLOCK name) (l, ?x) = ((L, ?r), [g]) # ms"
          "strip g = strip (join [NL] (takeWhile (\<lambda>k. \<not> closes k) vs))" "\<not> bol L" by blast
      have mem: "set (k # ks) \<subseteq> set vs" unfolding Cons [symmetric] by (auto dest: set_dropWhileD)
      then have k: "NL \<notin> set k" and ks: "list_all (\<lambda>l. NL \<notin> set l) ks"
        using vs by (auto simp: list_all_iff)
      have "closes k" using hd_dropWhile [of "\<lambda>k. \<not> closes k" vs] Cons by simp
      then obtain k' where k': "k = END_MARK @ k'" by (auto simp: closes_def startswith_iff)
      with k have nk': "NL \<notin> set k'" by simp
      have len: "length (k # ks) \<le> length vs" unfolding Cons [symmetric] by (rule length_dropWhile_le)
      have shorter: "length ?r < length ?x"
      proof -
        from run_consumes [of "((L, ?r), [g])" "BLOCK name" l ?x] 1(1) obtain v where
          v: "?x = v @ ?r" "L = rev v @ l" by auto
        with 1(3) less.prems(1) have "v \<noteq> []" by auto
        then have "0 < length v" by simp
        then show ?thesis unfolding v(1) by simp
      qed
      have "findall_from (BLOCK name) l ?x = [g] # findall_from (BLOCK name) L ?r"
        using findall_from_match [OF 1(1)] shorter by simp
      moreover have "map (strip \<circ> hd) (findall_from (BLOCK name) L ?r) = scan name ks"
      proof (cases "ks = []")
        case True
        then have "?r = k'" by (simp add: k')
        with True findall_from_skip_line(2) [OF anch 1(3) nk'] show ?thesis by simp
      next
        case False
        then have "?r = k' @ NL # join [NL] ks" by (simp add: k' join_NL_Cons)
        moreover have "bol (NL # rev k' @ L)" by (simp add: bol_def)
        ultimately show ?thesis
          using findall_from_skip_line(1) [OF anch 1(3) nk'] less.hyps [of ks] ks False len ls by simp
      qed
      ultimately show ?thesis using 1(2) ls o Cons by simp
    qed
  qed
qed

lemma block_scan:
  assumes "NL \<notin> set name"
  shows "block_of s name = last_or [] (scan name (split_on NL s))"
proof -
  have eq: "scan name (split_on NL s) = map (strip \<circ> hd) (findall (BLOCK name) s)"
    using findall_scan [OF assms, of "[]" "split_on NL s"] split_on_no_sep [of _ NL s]
    by (simp add: findall_def join_split_on bol_def list_all_iff)
  show ?thesis unfolding eq
    by (cases "findall (BLOCK name) s") (simp_all add: block_of_def last_or_def last_map)
qed

text \<open>
  The parser returns the last block the line automaton finds, stripped, and the empty
  string when it finds none: blocks are whole lines, an opening marker with anything but
  white space after it opens nothing, and one that is never closed is skipped.
\<close>

theorem block_of_scan:
  assumes "NL \<notin> set name"
  shows "block_of s name = last_or [] (scan name (split_on NL s))"
  using assms by (rule block_scan)

theorem block_of_scan_witness:
  "block_of (lit ''<<<VERDICT>>> '' @ NL # lit ''ok'' @ NL # lit ''<<<END>>><<<INLINE>>>'') (lit ''VERDICT'') = lit ''ok''"
  by (subst block_of_scan)
    (simp_all add: lit_def opens_def closes_def marker_def END_MARK_def startswith_def is_space_def
      strip_p_def lstrip_p_def rstrip_p_def last_or_def)

section \<open>The last block wins\<close>

text \<open>Lines after which no block of this name is left open.\<close>

function settled :: "str \<Rightarrow> str list \<Rightarrow> bool" where
  "settled name [] = True"
| "settled name (l # ls) =
     (if opens name l then
        (case dropWhile (\<lambda>k. \<not> closes k) ls of [] \<Rightarrow> False | k # ks \<Rightarrow> settled name ks)
      else settled name ls)"
  by pat_completeness auto
termination
proof (relation "measure (\<lambda>(name, ls). length ls)", goal_cases)
  case (2 name l ls k ks)
  have "length (k # ks) \<le> length ls" unfolding 2(2) [symmetric] by (rule length_dropWhile_le)
  then show ?case by simp
qed auto

lemma dropWhile_append_Cons:
  "dropWhile P xs = y # ys \<Longrightarrow> dropWhile P (xs @ zs) = y # ys @ zs \<and> takeWhile P (xs @ zs) = takeWhile P xs"
  by (induction xs) (auto split: if_splits)

lemma scan_append: "settled name pre \<Longrightarrow> scan name (pre @ ls) = scan name pre @ scan name ls"
proof (induction name pre rule: settled.induct)
  case (2 name l pre)
  show ?case
  proof (cases "opens name l")
    case True
    with "2.prems" obtain k ks where k: "dropWhile (\<lambda>k. \<not> closes k) pre = k # ks" "settled name ks"
      by (auto split: list.splits simp del: dropWhile_eq_Nil_conv)
    with True "2.IH"(1) [OF True k(1)] dropWhile_append_Cons [OF k(1), of ls] show ?thesis by simp
  qed (use 2 in simp)
qed simp

lemma scan_none: "list_all (\<lambda>l. \<not> opens name l) ls \<Longrightarrow> scan name ls = []"
  by (induction ls) auto

lemma scan_block:
  assumes "opens name m" "list_all (\<lambda>l. \<not> closes l) body" "closes e"
  shows "scan name (m # body @ e # post) = strip (join [NL] body) # scan name post"
proof -
  have "dropWhile (\<lambda>k. \<not> closes k) (body @ e # post) = e # post"
    "takeWhile (\<lambda>k. \<not> closes k) (body @ e # post) = body"
    using assms(2,3) by (induction body) auto
  with assms(1) show ?thesis by simp
qed

text \<open>
  C16: whatever a quoted file put before it, the block the answer ends with is the one that
  is read, word for word up to surrounding white space, as long as the text before leaves no
  block of that name open and the text after opens none.
\<close>

theorem last_block_wins:
  assumes "NL \<notin> set name" and "list_all (\<lambda>l. NL \<notin> set l) (pre @ body @ post)"
    and "settled name pre" and "list_all (\<lambda>l. \<not> closes l) body"
    and "list_all (\<lambda>l. \<not> opens name l) post"
  shows "block_of (join [NL] (pre @ marker name # body @ END_MARK # post)) name = strip (join [NL] body)"
proof -
  let ?ls = "pre @ marker name # body @ END_MARK # post"
  have "opens name (marker name)" "closes END_MARK"
    by (simp_all add: opens_def closes_def startswith_def)
  with assms(3-5) have "scan name ?ls = scan name pre @ [strip (join [NL] body)]"
    by (simp add: scan_append scan_block scan_none del: scan.simps)
  moreover have "split_on NL (join [NL] ?ls) = ?ls"
  proof (rule split_on_join)
    show "NL \<notin> set w" if "w \<in> set ?ls" for w
      using that assms(2) NL_marker [OF assms(1)] NL_END_MARK by (auto simp: list_all_iff)
  qed simp
  ultimately show ?thesis using block_scan [OF assms(1)] by (simp add: last_or_def)
qed

theorem last_block_wins_witness:
  "block_of (join [NL] ([lit ''see:'', marker (lit ''VERDICT''), lit ''needs-work'', END_MARK]
     @ marker (lit ''VERDICT'') # [lit ''ok''] @ END_MARK # [lit ''bye''])) (lit ''VERDICT'')
   = strip (join [NL] [lit ''ok''])"
  by (rule last_block_wins)
    (simp_all add: lit_def opens_def closes_def marker_def END_MARK_def startswith_def is_space_def)

text \<open>
  An echoed opening marker that is never closed swallows the verdict after it: the
  answer below ends with a well-formed \<open>ok\<close>, and no verdict is read from it.
\<close>

theorem unclosed_echo_swallows_verdict:
  "bl_verdict (parse_blocks (join [NL]
     [marker (lit ''VERDICT''), lit ''quoted from the diff'', marker (lit ''VERDICT''), lit ''ok'', END_MARK])) = None"
proof -
  let ?v = "lit ''VERDICT''"
  let ?ls = "[marker ?v, lit ''quoted from the diff'', marker ?v, lit ''ok'', END_MARK]"
  have "split_on NL (join [NL] ?ls) = ?ls"
    by (rule split_on_join) (auto simp: marker_def END_MARK_def lit_def)
  moreover have "scan ?v ?ls = [strip (join [NL] [lit ''quoted from the diff'', marker ?v, lit ''ok''])]"
    using scan_block [of ?v "marker ?v" "[lit ''quoted from the diff'', marker ?v, lit ''ok'']" END_MARK "[]"]
    by (simp add: opens_def closes_def marker_def END_MARK_def lit_def startswith_def)
  ultimately have "block_of (join [NL] ?ls) ?v =
      strip (join [NL] [lit ''quoted from the diff'', marker ?v, lit ''ok''])"
    using block_scan [of ?v "join [NL] ?ls"] by (simp add: last_or_def lit_def)
  then show ?thesis
    by (simp add: parse_blocks_def marker_def lit_def strip_p_def lstrip_p_def rstrip_p_def is_space_def
        letters_only_def lower_def lower_cp_def verdict_table_def)
qed

section \<open>Flattened text cannot forge a marker\<close>

lemma rsplit_space_subset: "set (rsplit_space s) \<subseteq> set s"
  by (auto simp: rsplit_space_def dest!: list.set_sel(2) [rotated] dest: set_dropWhileD)

lemma length_rsplit_space: "length (rsplit_space s) \<le> length s"
  using length_dropWhile_le [of "\<lambda>c. c \<noteq> 32" "rev s"] by (simp add: rsplit_space_def le_diff_conv)

lemma flatten_one_line: "one_line_text (flatten name cap body)"
proof -
  let ?ls = "filter (\<lambda>l. strip l \<noteq> [] \<and> \<not> contains l (signature_sub name) \<and> \<not> startswith l (lit ''<sub>''))
              (splitlines body)"
  have "\<not> is_linebreak c" if "c \<in> set (join [32] ?ls)" for c
  proof -
    from that have "c = 32 \<or> (\<exists>l \<in> set ?ls. c \<in> set l)" using set_join_subset [of "[32]" ?ls] by auto
    then show ?thesis using splitlines_no_break by (auto simp: is_linebreak_def)
  qed
  moreover have "set (flatten name cap body) \<subseteq> insert 8230 (set (join [32] ?ls))"
    using rsplit_space_subset [of "take cap (join [32] ?ls)"]
    by (auto simp: flatten_def Let_def dest: in_set_takeD)
  moreover have "\<not> is_linebreak 8230" by (simp add: is_linebreak_def)
  ultimately show ?thesis unfolding one_line_text_def list_all_iff by blast
qed

lemma length_flatten: "length (flatten name cap body) \<le> cap + 1"
proof -
  have "length (rsplit_space (take cap t)) \<le> cap" for t
    using length_rsplit_space [of "take cap t"] by simp
  then show ?thesis by (simp add: flatten_def Let_def)
qed

lemma show_int_one_line: "one_line_text (show_int i)"
  unfolding one_line_text_def list_all_iff using show_int_chars by (fastforce simp: is_linebreak_def)

lemma one_line_text_append [simp]: "one_line_text (s @ t) \<longleftrightarrow> one_line_text s \<and> one_line_text t"
  by (simp add: one_line_text_def)

lemma one_line_text_Cons [simp]: "one_line_text (c # t) \<longleftrightarrow> \<not> is_linebreak c \<and> one_line_text t"
  by (simp add: one_line_text_def)

lemma one_line_text_Nil [simp]: "one_line_text []"
  by (simp add: one_line_text_def)

lemma one_line_no_NL: "one_line_text s \<Longrightarrow> NL \<notin> set s"
  by (auto simp: one_line_text_def list_all_iff)

lemma where_one_line: "one_line_text (where_of name t)"
  using flatten_one_line [of name 200 "th_path t"]
  by (auto simp: where_of_def Let_def show_int_one_line is_linebreak_def split: option.splits)

text \<open>The lines a thread contributes: each starts with the template's own characters.\<close>

definition template_line :: "str \<Rightarrow> bool" where
  "template_line l \<longleftrightarrow> startswith l (lit ''- ['') \<or> startswith l (lit ''    '')"

lemma template_line_opens: "template_line l \<Longrightarrow> \<not> startswith l (lit ''<<<'')"
  by (cases l) (auto simp: template_line_def lit_Cons startswith_Cons)

lemma split_on_append_gen:
  "split_on c (u @ c # v) = split_on c u @ split_on c v"
proof (induction u)
  case (Cons d u)
  then show ?case by (cases "split_on c u") auto
qed simp

lemma split_on_join_flat:
  "ws \<noteq> [] \<Longrightarrow> split_on NL (join [NL] ws) = concat (map (split_on NL) ws)"
proof (induction ws)
  case (Cons w ws)
  then show ?case by (cases ws) (simp_all add: split_on_append_gen)
qed simp

definition logins_plain :: "thread \<Rightarrow> bool" where
  "logins_plain t \<longleftrightarrow> list_all (\<lambda>r. one_line_text (fst r)) (th_replies t)"

lemma thread_rows_lines:
  assumes "logins_plain t" "r \<in> set (thread_rows name t)" "l \<in> set (split_on NL r)"
  shows "template_line l"
proof -
  let ?head = "\<lambda>st. lit ''- ['' @ st @ lit ''] '' @ where_of name t"
  let ?said = "lit ''    you said: '' @ flatten name BODY_CAP (th_mine t)"
  let ?settled = "if th_resolved t then lit ''RESOLVED''
                     else if th_replies t \<noteq> [] then lit ''ANSWERED'' else lit ''no reply yet''"
  let ?state = "if th_outdated t then lit ''OUTDATED '' @ 183 # lit '' '' @ ?settled else ?settled"
  have state: "one_line_text ?state" by (auto simp: lit_Cons is_linebreak_def)
  from assms(2) consider "r = ?head ?state @ NL # ?said"
    | who what where "(who, what) \<in> set (th_replies t)"
      "r = lit ''    '' @ who @ lit '' replied: '' @ flatten name BODY_CAP what"
    by (auto simp: thread_rows_def Let_def)
  then show ?thesis
  proof cases
    case 1
    have "one_line_text (?head ?state)" "one_line_text ?said"
      using state where_one_line flatten_one_line by (auto simp: lit_Cons is_linebreak_def)
    note one = this [THEN one_line_no_NL, THEN split_on_single]
    have "split_on NL r = split_on NL (?head ?state) @ split_on NL ?said"
      using split_on_append_gen [of NL "?head ?state" ?said] 1 by (simp only: append_assoc)
    with one have "split_on NL r = [?head ?state, ?said]" by simp
    with assms(3) show ?thesis by (auto simp: template_line_def lit_Cons startswith_Cons)
  next
    case 2
    then have "one_line_text who" using assms(1) by (auto simp: logins_plain_def list_all_iff)
    then have "one_line_text r"
      unfolding 2 using flatten_one_line by (auto simp: lit_Cons is_linebreak_def)
    with assms(3) have "l = r" by (simp add: split_on_single one_line_no_NL)
    then show ?thesis unfolding 2 by (simp add: template_line_def lit_Cons startswith_Cons)
  qed
qed

text \<open>
  Whatever a comment body or a file name contains, no line of the threads block starts
  with the three characters of a marker: each line starts with the template's own text.
\<close>

theorem threads_block_no_marker:
  assumes "list_all logins_plain ts" and "l \<in> set (split_on NL (threads_block name ts))"
  shows "\<not> startswith l (lit ''<<<'')"
proof -
  let ?rows = "concat (map (thread_rows name) (filter (\<lambda>t. \<not> th_outdated t \<or> th_replies t \<noteq> []) ts))"
  show ?thesis
  proof (cases "?rows = []")
    case True
    then have "threads_block name ts = []" unfolding threads_block_def by (simp only: join.simps)
    with assms(2) have "l = []" by simp
    then show ?thesis by (simp add: lit_Cons)
  next
    case False
    with assms(2) obtain r where r: "r \<in> set ?rows" "l \<in> set (split_on NL r)"
      by (auto simp: threads_block_def split_on_join_flat)
    from r(1) obtain t where "t \<in> set ts" "r \<in> set (thread_rows name t)" by auto
    with assms(1) r(2) have "template_line l"
      by (intro thread_rows_lines [of t r name l]) (auto simp: list_all_iff)
    then show ?thesis by (rule template_line_opens)
  qed
qed

theorem threads_block_no_marker_witness:
  "\<not> startswith (hd (split_on NL (threads_block (lit ''robbie'') [sample_thread]))) (lit ''<<<'')"
  by (rule threads_block_no_marker [where ts = "[sample_thread]" and name = "lit ''robbie''"])
    (simp_all add: logins_plain_def sample_thread_def lit_Cons is_linebreak_def)

lemmas flatten_facts = flatten_one_line length_flatten rsplit_space_subset

section \<open>Thread verdicts\<close>

lemma parsed_thread_verdict:
  assumes "v \<in> set (parse_thread_verdicts s)"
  obtains gs where "gs \<in> set (findall THREAD_BLOCK s)" "int_of_str (gs ! 0) = Some (tv_comment_id v)"
    "tv_action v = Reply \<Longrightarrow> strip (tv_body v) \<noteq> []"
proof -
  from assms obtain gs where gs: "gs \<in> set (findall THREAD_BLOCK s)" "thread_verdict_of gs = Some v"
    by (auto simp: parse_thread_verdicts_def List.map_filter_def)
  from gs(2) have "int_of_str (gs ! 0) = Some (tv_comment_id v) \<and>
      (tv_action v = Reply \<longrightarrow> strip (tv_body v) \<noteq> [])"
    by (auto simp: thread_verdict_of_def Let_def split: list.splits option.splits if_splits)
  with gs(1) show ?thesis by (intro that) auto
qed

end
