(* ===== verification/Triage.thy ===== *)
theory Triage
  imports Contract
begin

text \<open>
  Issue triage (\<open>src/robbie/triage.py\<close>): reading an issue form, deciding from the form alone
  whether a bot may try, and reading the model's answer to the money question. The
  properties are the fail-closed readings of both: exactly when an attempt is allowed, and
  exactly which answers clear an issue of the money paths.
\<close>

section \<open>The form\<close>

definition NO_RESPONSE :: str where
  "NO_RESPONSE = lit ''_No response_''"

definition FENCES :: "str list" where
  "FENCES = [lit ''```'', lit ''~~~'']"

definition hashes_off :: "str \<Rightarrow> str" where
  "hashes_off l = strip (lstrip_p (\<lambda>c. c = 35) l)"

text \<open>The state of the loop of \<open>fields\<close>.\<close>

record form_state =
  fs_out :: "(str, str list) dict"
  fs_current :: "str option"
  fs_fence :: "str option"

definition is_heading :: "(str, str list) dict \<Rightarrow> str \<Rightarrow> bool" where
  "is_heading out l \<longleftrightarrow>
     (startswith l (lit ''## '') \<or> startswith l (lit ''### '')) \<and> hashes_off l \<notin> set (dkeys out)"

definition keep_line :: "str \<Rightarrow> form_state \<Rightarrow> form_state" where
  "keep_line l s =
     (case fs_current s of
        None \<Rightarrow> s
      | Some c \<Rightarrow> s\<lparr>fs_out := dset c (dget_or (fs_out s) c [] @ [l]) (fs_out s)\<rparr>)"

definition form_step :: "form_state \<Rightarrow> str \<Rightarrow> form_state" where
  "form_step s l =
     (case fs_fence s of
        Some f \<Rightarrow> keep_line l (if startswith (lstrip l) f then s\<lparr>fs_fence := None\<rparr> else s)
      | None \<Rightarrow>
          if take 3 (lstrip l) \<in> set FENCES then keep_line l (s\<lparr>fs_fence := Some (take 3 (lstrip l))\<rparr>)
          else if is_heading (fs_out s) l
          then s\<lparr>fs_current := Some (hashes_off l), fs_out := dset (hashes_off l) [] (fs_out s)\<rparr>
          else keep_line l s)"

definition form_start :: form_state where
  "form_start = \<lparr>fs_out = [], fs_current = None, fs_fence = None\<rparr>"

definition answer_of :: "str list \<Rightarrow> str" where
  "answer_of ls = (let t = strip (join [NL] ls) in if t = NO_RESPONSE then [] else t)"

definition form_lines :: "str \<Rightarrow> str list" where
  "form_lines body = split_on NL (replace [13, NL] [NL] body)"

definition form_fields :: "str \<Rightarrow> (str, str) dict" where
  "form_fields body =
     map (\<lambda>kv. (fst kv, answer_of (snd kv))) (fs_out (foldl form_step form_start (form_lines body)))"

section \<open>The verdict of the form\<close>

datatype triage_action = Attempt | Ask | Assign

record triage_verdict =
  tr_action :: triage_action
  tr_reason :: str

text \<open>\<open>Rules.__bool__\<close>: \<open>ask_if\<close> alone does not count.\<close>

definition has_rules :: "triage_rules \<Rightarrow> bool" where
  "has_rules r \<longleftrightarrow> require r \<noteq> [] \<or> needs r \<noteq> [] \<or> block_if r \<noteq> []"

definition said :: "str \<Rightarrow> str \<Rightarrow> str" where
  "said field value = field @ lit '': '' @ (if value = [] then lit ''unanswered'' else value)"

text \<open>The loop over \<open>require\<close>: an early return, or the question it leaves.\<close>

fun require_loop ::
  "(str, str) dict \<Rightarrow> (str, str list) dict \<Rightarrow> triage_verdict option \<Rightarrow> (str, str list) dict
   \<Rightarrow> triage_verdict + triage_verdict option" where
  "require_loop answers ask_rules ask [] = Inr ask"
| "require_loop answers ask_rules ask ((field, allowed) # rest) =
     (let value = dget_or answers field [] in
      if value \<in> set allowed then require_loop answers ask_rules ask rest
      else if value \<in> set (dget_or ask_rules field [])
      then require_loop answers ask_rules
             (case ask of
                None \<Rightarrow> Some \<lparr>tr_action = Ask, tr_reason = said field value\<rparr>
              | Some a \<Rightarrow> Some a) rest
      else Inl \<lparr>tr_action = Assign, tr_reason = said field value\<rparr>)"

text \<open>The loop over \<open>block_if\<close>; \<open>answers[field]\<close> raises for a missing field.\<close>

fun block_loop :: "(str, str) dict \<Rightarrow> (str, str list) dict \<Rightarrow> triage_verdict option res" where
  "block_loop answers [] = Inr None"
| "block_loop answers ((field, blocked) # rest) =
     (if dget_or answers field [] \<in> set blocked
      then (case dget answers field of
              None \<Rightarrow> Inl KeyError
            | Some v \<Rightarrow> Inr (Some \<lparr>tr_action = Assign, tr_reason = field @ lit '': '' @ v\<rparr>))
      else block_loop answers rest)"

definition triage :: "(str, str) dict \<Rightarrow> triage_rules \<Rightarrow> bool \<Rightarrow> triage_verdict res" where
  "triage answers rules sentry =
     (if \<not> has_rules rules
      then Inr \<lparr>tr_action = Assign, tr_reason = lit ''no triage rules configured''\<rparr>
      else case require_loop answers (ask_if rules) None (require rules) of
        Inl v \<Rightarrow> Inr v
      | Inr ask \<Rightarrow>
          (case find_first (\<lambda>f. dget_or answers f [] = []) (if sentry then [] else needs rules) of
             Some f \<Rightarrow> Inr \<lparr>tr_action = Assign, tr_reason = f @ lit '': unanswered''\<rparr>
           | None \<Rightarrow>
               bindE (block_loop answers (block_if rules)) (\<lambda>b. Inr (case b of
                 Some v \<Rightarrow> v
               | None \<Rightarrow> (case ask of
                            Some a \<Rightarrow> a
                          | None \<Rightarrow> \<lparr>tr_action = Attempt, tr_reason = lit ''no answer forbids an attempt''\<rparr>)))))"

text \<open>\<open>_SENTRY_ISSUE\<close>; \<open>w\<close> is the class \<open>\w\<close>.\<close>

definition SENTRY_ISSUE :: "(nat \<Rightarrow> bool) \<Rightarrow> re" where
  "SENTRY_ISSUE w =
     Seq (word (lit ''sentry.io/'')) (Seq (Opt (Seq (word (lit ''organizations/''))
       (Seq (Plus (\<lambda>c. w c \<or> c = 45)) (word (lit ''/''))))) (Seq (word (lit ''issues/'')) (Plus is_digit)))"

definition from_sentry :: "(nat \<Rightarrow> bool) \<Rightarrow> str \<Rightarrow> bool" where
  "from_sentry w body = re_search (SENTRY_ISSUE w) body"

section \<open>The money question\<close>

text \<open>A letter under \<open>re.I\<close>: both cases, and the long s for s.\<close>

definition any_case :: "nat \<Rightarrow> nat \<Rightarrow> bool" where
  "any_case c d \<longleftrightarrow> lower [d] = lower [c] \<or> (lower [c] = [115] \<and> d = 383)"

fun word_any_case :: "str \<Rightarrow> re" where
  "word_any_case [] = Eps"
| "word_any_case (c # s) = Seq (Chr (any_case c)) (word_any_case s)"

definition blank :: "nat \<Rightarrow> bool" where
  "blank c \<longleftrightarrow> c = 32 \<or> c = 9"

definition MONEY_LINE :: re where
  "MONEY_LINE =
     Seq (word_any_case (lit ''MONEY:'')) (Seq (Greedy blank)
       (Seq (Cap (Alt (word_any_case (lit ''yes'')) (word_any_case (lit ''no''))))
         (Seq (Greedy blank) Eol)))"

definition money_marks :: "str \<Rightarrow> str list" where
  "money_marks s = map (lower \<circ> hd) (findall (Seq Bol MONEY_LINE) s)"

definition touches_money :: "str \<Rightarrow> bool" where
  "touches_money s \<longleftrightarrow> set (money_marks s) \<noteq> {lit ''no''}"

section \<open>What the form settles\<close>

abbreviation answer :: "(str, str) dict \<Rightarrow> str \<Rightarrow> str" where
  "answer answers field \<equiv> dget_or answers field []"

lemma require_loop_Inr:
  "require_loop answers ar ask rs = Inr ask' \<longleftrightarrow>
     (\<forall>r \<in> set rs. answer answers (fst r) \<in> set (snd r) \<or> answer answers (fst r) \<in> set (dget_or ar (fst r) [])) \<and>
     ask' = (case ask of
               Some a \<Rightarrow> Some a
             | None \<Rightarrow> map_option (\<lambda>r. \<lparr>tr_action = Ask, tr_reason = said (fst r) (answer answers (fst r))\<rparr>)
                         (find_first (\<lambda>r. answer answers (fst r) \<notin> set (snd r)) rs))"
proof (induction rs arbitrary: ask)
  case Nil
  show ?case by (cases ask) auto
next
  case (Cons r rs)
  obtain f al where r: "r = (f, al)" by (cases r)
  show ?case
  proof (cases "answer answers f \<in> set al")
    case True
    with Cons.IH [of ask] r show ?thesis by (cases ask) (simp_all add: Let_def)
  next
    case na: False
    show ?thesis
    proof (cases "answer answers f \<in> set (dget_or ar f [])")
      case True
      let ?ask = "case ask of None \<Rightarrow> Some \<lparr>tr_action = Ask, tr_reason = said f (answer answers f)\<rparr>
              | Some a \<Rightarrow> Some a"
      from True na r have "require_loop answers ar ask (r # rs) = require_loop answers ar ?ask rs"
        by (simp add: Let_def)
      with Cons.IH [of ?ask] True na r show ?thesis by (cases ask) simp_all
    next
      case False
      with na r show ?thesis by (simp add: Let_def)
    qed
  qed
qed

lemma require_loop_Inl:
  "require_loop answers ar ask rs = Inl v \<Longrightarrow> tr_action v = Assign"
  by (induction answers ar ask rs rule: require_loop.induct) (auto simp: Let_def split: if_splits)

lemma block_loop_None:
  "block_loop answers bs = Inr None \<longleftrightarrow> (\<forall>b \<in> set bs. answer answers (fst b) \<notin> set (snd b))"
  by (induction answers bs rule: block_loop.induct) (auto split: option.splits)

lemma block_loop_Some: "block_loop answers bs = Inr (Some v) \<Longrightarrow> tr_action v = Assign"
  by (induction answers bs rule: block_loop.induct) (auto split: option.splits if_splits)

definition form_clear :: "(str, str) dict \<Rightarrow> triage_rules \<Rightarrow> bool \<Rightarrow> bool" where
  "form_clear answers rules sentry \<longleftrightarrow>
     has_rules rules \<and>
     (\<forall>r \<in> set (require rules). answer answers (fst r) \<in> set (snd r)
        \<or> answer answers (fst r) \<in> set (dget_or (ask_if rules) (fst r) [])) \<and>
     (sentry \<or> (\<forall>f \<in> set (needs rules). answer answers f \<noteq> [])) \<and>
     (\<forall>b \<in> set (block_if rules). answer answers (fst b) \<notin> set (snd b))"

lemma triage_not_assign:
  "(\<exists>v. triage answers rules sentry = Inr v \<and> tr_action v \<noteq> Assign \<and> tr_action v = a) \<longleftrightarrow>
   form_clear answers rules sentry \<and>
   a = (if find_first (\<lambda>r. answer answers (fst r) \<notin> set (snd r)) (require rules) = None
        then Attempt else Ask)"
proof (cases "has_rules rules")
  case False
  then show ?thesis by (simp add: triage_def form_clear_def)
next
  case hr: True
  let ?lp = "require_loop answers (ask_if rules) None (require rules)"
  let ?n = "find_first (\<lambda>f. answer answers f = []) (if sentry then [] else needs rules)"
  have n: "?n = None \<longleftrightarrow> sentry \<or> (\<forall>f \<in> set (needs rules). answer answers f \<noteq> [])"
    by (simp add: find_first_None_iff)
  show ?thesis
  proof (cases ?lp)
    case (Inl v)
    then have "\<not> form_clear answers rules sentry"
      using require_loop_Inr [of answers "ask_if rules" None "require rules"]
      by (auto simp: form_clear_def)
    with Inl hr require_loop_Inl [OF Inl] show ?thesis by (simp add: triage_def)
  next
    case (Inr ask)
    note loop = Inr [unfolded require_loop_Inr]
    show ?thesis
    proof (cases ?n)
      case (Some f)
      with n have "\<not> form_clear answers rules sentry" by (auto simp: form_clear_def)
      with Some Inr hr show ?thesis by (simp add: triage_def)
    next
      case None
      show ?thesis
      proof (cases "block_loop answers (block_if rules)")
        case (Inl e)
        then have "\<not> form_clear answers rules sentry"
          using block_loop_None [of answers "block_if rules"] by (auto simp: form_clear_def)
        with Inl None Inr hr show ?thesis by (simp add: triage_def)
      next
        case b: (Inr r)
        show ?thesis
        proof (cases r)
          case (Some v)
          with b have "\<not> form_clear answers rules sentry"
            using block_loop_None [of answers "block_if rules"] by (auto simp: form_clear_def)
          with b Some None Inr hr block_loop_Some [OF b [unfolded Some]] show ?thesis
            by (simp add: triage_def)
        next
          case nb: None
          with b have "form_clear answers rules sentry"
            using block_loop_None [of answers "block_if rules"] loop n None hr
            by (auto simp: form_clear_def)
          moreover have "triage answers rules sentry = Inr (case ask of Some a \<Rightarrow> a
              | None \<Rightarrow> \<lparr>tr_action = Attempt, tr_reason = lit ''no answer forbids an attempt''\<rparr>)"
            using b nb None Inr hr by (simp add: triage_def)
          moreover have "ask = map_option
              (\<lambda>r. \<lparr>tr_action = Ask, tr_reason = said (fst r) (answer answers (fst r))\<rparr>)
              (find_first (\<lambda>r. answer answers (fst r) \<notin> set (snd r)) (require rules))"
            using loop by simp
          ultimately show ?thesis
            by (cases "find_first (\<lambda>r. answer answers (fst r) \<notin> set (snd r)) (require rules)") auto
        qed
      qed
    qed
  qed
qed

text \<open>
  C19: an attempt is allowed exactly when the repository has rules, every required answer is
  one on its list, every needed answer is there unless a Sentry event stands in for it, and
  no answer is a blocked one: an answer the rules have never heard of is a no.
\<close>

theorem triage_attempt_iff:
  "(\<exists>v. triage answers rules sentry = Inr v \<and> tr_action v = Attempt) \<longleftrightarrow>
     has_rules rules \<and>
     (\<forall>r \<in> set (require rules). answer answers (fst r) \<in> set (snd r)) \<and>
     (sentry \<or> (\<forall>f \<in> set (needs rules). answer answers f \<noteq> [])) \<and>
     (\<forall>b \<in> set (block_if rules). answer answers (fst b) \<notin> set (snd b))"
  using triage_not_assign [of answers rules sentry Attempt]
  by (auto simp: form_clear_def find_first_None_iff split: if_splits)

theorem triage_attempt_iff_witness:
  "\<not> (\<exists>v. triage [(lit ''Money'', lit ''Maybe'')] sample_rules True = Inr v \<and> tr_action v = Attempt)"
  unfolding triage_attempt_iff by (simp add: sample_rules_def dget_or_def)

text \<open>
  A question is put to a model exactly when nothing else sends the issue to a person and
  some required answer is off its list but on the list of answers to ask about: a hard no
  anywhere outranks the question.
\<close>

theorem triage_ask_iff:
  "(\<exists>v. triage answers rules sentry = Inr v \<and> tr_action v = Ask) \<longleftrightarrow>
     form_clear answers rules sentry \<and>
     (\<exists>r \<in> set (require rules). answer answers (fst r) \<notin> set (snd r))"
  using triage_not_assign [of answers rules sentry Ask]
  by (auto simp: find_first_None_iff split: if_splits)

section \<open>What the model's answer settles\<close>

text \<open>The word a line gives as its verdict, when the whole line is the marker.\<close>

definition money_says :: "str \<Rightarrow> str option" where
  "money_says l = map_option (\<lambda>m. lower (hd (snd m))) (re_match MONEY_LINE l)"

lemma one_line_word_any: "list_all (\<lambda>c. \<not> any_case c NL) s \<Longrightarrow> one_line_re (word_any_case s)"
  by (induction s) auto

lemma money_one_line: "one_line_re MONEY_LINE"
  by (simp add: MONEY_LINE_def one_line_word_any lit_Cons any_case_def lower_def lower_cp_def blank_def)

lemma run_word_any_length:
  "m \<in> set (run (word_any_case s) (k, x)) \<Longrightarrow> length x = length s + length (snd (fst m))"
proof (induction s arbitrary: k x m)
  case (Cons c s)
  then show ?case by (cases x) (auto split: if_splits)
qed auto

lemma run_Seq_split:
  assumes "m \<in> set (run (Seq r s) q)"
  obtains m1 m2 where "m1 \<in> set (run r q)" "m2 \<in> set (run s (fst m1))" "fst m = fst m2"
proof -
  have "m \<in> (\<Union>a \<in> set (run r q). (\<lambda>m'. (fst m', snd a @ snd m')) ` set (run s (fst a)))"
    using assms by simp
  then obtain m1 m2 where "m1 \<in> set (run r q)" "m2 \<in> set (run s (fst m1))"
    "m = (fst m2, snd m1 @ snd m2)" by blast
  then show ?thesis by (intro that) simp_all
qed

lemma money_nonempty: "m \<in> set (run MONEY_LINE (k, x)) \<Longrightarrow> length (snd (fst m)) < length x"
proof -
  assume "m \<in> set (run MONEY_LINE (k, x))"
  then obtain m1 r m2 where
    1: "m1 \<in> set (run (word_any_case (lit ''MONEY:'')) (k, x))"
    and 2: "m2 \<in> set (run r (fst m1))" "fst m = fst m2"
    unfolding MONEY_LINE_def by (rule run_Seq_split) (rule that)
  from run_word_any_length [OF 1] have "length (snd (fst m1)) < length x" by simp
  moreover have "length (snd (fst m2)) \<le> length (snd (fst m1))"
    using run_rest_length [of m2 r "fst (fst m1)" "snd (fst m1)"] 2(1) by simp
  ultimately show ?thesis using 2(2) by simp
qed

lemma money_marks_lines:
  "money_marks s = List.map_filter money_says (split_on NL s)"
proof -
  let ?ls = "split_on NL s"
  have "findall (Seq Bol MONEY_LINE) s = concat (map (line_groups MONEY_LINE) ?ls)"
    using findall_lines [OF money_one_line money_nonempty, where l = "[]" and ls = ?ls] split_on_no_sep [of _ NL s]
    by (simp add: findall_def join_split_on bol_def list_all_iff)
  moreover have "map (lower \<circ> hd) (concat (map (line_groups MONEY_LINE) ls)) = List.map_filter money_says ls" for ls
  proof (induction ls)
    case (Cons l ls)
    then show ?case
      by (cases "run MONEY_LINE ([], l)")
        (simp_all add: line_groups_def money_says_def re_match_def List.map_filter_simps)
  qed (simp add: List.map_filter_simps)
  ultimately show ?thesis by (simp add: money_marks_def)
qed

text \<open>
  An issue is cleared of the money paths exactly when some line of the answer is the
  marker with the word no and no line is the marker with another word, wherever they stand:
  silence, a hedge after the word, and two markers that disagree all read as money.
\<close>

theorem touches_money_iff:
  "\<not> touches_money s \<longleftrightarrow>
     (\<exists>l \<in> set (split_on NL s). money_says l = Some (lit ''no'')) \<and>
     \<not> (\<exists>l \<in> set (split_on NL s). \<exists>w. money_says l = Some w \<and> w \<noteq> lit ''no'')"
proof -
  have mem: "w \<in> set (money_marks s) \<longleftrightarrow> (\<exists>l \<in> set (split_on NL s). money_says l = Some w)" for w
    unfolding money_marks_lines by (rule map_filter_mem)
  have "\<not> touches_money s \<longleftrightarrow> set (money_marks s) = {lit ''no''}" by (simp add: touches_money_def)
  also have "\<dots> \<longleftrightarrow> lit ''no'' \<in> set (money_marks s) \<and> (\<forall>w \<in> set (money_marks s). w = lit ''no'')" by auto
  finally show ?thesis using mem by auto
qed

section \<open>The first heading wins\<close>

lemma keep_line_other: "fs_current s \<noteq> Some h \<Longrightarrow> dget (fs_out (keep_line l s)) h = dget (fs_out s) h"
  by (auto simp: keep_line_def split: option.splits)

lemma keep_line_current [simp]: "fs_current (keep_line l s) = fs_current s"
  by (simp add: keep_line_def split: option.splits)

text \<open>A field that is not the one being read is never touched again, and never read again.\<close>

lemma form_step_frame:
  assumes "h \<in> set (dkeys (fs_out s))" "fs_current s \<noteq> Some h"
  shows "dget (fs_out (form_step s l)) h = dget (fs_out s) h \<and>
         h \<in> set (dkeys (fs_out (form_step s l))) \<and> fs_current (form_step s l) \<noteq> Some h"
proof -
  have keys: "h \<in> set (dkeys (fs_out (keep_line l s')))"
    if "h \<in> set (dkeys (fs_out s'))" for s' :: form_state
    using that by (auto simp: keep_line_def set_dkeys_dset simp del: set_map split: option.splits)
  show ?thesis
  proof (cases "fs_fence s")
    case (Some f)
    then show ?thesis using assms keys keep_line_other by (simp add: form_step_def)
  next
    case None
    show ?thesis
    proof (cases "take 3 (lstrip l) \<in> set FENCES")
      case True
      then show ?thesis using None assms keys keep_line_other by (simp add: form_step_def)
    next
      case nf: False
      show ?thesis
      proof (cases "is_heading (fs_out s) l")
        case True
        with assms(1) have "hashes_off l \<noteq> h" by (auto simp: is_heading_def)
        with None nf True assms(1) show ?thesis
          by (simp add: form_step_def set_dkeys_dset del: set_map)
      next
        case False
        with None nf show ?thesis using assms keys keep_line_other by (simp add: form_step_def)
      qed
    qed
  qed
qed

lemma form_frame:
  "h \<in> set (dkeys (fs_out s)) \<Longrightarrow> fs_current s \<noteq> Some h \<Longrightarrow>
   dget (fs_out (foldl form_step s ls)) h = dget (fs_out s) h"
proof (induction ls arbitrary: s)
  case (Cons l ls)
  note st = form_step_frame [OF Cons.prems, of l]
  have "dget (fs_out (foldl form_step (form_step s l) ls)) h = dget (fs_out (form_step s l)) h"
    by (rule Cons.IH) (use st in blast)+
  with st show ?case by simp
qed simp

lemma form_keys_distinct: "distinct (dkeys (fs_out s)) \<Longrightarrow> distinct (dkeys (fs_out (foldl form_step s ls)))"
proof (induction ls arbitrary: s)
  case (Cons l ls)
  have "distinct (dkeys (fs_out (form_step s l)))"
    using Cons.prems distinct_dkeys_dset
    by (auto simp: form_step_def keep_line_def split: option.splits)
  with Cons.IH show ?case by simp
qed simp

lemma fields_get:
  "dget (form_fields body) h = map_option answer_of (dget (fs_out (foldl form_step form_start (form_lines body))) h)"
proof -
  have "map_of (map (\<lambda>kv. (fst kv, f (snd kv))) d) h = map_option f (map_of d h)"
    for f :: "str list \<Rightarrow> str" and d by (induction d) auto
  then show ?thesis by (simp add: form_fields_def)
qed

text \<open>
  Text after a field was answered cannot change it: once another heading has been
  reached, the answer of an earlier field is the same whatever follows, a second heading of
  the same name included.
\<close>

theorem fields_first_wins:
  assumes "form_lines body = pre @ post" and "form_lines body' = pre @ post'"
    and "h \<in> set (dkeys (fs_out (foldl form_step form_start pre)))"
    and "fs_current (foldl form_step form_start pre) \<noteq> Some h"
  shows "dget (form_fields body) h = dget (form_fields body') h \<and> dget (form_fields body) h \<noteq> None"
proof -
  let ?s = "foldl form_step form_start pre"
  from form_frame [OF assms(3,4)] have
    "dget (form_fields body) h = map_option answer_of (dget (fs_out ?s) h)"
    "dget (form_fields body') h = map_option answer_of (dget (fs_out ?s) h)"
    by (simp_all add: fields_get assms(1,2))
  moreover have "dget (fs_out ?s) h \<noteq> None"
    using assms(3) by (simp add: map_of_eq_None_iff)
  ultimately show ?thesis by simp
qed

lemma form_lines_join:
  "ws \<noteq> [] \<Longrightarrow> list_all (\<lambda>w. NL \<notin> set w \<and> 13 \<notin> set w) ws \<Longrightarrow> form_lines (join [NL] ws) = ws"
proof -
  assume ne: "ws \<noteq> []" and ws: "list_all (\<lambda>w. NL \<notin> set w \<and> 13 \<notin> set w) ws"
  have id: "replace [13, NL] [NL] s = s" if "13 \<notin> set s" for s
    using that by (induction s) (simp_all, subst replace.simps, simp add: startswith_Cons)
  have "13 \<notin> set (join [NL] ws)"
    using set_join_subset [of "[NL]" ws] ws by (auto simp: list_all_iff)
  moreover have "split_on NL (join [NL] ws) = ws"
    using ne ws by (intro split_on_join) (auto simp: list_all_iff)
  ultimately show ?thesis by (simp add: form_lines_def id)
qed

theorem fields_first_wins_witness:
  "dget (form_fields (join [NL] [lit ''### A'', lit ''1'', lit ''### B'', lit ''### A'', lit ''2''])) (lit ''A'') = Some (lit ''1'')"
proof -
  let ?pre = "[lit ''### A'', lit ''1'', lit ''### B'']"
  let ?body = "join [NL] [lit ''### A'', lit ''1'', lit ''### B'', lit ''### A'', lit ''2'']"
  have 1: "form_lines ?body = ?pre @ [lit ''### A'', lit ''2'']"
    "form_lines (join [NL] [lit ''### A'', lit ''1'', lit ''### B'']) = ?pre @ []"
    by (subst form_lines_join; simp add: lit_def)+
  have st: "foldl form_step form_start ?pre =
      \<lparr>fs_out = [(lit ''A'', [lit ''1'']), (lit ''B'', [])], fs_current = Some (lit ''B''), fs_fence = None\<rparr>"
    by (simp add: form_step_def form_start_def keep_line_def is_heading_def hashes_off_def FENCES_def
        lit_def startswith_def strip_p_def lstrip_p_def rstrip_p_def is_space_def dget_or_def)
  from fields_first_wins [OF 1, of "lit ''A''"] st
  have "dget (form_fields ?body) (lit ''A'') =
      dget (form_fields (join [NL] [lit ''### A'', lit ''1'', lit ''### B''])) (lit ''A'')" by simp
  also have "\<dots> = map_option answer_of (Some [lit ''1''])"
    unfolding fields_get 1 using st by simp
  also have "\<dots> = Some (lit ''1'')"
    by (simp add: answer_of_def NO_RESPONSE_def lit_def strip_p_def lstrip_p_def rstrip_p_def is_space_def)
  finally show ?thesis .
qed

end
