(* ===== verification/Db.thy ===== *)
theory Db
  imports Contract
begin

text \<open>
  The SQLite state (\<open>src/robbie/db.py\<close>). A table is the list of its rows in rowid order; an
  operation is the list function its SQL denotes, with the clock as the parameter \<open>now\<close> and
  NULL as \<open>None\<close>. \<open>db_step\<close> collects every operation that writes; the properties are the
  invariant of all of them, what each settling sweep leaves behind, which rows a query
  returns, and that a notice fires once.
\<close>

section \<open>Tables\<close>

datatype ci_state =
  Ci_waiting | Ci_green | Ci_red | Ci_stale | Ci_gone | Ci_done | Ci_unlabeled | Ci_expired

record review_row =
  rv_id :: nat
  rv_key :: str
  rv_repo :: str
  rv_pr :: int
  rv_head :: str
  rv_requested_at :: str
  rv_state :: review_state
  rv_verdict :: "verdict option"
  rv_hold :: "str option"
  rv_cost :: "rat option"
  rv_tokens_in :: "int option"
  rv_tokens_out :: "int option"
  rv_duration :: "rat option"
  rv_transcript :: "str option"
  rv_model :: "str option"
  rv_findings :: "int option"
  rv_blocking :: "int option"
  rv_should_fix :: "int option"
  rv_inline :: "int option"
  rv_summary :: "int option"
  rv_ci :: "ci_state option"
  rv_ci_seen :: "int option"
  rv_created :: int
  rv_finished :: "int option"

record spend_row =
  sp_repo :: str
  sp_pr :: int
  sp_kind :: str
  sp_cost :: "rat option"
  sp_duration :: "rat option"
  sp_created :: int

record meter =
  mt_pct :: "rat option"
  mt_note :: "str option"
  mt_read_at :: "int option"
  mt_error :: "str option"
  mt_error_at :: "int option"

record db =
  db_reviews :: "review_row list"
  db_next_id :: nat
  db_notices :: "(str, int) dict"
  db_spend :: "spend_row list"
  db_meters :: "(str, meter) dict"
  db_requested :: "(str \<times> int \<times> int) list"
  db_seeded :: "(str, int) dict"

definition empty_db :: db where
  "empty_db =
     \<lparr>db_reviews = [], db_next_id = 1, db_notices = [], db_spend = [], db_meters = [],
      db_requested = [], db_seeded = []\<rparr>"

text \<open>An \<open>INSERT\<close> leaves every column it does not name NULL.\<close>

definition new_row :: "nat \<Rightarrow> str \<Rightarrow> str \<Rightarrow> int \<Rightarrow> str \<Rightarrow> str \<Rightarrow> review_state \<Rightarrow> int \<Rightarrow> review_row" where
  "new_row i key repo pr head requested_at st now =
     \<lparr>rv_id = i, rv_key = key, rv_repo = repo, rv_pr = pr, rv_head = head,
      rv_requested_at = requested_at, rv_state = st, rv_verdict = None, rv_hold = None,
      rv_cost = None, rv_tokens_in = None, rv_tokens_out = None, rv_duration = None,
      rv_transcript = None, rv_model = None, rv_findings = None, rv_blocking = None,
      rv_should_fix = None, rv_inline = None, rv_summary = None, rv_ci = None,
      rv_ci_seen = None, rv_created = now, rv_finished = None\<rparr>"

text \<open>\<open>INSERT OR REPLACE\<close>: the row with the same key goes, the new one takes the next id.\<close>

definition insert_or_replace :: "(nat \<Rightarrow> review_row) \<Rightarrow> db \<Rightarrow> db" where
  "insert_or_replace f d =
     (let row = f (db_next_id d) in
      d\<lparr>db_reviews := filter (\<lambda>r. rv_key r \<noteq> rv_key row) (db_reviews d) @ [row],
        db_next_id := db_next_id d + 1\<rparr>)"

text \<open>\<open>UPDATE reviews SET ... WHERE ...\<close> and its \<open>rowcount\<close>.\<close>

definition update_where :: "(review_row \<Rightarrow> bool) \<Rightarrow> (review_row \<Rightarrow> review_row) \<Rightarrow> db \<Rightarrow> db" where
  "update_where P f d = d\<lparr>db_reviews := map (\<lambda>r. if P r then f r else r) (db_reviews d)\<rparr>"

definition count_where :: "(review_row \<Rightarrow> bool) \<Rightarrow> db \<Rightarrow> nat" where
  "count_where P d = length (filter P (db_reviews d))"

section \<open>Reviews\<close>

definition get_review :: "db \<Rightarrow> str \<Rightarrow> review_row option" where
  "get_review d key = find_first (\<lambda>r. rv_key r = key) (db_reviews d)"

definition sha_was_judged :: "db \<Rightarrow> str \<Rightarrow> int \<Rightarrow> str \<Rightarrow> bool" where
  "sha_was_judged d repo pr head \<longleftrightarrow>
     (\<exists>r \<in> set (db_reviews d). rv_repo r = repo \<and> rv_pr r = pr \<and> rv_head r = head \<and>
        (rv_state r = RvPublished \<or> rv_state r = RvHeld))"

definition start_review :: "int \<Rightarrow> str \<Rightarrow> str \<Rightarrow> int \<Rightarrow> str \<Rightarrow> str \<Rightarrow> db \<Rightarrow> db" where
  "start_review now key repo pr head requested_at =
     insert_or_replace (\<lambda>i. new_row i key repo pr head requested_at RvRunning now)"

definition record_hold :: "int \<Rightarrow> str \<Rightarrow> str \<Rightarrow> int \<Rightarrow> str \<Rightarrow> str \<Rightarrow> str \<Rightarrow> db \<Rightarrow> db" where
  "record_hold now key repo pr head requested_at reason =
     insert_or_replace (\<lambda>i. (new_row i key repo pr head requested_at RvHeld now)
       \<lparr>rv_hold := Some reason, rv_finished := Some now\<rparr>)"

text \<open>The keyword arguments of \<open>finish_review\<close>, all \<open>None\<close> by default.\<close>

record finish_args =
  fa_verdict :: "verdict option"
  fa_hold :: "str option"
  fa_cost :: "rat option"
  fa_tokens_in :: "int option"
  fa_tokens_out :: "int option"
  fa_duration :: "rat option"
  fa_transcript :: "str option"
  fa_model :: "str option"
  fa_findings :: "int option"
  fa_blocking :: "int option"
  fa_should_fix :: "int option"
  fa_inline :: "int option"
  fa_summary :: "int option"
  fa_ci :: "ci_state option"

definition no_args :: finish_args where
  "no_args =
     \<lparr>fa_verdict = None, fa_hold = None, fa_cost = None, fa_tokens_in = None, fa_tokens_out = None,
      fa_duration = None, fa_transcript = None, fa_model = None, fa_findings = None,
      fa_blocking = None, fa_should_fix = None, fa_inline = None, fa_summary = None, fa_ci = None\<rparr>"

definition given :: "'a option \<Rightarrow> 'a option \<Rightarrow> 'a option" where
  "given new old = (case new of None \<Rightarrow> old | Some v \<Rightarrow> Some v)"

definition finish_row :: "int \<Rightarrow> review_state \<Rightarrow> finish_args \<Rightarrow> review_row \<Rightarrow> review_row" where
  "finish_row now st a r =
     r\<lparr>rv_verdict := given (fa_verdict a) (rv_verdict r),
       rv_hold := given (fa_hold a) (rv_hold r),
       rv_cost := given (fa_cost a) (rv_cost r),
       rv_tokens_in := given (fa_tokens_in a) (rv_tokens_in r),
       rv_tokens_out := given (fa_tokens_out a) (rv_tokens_out r),
       rv_duration := given (fa_duration a) (rv_duration r),
       rv_transcript := given (fa_transcript a) (rv_transcript r),
       rv_model := given (fa_model a) (rv_model r),
       rv_findings := given (fa_findings a) (rv_findings r),
       rv_blocking := given (fa_blocking a) (rv_blocking r),
       rv_should_fix := given (fa_should_fix a) (rv_should_fix r),
       rv_inline := given (fa_inline a) (rv_inline r),
       rv_summary := given (fa_summary a) (rv_summary r),
       rv_ci := given (fa_ci a) (rv_ci r),
       rv_state := st,
       rv_finished := Some now\<rparr>"

definition finish_review :: "int \<Rightarrow> str \<Rightarrow> review_state \<Rightarrow> finish_args \<Rightarrow> db \<Rightarrow> db" where
  "finish_review now key st a = update_where (\<lambda>r. rv_key r = key) (finish_row now st a)"

section \<open>The CI watch\<close>

definition is_waiting :: "review_row \<Rightarrow> bool" where
  "is_waiting r \<longleftrightarrow>
     rv_verdict r = Some Ok_verdict \<and> rv_state r = RvPublished \<and> rv_ci r = Some Ci_waiting"

definition expire_ci_watch :: "int \<Rightarrow> db \<Rightarrow> db \<times> nat" where
  "expire_ci_watch before d =
     (let P = (\<lambda>r. is_waiting r \<and> rv_created r < before)
      in (update_where P (\<lambda>r. r\<lparr>rv_ci := Some Ci_expired\<rparr>) d, count_where P d))"

text \<open>\<open>ORDER BY created_at\<close> is stable in rowid order.\<close>

definition watching_ci :: "db \<Rightarrow> int \<Rightarrow> review_row list" where
  "watching_ci d since =
     sort_key rv_created (filter (\<lambda>r. is_waiting r \<and> since \<le> rv_created r) (db_reviews d))"

definition set_ci_state :: "int \<Rightarrow> str \<Rightarrow> ci_state \<Rightarrow> db \<Rightarrow> db" where
  "set_ci_state now key st =
     update_where (\<lambda>r. rv_key r = key) (\<lambda>r. r\<lparr>rv_ci := Some st, rv_ci_seen := Some now\<rparr>)"

section \<open>The newest pass of a pull request\<close>

text \<open>\<open>ROW_NUMBER() OVER (... ORDER BY created_at DESC, id DESC) = 1\<close> among \<open>rows\<close>.\<close>

definition newer :: "review_row \<Rightarrow> review_row \<Rightarrow> bool" where
  "newer a b \<longleftrightarrow> rv_created b < rv_created a \<or> (rv_created a = rv_created b \<and> rv_id b < rv_id a)"

definition newest_in :: "review_row list \<Rightarrow> review_row \<Rightarrow> bool" where
  "newest_in rows r \<longleftrightarrow>
     (\<forall>q \<in> set rows. rv_repo q = rv_repo r \<and> rv_pr q = rv_pr r \<longrightarrow> \<not> newer q r)"

definition on_board :: "review_row \<Rightarrow> bool" where
  "on_board r \<longleftrightarrow> rv_ci r \<in> {Some Ci_green, Some Ci_waiting, Some Ci_red}"

definition is_requested :: "db \<Rightarrow> str \<Rightarrow> int \<Rightarrow> bool" where
  "is_requested d repo pr \<longleftrightarrow> (\<exists>q \<in> set (db_requested d). fst q = repo \<and> fst (snd q) = pr)"

definition approved_and_green :: "db \<Rightarrow> int \<Rightarrow> review_row list" where
  "approved_and_green d since =
     (let rows = filter (\<lambda>r. rv_state r = RvPublished \<and> since \<le> rv_created r) (db_reviews d)
      in sort_key (\<lambda>r. (if rv_ci r = Some Ci_green then 0 else 1 :: int, - rv_created r))
           (filter (\<lambda>r. newest_in rows r \<and> rv_verdict r = Some Ok_verdict \<and> on_board r
                      \<and> is_requested d (rv_repo r) (rv_pr r)) rows))"

definition published_of :: "db \<Rightarrow> str \<Rightarrow> review_row list" where
  "published_of d repo = filter (\<lambda>r. rv_repo r = repo \<and> rv_state r = RvPublished) (db_reviews d)"

definition approved_prs :: "db \<Rightarrow> str \<Rightarrow> int list" where
  "approved_prs d repo =
     (let rows = published_of d repo
      in sort (map rv_pr (filter (\<lambda>r. newest_in rows r \<and> rv_verdict r = Some Ok_verdict) rows)))"

section \<open>The request queue\<close>

definition set_requested :: "int \<Rightarrow> str \<Rightarrow> int list \<Rightarrow> db \<Rightarrow> unit res \<times> db" where
  "set_requested now repo prs d =
     (if distinct prs
      then (Inr (), d\<lparr>db_requested := filter (\<lambda>q. fst q \<noteq> repo) (db_requested d)
                          @ map (\<lambda>pr. (repo, pr, now)) prs\<rparr>)
      else (Inl IntegrityError, d))"

definition unrequest :: "str \<Rightarrow> int list \<Rightarrow> db \<Rightarrow> db \<times> nat" where
  "unrequest repo prs d =
     (let P = (\<lambda>q. fst q = repo \<and> fst (snd q) \<in> set prs)
      in (d\<lparr>db_requested := filter (\<lambda>q. \<not> P q) (db_requested d)\<rparr>,
          length (filter P (db_requested d))))"

section \<open>Settling\<close>

definition stale_row :: "str \<Rightarrow> int \<Rightarrow> str \<Rightarrow> review_row \<Rightarrow> bool" where
  "stale_row repo pr head r \<longleftrightarrow> rv_repo r = repo \<and> rv_pr r = pr \<and> rv_head r \<noteq> head \<and> on_board r"

definition settle_stale_one :: "str \<Rightarrow> db \<times> nat \<Rightarrow> int \<times> str \<Rightarrow> db \<times> nat" where
  "settle_stale_one repo s h =
     (update_where (stale_row repo (fst h) (snd h)) (\<lambda>r. r\<lparr>rv_ci := Some Ci_stale\<rparr>) (fst s),
      snd s + count_where (stale_row repo (fst h) (snd h)) (fst s))"

definition settle_stale :: "str \<Rightarrow> (int, str) dict \<Rightarrow> db \<Rightarrow> db \<times> nat" where
  "settle_stale repo heads d = foldl (settle_stale_one repo) (d, 0) heads"

definition settle_done :: "str \<Rightarrow> int \<Rightarrow> db \<Rightarrow> db \<times> nat" where
  "settle_done repo pr d =
     (let P = (\<lambda>r. rv_repo r = repo \<and> rv_pr r = pr \<and> rv_ci r \<noteq> Some Ci_done)
      in (update_where P (\<lambda>r. r\<lparr>rv_ci := Some Ci_done\<rparr>) d, count_where P d))"

definition settle_unlabeled :: "str \<Rightarrow> int list \<Rightarrow> db \<Rightarrow> db \<times> nat" where
  "settle_unlabeled repo labeled d =
     (let P = (\<lambda>r. rv_repo r = repo \<and> rv_pr r \<notin> set labeled \<and>
                   rv_ci r \<noteq> Some Ci_done \<and> rv_ci r \<noteq> Some Ci_unlabeled)
      in (update_where P (\<lambda>r. r\<lparr>rv_ci := Some Ci_unlabeled\<rparr>) d, count_where P d))"

definition reap_running :: "int \<Rightarrow> db \<Rightarrow> db \<times> nat" where
  "reap_running now d =
     (let P = (\<lambda>r. rv_state r = RvRunning)
      in (update_where P (\<lambda>r. r\<lparr>rv_state := RvFailed, rv_hold := Some (lit ''orchestrator restarted''),
                               rv_finished := Some now\<rparr>) d, count_where P d))"

section \<open>Histories and panels\<close>

definition passes_for :: "db \<Rightarrow> str \<Rightarrow> int \<Rightarrow> review_row list" where
  "passes_for d repo pr =
     sort_key rv_created (filter (\<lambda>r. rv_repo r = repo \<and> rv_pr r = pr \<and>
        (rv_state r = RvPublished \<or> rv_state r = RvHeld)) (db_reviews d))"

definition opened_threads :: "db \<Rightarrow> str \<Rightarrow> int \<Rightarrow> bool" where
  "opened_threads d repo pr \<longleftrightarrow>
     (\<exists>c \<in> set (db_reviews d). rv_repo c = repo \<and> rv_pr c = pr \<and> rv_state c = RvPublished \<and>
        (case rv_inline c of None \<Rightarrow> True | Some n \<Rightarrow> n > 0))"

definition reviewed_prs :: "db \<Rightarrow> str \<Rightarrow> int \<Rightarrow> int list" where
  "reviewed_prs d repo since =
     rev (sort (remdups (map rv_pr (filter (\<lambda>r. rv_repo r = repo \<and> rv_state r = RvPublished \<and>
        since \<le> rv_created r \<and> rv_ci r \<noteq> Some Ci_done \<and> opened_threads d repo (rv_pr r))
        (db_reviews d)))))"

definition counts :: "db \<Rightarrow> nat \<times> nat \<times> nat" where
  "counts d = (count_where (\<lambda>r. rv_state r = RvRunning) d,
               count_where (\<lambda>r. rv_state r = RvPublished) d, length (db_reviews d))"

definition newest_first :: "nat \<Rightarrow> review_row list \<Rightarrow> review_row list" where
  "newest_first limit rows = take limit (sort_key (\<lambda>r. - rv_created r) rows)"

definition unfinished :: "db \<Rightarrow> nat \<Rightarrow> review_row list" where
  "unfinished d limit = newest_first limit (filter (\<lambda>r. rv_state r \<noteq> RvPublished) (db_reviews d))"

definition recent_published :: "db \<Rightarrow> nat \<Rightarrow> review_row list" where
  "recent_published d limit =
     newest_first limit (filter (\<lambda>r. rv_state r = RvPublished) (db_reviews d))"

text \<open>The runs of each model, its summary findings, and the mean duration in whole seconds.\<close>

definition by_model :: "db \<Rightarrow> (str, nat \<times> int \<times> int option) dict" where
  "by_model d =
     (let rows = filter (\<lambda>r. rv_state r = RvPublished \<and> rv_model r \<noteq> None) (db_reviews d);
          row = (\<lambda>m. let rs = filter (\<lambda>r. rv_model r = Some m) rows;
                          ds = List.map_filter rv_duration rs
                      in (length rs,
                          sum_list (map (\<lambda>r. case rv_summary r of None \<Rightarrow> 0 | Some n \<Rightarrow> n) rs),
                          if ds = [] then None else Some (trunc (sum_list ds / of_nat (length ds)))))
      in map (\<lambda>m. (m, row m)) (remdups (List.map_filter rv_model rows)))"

section \<open>Spend\<close>

definition record_spend :: "int \<Rightarrow> str \<Rightarrow> int \<Rightarrow> str \<Rightarrow> rat option \<Rightarrow> rat option \<Rightarrow> db \<Rightarrow> db" where
  "record_spend now repo pr kind cost dur d =
     d\<lparr>db_spend := db_spend d @
        [\<lparr>sp_repo = repo, sp_pr = pr, sp_kind = kind, sp_cost = cost, sp_duration = dur,
          sp_created = now\<rparr>]\<rparr>"

definition or_zero :: "rat option \<Rightarrow> rat" where
  "or_zero c = (case c of None \<Rightarrow> 0 | Some x \<Rightarrow> x)"

definition counted :: "int \<Rightarrow> str list \<Rightarrow> review_row \<Rightarrow> bool" where
  "counted since exclude r \<longleftrightarrow> since \<le> rv_created r \<and>
     (exclude = [] \<or> (case rv_model r of None \<Rightarrow> [] | Some m \<Rightarrow> m) \<notin> set exclude)"

definition spend_since :: "db \<Rightarrow> int \<Rightarrow> str list \<Rightarrow> rat" where
  "spend_since d since exclude =
     sum_list (map (or_zero \<circ> rv_cost) (filter (counted since exclude) (db_reviews d)))
     + sum_list (map (or_zero \<circ> sp_cost) (filter (\<lambda>s. since \<le> sp_created s) (db_spend d)))"

section \<open>Meters, notices, seeding\<close>

abbreviation read_meter :: "db \<Rightarrow> str \<Rightarrow> meter option" where
  "read_meter d name \<equiv> dget (db_meters d) name"

definition write_meter :: "int \<Rightarrow> str \<Rightarrow> rat \<Rightarrow> str \<Rightarrow> db \<Rightarrow> db" where
  "write_meter now name pct note d =
     d\<lparr>db_meters := dset name
        \<lparr>mt_pct = Some pct, mt_note = Some note, mt_read_at = Some now, mt_error = None,
         mt_error_at = None\<rparr> (db_meters d)\<rparr>"

definition meter_failed :: "int \<Rightarrow> str \<Rightarrow> str \<Rightarrow> db \<Rightarrow> db" where
  "meter_failed now name err d =
     (let old = (case read_meter d name of
                   None \<Rightarrow> \<lparr>mt_pct = None, mt_note = None, mt_read_at = None, mt_error = None,
                             mt_error_at = None\<rparr>
                 | Some m \<Rightarrow> m)
      in d\<lparr>db_meters := dset name (old\<lparr>mt_error := Some err, mt_error_at := Some now\<rparr>) (db_meters d)\<rparr>)"

definition notice_seen :: "db \<Rightarrow> str \<Rightarrow> bool" where
  "notice_seen d key \<longleftrightarrow> key \<in> set (dkeys (db_notices d))"

definition notice_once :: "int \<Rightarrow> str \<Rightarrow> db \<Rightarrow> bool \<times> db" where
  "notice_once now key d =
     (if notice_seen d key then (False, d)
      else (True, d\<lparr>db_notices := db_notices d @ [(key, now)]\<rparr>))"

definition is_seeded :: "db \<Rightarrow> str \<Rightarrow> bool" where
  "is_seeded d repo \<longleftrightarrow> repo \<in> set (dkeys (db_seeded d))"

definition mark_seeded :: "int \<Rightarrow> str \<Rightarrow> db \<Rightarrow> db" where
  "mark_seeded now repo d =
     (if is_seeded d repo then d else d\<lparr>db_seeded := db_seeded d @ [(repo, now)]\<rparr>)"

section \<open>Migration\<close>

definition SCHEMA_VERSION :: nat where "SCHEMA_VERSION = 4"

definition added_columns :: "nat \<Rightarrow> str list" where
  "added_columns step =
     map lit (if step = 1 then [''model'']
              else if step = 2 then [''findings'', ''blocking'', ''should_fix'', ''inline'']
              else if step = 3 then [''summary_findings'']
              else if step = 4 then [''ci_state'', ''ci_seen_at'']
              else [])"

definition add_missing :: "str list \<Rightarrow> nat \<Rightarrow> str list" where
  "add_missing cols step = cols @ filter (\<lambda>c. c \<notin> set cols) (added_columns step)"

text \<open>\<open>_migrate\<close>: the columns of \<open>reviews\<close> and the \<open>user_version\<close> afterwards.\<close>

definition migrate :: "nat \<Rightarrow> str list \<Rightarrow> str list \<times> nat" where
  "migrate version cols =
     (foldl add_missing cols [version + 1..<SCHEMA_VERSION + 1], SCHEMA_VERSION)"

section \<open>The invariant of every write\<close>

definition db_inv :: "db \<Rightarrow> bool" where
  "db_inv d \<longleftrightarrow>
     distinct (map rv_key (db_reviews d)) \<and>
     sorted_wrt (<) (map rv_id (db_reviews d)) \<and>
     (\<forall>r \<in> set (db_reviews d). rv_id r < db_next_id d) \<and>
     distinct (map (\<lambda>q. (fst q, fst (snd q))) (db_requested d)) \<and>
     distinct (dkeys (db_notices d)) \<and> distinct (dkeys (db_meters d)) \<and>
     distinct (dkeys (db_seeded d))"

text \<open>Every operation that writes, with the arguments it may be called with.\<close>

inductive db_step :: "db \<Rightarrow> db \<Rightarrow> bool" where
  start: "db_step d (start_review now key repo pr head ra d)"
| hold: "db_step d (record_hold now key repo pr head ra reason d)"
| finish: "db_step d (finish_review now key st a d)"
| expire: "db_step d (fst (expire_ci_watch before d))"
| ci: "db_step d (set_ci_state now key cs d)"
| requested: "db_step d (snd (set_requested now repo prs d))"
| unrequest: "db_step d (fst (unrequest repo prs d))"
| stale: "db_step d (fst (settle_stale repo heads d))"
| done_by_human: "db_step d (fst (settle_done repo pr d))"
| unlabeled: "db_step d (fst (settle_unlabeled repo labeled d))"
| reap: "db_step d (fst (reap_running now d))"
| spend: "db_step d (record_spend now repo pr kind cost dur d)"
| meter: "db_step d (write_meter now name pct note d)"
| meter_error: "db_step d (meter_failed now name err d)"
| notice: "db_step d (snd (notice_once now key d))"
| seeded: "db_step d (mark_seeded now repo d)"

inductive db_reach :: "db \<Rightarrow> bool" where
  init: "db_reach empty_db"
| step: "db_reach d \<Longrightarrow> db_step d d' \<Longrightarrow> db_reach d'"

inductive_cases db_stepE: "db_step d d'"

lemma sorted_wrt_filter_map:
  "sorted_wrt (<) (map f xs) \<Longrightarrow> sorted_wrt (<) (map f (filter P xs :: 'a list) :: nat list)"
  by (induction xs) auto

lemma inv_insert_or_replace:
  assumes "db_inv d" "\<And>i. rv_id (f i) = i"
  shows "db_inv (insert_or_replace f d)"
proof -
  let ?k = "rv_key (f (db_next_id d))"
  let ?rs = "filter (\<lambda>r. rv_key r \<noteq> ?k) (db_reviews d)"
  from assms(1) have d: "distinct (map rv_key (db_reviews d))"
    "sorted_wrt (<) (map rv_id (db_reviews d))" "\<forall>r \<in> set (db_reviews d). rv_id r < db_next_id d"
    by (simp_all add: db_inv_def)
  have "distinct (map rv_key (?rs @ [f (db_next_id d)]))"
    using distinct_map_filter [OF d(1)] by auto
  moreover have "sorted_wrt (<) (map rv_id (?rs @ [f (db_next_id d)]))"
    using sorted_wrt_filter_map [OF d(2)] d(3) assms(2) by (auto simp: sorted_wrt_append)
  moreover have "\<forall>r \<in> set (?rs @ [f (db_next_id d)]). rv_id r < db_next_id d + 1"
    using d(3) assms(2) by auto
  ultimately show ?thesis
    using assms(1) by (simp add: db_inv_def insert_or_replace_def Let_def)
qed

lemma inv_update_where:
  assumes "db_inv d" "\<And>r. rv_id (f r) = rv_id r" "\<And>r. rv_key (f r) = rv_key r"
  shows "db_inv (update_where P f d)"
proof -
  let ?g = "\<lambda>r. if P r then f r else r"
  have "rv_key \<circ> ?g = rv_key" "rv_id \<circ> ?g = rv_id" using assms(2,3) by auto
  moreover have "\<forall>r \<in> set (map ?g (db_reviews d)). rv_id r < db_next_id d"
    using assms by (auto simp: db_inv_def)
  ultimately show ?thesis using assms(1) unfolding db_inv_def update_where_def by simp
qed

lemma inv_settle_stale: "db_inv d \<Longrightarrow> db_inv (fst (settle_stale repo heads d))"
proof -
  have "db_inv (fst s) \<Longrightarrow> db_inv (fst (foldl (settle_stale_one repo) s heads))" for s
  proof (induction heads arbitrary: s)
    case (Cons h heads)
    then have "db_inv (fst (settle_stale_one repo s h))"
      by (simp add: settle_stale_one_def inv_update_where)
    with Cons.IH show ?case by simp
  qed simp
  then show "db_inv d \<Longrightarrow> db_inv (fst (settle_stale repo heads d))" by (simp add: settle_stale_def)
qed

lemma inv_requested:
  assumes "db_inv d" shows "db_inv (snd (set_requested now repo prs d))"
proof (cases "distinct prs")
  case True
  let ?f = "\<lambda>q :: str \<times> int \<times> int. (fst q, fst (snd q))"
  have "distinct (map ?f (filter (\<lambda>q. fst q \<noteq> repo) (db_requested d)))"
    using assms by (simp add: db_inv_def distinct_map_filter)
  moreover have "distinct (map ?f (map (\<lambda>pr. (repo, pr, now)) prs))"
    using True by (simp add: comp_def distinct_map inj_on_def)
  moreover have "set (map ?f (filter (\<lambda>q. fst q \<noteq> repo) (db_requested d)))
      \<inter> set (map ?f (map (\<lambda>pr. (repo, pr, now)) prs)) = {}" by auto
  ultimately have "distinct (map ?f (filter (\<lambda>q. fst q \<noteq> repo) (db_requested d)
      @ map (\<lambda>pr. (repo, pr, now)) prs))" unfolding map_append distinct_append by blast
  with assms True show ?thesis by (simp add: set_requested_def db_inv_def)
qed (use assms in \<open>simp add: set_requested_def\<close>)

lemma inv_step: "db_step d d' \<Longrightarrow> db_inv d \<Longrightarrow> db_inv d'"
proof (induction rule: db_step.induct)
  case (requested d now repo prs)
  then show ?case by (rule inv_requested)
next
  case (stale d repo heads)
  then show ?case by (rule inv_settle_stale)
next
  case (unrequest d repo prs)
  then show ?case by (simp add: unrequest_def Let_def db_inv_def distinct_map_filter)
next
  case (meter d now name pct nt)
  then show ?case by (simp add: write_meter_def db_inv_def distinct_dkeys_dset)
next
  case (meter_error d now name err)
  then show ?case by (simp add: meter_failed_def Let_def db_inv_def distinct_dkeys_dset)
next
  case (notice d now key)
  then show ?case by (simp add: notice_once_def notice_seen_def db_inv_def)
next
  case (seeded d now repo)
  then show ?case by (simp add: mark_seeded_def is_seeded_def db_inv_def)
next
  case (spend d now repo pr kind cost dur)
  then show ?case by (simp add: record_spend_def db_inv_def)
qed (simp_all add: start_review_def record_hold_def finish_review_def finish_row_def
    expire_ci_watch_def set_ci_state_def settle_done_def settle_unlabeled_def reap_running_def
    Let_def inv_insert_or_replace inv_update_where new_row_def)

lemma reach_inv: "db_reach d \<Longrightarrow> db_inv d"
proof (induction rule: db_reach.induct)
  case init
  show ?case by (simp add: db_inv_def empty_db_def)
next
  case (step d d')
  then show ?case by (blast intro: inv_step)
qed

text \<open>
  In every database the program's writes can produce, a review key names one row, row
  ids are in creation order and below the next one, and no pull request, notice, meter or
  repository is listed twice.
\<close>

theorem db_reachable_inv:
  assumes "db_reach d" shows "db_inv d"
  using assms by (rule reach_inv)

definition sample_db :: db where
  "sample_db = start_review 5 (lit ''k'') (lit ''acme/app'') 7 (lit ''abc'') (lit ''norq'') empty_db"

lemma sample_db_reach: "db_reach sample_db"
  unfolding sample_db_def by (rule db_reach.step [OF db_reach.init]) (rule db_step.start)

theorem db_reachable_inv_witness: "db_inv sample_db"
  by (rule db_reachable_inv [OF sample_db_reach])

section \<open>What the operations do to a row\<close>

lemma find_first_map:
  "(\<And>r. P (f r) = P r) \<Longrightarrow> find_first P (map f xs) = map_option f (find_first P xs)"
  by (induction xs) auto

lemma find_first_append:
  "find_first P (xs @ ys) = (case find_first P xs of None \<Rightarrow> find_first P ys | Some x \<Rightarrow> Some x)"
  by (induction xs) auto

lemma find_first_filter:
  "(\<And>x. P x \<Longrightarrow> Q x) \<Longrightarrow> find_first P (filter Q xs) = find_first P xs"
  by (induction xs) auto

lemma find_first_filter_none: "find_first P (filter (\<lambda>x. \<not> P x) xs) = None"
  by (simp add: find_first_None_iff)

lemma get_update_where:
  "(\<And>r. rv_key (f r) = rv_key r) \<Longrightarrow>
   get_review (update_where P f d) k = map_option (\<lambda>r. if P r then f r else r) (get_review d k)"
  unfolding get_review_def update_where_def by (simp add: find_first_map)

lemma get_review_key: "get_review d k = Some r \<Longrightarrow> rv_key r = k \<and> r \<in> set (db_reviews d)"
  unfolding get_review_def using find_first_SomeD by fastforce

lemma get_insert_or_replace:
  "rv_key (f (db_next_id d)) = k \<Longrightarrow>
   get_review (insert_or_replace f d) k' = (if k' = k then Some (f (db_next_id d)) else get_review d k')"
proof -
  assume k: "rv_key (f (db_next_id d)) = k"
  show ?thesis
  proof (cases "k' = k")
    case True
    then have "find_first (\<lambda>r. rv_key r = k') (filter (\<lambda>r. rv_key r \<noteq> k') (db_reviews d)) = None"
      by (simp add: find_first_None_iff)
    with True k show ?thesis
      by (simp add: get_review_def insert_or_replace_def Let_def find_first_append)
  next
    case False
    then have "find_first (\<lambda>r. rv_key r = k') (filter (\<lambda>r. rv_key r \<noteq> k) (db_reviews d)) =
        find_first (\<lambda>r. rv_key r = k') (db_reviews d)"
      by (intro find_first_filter) auto
    with False k show ?thesis
      by (simp add: get_review_def insert_or_replace_def Let_def find_first_append split: option.splits)
  qed
qed

text \<open>Two writes to the same row: the second keeps every column it was not given.\<close>

definition merge_args :: "finish_args \<Rightarrow> finish_args \<Rightarrow> finish_args" where
  "merge_args b a =
     \<lparr>fa_verdict = given (fa_verdict b) (fa_verdict a), fa_hold = given (fa_hold b) (fa_hold a),
      fa_cost = given (fa_cost b) (fa_cost a), fa_tokens_in = given (fa_tokens_in b) (fa_tokens_in a),
      fa_tokens_out = given (fa_tokens_out b) (fa_tokens_out a),
      fa_duration = given (fa_duration b) (fa_duration a),
      fa_transcript = given (fa_transcript b) (fa_transcript a),
      fa_model = given (fa_model b) (fa_model a), fa_findings = given (fa_findings b) (fa_findings a),
      fa_blocking = given (fa_blocking b) (fa_blocking a),
      fa_should_fix = given (fa_should_fix b) (fa_should_fix a),
      fa_inline = given (fa_inline b) (fa_inline a), fa_summary = given (fa_summary b) (fa_summary a),
      fa_ci = given (fa_ci b) (fa_ci a)\<rparr>"

lemma given_given: "given c (given b a) = given (given c b) a"
  by (simp add: given_def split: option.splits)

lemma finish_row_twice:
  "finish_row n2 s2 b (finish_row n1 s1 a r) = finish_row n2 s2 (merge_args b a) r"
  by (simp add: finish_row_def merge_args_def given_given)

text \<open>
  Closing a review touches the row of its key and no other, and closing it twice, as
  the publish path does, is closing it once with the columns of both: a later call never
  blanks the cost or the findings an earlier one recorded.
\<close>

theorem finish_review_effect:
  "get_review (finish_review n1 key s1 a d) k =
     (if k = key then map_option (finish_row n1 s1 a) (get_review d k) else get_review d k) \<and>
   finish_review n2 key s2 b (finish_review n1 key s1 a d) = finish_review n2 key s2 (merge_args b a) d"
proof
  have key: "rv_key (finish_row n1 s1 a r) = rv_key r" for r by (simp add: finish_row_def)
  have "get_review (finish_review n1 key s1 a d) k =
      map_option (\<lambda>r. if rv_key r = key then finish_row n1 s1 a r else r) (get_review d k)"
    unfolding finish_review_def by (rule get_update_where) (rule key)
  also have "\<dots> = (if k = key then map_option (finish_row n1 s1 a) (get_review d k) else get_review d k)"
    using get_review_key [of d k] by (cases "get_review d k") auto
  finally show "get_review (finish_review n1 key s1 a d) k =
     (if k = key then map_option (finish_row n1 s1 a) (get_review d k) else get_review d k)" .
  show "finish_review n2 key s2 b (finish_review n1 key s1 a d) = finish_review n2 key s2 (merge_args b a) d"
    by (simp add: finish_review_def update_where_def comp_def key if_distrib finish_row_twice cong: if_cong)
qed

section \<open>The table as a map\<close>

lemma get_update_key:
  "(\<And>r. rv_key (f r) = rv_key r) \<Longrightarrow>
   get_review (update_where (\<lambda>r. rv_key r = key) f d) = (get_review d)(key := map_option f (get_review d key))"
proof -
  assume f: "\<And>r. rv_key (f r) = rv_key r"
  have "get_review (update_where (\<lambda>r. rv_key r = key) f d) k = ((get_review d)(key := map_option f (get_review d key))) k" for k
    unfolding get_update_where [of f, OF f] using get_review_key [of d k] by (cases "get_review d k") auto
  then show ?thesis by blast
qed

lemma get_insert_key:
  "rv_key (f (db_next_id d)) = k \<Longrightarrow> get_review (insert_or_replace f d) = (get_review d)(k \<mapsto> f (db_next_id d))"
  by (rule ext) (simp add: get_insert_or_replace)

lemma get_update_rows:
  "(\<And>r. rv_key (f r) = rv_key r) \<Longrightarrow>
   get_review (update_where P f d) = map_option (\<lambda>r. if P r then f r else r) \<circ> get_review d"
  by (rule ext) (simp add: get_update_where)

lemma get_sweep:
  "get_review (set_ci_state now key ci d) =
     (get_review d)(key := map_option (\<lambda>r. r\<lparr>rv_ci := Some ci, rv_ci_seen := Some now\<rparr>) (get_review d key))"
  "get_review (fst (reap_running now d)) =
     map_option (\<lambda>r. if rv_state r = RvRunning
        then r\<lparr>rv_state := RvFailed, rv_hold := Some (lit ''orchestrator restarted''), rv_finished := Some now\<rparr>
        else r) \<circ> get_review d"
  "get_review (fst (settle_done repo pr d)) =
     map_option (\<lambda>r. if rv_repo r = repo \<and> rv_pr r = pr \<and> rv_ci r \<noteq> Some Ci_done
        then r\<lparr>rv_ci := Some Ci_done\<rparr> else r) \<circ> get_review d"
  "get_review (fst (expire_ci_watch before d)) =
     map_option (\<lambda>r. if is_waiting r \<and> rv_created r < before then r\<lparr>rv_ci := Some Ci_expired\<rparr> else r) \<circ> get_review d"
  unfolding set_ci_state_def reap_running_def settle_done_def expire_ci_watch_def Let_def fst_conv
  by (rule get_update_key get_update_rows, simp)+

lemma get_opened:
  "get_review (start_review now key repo pr head ra d) =
     (get_review d)(key \<mapsto> new_row (db_next_id d) key repo pr head ra RvRunning now)"
  "get_review (record_hold now key repo pr head ra reason d) =
     (get_review d)(key \<mapsto> (new_row (db_next_id d) key repo pr head ra RvHeld now)
        \<lparr>rv_hold := Some reason, rv_finished := Some now\<rparr>)"
  unfolding start_review_def record_hold_def by (rule get_insert_key, simp add: new_row_def)+

lemma get_other:
  "get_review (record_spend now repo pr kind cost dur d) = get_review d"
  "get_review (snd (notice_once now key d)) = get_review d"
  "get_review (mark_seeded now repo d) = get_review d"
  "get_review (snd (set_requested now repo prs d)) = get_review d"
  "get_review (write_meter now name pct meter_note d) = get_review d"
  "get_review (fst (unrequest repo gone d)) = get_review d"
  "get_review (meter_failed now name err d) = get_review d"
  by (simp_all add: fun_eq_iff get_review_def record_spend_def notice_once_def mark_seeded_def set_requested_def
      write_meter_def unrequest_def meter_failed_def Let_def)

text \<open>A sweep over many heads is one pass over the rows: a row it marks is off the board afterwards.\<close>

definition outdated :: "str \<Rightarrow> (int, str) dict \<Rightarrow> review_row \<Rightarrow> bool" where
  "outdated repo heads r \<longleftrightarrow>
     rv_repo r = repo \<and> on_board r \<and> (\<exists>h \<in> set heads. fst h = rv_pr r \<and> snd h \<noteq> rv_head r)"

definition set_stale :: "str \<Rightarrow> (int, str) dict \<Rightarrow> review_row \<Rightarrow> review_row" where
  "set_stale repo heads r = (if outdated repo heads r then r\<lparr>rv_ci := Some Ci_stale\<rparr> else r)"

lemma set_stale_Nil: "set_stale repo [] = (\<lambda>r. r)"
  by (simp add: fun_eq_iff set_stale_def outdated_def)

lemma set_stale_Cons:
  "set_stale repo heads (if stale_row repo (fst h) (snd h) r then r\<lparr>rv_ci := Some Ci_stale\<rparr> else r)
     = set_stale repo (h # heads) r"
proof (cases "stale_row repo (fst h) (snd h) r")
  case True
  then have "outdated repo (h # heads) r" by (auto simp: outdated_def stale_row_def)
  moreover have "\<not> outdated repo heads (r\<lparr>rv_ci := Some Ci_stale\<rparr>)" by (simp add: outdated_def on_board_def)
  ultimately show ?thesis using True by (simp add: set_stale_def)
next
  case False
  then have "outdated repo (h # heads) r = outdated repo heads r" by (auto simp: outdated_def stale_row_def)
  with False show ?thesis by (simp add: set_stale_def)
qed

lemma get_settle_stale: "get_review (fst (settle_stale repo heads d)) = map_option (set_stale repo heads) \<circ> get_review d"
proof -
  have "get_review (fst (foldl (settle_stale_one repo) s heads)) = map_option (set_stale repo heads) \<circ> get_review (fst s)"
    for s
  proof (induction heads arbitrary: s)
    case (Cons h heads)
    have one: "get_review (fst (settle_stale_one repo s h)) =
        map_option (\<lambda>r. if stale_row repo (fst h) (snd h) r then r\<lparr>rv_ci := Some Ci_stale\<rparr> else r) \<circ> get_review (fst s)"
      unfolding settle_stale_one_def fst_conv by (rule get_update_rows) simp
    show ?case
      unfolding foldl.simps Cons.IH one by (simp only: comp_def option.map_comp set_stale_Cons)
  qed (simp add: fun_eq_iff set_stale_Nil option.map_ident)
  then show ?thesis by (simp add: settle_stale_def)
qed

lemma get_settle_unlabeled:
  "get_review (fst (settle_unlabeled repo labeled d)) =
     map_option (\<lambda>r. if rv_repo r = repo \<and> rv_pr r \<notin> set labeled \<and> rv_ci r \<noteq> Some Ci_done \<and> rv_ci r \<noteq> Some Ci_unlabeled
        then r\<lparr>rv_ci := Some Ci_unlabeled\<rparr> else r) \<circ> get_review d"
  unfolding settle_unlabeled_def Let_def fst_conv by (rule get_update_rows) simp

text \<open>With distinct keys the list of rows holds nothing the map does not show.\<close>

lemma find_first_unique: "distinct (map f xs) \<Longrightarrow> x \<in> set xs \<Longrightarrow> find_first (\<lambda>y. f y = f x) xs = Some x"
  by (induction xs) force+

lemma row_iff_get: "db_reach d \<Longrightarrow> r \<in> set (db_reviews d) \<longleftrightarrow> get_review d (rv_key r) = Some r"
  using find_first_unique [of rv_key "db_reviews d" r] get_review_key [of d "rv_key r" r] reach_inv [of d]
  by (auto simp: get_review_def db_inv_def)

text \<open>
  C31: The table of reviews implements a map from keys to rows: in every database the program can
  reach the rows of the table are exactly the entries of the map; opening and holding a review
  write one key, closing one and setting its CI state change the row of one key if there is one,
  the five sweeps and settlings change the CI state or the state of the rows they are about and
  neither lose nor add a key, and no write of another table touches it.
\<close>

theorem reviews_refine_map:
  assumes "db_reach d"
  shows "(\<forall>r. r \<in> set (db_reviews d) \<longleftrightarrow> get_review d (rv_key r) = Some r) \<and>
   get_review (start_review now key repo pr head ra d) =
     (get_review d)(key \<mapsto> new_row (db_next_id d) key repo pr head ra RvRunning now) \<and>
   get_review (record_hold now key repo pr head ra reason d) =
     (get_review d)(key \<mapsto> (new_row (db_next_id d) key repo pr head ra RvHeld now)
        \<lparr>rv_hold := Some reason, rv_finished := Some now\<rparr>) \<and>
   get_review (finish_review now key st a d) =
     (get_review d)(key := map_option (finish_row now st a) (get_review d key)) \<and>
   get_review (set_ci_state now key ci d) =
     (get_review d)(key := map_option (\<lambda>r. r\<lparr>rv_ci := Some ci, rv_ci_seen := Some now\<rparr>) (get_review d key)) \<and>
   get_review (fst (reap_running now d)) =
     map_option (\<lambda>r. if rv_state r = RvRunning
        then r\<lparr>rv_state := RvFailed, rv_hold := Some (lit ''orchestrator restarted''), rv_finished := Some now\<rparr>
        else r) \<circ> get_review d \<and>
   get_review (fst (settle_done repo pr d)) =
     map_option (\<lambda>r. if rv_repo r = repo \<and> rv_pr r = pr \<and> rv_ci r \<noteq> Some Ci_done
        then r\<lparr>rv_ci := Some Ci_done\<rparr> else r) \<circ> get_review d \<and>
   get_review (fst (expire_ci_watch before d)) =
     map_option (\<lambda>r. if is_waiting r \<and> rv_created r < before then r\<lparr>rv_ci := Some Ci_expired\<rparr> else r) \<circ> get_review d \<and>
   get_review (fst (settle_stale repo heads d)) =
     map_option (\<lambda>r. if rv_repo r = repo \<and> on_board r \<and> (\<exists>h \<in> set heads. fst h = rv_pr r \<and> snd h \<noteq> rv_head r)
        then r\<lparr>rv_ci := Some Ci_stale\<rparr> else r) \<circ> get_review d \<and>
   get_review (fst (settle_unlabeled repo labeled d)) =
     map_option (\<lambda>r. if rv_repo r = repo \<and> rv_pr r \<notin> set labeled \<and> rv_ci r \<noteq> Some Ci_done \<and> rv_ci r \<noteq> Some Ci_unlabeled
        then r\<lparr>rv_ci := Some Ci_unlabeled\<rparr> else r) \<circ> get_review d \<and>
   get_review (record_spend now repo pr kind cost dur d) = get_review d \<and>
   get_review (snd (notice_once now key d)) = get_review d \<and>
   get_review (mark_seeded now repo d) = get_review d \<and>
   get_review (snd (set_requested now repo prs d)) = get_review d \<and>
   get_review (fst (unrequest repo prs d)) = get_review d \<and>
   get_review (write_meter now name pct meter_note d) = get_review d \<and>
   get_review (meter_failed now name err d) = get_review d"
proof -
  have "get_review (finish_review now key st a d) =
      (get_review d)(key := map_option (finish_row now st a) (get_review d key))"
    unfolding finish_review_def by (rule get_update_key) (simp add: finish_row_def)
  then show ?thesis
    using row_iff_get [OF assms]
    by (simp only: get_opened get_sweep get_other get_settle_stale set_stale_def [abs_def] outdated_def
        get_settle_unlabeled simp_thms)
qed

section \<open>Spend\<close>

lemma sum_list_without_key:
  fixes g :: "review_row \<Rightarrow> rat"
  assumes "distinct (map rv_key rows)"
  shows "sum_list (map g (filter (\<lambda>r. rv_key r \<noteq> k) rows)) =
         sum_list (map g rows) - (case find_first (\<lambda>r. rv_key r = k) rows of None \<Rightarrow> 0 | Some r \<Rightarrow> g r)"
  using assms
proof (induction rows)
  case (Cons r rows)
  show ?case
  proof (cases "rv_key r = k")
    case True
    with Cons.prems have "\<forall>q \<in> set rows. rv_key q \<noteq> k" by (auto simp: image_iff)
    then have "filter (\<lambda>r. rv_key r \<noteq> k) rows = rows" by (simp add: filter_id_conv)
    with True show ?thesis by simp
  next
    case False
    with Cons show ?thesis by (simp split: option.splits)
  qed
qed simp

definition billed :: "int \<Rightarrow> str list \<Rightarrow> review_row \<Rightarrow> rat" where
  "billed since exclude r = (if counted since exclude r then or_zero (rv_cost r) else 0)"

lemma spend_since_billed:
  "spend_since d since exclude =
     sum_list (map (billed since exclude) (db_reviews d))
     + sum_list (map (or_zero \<circ> sp_cost) (filter (\<lambda>s. since \<le> sp_created s) (db_spend d)))"
proof -
  have "sum_list (map (or_zero \<circ> rv_cost) (filter (counted since exclude) (db_reviews d)))
      = sum_list (map (billed since exclude) (db_reviews d))"
    unfolding sum_list_map_filter' by (simp add: billed_def [abs_def] cong: if_cong)
  then show ?thesis by (simp add: spend_since_def)
qed

text \<open>
  Starting a review takes the cost of the row it replaces out of the day's spend: a
  forced second pass over a request that was already published and paid for lowers the
  figure the budget gate reads by exactly that run.
\<close>

theorem start_review_drops_cost:
  assumes "db_inv d"
  shows "spend_since (start_review now key repo pr head ra d) since exclude =
           spend_since d since exclude
           - (case get_review d key of None \<Rightarrow> 0 | Some r \<Rightarrow> billed since exclude r)"
proof -
  let ?new = "new_row (db_next_id d) key repo pr head ra RvRunning now"
  have "billed since exclude ?new = 0" by (simp add: billed_def new_row_def or_zero_def)
  moreover have "rv_key ?new = key" by (simp add: new_row_def)
  moreover have "distinct (map rv_key (db_reviews d))" using assms by (simp add: db_inv_def)
  ultimately show ?thesis
    by (simp add: spend_since_billed start_review_def insert_or_replace_def Let_def
        sum_list_without_key get_review_def)
qed

definition paid_db :: db where
  "paid_db = finish_review 6 (lit ''k'') RvPublished (no_args\<lparr>fa_cost := Some 3\<rparr>) sample_db"

lemma paid_db_reach: "db_reach paid_db"
  unfolding paid_db_def by (rule db_reach.step [OF sample_db_reach]) (rule db_step.finish)

lemmas paid_db_eval =
  paid_db_def sample_db_def start_review_def insert_or_replace_def new_row_def empty_db_def
  finish_review_def update_where_def finish_row_def no_args_def given_def

theorem reviews_refine_map_witness:
  "(\<forall>r. r \<in> set (db_reviews paid_db) \<longleftrightarrow> get_review paid_db (rv_key r) = Some r) \<and>
   dom (get_review (fst (settle_unlabeled (lit ''acme/app'') [] paid_db))) = dom (get_review paid_db) \<and>
   dom (get_review (fst (settle_stale (lit ''acme/app'') [(7, lit ''new'')] paid_db))) = dom (get_review paid_db)"
  using reviews_refine_map [OF paid_db_reach, where repo = "lit ''acme/app''" and labeled = "[]" and heads = "[(7, lit ''new'')]"]
  by (auto simp: dom_def)

theorem start_review_drops_cost_witness:
  "spend_since paid_db 0 [] = 3 \<and>
   spend_since (start_review 9 (lit ''k'') (lit ''acme/app'') 7 (lit ''abc'') (lit ''norq'') paid_db) 0 [] = 0"
proof -
  have "spend_since paid_db 0 [] = 3"
    by (simp add: paid_db_eval spend_since_def counted_def or_zero_def)
  moreover have "(case get_review paid_db (lit ''k'') of None \<Rightarrow> 0 | Some r \<Rightarrow> billed 0 [] r) = 3"
    by (simp add: paid_db_eval get_review_def billed_def counted_def or_zero_def)
  ultimately show ?thesis using start_review_drops_cost [OF reach_inv [OF paid_db_reach]] by simp
qed

section \<open>Settling sweeps\<close>

lemma update_where_rows:
  "r \<in> set (db_reviews (update_where P f d)) \<longleftrightarrow>
   (\<exists>q \<in> set (db_reviews d). r = (if P q then f q else q))"
  by (auto simp: update_where_def)

lemma zip_changed:
  "(\<And>r. (r \<noteq> g r) = P r) \<Longrightarrow>
   length (filter (\<lambda>p. fst p \<noteq> snd p) (zip rs (map g rs))) = length (filter P rs)"
  by (induction rs) auto

text \<open>
  After the sweep of a repository's labelled pull requests, every row of a pull request
  outside the list is settled as done or unlabelled, rows of the list and of other
  repositories are as they were, and the count returned is the number of rows changed.
\<close>

theorem settle_unlabeled_effect:
  assumes "settle_unlabeled repo labeled d = (d', n)"
  shows "length (db_reviews d') = length (db_reviews d) \<and>
     n = length (filter (\<lambda>p. fst p \<noteq> snd p) (zip (db_reviews d) (db_reviews d'))) \<and>
     (\<forall>i < length (db_reviews d).
        if rv_repo (db_reviews d ! i) = repo \<and> rv_pr (db_reviews d ! i) \<notin> set labeled
        then db_reviews d' ! i = (db_reviews d ! i)\<lparr>rv_ci := rv_ci (db_reviews d' ! i)\<rparr> \<and>
             rv_ci (db_reviews d' ! i) \<in> {Some Ci_done, Some Ci_unlabeled}
        else db_reviews d' ! i = db_reviews d ! i)"
proof -
  let ?P = "\<lambda>r. rv_repo r = repo \<and> rv_pr r \<notin> set labeled \<and>
                   rv_ci r \<noteq> Some Ci_done \<and> rv_ci r \<noteq> Some Ci_unlabeled"
  let ?g = "\<lambda>r. if ?P r then r\<lparr>rv_ci := Some Ci_unlabeled\<rparr> else r"
  from assms have d': "db_reviews d' = map ?g (db_reviews d)" and n: "n = length (filter ?P (db_reviews d))"
    by (auto simp: settle_unlabeled_def Let_def update_where_def count_where_def)
  have changed: "r \<noteq> ?g r \<longleftrightarrow> ?P r" for r :: review_row
    by (cases r) auto
  have "length (filter (\<lambda>p. fst p \<noteq> snd p) (zip rs (map ?g rs))) = length (filter ?P rs)"
    for rs :: "review_row list" by (rule zip_changed) (rule changed)
  moreover have "rv_ci r \<noteq> Some Ci_done \<Longrightarrow> rv_ci r \<noteq> Some Ci_unlabeled \<Longrightarrow>
      r\<lparr>rv_ci := Some Ci_unlabeled\<rparr> = r\<lparr>rv_ci := rv_ci (r\<lparr>rv_ci := Some Ci_unlabeled\<rparr>)\<rparr>" for r :: review_row
    by simp
  ultimately show ?thesis unfolding d' n by auto
qed

theorem settle_unlabeled_effect_witness:
  "\<exists>d' n. settle_unlabeled (lit ''acme/app'') [] paid_db = (d', n) \<and> n = 1 \<and>
     rv_ci (db_reviews d' ! 0) \<in> {Some Ci_done, Some Ci_unlabeled}"
proof -
  obtain d' n where d': "settle_unlabeled (lit ''acme/app'') [] paid_db = (d', n)"
    by (cases "settle_unlabeled (lit ''acme/app'') [] paid_db")
  have rows: "length (db_reviews paid_db) = 1" "rv_repo (db_reviews paid_db ! 0) = lit ''acme/app''"
    by (simp_all add: paid_db_eval)
  have "n = 1" using d' by (auto simp: settle_unlabeled_def Let_def count_where_def paid_db_eval)
  with settle_unlabeled_effect [OF d'] rows d' show ?thesis by auto
qed

text \<open>A row of which some listed pull request has moved to another commit.\<close>

definition moved_on :: "str \<Rightarrow> (int, str) dict \<Rightarrow> review_row \<Rightarrow> bool" where
  "moved_on repo heads r \<longleftrightarrow>
     rv_repo r = repo \<and> on_board r \<and> (\<exists>h. (rv_pr r, h) \<in> set heads \<and> h \<noteq> rv_head r)"

definition retire :: "str \<Rightarrow> (int, str) dict \<Rightarrow> review_row \<Rightarrow> review_row" where
  "retire repo heads r = (if moved_on repo heads r then r\<lparr>rv_ci := Some Ci_stale\<rparr> else r)"

lemma stale_off_board: "\<not> on_board (r\<lparr>rv_ci := Some Ci_stale\<rparr>)"
  by (simp add: on_board_def)

lemma retire_Cons:
  "retire repo heads (if stale_row repo pr h r then r\<lparr>rv_ci := Some Ci_stale\<rparr> else r) =
   retire repo ((pr, h) # heads) r"
proof (cases "stale_row repo pr h r")
  case True
  then have "moved_on repo ((pr, h) # heads) r" unfolding moved_on_def stale_row_def by auto
  moreover have "\<not> moved_on repo heads (r\<lparr>rv_ci := Some Ci_stale\<rparr>)"
    unfolding moved_on_def using stale_off_board by blast
  ultimately show ?thesis using True by (simp add: retire_def)
next
  case False
  then have "moved_on repo ((pr, h) # heads) r \<longleftrightarrow> moved_on repo heads r"
    unfolding moved_on_def stale_row_def by (simp, blast)
  with False show ?thesis by (simp add: retire_def)
qed

lemma settle_stale_fold:
  "db_reviews (fst (foldl (settle_stale_one repo) s heads)) = map (retire repo heads) (db_reviews (fst s))"
proof (induction heads arbitrary: s)
  case Nil
  have "retire repo [] r = r" for r by (simp add: retire_def moved_on_def)
  then show ?case by (simp add: map_idI)
next
  case (Cons h heads)
  have "db_reviews (fst (settle_stale_one repo s h)) =
      map (\<lambda>r. if stale_row repo (fst h) (snd h) r then r\<lparr>rv_ci := Some Ci_stale\<rparr> else r) (db_reviews (fst s))"
    by (simp add: settle_stale_one_def update_where_def)
  then show ?case using Cons.IH [of "settle_stale_one repo s h"] by (simp add: comp_def retire_Cons)
qed

text \<open>
  The sweep of moved commits, one UPDATE per pull request, comes to one pass over the
  table: exactly the rows still on the board whose pull request now has another head become
  stale, whatever the order of the list, and no other row changes.
\<close>

theorem settle_stale_effect:
  "db_reviews (fst (settle_stale repo heads d)) = map (retire repo heads) (db_reviews d) \<and>
   \<not> (\<exists>r \<in> set (db_reviews (fst (settle_stale repo heads d))). moved_on repo heads r)"
proof -
  have eq: "db_reviews (fst (settle_stale repo heads d)) = map (retire repo heads) (db_reviews d)"
    by (simp add: settle_stale_def settle_stale_fold)
  have "\<not> moved_on repo heads (retire repo heads r)" for r
    by (simp add: retire_def) (simp add: moved_on_def stale_off_board)
  with eq show ?thesis by auto
qed

section \<open>Queries\<close>

lemma newer_linear: "rv_id a \<noteq> rv_id b \<Longrightarrow> newer a b \<or> newer b a"
  by (auto simp: newer_def)

lemma distinct_ids: "db_inv d \<Longrightarrow> distinct (map rv_id (db_reviews d))"
  unfolding db_inv_def by (metis strict_sorted_iff)

lemma id_inj: "db_inv d \<Longrightarrow> a \<in> set (db_reviews d) \<Longrightarrow> b \<in> set (db_reviews d) \<Longrightarrow> rv_id a = rv_id b \<Longrightarrow> a = b"
  using distinct_ids [of d] by (auto simp: distinct_map inj_on_def)

lemma approved_prs_mem:
  "p \<in> set (approved_prs d repo) \<longleftrightarrow>
   (\<exists>r \<in> set (published_of d repo). rv_pr r = p \<and> rv_verdict r = Some Ok_verdict \<and>
      (\<forall>q \<in> set (published_of d repo). rv_pr q = p \<longrightarrow> \<not> newer q r))"
  by (auto simp: approved_prs_def Let_def newest_in_def published_of_def)

lemma newest_unique:
  assumes "db_inv d" "a \<in> set (db_reviews d)" "b \<in> set (db_reviews d)"
    and "\<not> newer a b" "\<not> newer b a"
  shows "a = b"
  using assms newer_linear [of a b] id_inj by blast

text \<open>
  A pull request is listed as approved exactly when the latest of its published passes
  is an ok, so an approval that a later pass took back is not, and each is listed once, in
  ascending order.
\<close>

theorem approved_prs_newest:
  assumes "db_inv d"
  shows "sorted (approved_prs d repo) \<and> distinct (approved_prs d repo) \<and>
     (\<forall>p. p \<in> set (approved_prs d repo) \<longleftrightarrow>
        (\<exists>r \<in> set (published_of d repo). rv_pr r = p \<and> rv_verdict r = Some Ok_verdict \<and>
           (\<forall>q \<in> set (published_of d repo). rv_pr q = p \<longrightarrow> q = r \<or> newer r q)))"
proof (intro conjI allI)
  let ?rows = "published_of d repo"
  let ?keep = "\<lambda>r. newest_in ?rows r \<and> rv_verdict r = Some Ok_verdict"
  show "sorted (approved_prs d repo)" by (simp add: approved_prs_def Let_def)
  have mem: "r \<in> set (db_reviews d) \<and> rv_repo r = repo" if "r \<in> set ?rows" for r
    using that by (auto simp: published_of_def)
  have "distinct ?rows"
    using distinct_ids [OF assms] by (simp add: published_of_def distinct_map)
  moreover have "inj_on rv_pr (set (filter ?keep ?rows))"
  proof (rule inj_onI)
    fix a b assume ab: "a \<in> set (filter ?keep ?rows)" "b \<in> set (filter ?keep ?rows)" "rv_pr a = rv_pr b"
    then have "\<not> newer a b" "\<not> newer b a" using mem by (auto simp: newest_in_def)
    with ab mem newest_unique [OF assms] show "a = b" by auto
  qed
  ultimately have "distinct (map rv_pr (filter ?keep ?rows))" by (simp add: distinct_map)
  then show "distinct (approved_prs d repo)" by (simp add: approved_prs_def Let_def)
  show "p \<in> set (approved_prs d repo) \<longleftrightarrow>
        (\<exists>r \<in> set ?rows. rv_pr r = p \<and> rv_verdict r = Some Ok_verdict \<and>
           (\<forall>q \<in> set ?rows. rv_pr q = p \<longrightarrow> q = r \<or> newer r q))" for p
  proof -
    have "\<not> newer q r \<longleftrightarrow> q = r \<or> newer r q" if "r \<in> set ?rows" "q \<in> set ?rows" for q r
    proof -
      have "newer r q \<Longrightarrow> \<not> newer q r" "\<not> newer r r" by (auto simp: newer_def)
      with that mem newest_unique [OF assms, of q r] show ?thesis by blast
    qed
    then show ?thesis unfolding approved_prs_mem by blast
  qed
qed

theorem approved_prs_newest_witness:
  "\<not> (\<exists>p. p \<in> set (approved_prs paid_db (lit ''acme/app'')))"
proof -
  have "published_of paid_db (lit ''acme/app'') = filter (\<lambda>r. rv_verdict r = None) (db_reviews paid_db)"
    by (simp add: published_of_def paid_db_eval)
  with approved_prs_newest [OF reach_inv [OF paid_db_reach], of "lit ''acme/app''"] show ?thesis by auto
qed

section \<open>Notices fire once\<close>

text \<open>The interface the announcers rely on: a set of seen keys, and an insert that says whether it was new.\<close>

locale notice_store =
  fixes seen :: "'s \<Rightarrow> 'k \<Rightarrow> bool"
    and once :: "'e \<Rightarrow> 's \<Rightarrow> bool \<times> 's"
    and key :: "'e \<Rightarrow> 'k"
  assumes once_fires: "fst (once e s) = (\<not> seen s (key e))"
    and once_seen: "seen (snd (once e s)) k \<longleftrightarrow> seen s k \<or> k = key e"

text \<open>A run of announcements: the events that fired, and the store afterwards.\<close>

fun announce :: "('e \<Rightarrow> 's \<Rightarrow> bool \<times> 's) \<Rightarrow> 's \<Rightarrow> 'e list \<Rightarrow> 'e list \<times> 's" where
  "announce once s [] = ([], s)"
| "announce once s (e # es) =
     (let r = announce once (snd (once e s)) es
      in ((if fst (once e s) then e # fst r else fst r), snd r))"

context notice_store begin

lemma seen_after: "seen (snd (announce once s es)) k \<longleftrightarrow> seen s k \<or> k \<in> key ` set es"
  by (induction es arbitrary: s) (auto simp: Let_def once_seen)

lemma fired_keys: "k \<in> key ` set (fst (announce once s es)) \<longleftrightarrow> k \<in> key ` set es \<and> \<not> seen s k"
proof (induction es arbitrary: s)
  case (Cons e es)
  then show ?case by (auto simp: Let_def once_fires once_seen)
qed simp

lemma fired_distinct: "distinct (map key (fst (announce once s es)))"
proof (induction es arbitrary: s)
  case (Cons e es)
  have "key e \<notin> key ` set (fst (announce once (snd (once e s)) es))"
    unfolding fired_keys once_seen by simp
  with Cons show ?case by (simp add: Let_def)
qed simp

end

lemma notice_once_laws:
  "fst (notice_once now k d) = (\<not> notice_seen d k)"
  "notice_seen (snd (notice_once now k d)) k' \<longleftrightarrow> notice_seen d k' \<or> k' = k"
  by (auto simp: notice_once_def notice_seen_def)

interpretation notices: notice_store notice_seen "\<lambda>e. notice_once (fst e) (snd e)" snd
  by unfold_locales (simp_all add: notice_once_laws)

interpretation seeds: notice_store is_seeded
  "\<lambda>e d. (\<not> is_seeded d (snd e), mark_seeded (fst e) (snd e) d)" snd
  by unfold_locales (auto simp: mark_seeded_def is_seeded_def)

text \<open>
  In any run of announcements, at any times, the ones that go out are exactly those of
  the keys the table had not recorded before, each once.
\<close>

theorem notices_fire_once:
  "distinct (map snd (fst (announce (\<lambda>e. notice_once (fst e) (snd e)) d es))) \<and>
   (k \<in> snd ` set (fst (announce (\<lambda>e. notice_once (fst e) (snd e)) d es)) \<longleftrightarrow>
      k \<in> snd ` set es \<and> \<not> notice_seen d k)"
  by (intro conjI notices.fired_distinct notices.fired_keys)

section \<open>The request queue\<close>

text \<open>
  Recording a queue read replaces what the repository had and nothing else; a duplicate
  number in the read raises and leaves the table as it was.
\<close>

theorem set_requested_effect:
  "(fst (set_requested now repo prs d) = Inl IntegrityError \<longleftrightarrow> \<not> distinct prs) \<and>
   (is_requested (snd (set_requested now repo prs d)) r p \<longleftrightarrow>
      (if distinct prs \<and> r = repo then p \<in> set prs else is_requested d r p))"
  by (cases "distinct prs"; cases "r = repo") (auto simp: set_requested_def is_requested_def bex_Un, force+)

section \<open>Migration\<close>

lemma foldl_add_missing:
  "set (foldl add_missing cols steps) = set cols \<union> (\<Union>s \<in> set steps. set (added_columns s))"
  by (induction steps arbitrary: cols) (auto simp: add_missing_def)

lemma foldl_add_missing_distinct: "distinct cols \<Longrightarrow> distinct (foldl add_missing cols steps)"
proof (induction steps arbitrary: cols)
  case (Cons s steps)
  have "distinct (added_columns s)" by (simp add: added_columns_def)
  with Cons.prems have "distinct (add_missing cols s)" by (auto simp: add_missing_def)
  with Cons.IH show ?case by simp
qed simp

lemma foldl_add_missing_none:
  "\<forall>s \<in> set steps. set (added_columns s) \<subseteq> set cols \<Longrightarrow> foldl add_missing cols steps = cols"
proof (induction steps)
  case (Cons s steps)
  then have "add_missing cols s = cols" by (auto simp: add_missing_def filter_empty_conv)
  with Cons show ?case by simp
qed simp

text \<open>
  Opening a database of any older version ends at the current one with every column the
  later versions added, adds none twice, and changes nothing in a database that has them.
\<close>

theorem migrate_complete:
  assumes "distinct cols" and "\<forall>s \<in> {1..version}. set (added_columns s) \<subseteq> set cols"
  shows "snd (migrate version cols) = 4 \<and> distinct (fst (migrate version cols)) \<and>
     (\<forall>s. set (added_columns s) \<subseteq> set (fst (migrate version cols))) \<and>
     set cols \<subseteq> set (fst (migrate version cols)) \<and>
     fst (migrate v (fst (migrate version cols))) = fst (migrate version cols)"
proof -
  let ?c = "fst (migrate version cols)"
  have none: "set (added_columns s) \<subseteq> set ?c" for s
  proof (cases "s \<in> {1..version}")
    case True
    with assms(2) show ?thesis by (auto simp: migrate_def foldl_add_missing)
  next
    case False
    show ?thesis
    proof (cases "s \<in> {1..4}")
      case True
      with False have "s \<in> set [version + 1..<SCHEMA_VERSION + 1]" by (simp add: SCHEMA_VERSION_def)
      then show ?thesis unfolding migrate_def fst_conv foldl_add_missing by blast
    next
      case False
      then have "s \<noteq> 1 \<and> s \<noteq> 2 \<and> s \<noteq> 3 \<and> s \<noteq> 4" by auto
      then show ?thesis by (simp add: added_columns_def)
    qed
  qed
  then have "fst (migrate v ?c) = ?c" by (subst (1) migrate_def) (simp add: foldl_add_missing_none)
  with none assms(1) show ?thesis
    by (auto simp: migrate_def foldl_add_missing foldl_add_missing_distinct SCHEMA_VERSION_def)
qed

theorem migrate_complete_witness:
  "lit ''ci_state'' \<in> set (fst (migrate 1 [lit ''id'', lit ''model'']))"
proof -
  have "\<forall>s \<in> {1..1}. set (added_columns s) \<subseteq> set [lit ''id'', lit ''model'']"
    by (simp add: added_columns_def)
  from migrate_complete [OF _ this, of 0] have
    "set (added_columns 4) \<subseteq> set (fst (migrate 1 [lit ''id'', lit ''model'']))" by simp
  then show ?thesis by (simp add: added_columns_def)
qed

end
