(* ===== verification/Budget.thy ===== *)
theory Budget
  imports Triage Db
begin

text \<open>
  The spend gate (\<open>src/robbie/budget.py\<close>): the poller that stores the meters' readings, and
  the check every container passes before it starts. The clock is a parameter; so are the
  two provider reads, of which the code relies on nothing but that they return a number and
  a note, or raise. Amounts are exact rationals where the program has floats.
\<close>

record clock =
  ck_now :: int                       \<comment> \<open>\<open>now_ms()\<close>\<close>
  ck_midnight :: int                  \<comment> \<open>\<open>midnight_ms()\<close>\<close>
  ck_date :: str                      \<comment> \<open>\<open>%Y-%m-%d\<close>\<close>
  ck_hour :: str                      \<comment> \<open>\<open>%Y-%m-%dT%H\<close>\<close>
  ck_minute :: "str \<Rightarrow> str"           \<comment> \<open>\<open>_minute_key\<close>\<close>

definition UNREADABLE :: str where "UNREADABLE = lit ''unreadable''"

definition USAGE_STALE_S :: rat where "USAGE_STALE_S = 900"

definition PLAN :: str where "PLAN = lit ''plan''"

definition ENDPOINT :: str where "ENDPOINT = lit ''endpoint''"

section \<open>The poller\<close>

text \<open>\<open>_wanted\<close>\<close>

definition wanted :: "str \<Rightarrow> config \<Rightarrow> secrets \<Rightarrow> bool" where
  "wanted name cfg s \<longleftrightarrow>
     (if name = PLAN then cfg_backend cfg = Oauth \<and> sc_claude_credentials s \<noteq> None
      else (case sc_review_base_url s of None \<Rightarrow> False | Some u \<Rightarrow> u \<noteq> []))"

definition poll_one ::
  "int \<Rightarrow> config \<Rightarrow> secrets \<Rightarrow> db \<Rightarrow> str \<times> (str + rat \<times> str) \<Rightarrow> db" where
  "poll_one now cfg s d m =
     (if \<not> wanted (fst m) cfg s then d
      else case snd m of
        Inl err \<Rightarrow> meter_failed now (fst m) err d
      | Inr r \<Rightarrow> write_meter now (fst m) (fst r) (snd r) d)"

text \<open>\<open>poll\<close>; \<open>plan\<close> and \<open>endpoint\<close> are what the two fetches came to.\<close>

definition poll ::
  "int \<Rightarrow> config \<Rightarrow> secrets \<Rightarrow> (str + rat \<times> str) \<Rightarrow> (str + rat \<times> str) \<Rightarrow> db \<Rightarrow> db" where
  "poll now cfg s plan endpoint d =
     foldl (poll_one now cfg s) d [(PLAN, plan), (ENDPOINT, endpoint)]"

text \<open>\<open>_fetch_plan\<close>: a 401 re-reads the credentials once; \<open>expired\<close> is the text raised then.\<close>

datatype http = Http_status nat | Http_other str

definition fetch_plan ::
  "(str \<Rightarrow> http + rat \<times> str) \<Rightarrow> str \<Rightarrow> str \<Rightarrow> bool \<Rightarrow> str \<Rightarrow> (http \<Rightarrow> str) \<Rightarrow> str + rat \<times> str" where
  "fetch_plan usage token fresh_token stale expired show_http =
     (case usage token of
        Inr r \<Rightarrow> Inr r
      | Inl (Http_status n) \<Rightarrow>
          if n \<noteq> 401 then Inl (show_http (Http_status n))
          else if fresh_token \<noteq> token then
            (case usage fresh_token of Inr r \<Rightarrow> Inr r | Inl x \<Rightarrow> Inl (show_http x))
          else if stale then Inl expired
          else Inl (show_http (Http_status n))
      | Inl x \<Rightarrow> Inl (show_http x))"

text \<open>\<open>_fetch_endpoint\<close>, from the two shares of the response on.\<close>

definition endpoint_reading :: "(str \<times> rat) list \<Rightarrow> rat \<times> str" where
  "endpoint_reading shares =
     (case shares of
        [] \<Rightarrow> (0, [])
      | (n, s) # rest \<Rightarrow>
          (foldl max s (map snd rest) * 100,
           join (lit '' '' @ [183] @ lit '' '')
             (map (\<lambda>p. fst p @ lit '' '' @ show_fixed 1 (snd p * 100) @ lit ''%'') shares)))"

section \<open>The gate\<close>

record budget_verdict =
  bv_allowed :: bool
  bv_detail :: str
  bv_notice :: "str option"

datatype reading = Reading rat str | Blind str

text \<open>\<open>_stored\<close>\<close>

definition stored :: "int \<Rightarrow> db \<Rightarrow> str \<Rightarrow> reading res" where
  "stored now d name =
     (case read_meter d name of
        None \<Rightarrow> Inr (Blind (lit ''not polled yet''))
      | Some m \<Rightarrow>
          (let err = (case mt_error m of None \<Rightarrow> [] | Some e \<Rightarrow> e);
               read_at = (case mt_read_at m of None \<Rightarrow> 0 | Some t \<Rightarrow> t);
               age = of_int (now - read_at) / 1000 :: rat
           in if read_at = 0 then Inr (Blind (if err \<noteq> [] then err else lit ''not polled yet''))
              else if USAGE_STALE_S \<le> age
              then Inr (Blind (if err \<noteq> [] then err
                               else lit ''last reading is '' @ show_fixed 0 (age / 60) @ lit ''m old''))
              else (case mt_pct m of
                      None \<Rightarrow> Inl TypeError
                    | Some p \<Rightarrow>
                        Inr (Reading p (case mt_note m of None \<Rightarrow> lit ''None'' | Some n \<Rightarrow> n)))))"

definition dollars :: "rat \<Rightarrow> str" where
  "dollars x = lit ''$'' @ show_fixed 2 x"

definition check_api :: "clock \<Rightarrow> config \<Rightarrow> db \<Rightarrow> nat \<Rightarrow> budget_verdict" where
  "check_api ck cfg d inflight =
     (let spent = spend_since d (ck_midnight ck) (endpoint_models cfg);
          limit = bc_daily_usd (cfg_budget cfg);
          held = of_nat (inflight + 1) * bc_reserve_usd (cfg_budget cfg)
      in if spent + held \<le> limit
         then \<lparr>bv_allowed = True,
               bv_detail = dollars spent @ lit '' of '' @ dollars limit @ lit '' spent today'',
               bv_notice = None\<rparr>
         else \<lparr>bv_allowed = False,
               bv_detail = lit ''daily budget reached: '' @ dollars spent @ lit '' of '' @ dollars limit
                 @ (if inflight \<noteq> 0 \<or> held \<noteq> 0
                    then lit '', '' @ dollars held @ lit '' held for '' @ show_nat inflight @ lit '' running + 1''
                    else []),
               bv_notice = Some (lit ''budget:'' @ ck_date ck)\<rparr>)"

definition check_oauth :: "clock \<Rightarrow> config \<Rightarrow> db \<Rightarrow> nat \<Rightarrow> budget_verdict res" where
  "check_oauth ck cfg d inflight =
     bindE (stored (ck_now ck) d PLAN) (\<lambda>r. Inr (case r of
       Blind why \<Rightarrow>
         \<lparr>bv_allowed = True, bv_detail = lit ''usage unreadable ('' @ why @ lit ''); running unguarded'',
          bv_notice = Some (lit ''budget:'' @ UNREADABLE @ lit '':'' @ ck_date ck)\<rparr>
     | Reading pct resets_at \<Rightarrow>
         (let held = of_nat (inflight + 1) * bc_reserve_pct (cfg_budget cfg) in
          if pct + held \<le> of_int (bc_stop_pct (cfg_budget cfg))
          then \<lparr>bv_allowed = True,
                bv_detail = lit ''5h window at '' @ show_fixed 0 pct @ lit ''% (+'' @ show_fixed 0 held
                  @ lit ''% held back)'', bv_notice = None\<rparr>
          else \<lparr>bv_allowed = False,
                bv_detail = lit ''5h window at '' @ show_fixed 0 pct @ lit ''% +'' @ show_fixed 0 held
                  @ lit ''% held for '' @ show_nat inflight @ lit '' running + 1 (cutoff ''
                  @ show_int (bc_stop_pct (cfg_budget cfg)) @ lit ''%); resumes around '' @ resets_at,
                bv_notice = Some (lit ''budget:'' @ ck_minute ck resets_at)\<rparr>)))"

definition check_endpoint :: "clock \<Rightarrow> config \<Rightarrow> db \<Rightarrow> nat \<Rightarrow> budget_verdict res" where
  "check_endpoint ck cfg d inflight =
     bindE (stored (ck_now ck) d ENDPOINT) (\<lambda>r. Inr (case r of
       Blind why \<Rightarrow>
         \<lparr>bv_allowed = True,
          bv_detail = lit ''endpoint usage unreadable ('' @ why @ lit ''); running unguarded'',
          bv_notice = Some (lit ''budget:endpoint-'' @ UNREADABLE @ lit '':'' @ ck_date ck)\<rparr>
     | Reading pct msg \<Rightarrow>
         (let held = of_nat (inflight + 1) * bc_endpoint_reserve_pct (cfg_budget cfg) in
          if pct + held \<le> of_int (bc_endpoint_stop_pct (cfg_budget cfg))
          then \<lparr>bv_allowed = True,
                bv_detail = lit ''endpoint at '' @ show_fixed 1 pct @ lit ''% ('' @ msg @ lit '', +''
                  @ show_fixed 0 held @ lit ''% held)'', bv_notice = None\<rparr>
          else \<lparr>bv_allowed = False,
                bv_detail = lit ''endpoint limit reached: '' @ show_fixed 1 pct @ lit ''% +''
                  @ show_fixed 0 held @ lit ''% held for '' @ show_nat inflight @ lit '' running + 1 (cutoff ''
                  @ show_int (bc_endpoint_stop_pct (cfg_budget cfg)) @ lit ''%; '' @ msg @ lit '')'',
                bv_notice = Some (lit ''budget:endpoint:'' @ ck_hour ck)\<rparr>)))"

definition budget_check :: "clock \<Rightarrow> config \<Rightarrow> db \<Rightarrow> nat \<Rightarrow> bool \<Rightarrow> budget_verdict res" where
  "budget_check ck cfg d inflight via_endpoint =
     (if via_endpoint then check_endpoint ck cfg d inflight
      else if cfg_backend cfg = Api then Inr (check_api ck cfg d inflight)
      else check_oauth ck cfg d inflight)"

section \<open>Meters are well formed\<close>

text \<open>A meter that says when it was read also says what it read.\<close>

definition meter_ok :: "meter \<Rightarrow> bool" where
  "meter_ok m \<longleftrightarrow> mt_read_at m = None \<or> mt_pct m \<noteq> None"

definition meters_ok :: "db \<Rightarrow> bool" where
  "meters_ok d \<longleftrightarrow> (\<forall>name m. read_meter d name = Some m \<longrightarrow> meter_ok m)"

lemma settle_stale_meters: "db_meters (fst (settle_stale repo heads d)) = db_meters d"
proof -
  have "db_meters (fst (foldl (settle_stale_one repo) s heads)) = db_meters (fst s)" for s
    by (induction heads arbitrary: s) (simp_all add: settle_stale_one_def update_where_def)
  then show ?thesis by (simp add: settle_stale_def)
qed

lemma meters_ok_step: "db_step d d' \<Longrightarrow> meters_ok d \<Longrightarrow> meters_ok d'"
proof (induction rule: db_step.induct)
  case (meter d now name pct nt)
  then show ?case by (simp add: meters_ok_def write_meter_def meter_ok_def)
next
  case (meter_error d now name err)
  then show ?case by (simp add: meters_ok_def meter_failed_def Let_def meter_ok_def split: option.splits)
next
  case (stale d repo heads)
  then show ?case by (simp add: meters_ok_def settle_stale_meters)
qed (simp_all add: meters_ok_def start_review_def record_hold_def finish_review_def
    expire_ci_watch_def set_ci_state_def settle_done_def settle_unlabeled_def reap_running_def
    set_requested_def unrequest_def record_spend_def notice_once_def mark_seeded_def
    insert_or_replace_def update_where_def Let_def)

lemma meters_ok_reach: "db_reach d \<Longrightarrow> meters_ok d"
proof (induction rule: db_reach.induct)
  case init
  show ?case by (simp add: meters_ok_def empty_db_def)
qed (blast intro: meters_ok_step)

section \<open>What the gate compares\<close>

text \<open>
  The figure of a meter that may be trusted: it was read, at a known time, less than fifteen
  minutes ago. Said of the stored row itself, whatever the gate does with it.
\<close>

definition fresh_figure :: "int \<Rightarrow> db \<Rightarrow> str \<Rightarrow> rat option" where
  "fresh_figure now d name =
     (case read_meter d name of
        None \<Rightarrow> None
      | Some m \<Rightarrow>
          (case (mt_read_at m, mt_pct m) of
             (Some t, Some pct) \<Rightarrow> if t \<noteq> 0 \<and> now - t < 15 * 60 * 1000 then Some pct else None
           | _ \<Rightarrow> None))"

lemma stored_fresh:
  assumes "meters_ok d"
  shows "\<exists>r. stored now d name = Inr r \<and>
    (case r of Blind why \<Rightarrow> fresh_figure now d name = None | Reading pct msg \<Rightarrow> fresh_figure now d name = Some pct)"
proof (cases "read_meter d name")
  case None
  then show ?thesis by (simp add: stored_def fresh_figure_def)
next
  case (Some m)
  with assms have ok: "meter_ok m" unfolding meters_ok_def by blast
  show ?thesis
  proof (cases "mt_read_at m")
    case None
    with Some show ?thesis by (simp add: stored_def fresh_figure_def Let_def)
  next
    case at: (Some t)
    with ok obtain pct where pct: "mt_pct m = Some pct" by (auto simp: meter_ok_def)
    have "USAGE_STALE_S \<le> of_int (now - t) / 1000 \<longleftrightarrow> of_int 900000 \<le> (of_int (now - t) :: rat)"
      by (simp add: USAGE_STALE_S_def le_divide_eq)
    then have "USAGE_STALE_S \<le> of_int (now - t) / 1000 \<longleftrightarrow> 900000 \<le> now - t" by (simp only: of_int_le_iff)
    with Some at pct show ?thesis by (auto simp: stored_def fresh_figure_def Let_def)
  qed
qed

text \<open>
  The figure, the reserve and the limit of the side a run is billed to: the recorded cost of the
  day, or the fresh figure of its meter; \<open>None\<close> when there is no fresh figure.
\<close>

definition gauge :: "clock \<Rightarrow> config \<Rightarrow> db \<Rightarrow> bool \<Rightarrow> (rat \<times> rat \<times> rat) option" where
  "gauge ck cfg d via_endpoint =
     (let b = cfg_budget cfg in
      if via_endpoint then
        map_option (\<lambda>pct. (pct, bc_endpoint_reserve_pct b, of_int (bc_endpoint_stop_pct b)))
          (fresh_figure (ck_now ck) d ENDPOINT)
      else if cfg_backend cfg = Api
      then Some (spend_since d (ck_midnight ck) (endpoint_models cfg), bc_reserve_usd b, bc_daily_usd b)
      else map_option (\<lambda>pct. (pct, bc_reserve_pct b, of_int (bc_stop_pct b))) (fresh_figure (ck_now ck) d PLAN))"

definition has_room :: "(rat \<times> rat \<times> rat) option \<Rightarrow> nat \<Rightarrow> bool" where
  "has_room g inflight =
     (case g of None \<Rightarrow> True | Some (used, reserve, limit) \<Rightarrow> used + of_nat (inflight + 1) * reserve \<le> limit)"

lemma check_api_gauge:
  "bv_allowed (check_api ck cfg d n) \<longleftrightarrow>
     has_room (Some (spend_since d (ck_midnight ck) (endpoint_models cfg),
       bc_reserve_usd (cfg_budget cfg), bc_daily_usd (cfg_budget cfg))) n"
  "bv_notice (check_api ck cfg d n) = None \<longleftrightarrow> bv_allowed (check_api ck cfg d n)"
  by (simp_all add: check_api_def has_room_def Let_def)

lemma check_oauth_gauge:
  assumes "meters_ok d"
  shows "\<exists>v. check_oauth ck cfg d n = Inr v \<and>
    bv_allowed v = has_room (map_option (\<lambda>pct. (pct, bc_reserve_pct (cfg_budget cfg), of_int (bc_stop_pct (cfg_budget cfg))))
        (fresh_figure (ck_now ck) d PLAN)) n \<and>
    (bv_notice v = None \<longleftrightarrow> bv_allowed v \<and> fresh_figure (ck_now ck) d PLAN \<noteq> None)"
proof -
  from stored_fresh [OF assms, of "ck_now ck" PLAN] obtain r where r: "stored (ck_now ck) d PLAN = Inr r"
    "case r of Blind why \<Rightarrow> fresh_figure (ck_now ck) d PLAN = None
       | Reading pct msg \<Rightarrow> fresh_figure (ck_now ck) d PLAN = Some pct" by blast
  then show ?thesis by (cases r) (simp_all add: check_oauth_def has_room_def Let_def)
qed

lemma check_endpoint_gauge:
  assumes "meters_ok d"
  shows "\<exists>v. check_endpoint ck cfg d n = Inr v \<and>
    bv_allowed v = has_room (map_option (\<lambda>pct. (pct, bc_endpoint_reserve_pct (cfg_budget cfg),
        of_int (bc_endpoint_stop_pct (cfg_budget cfg)))) (fresh_figure (ck_now ck) d ENDPOINT)) n \<and>
    (bv_notice v = None \<longleftrightarrow> bv_allowed v \<and> fresh_figure (ck_now ck) d ENDPOINT \<noteq> None)"
proof -
  from stored_fresh [OF assms, of "ck_now ck" ENDPOINT] obtain r where r: "stored (ck_now ck) d ENDPOINT = Inr r"
    "case r of Blind why \<Rightarrow> fresh_figure (ck_now ck) d ENDPOINT = None
       | Reading pct msg \<Rightarrow> fresh_figure (ck_now ck) d ENDPOINT = Some pct" by blast
  then show ?thesis by (cases r) (simp_all add: check_endpoint_def has_room_def Let_def)
qed

lemma budget_check_gauge:
  assumes "meters_ok d"
  shows "\<exists>v. budget_check ck cfg d n via = Inr v \<and> bv_allowed v = has_room (gauge ck cfg d via) n \<and>
           (bv_notice v = None \<longleftrightarrow> bv_allowed v \<and> gauge ck cfg d via \<noteq> None)"
  using check_endpoint_gauge [OF assms, of ck cfg n] check_oauth_gauge [OF assms, of ck cfg n]
    check_api_gauge [of ck cfg d n]
  by (simp add: budget_check_def gauge_def Let_def)

lemma has_room_antitone:
  assumes "has_room g (Suc n)" and "\<And>u r l. g = Some (u, r, l) \<Longrightarrow> 0 \<le> r"
  shows "has_room g n"
proof (cases g)
  case None
  then show ?thesis by (simp add: has_room_def)
next
  case (Some t)
  obtain u r l where t: "t = (u, r, l)" by (cases t)
  with assms Some have "0 \<le> r" "u + of_nat (Suc n + 1) * r \<le> l" by (simp_all add: has_room_def)
  then have "u + of_nat (n + 1) * r \<le> l" by (simp add: algebra_simps)
  with Some t show ?thesis by (simp add: has_room_def)
qed

text \<open>
  C21: In every database the program can reach the gate answers, and it lets a container start
  exactly when the figure of the side it is billed to plus one reserve for each container running
  and one for the one asking stays within the limit, or when that side has no figure read less
  than fifteen minutes ago; the one case it is silent about is room within a limit it could read.
\<close>

theorem budget_gate:
  assumes "db_reach d"
  shows "\<exists>v. budget_check ck cfg d inflight via = Inr v \<and>
     bv_allowed v =
       (case gauge ck cfg d via of None \<Rightarrow> True
        | Some (used, reserve, limit) \<Rightarrow> used + of_nat (inflight + 1) * reserve \<le> limit) \<and>
     (bv_notice v = None \<longleftrightarrow> bv_allowed v \<and> gauge ck cfg d via \<noteq> None)"
  using budget_check_gauge [OF meters_ok_reach [OF assms]] unfolding has_room_def .

definition sample_clock :: clock where
  "sample_clock =
     \<lparr>ck_now = 1000000, ck_midnight = 0, ck_date = lit ''2026-01-02'', ck_hour = lit ''2026-01-02T03'',
      ck_minute = (\<lambda>s. s)\<rparr>"

theorem budget_gate_witness:
  "bv_allowed (check_api sample_clock sample_config paid_db 0) \<and>
   bv_allowed (check_api sample_clock sample_config paid_db 2) \<and>
   \<not> bv_allowed (check_api sample_clock sample_config paid_db 3)"
proof -
  have "spend_since paid_db 0 [lit ''b''] = 3"
    by (simp add: paid_db_eval spend_since_def counted_def or_zero_def)
  then have g: "gauge sample_clock sample_config paid_db False = Some (3, 5, 20)"
    by (simp add: gauge_def Let_def sample_clock_def sample_config_def endpoint_models_def)
  have "bv_allowed (check_api sample_clock sample_config paid_db n) \<longleftrightarrow> 3 + of_nat (n + 1) * (5 :: rat) \<le> 20" for n
    using budget_gate [OF paid_db_reach, of sample_clock sample_config n False] g
    by (auto simp: budget_check_def sample_config_def)
  then show ?thesis by simp
qed

text \<open>
  A failed poll keeps the last good number: the gate reads the same figure until that
  figure is older than the limit, and only then says why it is blind.
\<close>

theorem failed_poll_keeps_reading:
  "(stored now (meter_failed t name err d) name = Inr (Reading p msg)) =
     (stored now d name = Inr (Reading p msg))"
proof (cases "read_meter d name")
  case None
  then show ?thesis by (simp add: stored_def meter_failed_def Let_def)
next
  case (Some m)
  then show ?thesis by (simp add: stored_def meter_failed_def Let_def split: option.splits)
qed

text \<open>A 401 is retried only with a token that really changed.\<close>

lemma fetch_plan_retry:
  "usage token = Inl (Http_status 401) \<Longrightarrow> fresh \<noteq> token \<Longrightarrow> usage fresh = Inr r \<Longrightarrow>
   fetch_plan usage token fresh stale expired show_http = Inr r"
  by (simp add: fetch_plan_def)

lemma poll_step: "meters_ok d \<Longrightarrow> meters_ok (poll now cfg s plan endpoint d)"
  unfolding poll_def
  by (simp add: poll_one_def split: sum.splits) (blast intro: meters_ok_step db_step.meter db_step.meter_error)

end
