(* ===== verification/Admission.thy ===== *)
theory Admission
  imports Budget
begin

text \<open>
  Which arm reviews a key, and whether its meter allows it (\<open>_choice\<close> and \<open>_admit\<close> of
  \<open>src/robbie/orchestrator.py\<close>). The slot in which the question is asked is in \<open>Capacity\<close>, as one
  task runs through it, and in \<open>Slots\<close>, under every interleaving.
\<close>

section \<open>Which arm, and whether its meter allows it\<close>

text \<open>\<open>_choice\<close>: the model named on the command line, or the arm the key draws.\<close>

definition choose_arm :: "(nat list \<Rightarrow> nat list) \<Rightarrow> config \<Rightarrow> str option \<Rightarrow> str \<Rightarrow> choice" where
  "choose_arm sha cfg named key =
     (case named of None \<Rightarrow> choose_model sha cfg key
      | Some m \<Rightarrow> if m = [] then choose_model sha cfg key else named_model cfg m)"

text \<open>\<open>_admit\<close>; \<open>gate via\<close> is the verdict of the meter of that side.\<close>

definition admit ::
  "(nat list \<Rightarrow> nat list) \<Rightarrow> config \<Rightarrow> str option \<Rightarrow> (bool \<Rightarrow> budget_verdict res) \<Rightarrow> str
   \<Rightarrow> (choice \<times> budget_verdict) res" where
  "admit sha cfg named gate key =
     (let first = choose_arm sha cfg named key in
      bindE (gate (ch_via_endpoint first)) (\<lambda>v.
      if bv_allowed v \<or> (named \<noteq> None \<and> named \<noteq> Some []) then Inr (first, v)
      else case fallback_for cfg first of
        None \<Rightarrow> Inr (first, v)
      | Some other \<Rightarrow>
          bindE (gate (ch_via_endpoint other)) (\<lambda>spare.
            Inr (if bv_allowed spare then (other, spare) else (first, v)))))"

lemma admit_allowed:
  assumes "admit sha cfg named gate key = Inr (c, v)"
  shows "gate (ch_via_endpoint c) = Inr v"
  using assms
  by (auto simp: admit_def Let_def bindE_Inr_iff split: if_splits option.splits)

end
