(* ===== verification/Effects.thy ===== *)
theory Effects
  imports Admission
begin

text \<open>
  Effects as functions on a world: the database, the trace of everything sent to or read
  from outside, and the fields of the process that live across calls. What GitHub,
  Slack and a container answer is an environment, a record of functions of the trace so far,
  so the properties hold whatever the outside does. \<open>preserves\<close> lifts a relation between
  worlds to a computation; its closure under the combinators is proved once, in a locale,
  and interpreted on the three relations the handlers are checked against.
\<close>

section \<open>Events\<close>

datatype event =
    \<comment> \<open>writes to GitHub\<close>
    Gh_comment str int str
  | Gh_review str int str str "comment list"
  | Gh_inline str int str comment
  | Gh_add_label str int str
  | Gh_del_label str int str
  | Gh_assign str int "str list"
  | Gh_dismiss str str
  | Gh_resolve str
  | Gh_reply str int int str
    \<comment> \<open>a read from GitHub, by what it asks for\<close>
  | Gh_read str str int
    \<comment> \<open>messages: a Slack channel or member and a text; a notice's title, link, body,
         urgency and kind; the board's pull request, head and status\<close>
  | Slack_post str str
  | Jane_post str str str str str
  | Board int str str
    \<comment> \<open>a container: the command line, the variables added to its environment, the prompt\<close>
  | Run "str list" "(str \<times> str) list" str

fun github_write :: "event \<Rightarrow> bool" where
  "github_write (Gh_comment repo n body) = True"
| "github_write (Gh_review repo n head body cs) = True"
| "github_write (Gh_inline repo n head c) = True"
| "github_write (Gh_add_label repo n l) = True"
| "github_write (Gh_del_label repo n l) = True"
| "github_write (Gh_assign repo n who) = True"
| "github_write (Gh_dismiss i m) = True"
| "github_write (Gh_resolve i) = True"
| "github_write (Gh_reply repo n cid body) = True"
| "github_write _ = False"

fun is_message :: "event \<Rightarrow> bool" where
  "is_message (Slack_post ch s) = True"
| "is_message (Jane_post title url body urgency kind) = True"
| "is_message (Board pr head st) = True"
| "is_message _ = False"

fun is_run :: "event \<Rightarrow> bool" where
  "is_run (Run argv vars prompt) = True"
| "is_run _ = False"

text \<open>What reaches a person or the repository; what is left is reads and containers.\<close>

definition outward :: "event \<Rightarrow> bool" where
  "outward ev \<longleftrightarrow> github_write ev \<or> is_message ev"

type_synonym trace = "event list"

section \<open>The environment\<close>

text \<open>
  How a container ended: past its deadline, or with an exit code and its two streams,
  decoded with \<open>errors="replace"\<close>.
\<close>

datatype proc_end = Timed_out | Ended int str str

record env =
  en_write :: "trace \<Rightarrow> event \<Rightarrow> str res"
  en_taken :: "trace \<Rightarrow> event \<Rightarrow> bool"                 \<comment> \<open>a message was accepted\<close>
  en_run :: "trace \<Rightarrow> event \<Rightarrow> proc_end"
  en_elapsed :: "trace \<Rightarrow> rat"
  en_clock :: "trace \<Rightarrow> clock"
  en_meta :: "trace \<Rightarrow> str \<Rightarrow> int \<Rightarrow> pr_meta res"
  en_request :: "trace \<Rightarrow> str \<Rightarrow> int \<Rightarrow> str res"
  en_threads :: "trace \<Rightarrow> str \<Rightarrow> int \<Rightarrow> pr_threads res"
  en_queue :: "trace \<Rightarrow> str \<Rightarrow> int list res"
  en_authored :: "trace \<Rightarrow> str \<Rightarrow> int list res"
  en_labels :: "trace \<Rightarrow> str \<Rightarrow> int \<Rightarrow> str list res"
  en_files :: "trace \<Rightarrow> str \<Rightarrow> int \<Rightarrow> (str \<times> str) list res"
  en_rejection :: "trace \<Rightarrow> str \<Rightarrow> int \<Rightarrow> str option res"
  en_vetoed :: "trace \<Rightarrow> str \<Rightarrow> int list res"
  en_heads :: "trace \<Rightarrow> str \<Rightarrow> (int, labeled_pr) dict res"
  en_whoami :: "trace \<Rightarrow> str res"
  en_asked :: "trace \<Rightarrow> str \<Rightarrow> int \<Rightarrow> str \<Rightarrow> str \<Rightarrow> bool res"
  en_issues :: "trace \<Rightarrow> str \<Rightarrow> str list \<Rightarrow> int list res"
  en_issue :: "trace \<Rightarrow> str \<Rightarrow> int \<Rightarrow> issue_meta res"
  en_fixing :: "trace \<Rightarrow> str \<Rightarrow> int \<Rightarrow> str list res"
  en_branch_pr :: "trace \<Rightarrow> str \<Rightarrow> int \<Rightarrow> str res"
  en_users :: "str option"                             \<comment> \<open>the text of \<open>users_file\<close>, if it is a file\<close>
  en_is_dir :: "str \<Rightarrow> bool"
  en_sha256 :: "nat list \<Rightarrow> nat list"
  en_loads :: "str \<Rightarrow> json res"
  en_rep :: "json \<Rightarrow> str"
  en_word :: "nat \<Rightarrow> bool"
  en_show_exn :: "exn \<Rightarrow> str"                         \<comment> \<open>\<open>str(ex)\<close>\<close>

section \<open>Computations\<close>

record world =
  wd_db :: db
  wd_trace :: trace
  wd_inflight :: nat                                   \<comment> \<open>\<open>self._inflight\<close>\<close>
  wd_threads :: "(str \<times> int, thread list) dict"       \<comment> \<open>\<open>self._threads\<close>\<close>
  wd_login :: "str option"                             \<comment> \<open>\<open>self._self_login\<close>\<close>
  wd_ci :: "(str \<times> int \<times> json, str \<times> rat) dict"      \<comment> \<open>\<open>export._CI\<close>\<close>

type_synonym 'a eff = "world \<Rightarrow> 'a res \<times> world"

definition ret :: "'a \<Rightarrow> 'a eff" where
  "ret x = (\<lambda>w. (Inr x, w))"

definition raiseM :: "exn \<Rightarrow> 'a eff" where
  "raiseM e = (\<lambda>w. (Inl e, w))"

definition bindM :: "'a eff \<Rightarrow> ('a \<Rightarrow> 'b eff) \<Rightarrow> 'b eff" where
  "bindM m f = (\<lambda>w. case m w of (Inl e, w') \<Rightarrow> (Inl e, w') | (Inr x, w') \<Rightarrow> f x w')"

text \<open>
  \<open>try ... except Exception\<close> and \<open>try ... except GhError\<close>. Python's first lets a \<open>SystemExit\<close>
  pass; the program raises one only in what a command checks before it begins, outside of every
  such \<open>try\<close>, and the loops of the daemon hand it on (\<open>Command.survive\<close>).
\<close>

definition catchM :: "'a eff \<Rightarrow> (exn \<Rightarrow> 'a eff) \<Rightarrow> 'a eff" where
  "catchM m h = (\<lambda>w. case m w of (Inl e, w') \<Rightarrow> h e w' | (Inr x, w') \<Rightarrow> (Inr x, w'))"

definition catch_gh :: "'a eff \<Rightarrow> (str \<Rightarrow> 'a eff) \<Rightarrow> 'a eff" where
  "catch_gh m h = catchM m (\<lambda>e. case e of GhError s \<Rightarrow> h s | _ \<Rightarrow> raiseM e)"

definition liftE :: "'a res \<Rightarrow> 'a eff" where
  "liftE r = (\<lambda>w. (r, w))"

text \<open>A query of the database and an update of it.\<close>

definition gets :: "(db \<Rightarrow> 'a) \<Rightarrow> 'a eff" where
  "gets f = (\<lambda>w. (Inr (f (wd_db w)), w))"

definition modify :: "(db \<Rightarrow> db) \<Rightarrow> unit eff" where
  "modify f = (\<lambda>w. (Inr (), w\<lparr>wd_db := f (wd_db w)\<rparr>))"

definition now :: "env \<Rightarrow> clock eff" where
  "now en = (\<lambda>w. (Inr (en_clock en (wd_trace w)), w))"

text \<open>A call outside: its event goes on the trace, and the environment answers.\<close>

definition perform :: "env \<Rightarrow> event \<Rightarrow> str eff" where
  "perform en ev = (\<lambda>w. (en_write en (wd_trace w) ev, w\<lparr>wd_trace := wd_trace w @ [ev]\<rparr>))"

definition ask :: "string \<Rightarrow> str \<Rightarrow> int \<Rightarrow> (trace \<Rightarrow> 'a res) \<Rightarrow> 'a eff" where
  "ask what repo n reply_of =
     (\<lambda>w. (reply_of (wd_trace w), w\<lparr>wd_trace := wd_trace w @ [Gh_read (lit what) repo n]\<rparr>))"

text \<open>A message never raises: every delivery swallows its own failure and reports it.\<close>

definition tell :: "env \<Rightarrow> event \<Rightarrow> bool eff" where
  "tell en ev = (\<lambda>w. (Inr (en_taken en (wd_trace w) ev), w\<lparr>wd_trace := wd_trace w @ [ev]\<rparr>))"

definition run_container :: "env \<Rightarrow> event \<Rightarrow> (proc_end \<times> rat) eff" where
  "run_container en ev =
     (\<lambda>w. let tr = wd_trace w @ [ev]
          in (Inr (en_run en (wd_trace w) ev, en_elapsed en tr), w\<lparr>wd_trace := tr\<rparr>))"

text \<open>An update that reads the clock, and one with a result.\<close>

definition stamp :: "env \<Rightarrow> (int \<Rightarrow> db \<Rightarrow> db) \<Rightarrow> unit eff" where
  "stamp en f = (\<lambda>w. (Inr (), w\<lparr>wd_db := f (ck_now (en_clock en (wd_trace w))) (wd_db w)\<rparr>))"

definition alter :: "env \<Rightarrow> (int \<Rightarrow> db \<Rightarrow> 'a \<times> db) \<Rightarrow> 'a eff" where
  "alter en f =
     (\<lambda>w. let r = f (ck_now (en_clock en (wd_trace w))) (wd_db w)
          in (Inr (fst r), w\<lparr>wd_db := snd r\<rparr>))"

text \<open>\<open>Db.notice_once\<close>\<close>

abbreviation once_key :: "env \<Rightarrow> str \<Rightarrow> bool eff" where
  "once_key en key \<equiv> alter en (\<lambda>now. notice_once now key)"

definition whenM :: "bool \<Rightarrow> unit eff \<Rightarrow> unit eff" where
  "whenM b m = (if b then m else ret ())"

fun mapM :: "('a \<Rightarrow> 'b eff) \<Rightarrow> 'a list \<Rightarrow> 'b list eff" where
  "mapM f [] = ret []"
| "mapM f (x # xs) = bindM (f x) (\<lambda>y. bindM (mapM f xs) (\<lambda>ys. ret (y # ys)))"

fun foldM :: "('s \<Rightarrow> 'a \<Rightarrow> 's eff) \<Rightarrow> 's \<Rightarrow> 'a list \<Rightarrow> 's eff" where
  "foldM f s [] = ret s"
| "foldM f s (x # xs) = bindM (f s x) (\<lambda>s'. foldM f s' xs)"

text \<open>Several writes in a row, none after one that failed.\<close>

fun performs :: "env \<Rightarrow> event list \<Rightarrow> unit eff" where
  "performs en [] = ret ()"
| "performs en (ev # evs) = bindM (perform en ev) (\<lambda>_. performs en evs)"

lemmas eff_defs =
  ret_def raiseM_def bindM_def catchM_def catch_gh_def liftE_def gets_def modify_def now_def
  perform_def ask_def tell_def run_container_def stamp_def alter_def

lemma bindM_assoc: "bindM (bindM m f) g = bindM m (\<lambda>x. bindM (f x) g)"
  by (rule ext) (simp add: bindM_def split: prod.splits sum.splits)

lemma bindM_ret [simp]: "bindM (ret x) f = f x"
  by (simp add: bindM_def ret_def)

lemma bindM_raise [simp]: "bindM (raiseM e) f = raiseM e"
  by (simp add: bindM_def raiseM_def)

section \<open>Relations a computation preserves\<close>

definition preserves :: "(world \<Rightarrow> world \<Rightarrow> bool) \<Rightarrow> 'a eff \<Rightarrow> bool" where
  "preserves R m \<longleftrightarrow> (\<forall>w. R w (snd (m w)))"

lemma preserves_cases [safe_intros]:
  "(b \<Longrightarrow> preserves R x) \<Longrightarrow> (\<not> b \<Longrightarrow> preserves R y) \<Longrightarrow> preserves R (if b then x else y)"
  "(v = None \<Longrightarrow> preserves R x) \<Longrightarrow> (\<And>a. v = Some a \<Longrightarrow> preserves R (f a)) \<Longrightarrow>
     preserves R (case v of None \<Rightarrow> x | Some a \<Rightarrow> f a)"
  "(\<And>a b. p = (a, b) \<Longrightarrow> preserves R (g a b)) \<Longrightarrow> preserves R (case p of (a, b) \<Rightarrow> g a b)"
  by (simp_all split: option.splits prod.splits)

lemma preserves_let [safe_intros]: "(\<And>x. x = e \<Longrightarrow> preserves R (f x)) \<Longrightarrow> preserves R (let x = e in f x)"
  by simp

locale effect_relation =
  fixes R :: "world \<Rightarrow> world \<Rightarrow> bool"
  assumes refl: "R w w"
    and trans: "R u v \<Longrightarrow> R v w \<Longrightarrow> R u w"
begin

lemma pure_ret: "preserves R (ret x)"
  by (simp add: preserves_def ret_def refl)

lemma pure_raise: "preserves R (raiseM e)"
  by (simp add: preserves_def raiseM_def refl)

lemma pure_lift: "preserves R (liftE r)"
  by (simp add: preserves_def liftE_def refl)

lemma pure_gets: "preserves R (gets f)"
  by (simp add: preserves_def gets_def refl)

lemma pure_now: "preserves R (now en)"
  by (simp add: preserves_def now_def refl)

lemma bind: "preserves R m \<Longrightarrow> (\<And>x. preserves R (f x)) \<Longrightarrow> preserves R (bindM m f)"
proof -
  assume m: "preserves R m" and f: "\<And>x. preserves R (f x)"
  have "R w (snd (bindM m f w))" for w
  proof (cases "m w")
    case (Pair r w')
    with m have "R w w'" by (auto simp: preserves_def dest: spec [of _ w])
    moreover have "R w' (snd (f x w'))" for x using f by (simp add: preserves_def)
    ultimately show ?thesis
      using trans Pair by (cases r) (auto simp: bindM_def)
  qed
  then show ?thesis by (simp add: preserves_def)
qed

lemma bind_lift: "(\<And>x. r = Inr x \<Longrightarrow> preserves R (f x)) \<Longrightarrow> preserves R (bindM (liftE r) f)"
  by (cases r) (simp_all add: preserves_def bindM_def liftE_def refl)

lemma catch: "preserves R m \<Longrightarrow> (\<And>e. preserves R (h e)) \<Longrightarrow> preserves R (catchM m h)"
proof -
  assume m: "preserves R m" and h: "\<And>e. preserves R (h e)"
  have "R w (snd (catchM m h w))" for w
  proof (cases "m w")
    case (Pair r w')
    with m have "R w w'" by (auto simp: preserves_def dest: spec [of _ w])
    moreover have "R w' (snd (h e w'))" for e using h by (simp add: preserves_def)
    ultimately show ?thesis
      using trans Pair by (cases r) (auto simp: catchM_def)
  qed
  then show ?thesis by (simp add: preserves_def)
qed

lemma catch_gh: "preserves R m \<Longrightarrow> (\<And>s. preserves R (h s)) \<Longrightarrow> preserves R (catch_gh m h)"
  unfolding catch_gh_def by (rule catch) (auto split: exn.splits intro: pure_raise)

lemma map: "(\<And>x. preserves R (f x)) \<Longrightarrow> preserves R (mapM f xs)"
  by (induction xs) (auto intro!: bind pure_ret)

lemma fold: "(\<And>s x. preserves R (f s x)) \<Longrightarrow> preserves R (foldM f s xs)"
  by (induction xs arbitrary: s) (auto intro!: bind pure_ret)

lemmas closed = pure_ret pure_raise pure_lift pure_gets pure_now bind catch catch_gh map fold

end

text \<open>Only events satisfying \<open>P\<close> are added to the trace.\<close>

definition adds :: "(event \<Rightarrow> bool) \<Rightarrow> world \<Rightarrow> world \<Rightarrow> bool" where
  "adds P w w' \<longleftrightarrow> (\<exists>es. wd_trace w' = wd_trace w @ es \<and> list_all P es)"

interpretation adds: effect_relation "adds P" for P
proof
  fix u v w
  show "adds P w w" by (simp add: adds_def)
  show "adds P u v \<Longrightarrow> adds P v w \<Longrightarrow> adds P u w" by (auto simp: adds_def)
qed

text \<open>The database does not change.\<close>

definition keeps_db :: "world \<Rightarrow> world \<Rightarrow> bool" where
  "keeps_db w w' \<longleftrightarrow> wd_db w' = wd_db w"

interpretation keeps: effect_relation keeps_db
  by unfold_locales (simp_all add: keeps_db_def)

text \<open>
  The database changes by steps of \<open>Db\<close> only, and every container counted as running when
  the computation ends was counted before it began.
\<close>

definition db_evolves :: "world \<Rightarrow> world \<Rightarrow> bool" where
  "db_evolves w w' \<longleftrightarrow> db_step\<^sup>*\<^sup>* (wd_db w) (wd_db w') \<and> wd_inflight w' = wd_inflight w"

interpretation evolves: effect_relation db_evolves
  by unfold_locales (auto simp: db_evolves_def)

lemma evolves_reach: "db_evolves w w' \<Longrightarrow> db_reach (wd_db w) \<Longrightarrow> db_reach (wd_db w')"
proof -
  have "db_step\<^sup>*\<^sup>* d d' \<Longrightarrow> db_reach d \<Longrightarrow> db_reach d'" for d d'
    by (induction rule: rtranclp_induct) (auto intro: db_reach.step)
  then show "db_evolves w w' \<Longrightarrow> db_reach (wd_db w) \<Longrightarrow> db_reach (wd_db w')"
    by (auto simp: db_evolves_def)
qed

section \<open>The primitive calls\<close>

lemma adds_prims [safe_intros]:
  "P ev \<Longrightarrow> preserves (adds P) (perform en ev)"
  "P ev \<Longrightarrow> preserves (adds P) (tell en ev)"
  "P ev \<Longrightarrow> preserves (adds P) (run_container en ev)"
  "P (Gh_read (lit what) repo n) \<Longrightarrow> preserves (adds P) (ask what repo n f)"
  "preserves (adds P) (modify g)"
  "preserves (adds P) (stamp en g')"
  "preserves (adds P) (alter en h)"
  by (simp_all add: preserves_def adds_def perform_def tell_def run_container_def ask_def modify_def
      stamp_def alter_def Let_def)

lemma keeps_prims [safe_intros]:
  "preserves keeps_db (perform en ev)" "preserves keeps_db (tell en ev)"
  "preserves keeps_db (run_container en ev)" "preserves keeps_db (ask what repo n f)"
  by (simp_all add: preserves_def keeps_db_def perform_def tell_def run_container_def ask_def Let_def)

lemma evolves_prims [safe_intros]:
  "preserves db_evolves (perform en ev)" "preserves db_evolves (tell en ev)"
  "preserves db_evolves (run_container en ev)" "preserves db_evolves (ask what repo n f)"
  by (simp_all add: preserves_def db_evolves_def perform_def tell_def run_container_def ask_def Let_def)

lemma evolves_updates [safe_intros]:
  "(\<And>d. db_step d (g d)) \<Longrightarrow> preserves db_evolves (modify g)"
  "(\<And>now d. db_step d (g' now d)) \<Longrightarrow> preserves db_evolves (stamp en g')"
  "(\<And>now d. db_step d (snd (h now d))) \<Longrightarrow> preserves db_evolves (alter en h)"
  by (simp_all add: preserves_def db_evolves_def modify_def stamp_def alter_def Let_def r_into_rtranclp)

lemma performs_adds [safe_intros]:
  "list_all P evs \<Longrightarrow> preserves (adds P) (performs en evs)"
proof (induction evs)
  case (Cons ev evs)
  then have "P ev" "preserves (adds P) (performs en evs)" by simp_all
  then show ?case unfolding performs.simps by (intro adds.bind adds_prims)
qed (simp add: adds.pure_ret)

lemma performs_keeps [safe_intros]: "preserves keeps_db (performs en evs)"
proof (induction evs)
  case (Cons ev evs)
  then show ?case unfolding performs.simps by (intro keeps.bind keeps_prims)
qed (simp add: keeps.pure_ret)

lemma performs_evolves [safe_intros]: "preserves db_evolves (performs en evs)"
proof (induction evs)
  case (Cons ev evs)
  then show ?case unfolding performs.simps by (intro evolves.bind evolves_prims)
qed (simp add: evolves.pure_ret)

text \<open>What was sent is a prefix of what was to be sent, and all of it if nothing failed.\<close>

lemma performs_prefix:
  "\<exists>k \<le> length evs. wd_trace (snd (performs en evs w)) = wd_trace w @ take k evs \<and>
     (k < length evs \<longrightarrow> (\<exists>e. fst (performs en evs w) = Inl e))"
proof (induction evs arbitrary: w)
  case (Cons ev evs)
  let ?w = "w\<lparr>wd_trace := wd_trace w @ [ev]\<rparr>"
  show ?case
  proof (cases "en_write en (wd_trace w) ev")
    case (Inl e)
    then have "performs en (ev # evs) w = (Inl e, ?w)" by (simp add: bindM_def perform_def)
    then show ?thesis by (intro exI [of _ 1]) simp
  next
    case (Inr s)
    then have eq: "performs en (ev # evs) w = performs en evs ?w" by (simp add: bindM_def perform_def)
    from Cons [of ?w] obtain k where "k \<le> length evs"
      "wd_trace (snd (performs en evs ?w)) = wd_trace ?w @ take k evs"
      "k < length evs \<longrightarrow> (\<exists>e. fst (performs en evs ?w) = Inl e)" by blast
    then show ?thesis unfolding eq by (intro exI [of _ "Suc k"]) simp
  qed
qed (simp add: ret_def)

lemma preserves_when [safe_intros]:
  "preserves R (ret ()) \<Longrightarrow> (b \<Longrightarrow> preserves R m) \<Longrightarrow> preserves R (whenM b m)"
  by (simp add: whenM_def)

lemmas [safe_intros] = adds.closed keeps.closed evolves.closed

section \<open>The context of a command\<close>

text \<open>
  What \<open>main._run\<close> builds before it hands over: the configuration, the secrets, the two
  flags and the model named on the command line.
\<close>

record ctx =
  cx_cfg :: config
  cx_secrets :: secrets
  cx_dry :: bool
  cx_no_publish :: bool
  cx_model :: "str option"

text \<open>\<open>Orchestrator._quiet\<close>\<close>

definition quiet :: "ctx \<Rightarrow> bool" where
  "quiet cx \<longleftrightarrow> cx_dry cx \<or> cx_no_publish cx"

abbreviation bot :: "ctx \<Rightarrow> str" where
  "bot cx \<equiv> cfg_bot_name (cx_cfg cx)"

end
