(* ===== verification/Runner.thy ===== *)
theory Runner
  imports Effects
begin

text \<open>
  The container of a run (\<open>src/robbie/runner.py\<close>): its name and transcript paths, the
  command line and the environment variables it is started with, and what is made of the way
  it ended. The process, the file writes and the clock are the environment's. The properties
  say which secrets a run can see: the command line carries none, and a fix run has no
  GitHub token at all.
\<close>

section \<open>What is run\<close>

datatype subject = On_pr pr_meta | On_issue issue_meta

fun su_number :: "subject \<Rightarrow> int" where
  "su_number (On_pr m) = pm_number m"
| "su_number (On_issue i) = im_number i"

fun su_url :: "subject \<Rightarrow> str" where
  "su_url (On_pr m) = pm_url m"
| "su_url (On_issue i) = im_url i"

text \<open>\<open>getattr(meta, "head_sha", "")\<close> and \<open>getattr(meta, "base_ref", repo.criteria_ref)\<close>\<close>

fun su_sha :: "subject \<Rightarrow> str" where
  "su_sha (On_pr m) = pm_head_sha m"
| "su_sha (On_issue i) = []"

fun su_base :: "repo_config \<Rightarrow> subject \<Rightarrow> str" where
  "su_base rc (On_pr m) = pm_base_ref m"
| "su_base rc (On_issue i) = rc_criteria_ref rc"

record review_run =
  rn_ok :: bool
  rn_blocks :: "blocks option"
  rn_text :: str
  rn_cost :: "rat option"
  rn_tokens_in :: "int option"
  rn_tokens_out :: "int option"
  rn_duration :: rat
  rn_transcript :: "str option"
  rn_error :: "str option"

definition failed_run :: "rat \<Rightarrow> str option \<Rightarrow> str \<Rightarrow> review_run" where
  "failed_run dur transcript err =
     \<lparr>rn_ok = False, rn_blocks = None, rn_text = [], rn_cost = None, rn_tokens_in = None,
      rn_tokens_out = None, rn_duration = dur, rn_transcript = transcript, rn_error = Some err\<rparr>"

section \<open>Names and paths\<close>

text \<open>\<open>re.sub(r'[^A-Za-z0-9]+', '-', model).strip('-')\<close>\<close>

fun collapse :: "bool \<Rightarrow> str \<Rightarrow> str" where
  "collapse dashed [] = []"
| "collapse dashed (c # s) =
     (if is_alnum_ascii c then c # collapse False s
      else if dashed then collapse True s else 45 # collapse True s)"

definition model_tag :: "str \<Rightarrow> str" where
  "model_tag m = strip_p (\<lambda>c. c = 45) (collapse False m)"

definition REVIEW :: str where "REVIEW = lit ''review''"
definition FIX :: str where "FIX = lit ''fix''"
definition THREADS :: str where "THREADS = lit ''threads''"
definition MONEY :: str where "MONEY = lit ''money''"

text \<open>\<open>not x\<close> for an optional string\<close>

definition blank_opt :: "str option \<Rightarrow> bool" where
  "blank_opt x \<longleftrightarrow> (case x of None \<Rightarrow> True | Some s \<Rightarrow> s = [])"

definition opt_str :: "str option \<Rightarrow> str" where
  "opt_str x = (case x of None \<Rightarrow> [] | Some s \<Rightarrow> s)"

text \<open>\<open>_stem\<close>\<close>

definition stem :: "repo_config \<Rightarrow> subject \<Rightarrow> str option \<Rightarrow> str \<Rightarrow> str" where
  "stem rc su model mode =
     rc_name rc @ [45] @ show_int (su_number su)
     @ (if su_sha su \<noteq> [] then [45] @ take 8 (su_sha su) else [])
     @ (if mode \<noteq> REVIEW then [45] @ mode else [])
     @ (if blank_opt model then [] else [45] @ model_tag (opt_str model))"

text \<open>
  \<open>Path.with_suffix\<close> on a file name: the part from the last dot on is replaced, unless the
  name begins or ends with that dot.
\<close>

definition after_dot :: "str \<Rightarrow> str" where
  "after_dot n = rev (takeWhile (\<lambda>c. c \<noteq> 46) (rev n))"

definition with_suffix :: "str \<Rightarrow> str \<Rightarrow> str" where
  "with_suffix n suffix =
     (let ext = length (after_dot n) + 1
      in if 46 \<in> set n \<and> ext < length n \<and> 1 < ext then take (length n - ext) n @ suffix
         else n @ suffix)"

definition transcript_path :: "config \<Rightarrow> str \<Rightarrow> str \<Rightarrow> str" where
  "transcript_path cfg n suffix = cfg_state_dir cfg @ lit ''/reviews/'' @ with_suffix n suffix"

text \<open>\<open>_kept\<close>: where a failed run's envelope is moved to.\<close>

definition kept_path :: "config \<Rightarrow> int \<Rightarrow> str \<Rightarrow> str" where
  "kept_path cfg now_ms tag =
     transcript_path cfg (tag @ lit ''-failed-'' @ show_int (now_ms div 1000)) (lit ''.json'')"

section \<open>The command line\<close>

definition mcp_for :: "config \<Rightarrow> str \<Rightarrow> str" where
  "mcp_for cfg mode = (if mode = FIX then cfg_fix_mcp cfg else cfg_review_mcp cfg)"

definition image_for :: "repo_config \<Rightarrow> str \<Rightarrow> str" where
  "image_for rc mode =
     (if mode = FIX \<and> ic_fix_image (rc_issues rc) \<noteq> [] then ic_fix_image (rc_issues rc)
      else rc_image rc)"

definition policy_for :: "(str \<Rightarrow> bool) \<Rightarrow> config \<Rightarrow> str \<Rightarrow> str option" where
  "policy_for is_dir cfg mode =
     (if blank_opt (cfg_policy_dir cfg) then None
      else let dir = opt_str (cfg_policy_dir cfg); per_mode = dir @ [47] @ mode
           in Some (if is_dir per_mode then per_mode else dir))"

definition flag_e :: "str \<Rightarrow> str list" where
  "flag_e v = [lit ''-e'', v]"

definition REPAIR :: str where
  "REPAIR =
     lit ''Your last message did not end with the delimited blocks, so nothing can be posted. ''
       @ lit ''Reply with ONLY the blocks for the review you just did: <<<VERDICT>>>, then ''
       @ lit ''<<<GITHUB>>> and <<<INLINE>>> as the format asked, each marker on its own line and each ''
       @ lit ''block closed by <<<END>>> on its own line. Do not investigate further and add no other ''
       @ lit ''text.''"

text \<open>The options every run starts with.\<close>

definition base_argv :: "config \<Rightarrow> repo_config \<Rightarrow> subject \<Rightarrow> str \<Rightarrow> str \<Rightarrow> str list" where
  "base_argv cfg rc su name mode =
     map lit [''docker'', ''run'', ''--rm'', ''-i'', ''--name''] @ [name,
       lit ''--cpus'', dk_cpus (cfg_docker cfg), lit ''--memory'', dk_memory (cfg_docker cfg),
       lit ''--pids-limit'', show_int (dk_pids_limit (cfg_docker cfg)), lit ''--cap-drop'', lit ''ALL'',
       lit ''-v'', rc_bare rc @ lit '':/bare:ro'']
     @ flag_e (lit ''REPO_SLUG='' @ rc_slug rc)
     @ flag_e (lit ''PR_NUMBER='' @ (case su of On_pr m \<Rightarrow> show_int (pm_number m) | On_issue i \<Rightarrow> []))
     @ flag_e (lit ''PR_URL='' @ su_url su)
     @ flag_e (lit ''REVIEW_COMMAND='' @ rc_review_command rc)
     @ flag_e (lit ''REVIEW_EFFORT='' @ cfg_review_effort cfg)
     @ flag_e (lit ''BASE_REF='' @ su_base rc su)
     @ flag_e (lit ''CRITERIA_REF='' @ rc_criteria_ref rc)
     @ flag_e (lit ''REVIEW_MODE='' @ mode)"

text \<open>\<open>cfg.model_proxy.rstrip('/')\<close>\<close>

definition proxy_url :: "config \<Rightarrow> str" where
  "proxy_url cfg = rstrip_p (\<lambda>c. c = 47) (cfg_model_proxy cfg)"

text \<open>Where the model credential comes from.\<close>

definition auth_argv :: "config \<Rightarrow> secrets \<Rightarrow> bool \<Rightarrow> str list" where
  "auth_argv cfg s via_endpoint =
     (if cfg_model_proxy cfg \<noteq> [] then
        flag_e (lit ''ANTHROPIC_AUTH_TOKEN'')
        @ flag_e (lit ''ANTHROPIC_BASE_URL='' @ proxy_url cfg @ [47]
                    @ (if via_endpoint then lit ''endpoint'' else lit ''account''))
      else if via_endpoint then
        flag_e (lit ''ANTHROPIC_AUTH_TOKEN'')
        @ (if blank_opt (sc_review_base_url s) then []
           else flag_e (lit ''ANTHROPIC_BASE_URL='' @ opt_str (sc_review_base_url s)))
      else if cfg_backend cfg = Api then flag_e (lit ''ANTHROPIC_API_KEY'')
      else [lit ''-v'', (case sc_claude_credentials s of None \<Rightarrow> lit ''None'' | Some p \<Rightarrow> p)
                          @ lit '':/home/robbie/.claude/.credentials.json''])"

definition docker_argv ::
  "(str \<Rightarrow> bool) \<Rightarrow> config \<Rightarrow> secrets \<Rightarrow> repo_config \<Rightarrow> subject \<Rightarrow> str \<Rightarrow> str \<Rightarrow> str option \<Rightarrow> bool
   \<Rightarrow> str list" where
  "docker_argv is_dir cfg s rc su name mode model via_endpoint =
     (let dk = cfg_docker cfg;
          network = (if mode = FIX then dk_fix_network dk else dk_network dk)
      in base_argv cfg rc su name mode
         @ (if mode = REVIEW then flag_e (lit ''REVIEW_REPAIR='' @ REPAIR) else [])
         @ (if mode \<noteq> FIX then flag_e (lit ''GH_TOKEN'') else [])
         @ (if dk_no_new_privileges dk then [lit ''--security-opt'', lit ''no-new-privileges''] else [])
         @ (if \<not> blank_opt network \<and> (mcp_for cfg mode \<noteq> [] \<or> cfg_model_proxy cfg \<noteq> [])
            then [lit ''--network'', opt_str network] else [])
         @ (case policy_for is_dir cfg mode of None \<Rightarrow> []
            | Some p \<Rightarrow> [lit ''-v'', p @ lit '':/policy:ro''])
         @ (if blank_opt model then [] else flag_e (lit ''REVIEW_MODEL='' @ opt_str model))
         @ auth_argv cfg s via_endpoint
         @ (if mcp_for cfg mode \<noteq> [] then flag_e (lit ''REVIEW_MCP='' @ mcp_for cfg mode) else [])
         @ (if mode = FIX
            then flag_e (lit ''MCP_TOOL_TIMEOUT=1800000'') @ flag_e (lit ''BASH_DEFAULT_TIMEOUT_MS=600000'')
            else [])
         @ (if mode = FIX \<and> ic_fix_db_url (rc_issues rc) \<noteq> []
            then flag_e (lit ''FIX_DB_URL='' @ ic_fix_db_url (rc_issues rc)) else [])
         @ [image_for rc mode])"

definition docker_env :: "config \<Rightarrow> secrets \<Rightarrow> bool \<Rightarrow> str \<Rightarrow> (str \<times> str) list" where
  "docker_env cfg s via_endpoint mode =
     (if mode \<noteq> FIX then [(lit ''GH_TOKEN'', sc_reviewer_gh_token s)] else [])
     @ (if cfg_model_proxy cfg \<noteq> []
        then [(lit ''ANTHROPIC_AUTH_TOKEN'', opt_str (sc_model_proxy_token s))]
        else if via_endpoint
        then [(lit ''ANTHROPIC_AUTH_TOKEN'', opt_str (sc_review_api_token s))]
        else if cfg_backend cfg = Api
        then [(lit ''ANTHROPIC_API_KEY'', opt_str (sc_anthropic_api_key s))] else [])"

section \<open>How it ended\<close>

text \<open>\<open>_why_it_failed\<close>: the envelope if it says anything, else the end of the error stream.\<close>

definition envelope_says :: "env \<Rightarrow> int \<Rightarrow> str \<Rightarrow> str option res" where
  "envelope_says en code out =
     bindE (en_loads en out) (\<lambda>j.
     bindE (jget j (lit ''result'')) (\<lambda>r. bindE (jget j (lit ''error'')) (\<lambda>e.
     bindE (jget j (lit ''api_error_status'')) (\<lambda>status.
       let words = strip (py_str (en_rep en) (jor r (jor e (JStr []))))
       in Inr (if words = [] then None
               else Some (lit ''container exited '' @ show_int code @ lit '': '' @ take 300 words
                 @ (if truthy status then lit '' (api '' @ py_str (en_rep en) status @ lit '')'' else [])))))))"

definition last_chars :: "nat \<Rightarrow> str \<Rightarrow> str" where
  "last_chars n s = drop (length s - n) s"

definition why_it_failed :: "env \<Rightarrow> int \<Rightarrow> str \<Rightarrow> str \<Rightarrow> str" where
  "why_it_failed en code out err =
     (case envelope_says en code out of
        Inr (Some s) \<Rightarrow> s
      | _ \<Rightarrow> lit ''container exited '' @ show_int code @ lit '': '' @ last_chars 400 (strip err))"

text \<open>
  \<open>_as_float\<close> and \<open>_as_int\<close>; a cost that is not a finite number is read as absent, and a
  string is never parsed as a float.
\<close>

fun as_float :: "json \<Rightarrow> rat option" where
  "as_float (JInt i) = Some (of_int i)"
| "as_float (JBool b) = Some (if b then 1 else 0)"
| "as_float (JFloat (Fin r)) = Some r"
| "as_float _ = None"

definition as_int_or_none :: "json \<Rightarrow> int option res" where
  "as_int_or_none j =
     (case py_int j of
        Inr i \<Rightarrow> Inr (Some i)
      | Inl TypeError \<Rightarrow> Inr None
      | Inl ValueError \<Rightarrow> Inr None
      | Inl e \<Rightarrow> Inl e)"

text \<open>The envelope of a run that exited with 0.\<close>

definition read_envelope :: "config \<Rightarrow> str \<Rightarrow> str \<Rightarrow> rat \<Rightarrow> json \<Rightarrow> review_run res" where
  "read_envelope cfg tag mode elapsed j =
     bindE (jstr j ''result'' []) (\<lambda>answer_text.
     bindE (jget_obj j (lit ''usage'')) (\<lambda>usage.
     bindE (jget j (lit ''total_cost_usd'')) (\<lambda>cost.
     bindE (bindE (jget usage (lit ''input_tokens'')) as_int_or_none) (\<lambda>tin.
     bindE (bindE (jget usage (lit ''output_tokens'')) as_int_or_none) (\<lambda>tout.
       Inr \<lparr>rn_ok = True,
            rn_blocks = (if mode = REVIEW then Some (parse_blocks answer_text) else None),
            rn_text = answer_text, rn_cost = as_float cost, rn_tokens_in = tin, rn_tokens_out = tout,
            rn_duration = elapsed, rn_transcript = Some (transcript_path cfg tag (lit ''.md'')),
            rn_error = None\<rparr>)))))"

definition deadline :: "config \<Rightarrow> repo_config \<Rightarrow> str \<Rightarrow> int" where
  "deadline cfg rc mode =
     (if mode = FIX then ic_fix_timeout_s (rc_issues rc) else dk_timeout_s (cfg_docker cfg))"

definition conclude ::
  "env \<Rightarrow> config \<Rightarrow> repo_config \<Rightarrow> str \<Rightarrow> str \<Rightarrow> int \<Rightarrow> rat \<Rightarrow> proc_end \<Rightarrow> review_run res" where
  "conclude en cfg rc tag mode now_ms elapsed pe =
     (case pe of
        Timed_out \<Rightarrow>
          Inr (failed_run elapsed None
                (lit ''timed out after '' @ show_int (deadline cfg rc mode) @ lit ''s''))
      | Ended code out err \<Rightarrow>
          if code \<noteq> 0 then
            Inr (failed_run elapsed (Some (kept_path cfg now_ms tag)) (why_it_failed en code out err))
          else case en_loads en out of
            Inl ValueError \<Rightarrow>
              Inr (failed_run elapsed (Some (kept_path cfg now_ms tag))
                    (lit ''could not parse the run envelope: '' @ en_show_exn en ValueError))
          | Inl e \<Rightarrow> Inl e
          | Inr j \<Rightarrow> read_envelope cfg tag mode elapsed j)"

definition run_event ::
  "env \<Rightarrow> ctx \<Rightarrow> repo_config \<Rightarrow> subject \<Rightarrow> str \<Rightarrow> str \<Rightarrow> str option \<Rightarrow> bool \<Rightarrow> event" where
  "run_event en cx rc su prompt mode model via_endpoint =
     Run (docker_argv (en_is_dir en) (cx_cfg cx) (cx_secrets cx) rc su
            (lit ''robbie-'' @ stem rc su model mode) mode model via_endpoint)
         (docker_env (cx_cfg cx) (cx_secrets cx) via_endpoint mode) prompt"

definition run_review ::
  "env \<Rightarrow> ctx \<Rightarrow> repo_config \<Rightarrow> subject \<Rightarrow> str \<Rightarrow> str \<Rightarrow> str option \<Rightarrow> bool \<Rightarrow> review_run eff" where
  "run_review en cx rc su prompt mode model via_endpoint =
     bindM (run_container en (run_event en cx rc su prompt mode model via_endpoint)) (\<lambda>r.
     bindM (now en) (\<lambda>ck.
       liftE (conclude en (cx_cfg cx) rc (stem rc su model mode) mode (ck_now ck) (snd r) (fst r))))"

lemma run_review_adds [safe_intros]:
  "(\<And>argv vars. P (Run argv vars prompt)) \<Longrightarrow>
   preserves (adds P) (run_review en cx rc su prompt mode model via_endpoint)"
  unfolding run_review_def run_event_def by (intro safe_intros) blast

lemma run_review_keeps [safe_intros]:
  "preserves keeps_db (run_review en cx rc su prompt mode model via_endpoint)"
  unfolding run_review_def by (intro safe_intros)

lemma run_review_evolves [safe_intros]:
  "preserves db_evolves (run_review en cx rc su prompt mode model via_endpoint)"
  unfolding run_review_def by (intro safe_intros)

section \<open>Who sees which secret\<close>

definition sample_secrets :: secrets where
  "sample_secrets =
     \<lparr>sc_gh_token = lit ''ghw'', sc_slack_bot_token = lit ''xoxb'', sc_reviewer_gh_token = lit ''ghr'',
      sc_anthropic_api_key = Some (lit ''sk''), sc_claude_credentials = None,
      sc_review_base_url = None, sc_review_api_token = None, sc_model_proxy_token = None,
      sc_fixer_gh_token = None, sc_jane_token = None\<rparr>"

text \<open>
  C23: the command line of a container, which any user of the host can read, depends on no
  token: two sets of secrets that agree on the endpoint's address and on the path of the
  credentials file give the same command line, in every mode.
\<close>

theorem argv_carries_no_secret:
  assumes "sc_review_base_url s' = sc_review_base_url s"
    and "sc_claude_credentials s' = sc_claude_credentials s"
  shows "docker_argv is_dir cfg s' rc su name mode model via_endpoint =
         docker_argv is_dir cfg s rc su name mode model via_endpoint"
  using assms by (simp add: docker_argv_def auth_argv_def)

theorem argv_carries_no_secret_witness:
  "docker_argv (\<lambda>d. False) sample_config (sample_secrets\<lparr>sc_gh_token := lit ''other''\<rparr>) sample_repo
     (On_pr sample_meta) (lit ''n'') REVIEW None False =
   docker_argv (\<lambda>d. False) sample_config sample_secrets sample_repo
     (On_pr sample_meta) (lit ''n'') REVIEW None False"
  by (rule argv_carries_no_secret) simp_all

text \<open>
  A fix run sees no GitHub token: its environment has no \<open>GH_TOKEN\<close> and would be the same
  with any other GitHub tokens configured.
\<close>

theorem fix_run_has_no_github_token:
  "lit ''GH_TOKEN'' \<notin> fst ` set (docker_env cfg s via_endpoint FIX) \<and>
   docker_env cfg (s\<lparr>sc_gh_token := a, sc_reviewer_gh_token := b, sc_fixer_gh_token := c\<rparr>) via_endpoint FIX
     = docker_env cfg s via_endpoint FIX"
  by (simp add: docker_env_def str_eval)

text \<open>\<open>-e NAME\<close> stands somewhere on the command line.\<close>

fun passes :: "str \<Rightarrow> str list \<Rightarrow> bool" where
  "passes k (x # y # zs) = (x = lit ''-e'' \<and> y = k \<or> passes k (y # zs))"
| "passes k _ = False"

lemma passes_appendR: "passes k xs \<Longrightarrow> passes k (xs @ ys)"
  by (induction k xs rule: passes.induct) auto

lemma passes_Cons: "passes k xs \<Longrightarrow> passes k (x # xs)"
  by (cases xs) auto

lemma passes_appendL: "passes k ys \<Longrightarrow> passes k (xs @ ys)"
  by (induction xs) (auto intro: passes_Cons)

lemma passes_flag_e: "passes k (flag_e k)"
  by (simp add: flag_e_def)

lemma passes_auth:
  assumes "(k, v) \<in> set (docker_env cfg s via_endpoint FIX)"
  shows "passes k (auth_argv cfg s via_endpoint)"
proof (cases "cfg_model_proxy cfg \<noteq> [] \<or> via_endpoint")
  case True
  with assms have "k = lit ''ANTHROPIC_AUTH_TOKEN''" by (auto simp: docker_env_def split: if_splits)
  with True show ?thesis
    unfolding auth_argv_def by (auto intro: passes_appendR passes_flag_e)
next
  case False
  with assms have "k = lit ''ANTHROPIC_API_KEY''" "cfg_backend cfg = Api"
    by (auto simp: docker_env_def split: if_splits)
  with False show ?thesis by (simp add: auth_argv_def passes_flag_e)
qed

lemma docker_env_mem:
  "(k, v) \<in> set (docker_env cfg s via_endpoint mode) \<Longrightarrow>
   mode \<noteq> FIX \<and> k = lit ''GH_TOKEN'' \<or> (k, v) \<in> set (docker_env cfg s via_endpoint FIX)"
  unfolding docker_env_def by (cases "mode = FIX") auto

lemma passes_argv_token:
  "mode \<noteq> FIX \<Longrightarrow>
   passes (lit ''GH_TOKEN'') (docker_argv is_dir cfg s rc su name mode model via_endpoint)"
  unfolding docker_argv_def Let_def
  by (rule passes_appendL, rule passes_appendL, rule passes_appendR) (simp add: passes_flag_e)

lemma passes_argv_auth:
  "passes k (auth_argv cfg s via_endpoint) \<Longrightarrow>
   passes k (docker_argv is_dir cfg s rc su name mode model via_endpoint)"
  unfolding docker_argv_def Let_def
  by (rule passes_appendL, rule passes_appendL, rule passes_appendL, rule passes_appendL,
      rule passes_appendL, rule passes_appendL, rule passes_appendL, rule passes_appendR)

text \<open>
  Every variable put into the environment of the docker client is passed on by name on
  the command line, so the container really receives the credential it is meant to have.
\<close>

theorem env_is_passed_by_name:
  assumes "(k, v) \<in> set (docker_env cfg s via_endpoint mode)"
  shows "passes k (docker_argv is_dir cfg s rc su name mode model via_endpoint)"
  using docker_env_mem [OF assms]
proof (elim disjE conjE)
  assume ne: "mode \<noteq> FIX" and k: "k = lit ''GH_TOKEN''"
  show ?thesis unfolding k by (rule passes_argv_token [OF ne])
next
  assume "(k, v) \<in> set (docker_env cfg s via_endpoint FIX)"
  then show ?thesis by (rule passes_argv_auth [OF passes_auth])
qed

theorem env_is_passed_by_name_witness:
  "passes (lit ''GH_TOKEN'') (docker_argv (\<lambda>d. False) sample_config sample_secrets sample_repo
     (On_pr sample_meta) (lit ''n'') REVIEW None False)"
  by (rule env_is_passed_by_name [where v = "lit ''ghr''"])
    (simp add: docker_env_def sample_secrets_def REVIEW_def FIX_def str_eval)

section \<open>Where the transcripts go\<close>

lemma with_suffix_dot:
  assumes "a \<noteq> []" "46 \<notin> set b" "b \<noteq> []"
  shows "with_suffix (a @ 46 # b) suffix = a @ suffix"
proof -
  have "takeWhile (\<lambda>c. c \<noteq> 46) (rev b @ 46 # rev a) = rev b"
    using assms(2) by (subst takeWhile_append2) auto
  then have "after_dot (a @ 46 # b) = b" by (simp add: after_dot_def)
  moreover have "1 < length b + 1 \<and> length b + 1 < length (a @ 46 # b)" using assms(1,3) by simp
  ultimately show ?thesis by (simp add: with_suffix_def Let_def)
qed

lemma collapse_alnum: "c \<in> set (collapse d s) \<Longrightarrow> is_alnum_ascii c \<or> c = 45"
  by (induction d s rule: collapse.induct) (auto split: if_splits)

text \<open>
  When the repository's name has a dot in it, the transcript of every run of that
  repository is the same file, whatever the pull request, the commit, the mode and the model:
  the suffix replaces everything from the dot on.
\<close>

theorem dotted_repo_transcripts_collide:
  assumes "rc_name rc = a @ 46 # b" "a \<noteq> []" "46 \<notin> set b" "46 \<notin> set (su_sha su)" "46 \<notin> set mode"
  shows "transcript_path cfg (stem rc su model mode) suffix
       = cfg_state_dir cfg @ lit ''/reviews/'' @ a @ suffix"
proof -
  define rest where "rest = drop (length (rc_name rc)) (stem rc su model mode)"
  have rest: "stem rc su model mode = rc_name rc @ rest" by (simp add: rest_def stem_def)
  have tag: "46 \<notin> set (model_tag m)" for m
    using set_strip_p [of "\<lambda>c. c = 45" "collapse False m"] collapse_alnum [of 46 False m]
    by (auto simp: model_tag_def is_alnum_ascii_def)
  have "46 \<notin> set (show_int (su_number su))" using show_int_chars by fastforce
  moreover have "46 \<notin> set (take 8 (su_sha su))" using assms(4) by (meson in_set_takeD)
  ultimately have "46 \<notin> set rest" using tag assms(5) by (simp add: rest_def stem_def)
  with assms(1-3) rest show ?thesis
    using with_suffix_dot [of a "b @ rest" suffix] by (auto simp: transcript_path_def rest_def stem_def)
qed

theorem dotted_repo_transcripts_collide_witness:
  "transcript_path sample_config
     (stem (sample_repo\<lparr>rc_slug := lit ''acme/next.js''\<rparr>) (On_pr sample_meta) None REVIEW) (lit ''.md'')
   = lit ''/var/lib/robbie/reviews/next.md'' \<and>
   transcript_path sample_config
     (stem (sample_repo\<lparr>rc_slug := lit ''acme/next.js''\<rparr>) (On_pr (sample_meta\<lparr>pm_number := 8\<rparr>)) None REVIEW)
     (lit ''.md'')
   = lit ''/var/lib/robbie/reviews/next.md''"
proof -
  let ?rc = "sample_repo\<lparr>rc_slug := lit ''acme/next.js''\<rparr>"
  have n: "rc_name ?rc = lit ''next'' @ 46 # lit ''js''" by (simp add: rc_name_def str_eval)
  have "transcript_path sample_config (stem ?rc (On_pr (sample_meta\<lparr>pm_number := k\<rparr>)) None REVIEW) (lit ''.md'')
      = cfg_state_dir sample_config @ lit ''/reviews/'' @ lit ''next'' @ lit ''.md''" for k
    by (rule dotted_repo_transcripts_collide [OF n]) (simp_all add: sample_meta_def REVIEW_def str_eval)
  from this [of 7] this [of 8] show ?thesis by (simp add: sample_config_def sample_meta_def str_eval)
qed

end
