(* ===== verification/Slack.thy ===== *)
theory Slack
  imports Runner
begin

text \<open>
  Where words go that are not on GitHub: Slack (\<open>src/robbie/slack.py\<close>), the operator's
  assistant (\<open>jane.py\<close>) and the status board (\<open>props_bridge.py\<close>). A message is an event;
  whether it was accepted is the environment's answer. \<open>permitted\<close> is the predicate on
  events that the rest of the development is checked against.
\<close>

section \<open>What a run may do\<close>

text \<open>
  A quiet run writes nothing to GitHub and tells nobody; a dry run starts no container.
\<close>

definition permitted :: "ctx \<Rightarrow> event \<Rightarrow> bool" where
  "permitted cx ev \<longleftrightarrow> (outward ev \<longrightarrow> \<not> quiet cx) \<and> (is_run ev \<longrightarrow> \<not> cx_dry cx)"

abbreviation behaves :: "ctx \<Rightarrow> 'a eff \<Rightarrow> bool" where
  "behaves cx m \<equiv> preserves (adds (permitted cx)) m"

lemma permitted_read [simp, intro, safe_intros]: "permitted cx (Gh_read what repo n)"
  by (simp add: permitted_def outward_def)

lemma permitted_loud [intro]: "\<not> quiet cx \<Longrightarrow> \<not> is_run ev \<Longrightarrow> permitted cx ev"
  by (simp add: permitted_def)

lemma permitted_run [intro]: "\<not> cx_dry cx \<Longrightarrow> permitted cx (Run argv vars prompt)"
  by (simp add: permitted_def outward_def)

section \<open>Slack's markup in plain text\<close>

text \<open>\<open>re.sub\<close> with a replacement computed from the groups.\<close>

function resub :: "re \<Rightarrow> (str list \<Rightarrow> str) \<Rightarrow> str \<Rightarrow> str \<Rightarrow> str" where
  "resub r f l x =
     (case run r (l, x) of
        [] \<Rightarrow> (case x of [] \<Rightarrow> [] | c # y \<Rightarrow> c # resub r f (c # l) y)
      | m # _ \<Rightarrow>
          f (snd m) @
          (if length (snd (fst m)) < length x then resub r f (fst (fst m)) (snd (fst m))
           else (case x of [] \<Rightarrow> [] | c # y \<Rightarrow> c # resub r f (c # l) y)))"
  by pat_completeness auto
termination
  by (relation "measure (\<lambda>(r, f, l, x). length x)") auto

declare resub.simps [simp del]

definition LINK_TARGET :: re where
  "LINK_TARGET =
     seqs [word (lit ''http''), Opt (word (lit ''s'')), word (lit ''://''), Plus (\<lambda>c. c \<noteq> 124 \<and> c \<noteq> 62)]"

definition SLACK_LINK :: re where
  "SLACK_LINK =
     seqs [word (lit ''<''), Cap LINK_TARGET, word (lit ''|''), Cap (Plus (\<lambda>c. c \<noteq> 62)), word (lit ''>'')]"

definition SLACK_URL :: re where
  "SLACK_URL = seqs [word (lit ''<''), Cap LINK_TARGET, word (lit ''>'')]"

definition MAX_TITLE :: nat where "MAX_TITLE = 200"

definition unlinked :: "str \<Rightarrow> str" where
  "unlinked s =
     filter (\<lambda>c. c \<noteq> 42)
       (resub SLACK_URL (\<lambda>gs. gs ! 0) [] (resub SLACK_LINK (\<lambda>gs. gs ! 1) [] s))"

text \<open>\<open>from_slack\<close>: title, first link, body.\<close>

definition from_slack :: "str \<Rightarrow> str \<times> str \<times> str" where
  "from_slack s =
     (let url = (case findall (Seq (word (lit ''<'')) (Cap LINK_TARGET)) s of [] \<Rightarrow> [] | g # _ \<Rightarrow> g ! 0);
          plain = strip (unlinked s);
          head = takeWhile (\<lambda>c. c \<noteq> NL) plain;
          rest = drop (length head + 1) plain
      in if length head > MAX_TITLE
         then (strip (take (MAX_TITLE - 1) head @ [8230]), url, strip plain)
         else (strip head, url, strip rest))"

section \<open>The operator's assistant\<close>

definition jane_notify :: "env \<Rightarrow> ctx \<Rightarrow> str \<Rightarrow> str \<Rightarrow> str \<Rightarrow> str \<Rightarrow> str \<Rightarrow> bool eff" where
  "jane_notify en cx title url body urgency kind =
     (if cfg_jane_socket (cx_cfg cx) = [] \<or> sc_jane_token (cx_secrets cx) = None then ret False
      else tell en (Jane_post (take MAX_TITLE title) url body urgency kind))"

definition relay :: "env \<Rightarrow> ctx \<Rightarrow> str \<Rightarrow> bool eff" where
  "relay en cx s =
     (let n = from_slack s
      in jane_notify en cx (fst n) (fst (snd n)) (snd (snd n)) (lit ''normal'') (lit ''operator''))"

section \<open>Slack\<close>

text \<open>\<open>post\<close>: the Slack of a quiet run only logs (\<open>dry_run\<close> is set by \<open>main._run\<close>).\<close>

definition slack_post :: "env \<Rightarrow> ctx \<Rightarrow> str \<Rightarrow> str \<Rightarrow> bool eff" where
  "slack_post en cx channel s = (if quiet cx then ret True else tell en (Slack_post channel s))"

definition dm_owner :: "env \<Rightarrow> ctx \<Rightarrow> str \<Rightarrow> bool eff" where
  "dm_owner en cx s =
     bindM (if cfg_jane_socket (cx_cfg cx) \<noteq> [] \<and> \<not> quiet cx then relay en cx s else ret False)
       (\<lambda>took. if took then ret True
               else slack_post en cx (sl_owner_id (cfg_slack (cx_cfg cx))) s)"

definition dm_reviewers :: "env \<Rightarrow> ctx \<Rightarrow> str \<Rightarrow> bool eff" where
  "dm_reviewers en cx s =
     (let ids = sl_approved_ids (cfg_slack (cx_cfg cx)) in
      if ids = [] then dm_owner en cx s
      else bindM (mapM (\<lambda>m. slack_post en cx m s) ids) (\<lambda>sent. ret (\<forall>b \<in> set sent. b)))"

text \<open>\<open>lookup\<close> in the text of the users file.\<close>

fun row_for :: "str \<Rightarrow> str \<Rightarrow> str option" where
  "row_for who_low line =
     (if strip line = [] \<or> startswith (lstrip line) (lit ''#'') then None
      else case split_ws line of
        who # member # _ \<Rightarrow> if lower who = who_low then Some member else None
      | _ \<Rightarrow> None)"

definition lookup :: "str option \<Rightarrow> str \<Rightarrow> str option" where
  "lookup users login =
     (case users of None \<Rightarrow> None
      | Some content \<Rightarrow>
          (case List.map_filter (row_for (lower (strip login))) (splitlines content) of
             [] \<Rightarrow> None | m # _ \<Rightarrow> Some m))"

datatype dm_state = Sent | Unmapped | Bot

definition dm_author :: "env \<Rightarrow> ctx \<Rightarrow> str \<Rightarrow> str \<Rightarrow> dm_state eff" where
  "dm_author en cx login s =
     (if startswith login (lit ''app/'') \<or> endswith login (lit ''[bot]'') then ret Bot
      else case lookup (en_users en) login of
        None \<Rightarrow> ret Unmapped
      | Some m \<Rightarrow> bindM (slack_post en cx m s) (\<lambda>_. ret Sent))"

section \<open>What is said\<close>

definition things :: "nat \<Rightarrow> str" where
  "things n = (if n = 1 then lit ''thing'' else lit ''things'')"

definition verdict_phrase :: "bool \<Rightarrow> nat \<Rightarrow> nat \<Rightarrow> str" where
  "verdict_phrase needs_work blocking should_fix =
     (if needs_work then
        lit ''*changes requested*'' @
        (if blocking = 0 then []
         else lit '' '' @ [8212] @ lit '' '' @ show_nat blocking @ lit '' '' @ things blocking
       @ lit '' to fix before this can merge'')
      else
        lit ''*reviewed, nothing blocking*'' @
        (if should_fix = 0 then []
         else lit '' '' @ [8212] @ lit '' but '' @ show_nat should_fix @ lit '' '' @ things should_fix
       @ lit '' should be fixed''))"

definition pr_title_link :: "int \<Rightarrow> str \<Rightarrow> str \<Rightarrow> str" where
  "pr_title_link pr title url = lit ''<'' @ url @ lit ''|*#'' @ show_int pr @ lit ''*> '' @ take 70 title"

definition channel_note :: "pr_meta \<Rightarrow> str \<Rightarrow> str" where
  "channel_note m phrase =
     [128269] @ lit '' '' @ pr_title_link (pm_number m) (pm_title m) (pm_url m) @ lit '' '' @ [8212]
       @ lit '' '' @ phrase @ lit ''. Over to '' @ pm_author m @ lit '', findings are on the PR.''"

definition approved_note :: "pr_meta \<Rightarrow> str \<Rightarrow> str" where
  "approved_note m ci =
     [9989] @ lit '' '' @ pr_title_link (pm_number m) (pm_title m) (pm_url m) @ lit '' '' @ [8212]
       @ lit '' nothing to fix, '' @ ci @ lit ''.''"

definition approved_channel_note :: "str \<Rightarrow> pr_meta \<Rightarrow> str" where
  "approved_channel_note name m =
     [9989] @ lit '' '' @ pr_title_link (pm_number m) (pm_title m) (pm_url m) @ lit '' by ''
       @ pm_author m @ lit '' '' @ [8212] @ lit '' *'' @ name
       @ lit '' approved it for human review*, nothing blocking. Over to the reviewers.''"

definition author_note :: "pr_meta \<Rightarrow> str \<Rightarrow> str" where
  "author_note m phrase =
     [128269] @ lit '' '' @ pr_title_link (pm_number m) (pm_title m) (pm_url m) @ lit '' '' @ [8212]
       @ lit '' my pre-review is done: '' @ phrase @ lit ''. The findings are on the PR. '' @ [128591]"

definition approved_author_note :: "pr_meta \<Rightarrow> str" where
  "approved_author_note m =
     [9989] @ lit '' '' @ pr_title_link (pm_number m) (pm_title m) (pm_url m) @ lit '' '' @ [8212]
       @ lit '' my pre-review is done: nothing blocking. It's approved for human review, so it's over ''
       @ lit ''to a reviewer now. '' @ [128591]"

definition unmapped_note :: "str \<Rightarrow> str \<Rightarrow> str" where
  "unmapped_note login users_file =
     lit ''I reviewed a PR by *'' @ login
       @ lit ''* and posted the findings, but I have no Slack id for them so they got no DM. Add a ''
       @ lit ''line to `'' @ users_file @ lit ''` (`'' @ login
       @ lit ''` + tab + their Slack member id) and I'll write to them from the next one on.''"

section \<open>The board\<close>

definition STATUSES :: "str list" where
  "STATUSES =
     map lit [''requested'', ''queued'', ''reviewing'', ''drafted'', ''posted'', ''skipped'', ''clear'']"

definition report :: "env \<Rightarrow> str \<Rightarrow> int \<Rightarrow> str \<Rightarrow> str \<Rightarrow> unit eff" where
  "report en url pr head status =
     (if url = [] then ret ()
      else if status \<notin> set STATUSES then raiseM AssertionError
      else bindM (tell en (Board pr head status)) (\<lambda>_. ret ()))"

section \<open>Closure\<close>

lemma jane_behaves: "\<not> quiet cx \<Longrightarrow> behaves cx (jane_notify en cx title url body urgency kind)"
  unfolding jane_notify_def by (intro safe_intros) auto

lemma slack_post_behaves [safe_intros]: "behaves cx (slack_post en cx ch s)"
  unfolding slack_post_def by (intro safe_intros) auto

lemma dm_owner_behaves [safe_intros]: "behaves cx (dm_owner en cx s)"
  unfolding dm_owner_def relay_def Let_def by (intro safe_intros jane_behaves) auto

lemma dm_reviewers_behaves [safe_intros]: "behaves cx (dm_reviewers en cx s)"
  unfolding dm_reviewers_def by (intro safe_intros)

lemma dm_author_behaves [safe_intros]: "behaves cx (dm_author en cx login s)"
  unfolding dm_author_def by (intro safe_intros)

lemma report_behaves: "\<not> quiet cx \<Longrightarrow> behaves cx (report en url pr head status)"
  unfolding report_def by (intro safe_intros) auto

lemma messages_keep [safe_intros]:
  "preserves keeps_db (jane_notify en cx title url body urgency kind)"
  "preserves keeps_db (slack_post en cx ch s)"
  "preserves keeps_db (dm_owner en cx s)"
  "preserves keeps_db (dm_reviewers en cx s)"
  "preserves keeps_db (dm_author en cx login s)"
  "preserves keeps_db (report en url' pr head status)"
  unfolding jane_notify_def slack_post_def dm_owner_def relay_def dm_reviewers_def dm_author_def
    report_def Let_def
  by (intro safe_intros)+

lemma messages_evolve [safe_intros]:
  "preserves db_evolves (jane_notify en cx title url body urgency kind)"
  "preserves db_evolves (slack_post en cx ch s)"
  "preserves db_evolves (dm_owner en cx s)"
  "preserves db_evolves (dm_reviewers en cx s)"
  "preserves db_evolves (dm_author en cx login s)"
  "preserves db_evolves (report en url' pr head status)"
  unfolding jane_notify_def slack_post_def dm_owner_def relay_def dm_reviewers_def dm_author_def
    report_def Let_def
  by (intro safe_intros)+

section \<open>Who is written to\<close>

text \<open>A row of the users file that maps this login to this member.\<close>

definition maps_to :: "str option \<Rightarrow> str \<Rightarrow> str \<Rightarrow> bool" where
  "maps_to users login m \<longleftrightarrow>
     (\<exists>content l who rest. users = Some content \<and> l \<in> set (splitlines content) \<and>
        \<not> startswith (lstrip l) (lit ''#'') \<and> split_ws l = who # m # rest \<and>
        lower who = lower (strip login))"

lemma row_for_SomeD:
  "row_for w l = Some m \<Longrightarrow>
   \<not> startswith (lstrip l) (lit ''#'') \<and> (\<exists>who rest. split_ws l = who # m # rest \<and> lower who = w)"
  by (auto split: if_splits list.splits)

lemma lookup_maps: "lookup users login = Some m \<Longrightarrow> maps_to users login m"
proof -
  assume h: "lookup users login = Some m"
  then obtain content where c: "users = Some content" by (cases users) (auto simp: lookup_def)
  let ?ms = "List.map_filter (row_for (lower (strip login))) (splitlines content)"
  from h c have "m \<in> set ?ms" by (cases ?ms) (simp_all add: lookup_def del: row_for.simps)
  then obtain l where "l \<in> set (splitlines content)" "row_for (lower (strip login)) l = Some m"
    by (auto simp: map_filter_mem simp del: row_for.simps)
  with c row_for_SomeD show ?thesis unfolding maps_to_def by blast
qed

text \<open>
  An author's message reaches nobody but a member that some uncommented row of the users
  file maps to exactly that login; with no such row nothing is sent at all.
\<close>

theorem dm_author_no_stranger:
  "preserves (adds (\<lambda>ev. \<exists>m. ev = Slack_post m s \<and> maps_to (en_users en) login m)) (dm_author en cx login s)"
proof -
  let ?P = "\<lambda>ev. \<exists>m. ev = Slack_post m s \<and> maps_to (en_users en) login m"
  have "preserves (adds ?P) (slack_post en cx m s)" if "lookup (en_users en) login = Some m" for m
    unfolding slack_post_def using lookup_maps [OF that] by (intro safe_intros) blast
  then show ?thesis unfolding dm_author_def by (intro safe_intros)
qed

end
