(* ===== verification/Publish.thy ===== *)
theory Publish
  imports Slack
begin

text \<open>
  The write surface of a review (\<open>src/robbie/publish.py\<close>): the review or comment with its
  inline notes, the label, the one-line notes, and the settling of an issue. Each function
  takes the dry-run flag the caller passes; the properties say that it writes nothing then,
  that a note goes out at most once per key and stays owed when it failed, what a review may
  write at all, and in which order an issue is taken out of its queue.
\<close>

definition MAX_BYTES :: nat where "MAX_BYTES = 60000"

definition posted_key :: "string \<Rightarrow> repo_config \<Rightarrow> pr_meta \<Rightarrow> str" where
  "posted_key kind rc m =
     (lit ''posted:'' @ lit kind @ lit '':'' @ rc_slug rc @ lit '':'' @ show_int (pm_number m)
       @ lit '':'' @ pm_head_sha m)"

record publish_result =
  pb_posted :: bool
  pb_detail :: str
  pb_inline :: int
  pb_url :: "str option"

definition result :: "bool \<Rightarrow> str \<Rightarrow> publish_result" where
  "result posted detail = \<lparr>pb_posted = posted, pb_detail = detail, pb_inline = 0, pb_url = None\<rparr>"

definition once_per ::
  "env \<Rightarrow> str \<Rightarrow> publish_result eff \<Rightarrow> bool \<Rightarrow> publish_result option eff" where
  "once_per en key post quietly =
     bindM (gets (\<lambda>d. notice_seen d key)) (\<lambda>seen.
       if \<not> quietly \<and> seen then ret None
       else
         bindM post (\<lambda>r.
         bindM (whenM (pb_posted r) (bindM (once_key en key) (\<lambda>_. ret ()))) (\<lambda>_.
           ret (Some r))))"

text \<open>\<open>diff_lines\<close>, from the decoded rows on.\<close>

definition diff_lines :: "env \<Rightarrow> str \<Rightarrow> int \<Rightarrow> (str, int list) dict eff" where
  "diff_lines en repo pr =
     bindM (ask ''files'' repo pr (\<lambda>tr. en_files en tr repo pr)) (\<lambda>rows.
       ret (foldl (\<lambda>d r. dset (fst r) (commentable (snd r)) d) [] rows))"

section \<open>The body\<close>

definition TRUNCATED :: str where
  "TRUNCATED = [NL, NL] @ (lit ''_'' @ [8230] @ lit ''truncated._'') @ [NL]"

definition truncate_body :: "str \<Rightarrow> str res" where
  "truncate_body s =
     (if \<not> encodable s then Inl ValueError
      else if length (utf8 s) \<le> MAX_BYTES then Inr s
      else Inr (utf8_take MAX_BYTES s @ TRUNCATED))"

definition assemble :: "str \<Rightarrow> str \<Rightarrow> str \<Rightarrow> str \<Rightarrow> anchored \<Rightarrow> str res" where
  "assemble name marker_line label body an =
     truncate_body (join [NL]
       ([marker_line, signature name @ [NL],
         (lit ''_Once the fixes are in, take the `'' @ label
       @ lit ''` label off and I'll take another pass '' @ [8212]
       @ lit '' no need to re-request the review._'' @ [NL]),
         rstrip body]
        @ (if an_leftovers an \<noteq> [] then [NL # an_leftovers an] else [])
        @ (if an_folded an \<noteq> [] then [NL # an_folded an] else [])))"

section \<open>A review\<close>

definition set_label :: "env \<Rightarrow> repo_config \<Rightarrow> int \<Rightarrow> bool \<Rightarrow> str eff" where
  "set_label en rc pr add =
     perform en (if add then Gh_add_label (rc_slug rc) pr (rc_needs_work_label rc)
                 else Gh_del_label (rc_slug rc) pr (rc_needs_work_label rc))"

definition is_own_pr :: "str option \<Rightarrow> pr_meta \<Rightarrow> bool" where
  "is_own_pr self_login m \<longleftrightarrow> \<not> blank_opt self_login \<and> pm_author m = opt_str self_login"

definition own_pr_body :: "str \<Rightarrow> str" where
  "own_pr_body body =
     rstrip body @ ([NL, NL]
       @ lit ''<sub>Posted as a comment rather than a changes-requested review: GitHub does not allow ''
       @ lit ''requesting changes on your own pull request.</sub>'')"

text \<open>The inline notes of a comment, one request each; the count of those accepted.\<close>

definition post_inline :: "env \<Rightarrow> repo_config \<Rightarrow> pr_meta \<Rightarrow> comment list \<Rightarrow> int eff" where
  "post_inline en rc m cs =
     foldM (\<lambda>n c. catch_gh
              (bindM (perform en (Gh_inline (rc_slug rc) (pm_number m) (pm_head_sha m) c))
                     (\<lambda>_. ret (n + 1)))
              (\<lambda>_. ret n)) 0 cs"

definition post_body ::
  "env \<Rightarrow> repo_config \<Rightarrow> pr_meta \<Rightarrow> bool \<Rightarrow> str \<Rightarrow> comment list \<Rightarrow> (str \<times> int) eff" where
  "post_body en rc m as_review full cs =
     (if as_review then
        bindM (perform en (Gh_review (rc_slug rc) (pm_number m) (pm_head_sha m) full cs))
          (\<lambda>url. ret (strip url, int (length cs)))
      else
        bindM (perform en (Gh_comment (rc_slug rc) (pm_number m) full)) (\<lambda>url.
        bindM (post_inline en rc m cs) (\<lambda>n. ret (strip url, n))))"

definition published_detail :: "env \<Rightarrow> repo_config \<Rightarrow> bool \<Rightarrow> anchored \<Rightarrow> int \<Rightarrow> str" where
  "published_detail en rc as_review an posted =
     (let missed = int (length (an_comments an)) - posted in
      (if as_review then lit ''requested changes'' else lit ''commented'')
      @ (lit '' + '' @ show_int posted @ lit '' inline'')
      @ (if missed \<noteq> 0 then (lit '' ('' @ show_int missed @ lit '' rejected)'') else [])
      @ (if an_folded_count an \<noteq> 0 then (lit '' + '' @ show_nat (an_folded_count an) @ lit '' folded'') else [])
      @ (lit '' + set '' @ en_rep en (JStr (rc_needs_work_label rc))))"

definition publish_review ::
  "env \<Rightarrow> ctx \<Rightarrow> verdict \<Rightarrow> repo_config \<Rightarrow> pr_meta \<Rightarrow> str \<Rightarrow> finding list \<Rightarrow> bool \<Rightarrow> str option
   \<Rightarrow> publish_result eff" where
  "publish_review en cx v rc m body findings dry self_login =
     (if v = Ok_verdict then raiseM ValueError
      else if strip body = [] then ret (result False (lit ''summary body was empty; posting nothing''))
      else
        let own = is_own_pr self_login m;
            as_review = (v = Needs_work \<and> \<not> own);
            body' = (if own \<and> v = Needs_work then own_pr_body body else body);
            marker_line = (lit ''<!-- robbie-review sha='' @ pm_head_sha m @ lit '' -->'')
        in
        bindM (diff_lines en (rc_slug rc) (pm_number m)) (\<lambda>valid.
        bindM (liftE (anchor (en_rep en) (bot cx) findings valid (rc_inline_min_severity rc))) (\<lambda>an.
        bindM (liftE (assemble (bot cx) marker_line (rc_needs_work_label rc) body' an)) (\<lambda>full.
          if dry then
            ret ((result False (lit ''dry run''))\<lparr>pb_inline := int (length (an_comments an))\<rparr>)
          else
            bindM (post_body en rc m as_review full (an_comments an)) (\<lambda>up.
            bindM (set_label en rc (pm_number m) True) (\<lambda>_.
              ret \<lparr>pb_posted = True, pb_detail = published_detail en rc as_review an (snd up),
                   pb_inline = snd up, pb_url = (if fst up = [] then None else Some (fst up))\<rparr>))))))"

section \<open>Retractions and replies\<close>

definition DISMISS_MESSAGE :: str where
  "DISMISS_MESSAGE =
     (lit ''Superseded by a later pass on a newer commit that found nothing blocking. Retracting ''
       @ lit ''this so it stops holding the PR; the approval itself is not mine to give.'')"

definition dismiss_own_rejection :: "env \<Rightarrow> str \<Rightarrow> bool \<Rightarrow> publish_result eff" where
  "dismiss_own_rejection en node_id dry =
     (if node_id = [] then ret (result False (lit ''no standing rejection of ours''))
      else if dry then ret (result False (lit ''dry run: would dismiss '' @ node_id))
      else bindM (perform en (Gh_dismiss node_id DISMISS_MESSAGE))
             (\<lambda>_. ret (result True (lit ''dismissed my own changes-requested''))))"

definition resolve_thread :: "env \<Rightarrow> str \<Rightarrow> bool \<Rightarrow> publish_result eff" where
  "resolve_thread en node_id dry =
     (if node_id = [] then ret (result False (lit ''no thread id''))
      else if dry then ret (result False (lit ''dry run: would resolve '' @ node_id))
      else bindM (perform en (Gh_resolve node_id)) (\<lambda>_. ret (result True (lit ''resolved''))))"

definition reply_to_thread ::
  "env \<Rightarrow> ctx \<Rightarrow> repo_config \<Rightarrow> int \<Rightarrow> int \<Rightarrow> str \<Rightarrow> bool \<Rightarrow> publish_result eff" where
  "reply_to_thread en cx rc pr cid body dry =
     (if strip body = [] then ret (result False (lit ''empty reply''))
      else let full = rstrip body @ [NL, NL] @ signature_sub (bot cx) in
        if dry then ret (result False (lit ''dry run''))
        else bindM (perform en (Gh_reply (rc_slug rc) pr cid full)) (\<lambda>url.
               ret ((result True (lit ''replied''))
                 \<lparr>pb_url := (if strip url = [] then None else Some (strip url))\<rparr>)))"

definition clear_needs_work :: "env \<Rightarrow> repo_config \<Rightarrow> int \<Rightarrow> bool \<Rightarrow> publish_result eff" where
  "clear_needs_work en rc pr dry =
     bindM (ask ''labels'' (rc_slug rc) pr (\<lambda>tr. en_labels en tr (rc_slug rc) pr)) (\<lambda>labels.
       if rc_needs_work_label rc \<notin> set labels
       then ret (result False (lit ''no needs-work label to clear''))
       else if dry then ret (result False (lit ''dry run: would clear the needs-work label''))
       else bindM (set_label en rc pr False)
              (\<lambda>_. ret (result True (lit ''cleared '' @ en_rep en (JStr (rc_needs_work_label rc))))))"

section \<open>Notes\<close>

definition or_red :: "str list \<Rightarrow> str" where
  "or_red checks = (let s = join (lit '', '') checks in if s = [] then lit ''red'' else s)"

definition ticked :: "str list \<Rightarrow> str" where
  "ticked checks = (lit ''`'' @ join (lit ''`, `'') checks @ lit ''`'')"

definition post_note ::
  "env \<Rightarrow> repo_config \<Rightarrow> pr_meta \<Rightarrow> str \<Rightarrow> str \<Rightarrow> bool \<Rightarrow> publish_result eff" where
  "post_note en rc m body detail dry =
     (if dry then ret (result False (lit ''dry run''))
      else bindM (perform en (Gh_comment (rc_slug rc) (pm_number m) body))
             (\<lambda>_. ret (result True detail)))"

definition post_ci_note ::
  "env \<Rightarrow> ctx \<Rightarrow> repo_config \<Rightarrow> pr_meta \<Rightarrow> str list \<Rightarrow> bool \<Rightarrow> publish_result eff" where
  "post_ci_note en cx rc m checks =
     post_note en rc m
       ((lit ''<!-- robbie-ci-red sha='' @ pm_head_sha m @ lit '' -->'' @ [NL] @ signature (bot cx)
       @ [NL, NL] @ lit ''CI is red on this commit'')
        @ (if checks = [] then [] else (lit '' ('' @ ticked checks @ lit '')''))
        @ (lit '', so I'm holding my review '' @ [8212]
       @ lit '' too much of what I'd say tends to change once the build is green. Push a fix and I'll ''
       @ lit ''pick it up on my next pass; no need to re-request the review.''))
       (lit ''posted the CI note ('' @ or_red checks @ lit '')'')"

definition report_red_build ::
  "env \<Rightarrow> ctx \<Rightarrow> repo_config \<Rightarrow> pr_meta \<Rightarrow> str list \<Rightarrow> bool \<Rightarrow> publish_result eff" where
  "report_red_build en cx rc m checks =
     post_note en rc m
       ((lit ''<!-- robbie-approved-red sha='' @ pm_head_sha m @ lit '' -->'' @ [NL] @ signature (bot cx)
       @ [NL, NL] @ lit ''I read this as ready and asked for a build, and '')
        @ (if checks = [] then lit ''CI'' else ticked checks)
        @ (lit '' came back red on '' @ take 8 (pm_head_sha m)
       @ lit ''. Nothing I found is blocking, so this is the build's news rather than mine '' @ [8212]
       @ lit '' worth a look before a human spends time on it. Push a fix and the next pass picks it ''
       @ lit ''up; no need to re-request the review.''))
       (lit ''reported the red build ('' @ or_red checks @ lit '')'')"

definition post_approval :: "env \<Rightarrow> ctx \<Rightarrow> repo_config \<Rightarrow> pr_meta \<Rightarrow> bool \<Rightarrow> publish_result eff" where
  "post_approval en cx rc m =
     post_note en rc m
       ((lit ''<!-- robbie-approved sha='' @ pm_head_sha m @ lit '' -->'' @ [NL] @ signature (bot cx)
       @ [NL, NL, 9989] @ lit '' **Approved for human review.** I found nothing blocking on ''
       @ take 8 (pm_head_sha m) @ lit ''; the final review and the merge are still a human's call.''))
       (lit ''posted the approval note'')"

definition request_ci :: "env \<Rightarrow> repo_config \<Rightarrow> pr_meta \<Rightarrow> bool \<Rightarrow> publish_result eff" where
  "request_ci en rc m =
     post_note en rc m (rc_ci_phrase rc) (lit ''asked CI to run ('' @ rc_ci_phrase rc @ lit '')'')"

section \<open>Issues\<close>

definition TRIAGE_MARKER :: str where "TRIAGE_MARKER = lit ''<!-- robbie-triage -->''"

text \<open>The writes of \<open>settle_issue\<close>, in its order.\<close>

definition settle_events ::
  "ctx \<Rightarrow> repo_config \<Rightarrow> issue_meta \<Rightarrow> str \<Rightarrow> str \<Rightarrow> str list \<Rightarrow> str \<Rightarrow> event list" where
  "settle_events cx rc i say add_label assignee clears =
     (let repo = rc_slug rc; n = im_number i in
      [Gh_comment repo n (TRIAGE_MARKER @ [NL] @ signature (bot cx) @ [NL, NL] @ say)]
      @ (if assignee = [] then [] else [Gh_assign repo n assignee])
      @ (if add_label = [] then [] else [Gh_add_label repo n add_label])
      @ [Gh_del_label repo n (if clears = [] then ic_clears (rc_issues rc) else clears)])"

definition settle_issue ::
  "env \<Rightarrow> ctx \<Rightarrow> repo_config \<Rightarrow> issue_meta \<Rightarrow> str \<Rightarrow> str \<Rightarrow> str list \<Rightarrow> str \<Rightarrow> bool \<Rightarrow> publish_result eff"
  where
  "settle_issue en cx rc i say add_label assignee clears dry =
     (if dry then ret (result False (lit ''dry run: would settle #'' @ show_int (im_number i) @ lit '' ('' @ say @ lit '')''))
      else bindM (performs en (settle_events cx rc i say add_label assignee clears))
             (\<lambda>_. ret (result True say)))"

definition point_to_fix ::
  "env \<Rightarrow> ctx \<Rightarrow> repo_config \<Rightarrow> issue_meta \<Rightarrow> str list \<Rightarrow> str \<Rightarrow> bool \<Rightarrow> publish_result eff" where
  "point_to_fix en cx rc i prs clears =
     settle_issue en cx rc i
       (lit ''Already fixed or being fixed in '' @ join (lit '', '') prs
       @ lit '', so I am leaving this one alone.'')
       [] [] clears"

section \<open>A dry run writes nothing\<close>

lemma write_ok: "(quiet cx \<longrightarrow> dry) \<Longrightarrow> \<not> dry \<Longrightarrow> \<not> is_run ev \<Longrightarrow> permitted cx ev"
  by (auto simp: permitted_def)

lemma publish_review_behaves [safe_intros]:
  assumes "quiet cx \<longrightarrow> dry"
  shows "behaves cx (publish_review en cx v rc m body findings dry self_login)"
  unfolding publish_review_def diff_lines_def post_body_def post_inline_def set_label_def Let_def
  by (intro safe_intros) (auto intro: write_ok [OF assms])

lemma dismiss_behaves [safe_intros]:
  assumes d: "quiet cx \<longrightarrow> dry" shows "behaves cx (dismiss_own_rejection en node_id dry)"
  unfolding dismiss_own_rejection_def by (intro safe_intros) (auto intro: write_ok [OF d])

lemma resolve_behaves [safe_intros]:
  assumes d: "quiet cx \<longrightarrow> dry" shows "behaves cx (resolve_thread en node_id dry)"
  unfolding resolve_thread_def by (intro safe_intros) (auto intro: write_ok [OF d])

lemma reply_behaves [safe_intros]:
  assumes d: "quiet cx \<longrightarrow> dry" shows "behaves cx (reply_to_thread en cx rc pr cid body dry)"
  unfolding reply_to_thread_def by (intro safe_intros) (auto intro: write_ok [OF d])

lemma clear_behaves [safe_intros]:
  assumes d: "quiet cx \<longrightarrow> dry" shows "behaves cx (clear_needs_work en rc pr dry)"
  unfolding clear_needs_work_def set_label_def by (intro safe_intros) (auto intro: write_ok [OF d])

lemma post_note_behaves:
  assumes d: "quiet cx \<longrightarrow> dry" shows "behaves cx (post_note en rc m body detail dry)"
  unfolding post_note_def by (intro safe_intros) (auto intro: write_ok [OF d])

lemma notes_behave [safe_intros]:
  "quiet cx \<longrightarrow> dry \<Longrightarrow> behaves cx (post_ci_note en cx' rc m checks dry)"
  "quiet cx \<longrightarrow> dry \<Longrightarrow> behaves cx (report_red_build en cx' rc m checks dry)"
  "quiet cx \<longrightarrow> dry \<Longrightarrow> behaves cx (post_approval en cx' rc m dry)"
  "quiet cx \<longrightarrow> dry \<Longrightarrow> behaves cx (request_ci en rc m dry)"
  unfolding post_ci_note_def report_red_build_def post_approval_def request_ci_def
  by (rule post_note_behaves; assumption)+

lemma settle_behaves [safe_intros]:
  assumes d: "quiet cx \<longrightarrow> dry" shows "behaves cx (settle_issue en cx' rc i say add_label assignee clears dry)"
  unfolding settle_issue_def settle_events_def Let_def
  by (intro safe_intros) (auto intro: write_ok [OF d])

lemma point_behaves [safe_intros]:
  "quiet cx \<longrightarrow> dry \<Longrightarrow> behaves cx (point_to_fix en cx' rc i prs clears dry)"
  unfolding point_to_fix_def by (intro safe_intros)

lemma once_per_behaves [safe_intros]: "behaves cx post \<Longrightarrow> behaves cx (once_per en key post q)"
  unfolding once_per_def by (intro safe_intros)

lemma publish_keeps [safe_intros]:
  "preserves keeps_db (publish_review en cx v rc m body findings dry self_login)"
  "preserves keeps_db (dismiss_own_rejection en node_id dry)"
  "preserves keeps_db (resolve_thread en node_id dry)"
  "preserves keeps_db (reply_to_thread en cx rc pr cid body dry)"
  "preserves keeps_db (clear_needs_work en rc pr dry)"
  "preserves keeps_db (post_note en rc m body detail dry)"
  "preserves keeps_db (settle_issue en cx rc i say add_label assignee clears dry)"
  unfolding publish_review_def diff_lines_def post_body_def post_inline_def set_label_def Let_def
    dismiss_own_rejection_def resolve_thread_def reply_to_thread_def clear_needs_work_def
    post_note_def settle_issue_def
  by (intro safe_intros)+

lemma publish_evolves [safe_intros]:
  "preserves db_evolves (publish_review en cx v rc m body findings dry self_login)"
  "preserves db_evolves (dismiss_own_rejection en node_id dry)"
  "preserves db_evolves (resolve_thread en node_id dry)"
  "preserves db_evolves (reply_to_thread en cx rc pr cid body dry)"
  "preserves db_evolves (clear_needs_work en rc pr dry)"
  "preserves db_evolves (post_note en rc m body detail dry)"
  "preserves db_evolves (settle_issue en cx rc i say add_label assignee clears dry)"
  unfolding publish_review_def diff_lines_def post_body_def post_inline_def set_label_def Let_def
    dismiss_own_rejection_def resolve_thread_def reply_to_thread_def clear_needs_work_def
    post_note_def settle_issue_def
  by (intro safe_intros)+

lemma notes_keep [safe_intros]:
  "preserves keeps_db (post_ci_note en cx rc m checks dry)"
  "preserves keeps_db (report_red_build en cx rc m checks dry)"
  "preserves keeps_db (post_approval en cx rc m dry)"
  "preserves keeps_db (request_ci en rc m dry)"
  "preserves keeps_db (point_to_fix en cx rc i prs clears dry)"
  unfolding post_ci_note_def report_red_build_def post_approval_def request_ci_def point_to_fix_def
  by (rule publish_keeps)+

lemma notes_evolve [safe_intros]:
  "preserves db_evolves (post_ci_note en cx rc m checks dry)"
  "preserves db_evolves (report_red_build en cx rc m checks dry)"
  "preserves db_evolves (post_approval en cx rc m dry)"
  "preserves db_evolves (request_ci en rc m dry)"
  "preserves db_evolves (point_to_fix en cx rc i prs clears dry)"
  unfolding post_ci_note_def report_red_build_def post_approval_def request_ci_def point_to_fix_def
  by (rule publish_evolves)+

lemma notice_evolves [safe_intros]: "preserves db_evolves (once_key en key)"
  by (rule evolves_updates) (rule db_step.notice)

lemma once_per_evolves [safe_intros]:
  "preserves db_evolves post \<Longrightarrow> preserves db_evolves (once_per en key post q)"
  unfolding once_per_def by (intro safe_intros)

text \<open>A post that never reports success records nothing.\<close>

definition unposted :: "publish_result eff \<Rightarrow> bool" where
  "unposted post \<longleftrightarrow> (\<forall>w r. fst (post w) = Inr r \<longrightarrow> \<not> pb_posted r)"

lemma once_per_keeps:
  assumes "preserves keeps_db post" "unposted post"
  shows "preserves keeps_db (once_per en key post q)"
proof -
  have "keeps_db w (snd (once_per en key post q w))" for w
  proof (cases "post w")
    case (Pair r w')
    with assms(1) have k: "keeps_db w w'" by (auto simp: preserves_def dest: spec [of _ w])
    show ?thesis
    proof (cases r)
      case (Inl e)
      with Pair k show ?thesis by (simp add: once_per_def bindM_def gets_def ret_def keeps_db_def)
    next
      case (Inr p)
      with Pair assms(2) have "\<not> pb_posted p" by (auto simp: unposted_def dest: spec [of _ w])
      with Pair Inr k show ?thesis
        by (simp add: once_per_def bindM_def gets_def ret_def keeps_db_def whenM_def)
    qed
  qed
  then show ?thesis by (simp add: preserves_def)
qed

lemma unposted_notes [safe_intros]:
  "dry \<Longrightarrow> unposted (post_ci_note en cx rc m checks dry)"
  "dry \<Longrightarrow> unposted (report_red_build en cx rc m checks dry)"
  by (simp_all add: unposted_def post_ci_note_def report_red_build_def post_note_def ret_def result_def)

section \<open>Properties\<close>

lemma once_per_posted:
  assumes "once_per en key p False w = (Inr (Some r), w')" "pb_posted r"
  shows "notice_seen (wd_db w') key"
proof -
  from assms(1) have ns: "\<not> notice_seen (wd_db w) key"
    by (auto simp: once_per_def bindM_def gets_def ret_def split: if_splits)
  obtain x w1 where p: "p w = (x, w1)" by (cases "p w")
  with assms ns have "x = Inr r"
    by (cases x) (auto simp: once_per_def bindM_def gets_def ret_def whenM_def alter_def Let_def
        split: if_splits prod.splits sum.splits)
  with assms p ns have "w' = w1\<lparr>wd_db := snd (notice_once (ck_now (en_clock en (wd_trace w1))) key (wd_db w1))\<rparr>"
    by (auto simp: once_per_def bindM_def gets_def ret_def whenM_def alter_def Let_def)
  then show ?thesis by (simp add: notice_once_def notice_seen_def)
qed

text \<open>
  Something posted under a key goes out at most once: whatever is to be posted next under
  the same key is not attempted and nothing changes. A post that failed is not recorded by
  the key, so the next pass attempts it again.
\<close>

theorem once_per_at_most_once:
  assumes "once_per en key p False w = (r, w')"
  shows "(case r of
            Inr (Some x) \<Rightarrow> if pb_posted x then once_per en key q False w' = (Inr None, w') else wd_db w' = wd_db (snd (p w))
          | Inr None \<Rightarrow> notice_seen (wd_db w) key \<and> w' = w
          | Inl e \<Rightarrow> p w = (Inl e, w'))"
proof (cases "notice_seen (wd_db w) key")
  case True
  with assms have "r = Inr None" "w' = w"
    by (auto simp: once_per_def bindM_def gets_def ret_def)
  with True show ?thesis by simp
next
  case False
  obtain x w1 where p: "p w = (x, w1)" by (cases "p w")
  show ?thesis
  proof (cases x)
    case (Inl e)
    with assms False p have "r = Inl e" "w' = w1"
      by (auto simp: once_per_def bindM_def gets_def)
    with p Inl show ?thesis by simp
  next
    case (Inr y)
    show ?thesis
    proof (cases "pb_posted y")
      case True
      with assms False p Inr have r: "r = Inr (Some y)"
        by (auto simp: once_per_def bindM_def gets_def ret_def whenM_def alter_def Let_def)
      with assms True have "notice_seen (wd_db w') key" by (auto intro: once_per_posted)
      with r True show ?thesis by (simp add: once_per_def bindM_def gets_def ret_def)
    next
      case np: False
      with assms False p Inr have "r = Inr (Some y)" "w' = w1"
        by (auto simp: once_per_def bindM_def gets_def ret_def whenM_def)
      with p np show ?thesis by simp
    qed
  qed
qed

text \<open>
  An issue is taken out of its queue last: whatever fails and wherever, what was sent is a
  prefix of the comment, the assignees, the added label and the removal of the queue label,
  in that order, and it is all of them if the call returns.
\<close>

theorem settle_issue_label_last:
  "\<exists>k \<le> length (settle_events cx rc i say add_label assignee clears).
     wd_trace (snd (settle_issue en cx rc i say add_label assignee clears False w))
       = wd_trace w @ take k (settle_events cx rc i say add_label assignee clears) \<and>
     (k = length (settle_events cx rc i say add_label assignee clears) \<or>
      (\<exists>e. fst (settle_issue en cx rc i say add_label assignee clears False w) = Inl e))"
proof -
  let ?es = "settle_events cx rc i say add_label assignee clears"
  have s: "snd (settle_issue en cx rc i say add_label assignee clears False w) = snd (performs en ?es w)"
    by (cases "performs en ?es w"; cases "fst (performs en ?es w)") (auto simp: settle_issue_def bindM_def ret_def)
  have f: "fst (performs en ?es w) = Inl e \<Longrightarrow>
      fst (settle_issue en cx rc i say add_label assignee clears False w) = Inl e" for e
    by (cases "performs en ?es w") (auto simp: settle_issue_def bindM_def)
  from performs_prefix [of ?es en w] obtain k where
    "k \<le> length ?es" "wd_trace (snd (performs en ?es w)) = wd_trace w @ take k ?es"
    "k < length ?es \<longrightarrow> (\<exists>e. fst (performs en ?es w) = Inl e)" by blast
  with s f show ?thesis by (metis le_neq_implies_less)
qed

lemma truncate_bytes:
  "truncate_body s = Inr t \<Longrightarrow> length (utf8 t) \<le> MAX_BYTES + 18 \<and> (length (utf8 s) \<le> MAX_BYTES \<longrightarrow> t = s)"
proof -
  have "length (utf8 TRUNCATED) = 18" by (simp add: TRUNCATED_def utf8_cp_def str_eval)
  then show "truncate_body s = Inr t \<Longrightarrow> ?thesis"
    using length_utf8_take [of MAX_BYTES s] by (auto simp: truncate_body_def split: if_splits)
qed

text \<open>
  What fits in a note of its own: at most \<open>MAX_BODY\<close> characters of the model's, which is four bytes
  each, and a footer that says where the finding was reported and who posted it.
\<close>

definition small_note :: "str \<Rightarrow> str \<Rightarrow> bool" where
  "small_note name s \<longleftrightarrow>
     (\<exists>said footer. s = said @ footer @ [NL, NL] @ signature_sub name \<and> length said \<le> 3000 \<and>
        (footer = [] \<or> (\<exists>l. footer = [NL, NL] @ lit ''<sub>reported for line '' @ show_int l @ lit ''</sub>'')))"

lemma small_render: "small_note name (render rep name f snapped)"
  unfolding small_note_def render_def Let_def
  by (rule exI, rule exI, intro conjI, rule refl) (auto simp: MAX_BODY_def split: option.splits)

lemma small_anchored:
  assumes "anchor rep name fs valid m = Inr an" "c \<in> set (an_comments an)" shows "small_note name (cm_body c)"
proof -
  from assms obtain ps where ps: "list_all2 (\<lambda>f p. place rep name valid m f = Inr p) fs ps" "Inline c \<in> set ps"
    by (auto simp: anchor_Inr collect_def inlined_mem)
  from list_all2_mem2 [OF ps] obtain f where "place rep name valid m f = Inr (Inline c)" by blast
  then show ?thesis by (rule place_Inline) (simp add: small_render)
qed

text \<open>What a review of this pull request may send: a read, then one post with its notes, then the label.\<close>

definition review_posts :: "repo_config \<Rightarrow> pr_meta \<Rightarrow> str \<Rightarrow> bool \<Rightarrow> event list \<Rightarrow> bool" where
  "review_posts rc m name as_review es \<longleftrightarrow>
     (\<exists>body cs. length (utf8 body) < 65536 \<and> list_all (\<lambda>c. small_note name (cm_body c)) cs \<and>
        es = (if as_review then [Gh_review (rc_slug rc) (pm_number m) (pm_head_sha m) body cs]
              else Gh_comment (rc_slug rc) (pm_number m) body #
                   map (Gh_inline (rc_slug rc) (pm_number m) (pm_head_sha m)) cs))"

definition review_surface :: "repo_config \<Rightarrow> pr_meta \<Rightarrow> str \<Rightarrow> bool \<Rightarrow> bool \<Rightarrow> event list \<Rightarrow> bool" where
  "review_surface rc m name dry as_review es \<longleftrightarrow>
     (let files = Gh_read (lit ''files'') (rc_slug rc) (pm_number m);
          label = Gh_add_label (rc_slug rc) (pm_number m) (rc_needs_work_label rc) in
      es = [] \<or> es = [files] \<or>
      \<not> dry \<and> (\<exists>posts. review_posts rc m name as_review posts \<and> (es = files # posts \<or> es = files # posts @ [label])))"

lemma post_inline_sent:
  "\<exists>k. wd_trace (snd (post_inline en rc m cs w)) =
     wd_trace w @ map (Gh_inline (rc_slug rc) (pm_number m) (pm_head_sha m)) (take k cs) \<and>
     (\<forall>x. fst (post_inline en rc m cs w) = Inr x \<longrightarrow> length cs \<le> k)"
proof -
  let ?ev = "Gh_inline (rc_slug rc) (pm_number m) (pm_head_sha m)"
  let ?f = "\<lambda>n c. catch_gh (bindM (perform en (?ev c)) (\<lambda>_. ret (n + 1))) (\<lambda>_. ret n)"
  have one: "\<exists>r. ?f n c w = (r, w\<lparr>wd_trace := wd_trace w @ [?ev c]\<rparr>)" for n :: int and c w
    by (auto simp: catch_gh_def catchM_def bindM_def perform_def ret_def raiseM_def split: sum.splits exn.splits)
  have "\<exists>k. wd_trace (snd (foldM ?f n cs w)) = wd_trace w @ map ?ev (take k cs) \<and>
      (\<forall>x. fst (foldM ?f n cs w) = Inr x \<longrightarrow> length cs \<le> k)" for n :: int
  proof (induction cs arbitrary: n w)
    case (Cons c cs n w)
    let ?w = "w\<lparr>wd_trace := wd_trace w @ [?ev c]\<rparr>"
    from one obtain r where r: "?f n c w = (r, ?w)" by blast
    show ?case
    proof (cases r)
      case (Inl e)
      with r show ?thesis by (intro exI [of _ 1]) (simp add: bindM_def)
    next
      case (Inr n')
      from Cons.IH [of n' ?w] obtain k where "wd_trace (snd (foldM ?f n' cs ?w)) = wd_trace ?w @ map ?ev (take k cs)"
        "\<forall>x. fst (foldM ?f n' cs ?w) = Inr x \<longrightarrow> length cs \<le> k" by blast
      with r Inr show ?thesis by (intro exI [of _ "Suc k"]) (simp add: bindM_def)
    qed
  qed (simp add: ret_def)
  then show ?thesis by (simp add: post_inline_def)
qed

lemma post_body_sent:
  assumes "length (utf8 full) < 65536" "list_all (\<lambda>c. small_note name (cm_body c)) cs"
  shows "\<exists>posts. wd_trace (snd (post_body en rc m as_review full cs w)) = wd_trace w @ posts \<and>
    review_posts rc m name as_review posts"
proof (cases as_review)
  case True
  then have "wd_trace (snd (post_body en rc m as_review full cs w)) =
      wd_trace w @ [Gh_review (rc_slug rc) (pm_number m) (pm_head_sha m) full cs]"
    by (simp add: post_body_def bindM_def perform_def ret_def split: sum.splits)
  with True assms show ?thesis by (auto simp: review_posts_def)
next
  case False
  let ?c = "Gh_comment (rc_slug rc) (pm_number m) full"
  let ?w = "w\<lparr>wd_trace := wd_trace w @ [?c]\<rparr>"
  from post_inline_sent [of en rc m cs ?w] obtain k where k: "wd_trace (snd (post_inline en rc m cs ?w)) =
     wd_trace ?w @ map (Gh_inline (rc_slug rc) (pm_number m) (pm_head_sha m)) (take k cs)" by blast
  obtain j where "wd_trace (snd (post_body en rc m as_review full cs w)) =
      wd_trace w @ ?c # map (Gh_inline (rc_slug rc) (pm_number m) (pm_head_sha m)) (take j cs)"
  proof (cases "en_write en (wd_trace w) ?c")
    case (Inl e)
    with False that [of 0] show ?thesis by (simp add: post_body_def bindM_def perform_def)
  next
    case (Inr u)
    with False k that [of k] show ?thesis
      by (cases "post_inline en rc m cs ?w"; cases "fst (post_inline en rc m cs ?w)")
        (simp_all add: post_body_def bindM_def perform_def ret_def)
  qed
  moreover have "list_all (\<lambda>c. small_note name (cm_body c)) (take j cs)"
    using assms(2) by (auto simp: list_all_iff dest: in_set_takeD)
  ultimately show ?thesis using False assms(1) by (auto simp: review_posts_def)
qed

text \<open>
  C24: Publishing a review, however it ends, is one read of the diff of its own pull request; then,
  unless it is a dry run, one post there: a changes-requested review at the commit that was reviewed
  when the verdict needs work and the pull request is somebody else's, else one comment and its
  inline notes at that commit; and then the needs-work label. So it never approves, merges,
  dismisses or takes a label off; whatever the model wrote, the body stays under GitHub's cap of
  65536 bytes, and each inline note is at most 3000 characters of the model's and a fixed footer.
\<close>

theorem publish_review_surface:
  "\<exists>es. wd_trace (snd (publish_review en cx v rc m body findings dry self_login w)) = wd_trace w @ es \<and>
     review_surface rc m (bot cx) dry (v = Needs_work \<and> \<not> is_own_pr self_login m) es"
proof -
  let ?own = "is_own_pr self_login m"
  let ?as = "v = Needs_work \<and> \<not> ?own"
  let ?files = "Gh_read (lit ''files'') (rc_slug rc) (pm_number m)"
  let ?label = "Gh_add_label (rc_slug rc) (pm_number m) (rc_needs_work_label rc)"
  let ?w = "w\<lparr>wd_trace := wd_trace w @ [?files]\<rparr>"
  let ?body = "if ?own \<and> v = Needs_work then own_pr_body body else body"
  let ?mark = "lit ''<!-- robbie-review sha='' @ pm_head_sha m @ lit '' -->''"
  have full: "length (utf8 full) < 65536" if "assemble name mk label b an = Inr full" for name mk label b an full
  proof -
    from that obtain s where "truncate_body s = Inr full" by (auto simp: assemble_def)
    from truncate_bytes [OF this] show ?thesis by (simp add: MAX_BYTES_def)
  qed
  let ?m = "publish_review en cx v rc m body findings dry self_login"
  have surface: ?thesis if "wd_trace (snd (?m w)) = wd_trace w @ es"
      "es = [] \<or> es = [?files] \<or> \<not> dry \<and> review_posts rc m (bot cx) ?as posts \<and> (es = ?files # posts \<or> es = ?files # posts @ [?label])"
    for es posts using that by (auto simp: review_surface_def Let_def)
  show ?thesis
  proof (cases "v = Ok_verdict \<or> strip body = []")
    case True
    then show ?thesis by (intro surface [of "[]"]) (auto simp: publish_review_def raiseM_def ret_def)
  next
    case False
    obtain r where d: "diff_lines en (rc_slug rc) (pm_number m) w = (r, ?w)"
      by (cases "en_files en (wd_trace w) (rc_slug rc) (pm_number m)") (simp_all add: diff_lines_def bindM_def ask_def ret_def)
    let ?rest = "\<lambda>valid. bindM (liftE (anchor (en_rep en) (bot cx) findings valid (rc_inline_min_severity rc))) (\<lambda>an.
        bindM (liftE (assemble (bot cx) ?mark (rc_needs_work_label rc) ?body an)) (\<lambda>full.
          if dry then ret ((result False (lit ''dry run''))\<lparr>pb_inline := int (length (an_comments an))\<rparr>)
          else
            bindM (post_body en rc m ?as full (an_comments an)) (\<lambda>up.
            bindM (set_label en rc (pm_number m) True) (\<lambda>_.
              ret \<lparr>pb_posted = True, pb_detail = published_detail en rc ?as an (snd up),
                   pb_inline = snd up, pb_url = (if fst up = [] then None else Some (fst up))\<rparr>))))"
    have m: "?m w = (case r of Inl e \<Rightarrow> (Inl e, ?w) | Inr valid \<Rightarrow> ?rest valid ?w)"
    proof -
      have "?m = bindM (diff_lines en (rc_slug rc) (pm_number m)) ?rest"
        using False by (simp only: publish_review_def Let_def de_Morgan_disj if_False simp_thms)
      with d show ?thesis by (simp only: bindM_def [of "diff_lines en (rc_slug rc) (pm_number m)"] prod.case)
    qed
    show ?thesis
    proof (cases "\<exists>valid an full. r = Inr valid \<and> anchor (en_rep en) (bot cx) findings valid (rc_inline_min_severity rc) = Inr an \<and>
        assemble (bot cx) ?mark (rc_needs_work_label rc) ?body an = Inr full \<and> \<not> dry")
      case False
      then show ?thesis
        by (intro surface [of "[?files]"]) (auto simp: m bindM_def liftE_def ret_def split: sum.splits)
    next
      case True
      then obtain valid an full where a: "r = Inr valid" "\<not> dry"
        "anchor (en_rep en) (bot cx) findings valid (rc_inline_min_severity rc) = Inr an"
        "assemble (bot cx) ?mark (rc_needs_work_label rc) ?body an = Inr full" by blast
      from small_anchored [OF a(3)] have short: "list_all (\<lambda>c. small_note (bot cx) (cm_body c)) (an_comments an)"
        by (simp add: list_all_iff)
      from post_body_sent [OF full [OF a(4)] short, of en rc m ?as ?w] obtain posts where
        p: "wd_trace (snd (post_body en rc m ?as full (an_comments an) ?w)) = wd_trace ?w @ posts"
        "review_posts rc m (bot cx) ?as posts" by blast
      obtain up w2 where u: "post_body en rc m ?as full (an_comments an) ?w = (up, w2)"
        by (cases "post_body en rc m ?as full (an_comments an) ?w")
      have "wd_trace (snd (?m w)) = wd_trace w2 \<or> wd_trace (snd (?m w)) = wd_trace w2 @ [?label]"
        using m a u by (cases up) (auto simp: bindM_def liftE_def set_label_def perform_def ret_def split: sum.splits)
      with p u a(2) show ?thesis
        by (elim disjE) (intro surface [of "?files # posts" posts] surface [of "?files # posts @ [?label]" posts]; simp)+
    qed
  qed
qed

text \<open>A clock that stands still and an outside that accepts everything.\<close>

definition sample_env_of :: "(trace \<Rightarrow> event \<Rightarrow> str res) \<Rightarrow> env" where
  "sample_env_of wr =
     \<lparr>en_write = wr, en_taken = (\<lambda>tr ev. True), en_run = (\<lambda>tr ev. Timed_out),
      en_elapsed = (\<lambda>tr. 0), en_clock = (\<lambda>tr. sample_clock), en_meta = (\<lambda>tr r n. Inr sample_meta),
      en_request = (\<lambda>tr r n. Inr (lit ''t'')),
      en_threads = (\<lambda>tr r n. Inr \<lparr>pt_state = lit ''OPEN'', pt_threads = []\<rparr>),
      en_queue = (\<lambda>tr r. Inr []), en_authored = (\<lambda>tr r. Inr []), en_labels = (\<lambda>tr r n. Inr []),
      en_files = (\<lambda>tr r n. Inr []), en_rejection = (\<lambda>tr r n. Inr None), en_vetoed = (\<lambda>tr r. Inr []),
      en_heads = (\<lambda>tr r. Inr []), en_whoami = (\<lambda>tr. Inr (lit ''bot'')),
      en_asked = (\<lambda>tr r n p h. Inr False), en_issues = (\<lambda>tr r ls. Inr []),
      en_issue = (\<lambda>tr r n. Inl (GhError [])), en_fixing = (\<lambda>tr r n. Inr []),
      en_branch_pr = (\<lambda>tr r n. Inr []), en_users = None, en_is_dir = (\<lambda>d. False),
      en_sha256 = (\<lambda>bs. []), en_loads = (\<lambda>s. Inl ValueError), en_rep = (\<lambda>j. []),
      en_word = (\<lambda>c. False), en_show_exn = (\<lambda>e. [])\<rparr>"

definition sample_env_ok :: env where
  "sample_env_ok = sample_env_of (\<lambda>tr ev. Inr (lit ''url''))"

definition sample_ctx :: ctx where
  "sample_ctx =
     \<lparr>cx_cfg = sample_config, cx_secrets = sample_secrets, cx_dry = False, cx_no_publish = False,
      cx_model = None\<rparr>"

definition empty_world :: world where
  "empty_world =
     \<lparr>wd_db = empty_db, wd_trace = [], wd_inflight = 0, wd_threads = [], wd_login = None,
      wd_ci = []\<rparr>"

theorem once_per_at_most_once_witness:
  "once_per sample_env_ok (lit ''k'') (request_ci sample_env_ok sample_repo sample_meta False) False
     (snd (once_per sample_env_ok (lit ''k'') (request_ci sample_env_ok sample_repo sample_meta False) False
             empty_world))
   = (Inr None,
      snd (once_per sample_env_ok (lit ''k'') (request_ci sample_env_ok sample_repo sample_meta False) False
             empty_world))"
proof -
  let ?p = "request_ci sample_env_ok sample_repo sample_meta False"
  have p: "?p w = (Inr (result True (lit ''asked CI to run ('' @ rc_ci_phrase sample_repo @ lit '')'')),
      w\<lparr>wd_trace := wd_trace w @ [Gh_comment (rc_slug sample_repo) 7 (rc_ci_phrase sample_repo)]\<rparr>)" for w
    by (simp add: request_ci_def post_note_def bindM_def perform_def ret_def sample_env_ok_def
        sample_env_of_def sample_meta_def)
  obtain w' where w': "once_per sample_env_ok (lit ''k'') ?p False empty_world
      = (Inr (Some (result True (lit ''asked CI to run ('' @ rc_ci_phrase sample_repo @ lit '')''))), w')"
    by (simp add: once_per_def bindM_def gets_def p ret_def whenM_def alter_def Let_def empty_world_def
        notice_seen_def empty_db_def result_def)
  from once_per_at_most_once [OF w', of ?p] w' show ?thesis by (simp add: result_def)
qed

end
