(* ===== verification/Capacity.thy ===== *)
theory Capacity
  imports Prompts
begin

text \<open>
  What the phases of a tick share with the orchestrator (\<open>src/robbie/orchestrator.py\<close>,
  \<open>outcome.py\<close>): the outcome of one pull request's turn, the spend gate as it is asked, the
  operator's once-only messages, and a slot around one container. \<open>Slots\<close> has the slot
  under every interleaving; here it is the part one task runs through.
\<close>

datatype oc_action =
  Oc_review | Oc_skip | Oc_hold | Oc_ci_note | Oc_threads | Oc_failed | Oc_budget | Oc_ready | Oc_retract

record outcome =
  oc_repo :: str
  oc_pr :: int
  oc_action :: oc_action
  oc_detail :: str

definition outcome :: "str \<Rightarrow> int \<Rightarrow> oc_action \<Rightarrow> str \<Rightarrow> outcome" where
  "outcome repo pr a detail = \<lparr>oc_repo = repo, oc_pr = pr, oc_action = a, oc_detail = detail\<rparr>"

record slot =
  st_ok :: bool
  st_detail :: str
  st_choice :: choice

section \<open>The gate\<close>

text \<open>\<open>_meter\<close>\<close>

definition meter_of :: "env \<Rightarrow> ctx \<Rightarrow> bool \<Rightarrow> world \<Rightarrow> budget_verdict res" where
  "meter_of en cx via_endpoint w =
     budget_check (en_clock en (wd_trace w)) (cx_cfg cx) (wd_db w) (wd_inflight w) via_endpoint"

definition meter_check :: "env \<Rightarrow> ctx \<Rightarrow> bool \<Rightarrow> budget_verdict eff" where
  "meter_check en cx via_endpoint = (\<lambda>w. (meter_of en cx via_endpoint w, w))"

definition admit_key :: "env \<Rightarrow> ctx \<Rightarrow> str option \<Rightarrow> (choice \<times> budget_verdict) eff" where
  "admit_key en cx key =
     (\<lambda>w. (case key of
             Some k \<Rightarrow> admit (en_sha256 en) (cx_cfg cx) (cx_model cx) (\<lambda>via. meter_of en cx via w) k
           | None \<Rightarrow> bindE (meter_of en cx False w) (\<lambda>v. Inr (default_choice, v)), w))"

section \<open>Once-only messages\<close>

definition dm_owner_once :: "env \<Rightarrow> ctx \<Rightarrow> str \<Rightarrow> str \<Rightarrow> unit eff" where
  "dm_owner_once en cx key s =
     (if quiet cx then
        bindM (gets (\<lambda>d. notice_seen d key)) (\<lambda>seen.
          whenM (\<not> seen) (bindM (dm_owner en cx s) (\<lambda>_. ret ())))
      else
        bindM (once_key en key) (\<lambda>fresh.
          whenM fresh (bindM (dm_owner en cx s) (\<lambda>_. ret ()))))"

definition tell_owner :: "env \<Rightarrow> ctx \<Rightarrow> budget_verdict \<Rightarrow> unit eff" where
  "tell_owner en cx v =
     (case bv_notice v of
        None \<Rightarrow> ret ()
      | Some key \<Rightarrow>
          if \<not> bv_allowed v then
            dm_owner_once en cx key
              (lit ''Holding off on reviews '' @ [8212] @ lit '' '' @ bv_detail v
       @ lit ''. I'll start again on my own.'')
          else if contains key UNREADABLE then
            dm_owner_once en cx key (lit ''I can't read the spend budget: '' @ bv_detail v)
          else ret ())"

section \<open>A slot\<close>

definition inflight :: "(nat \<Rightarrow> nat) \<Rightarrow> unit eff" where
  "inflight f = (\<lambda>w. (Inr (), w\<lparr>wd_inflight := f (wd_inflight w)\<rparr>))"

definition finallyM :: "'a eff \<Rightarrow> unit eff \<Rightarrow> 'a eff" where
  "finallyM m c = (\<lambda>w. case m w of (r, w') \<Rightarrow> (r, snd (c w')))"

definition with_slot :: "env \<Rightarrow> ctx \<Rightarrow> str option \<Rightarrow> (slot \<Rightarrow> 'a eff) \<Rightarrow> 'a eff" where
  "with_slot en cx key use =
     bindM (admit_key en cx key) (\<lambda>cv.
     bindM (whenM (bv_allowed (snd cv)) (inflight Suc)) (\<lambda>_.
     bindM (tell_owner en cx (snd cv)) (\<lambda>_.
       if \<not> bv_allowed (snd cv)
       then use \<lparr>st_ok = False, st_detail = bv_detail (snd cv), st_choice = default_choice\<rparr>
       else finallyM (use \<lparr>st_ok = True, st_detail = bv_detail (snd cv), st_choice = fst cv\<rparr>)
              (inflight (\<lambda>n. n - 1)))))"

section \<open>Closure\<close>

context effect_relation begin

lemma ending: "preserves R m \<Longrightarrow> preserves R c \<Longrightarrow> preserves R (finallyM m c)"
proof -
  assume m: "preserves R m" and c: "preserves R c"
  have "R w (snd (finallyM m c w))" for w
  proof (cases "m w")
    case (Pair r w')
    with m c have "R w w'" "R w' (snd (c w'))" by (auto simp: preserves_def dest: spec [of _ w])
    then show ?thesis using Pair trans by (auto simp: finallyM_def)
  qed
  then show ?thesis by (simp add: preserves_def)
qed

end

lemma preserves_inflight [safe_intros]:
  "preserves (adds P) (inflight f)" "preserves keeps_db (inflight f)"
  by (simp_all add: preserves_def adds_def keeps_db_def inflight_def)

lemma finally_adds [safe_intros]:
  assumes "preserves (adds P) m" "preserves (adds P) c"
  shows "preserves (adds P) (finallyM m c)"
proof -
  have "adds P w (snd (finallyM m c w))" for w
  proof (cases "m w")
    case (Pair r w')
    with assms have "adds P w w'" "adds P w' (snd (c w'))"
      by (auto simp: preserves_def dest: spec [of _ w])
    then show ?thesis using Pair adds.trans [of P w w' "snd (c w')"] by (simp add: finallyM_def)
  qed
  then show ?thesis by (simp add: preserves_def)
qed

lemma preserves_meter [safe_intros]:
  "preserves (adds P) (meter_check en cx via)" "preserves keeps_db (meter_check en cx via)"
  "preserves db_evolves (meter_check en cx via)"
  "preserves (adds P) (admit_key en cx key)" "preserves keeps_db (admit_key en cx key)"
  "preserves db_evolves (admit_key en cx key)"
  by (simp_all add: preserves_def adds_def keeps_db_def db_evolves_def meter_check_def admit_key_def)

lemma dm_owner_once_safe [safe_intros]:
  "behaves cx (dm_owner_once en cx key s)" "preserves db_evolves (dm_owner_once en cx key s)"
  unfolding dm_owner_once_def by (intro safe_intros)+

lemma dm_owner_once_keeps [safe_intros]: "quiet cx \<Longrightarrow> preserves keeps_db (dm_owner_once en cx key s)"
  unfolding dm_owner_once_def by (simp, intro safe_intros)

lemma tell_owner_safe [safe_intros]:
  "behaves cx (tell_owner en cx v)" "preserves db_evolves (tell_owner en cx v)"
  unfolding tell_owner_def by (intro safe_intros)+

lemma with_slot_behaves [safe_intros]:
  "(\<And>s. behaves cx (use s)) \<Longrightarrow> behaves cx (with_slot en cx key use)"
  unfolding with_slot_def by (intro safe_intros)

text \<open>Telling the owner never raises, so a reserved slot is always given back.\<close>

definition returns :: "'a eff \<Rightarrow> bool" where
  "returns m \<longleftrightarrow> (\<forall>w. \<exists>x. fst (m w) = Inr x)"

lemma returns_bind: "returns m \<Longrightarrow> (\<And>x. returns (f x)) \<Longrightarrow> returns (bindM m f)"
proof -
  assume m: "returns m" and f: "\<And>x. returns (f x)"
  have "\<exists>y. fst (bindM m f w) = Inr y" for w
  proof -
    from m obtain x where "fst (m w) = Inr x" by (auto simp: returns_def)
    then have "bindM m f w = f x (snd (m w))" by (cases "m w") (simp add: bindM_def)
    with f show ?thesis by (simp add: returns_def)
  qed
  then show ?thesis by (simp add: returns_def)
qed

lemma returns_prims:
  "returns (ret x)" "returns (tell en ev)" "returns (gets g)" "returns (alter en h)"
  by (simp_all add: returns_def ret_def tell_def gets_def alter_def Let_def)

lemma returns_if: "(b \<Longrightarrow> returns m) \<Longrightarrow> (\<not> b \<Longrightarrow> returns m') \<Longrightarrow> returns (if b then m else m')"
  by simp

lemma dm_owner_returns: "returns (dm_owner en cx s)"
  unfolding dm_owner_def relay_def jane_notify_def slack_post_def Let_def
  by (intro returns_bind returns_prims returns_if)

lemma tell_owner_returns: "returns (tell_owner en cx v)"
proof (cases "bv_notice v")
  case (Some key)
  have "returns (dm_owner_once en cx key s)" for s
    unfolding dm_owner_once_def whenM_def
    by (intro returns_bind returns_prims returns_if dm_owner_returns)
  with Some show ?thesis unfolding tell_owner_def by (auto intro: returns_if returns_prims)
qed (simp add: tell_owner_def returns_prims)

lemma with_slot_evolves [safe_intros]:
  assumes use: "\<And>s. preserves db_evolves (use s)"
  shows "preserves db_evolves (with_slot en cx key use)"
proof -
  let ?give_back = "inflight (\<lambda>n. n - 1)"
  have slot: "preserves db_evolves
      (bindM (inflight Suc) (\<lambda>_. bindM (tell_owner en cx v) (\<lambda>_. finallyM (use s) ?give_back)))" for v s
  proof -
    have "db_evolves w (snd (bindM (inflight Suc) (\<lambda>_. bindM (tell_owner en cx v)
        (\<lambda>_. finallyM (use s) ?give_back)) w))" for w
    proof -
      let ?w1 = "w\<lparr>wd_inflight := Suc (wd_inflight w)\<rparr>"
      obtain w2 where t: "tell_owner en cx v ?w1 = (Inr (), w2)"
        using tell_owner_returns [of en cx v] by (auto simp: returns_def) (metis prod.collapse)
      have "db_evolves ?w1 w2"
        using tell_owner_safe(2) [of en cx v] t by (auto simp: preserves_def dest: spec [of _ ?w1])
      moreover have "db_evolves w2 (snd (use s w2))" using use by (simp add: preserves_def)
      ultimately have e: "db_evolves ?w1 (snd (use s w2))" by (rule evolves.trans)
      have "snd (bindM (inflight Suc) (\<lambda>_. bindM (tell_owner en cx v)
          (\<lambda>_. finallyM (use s) ?give_back)) w) = snd (?give_back (snd (use s w2)))"
        using t by (cases "use s w2") (simp add: bindM_def inflight_def finallyM_def)
      with e show ?thesis by (simp add: db_evolves_def inflight_def)
    qed
    then show ?thesis by (simp add: preserves_def)
  qed
  have refused: "preserves db_evolves (bindM (ret ()) (\<lambda>_. bindM (tell_owner en cx v) (\<lambda>_. use s)))" for v s
    by (intro safe_intros use)
  have body: "preserves db_evolves
      (bindM (whenM (bv_allowed v) (inflight Suc)) (\<lambda>_. bindM (tell_owner en cx v) (\<lambda>_.
         if \<not> bv_allowed v then use s else finallyM (use s') ?give_back)))" for v s s'
    using slot refused by (cases "bv_allowed v") (simp_all add: whenM_def)
  show ?thesis
    unfolding with_slot_def by (rule evolves.bind, rule preserves_meter(6), rule body)
qed

end
