(* ===== verification/Sweeper.thy ===== *)
theory Sweeper
  imports Capacity
begin

text \<open>
  The reply sweep (\<open>src/robbie/threads.py\<close>): which threads of ours somebody answered, one
  container per pull request to judge the replies, and what is done about each thread. The
  tasks of a sweep run one after another here; they share only the rate-limit breaker and
  the database. The properties say that a verdict touches nothing but a thread that was
  offered, never replies where nobody would read it, and leaves no thread to be paid for
  again.
\<close>

definition SWEEP_DAYS :: int where "SWEEP_DAYS = 30"

definition sweep_from :: "int \<Rightarrow> int" where
  "sweep_from now_ms = now_ms - SWEEP_DAYS * 86400000"

definition merged_key :: "str \<Rightarrow> int \<Rightarrow> str" where
  "merged_key slug pr = (lit ''merged:'' @ slug @ lit '':'' @ show_int pr)"

definition thread_state :: "str \<Rightarrow> int \<Rightarrow> thread \<Rightarrow> str" where
  "thread_state slug pr t =
     (lit ''thread:'' @ slug @ lit '':'' @ show_int pr @ lit '':'' @ show_int (th_comment_id t)
       @ lit '':'' @ show_nat (length (th_replies t)))"

text \<open>\<open>f"{x}"\<close> of an optional string.\<close>

definition opt_show :: "str option \<Rightarrow> str" where
  "opt_show x = (case x of None \<Rightarrow> lit ''None'' | Some s \<Rightarrow> s)"

definition or_unknown :: "str option \<Rightarrow> str" where
  "or_unknown x = (if blank_opt x then lit ''unknown'' else opt_str x)"

section \<open>One thread\<close>

text \<open>\<open>_settled\<close>\<close>

definition settle_thread :: "env \<Rightarrow> ctx \<Rightarrow> repo_config \<Rightarrow> int \<Rightarrow> thread \<Rightarrow> unit eff" where
  "settle_thread en cx rc pr t =
     whenM (\<not> cx_no_publish cx)
       (bindM (once_key en (thread_state (rc_slug rc) pr t)) (\<lambda>_. ret ()))"

type_synonym tally = "(str, nat) dict"

definition no_tally :: tally where
  "no_tally =
     map (\<lambda>k. (lit k, 0)) [''resolve'', ''reply'', ''leave'', ''unanswered'', ''failed'']"

definition bump :: "str \<Rightarrow> tally \<Rightarrow> tally" where
  "bump k d = dset k (dget_or d k 0 + 1) d"

fun action_name :: "thread_action \<Rightarrow> str" where
  "action_name Resolve = lit ''resolve''"
| "action_name Reply = lit ''reply''"
| "action_name Leave = lit ''leave''"

definition chosen_action :: "thread_verdict \<Rightarrow> thread \<Rightarrow> thread_action" where
  "chosen_action v t = (if tv_action v = Reply \<and> th_outdated t then Leave else tv_action v)"

definition act_on_thread ::
  "env \<Rightarrow> ctx \<Rightarrow> repo_config \<Rightarrow> int \<Rightarrow> int \<times> thread \<Rightarrow> thread_verdict \<Rightarrow> unit eff" where
  "act_on_thread en cx rc pr ct v =
     (case chosen_action v (snd ct) of
        Resolve \<Rightarrow>
          bindM (resolve_thread en (th_node_id (snd ct)) (cx_no_publish cx)) (\<lambda>_. ret ())
      | Reply \<Rightarrow>
          bindM (reply_to_thread en cx rc pr (fst ct) (tv_body v) (cx_no_publish cx)) (\<lambda>_. ret ())
      | Leave \<Rightarrow> settle_thread en cx rc pr (snd ct))"

definition answer_one ::
  "env \<Rightarrow> ctx \<Rightarrow> repo_config \<Rightarrow> int \<Rightarrow> (int, thread_verdict) dict \<Rightarrow> tally \<Rightarrow> int \<times> thread \<Rightarrow> tally eff"
  where
  "answer_one en cx rc pr verdicts done ct =
     (case dget verdicts (fst ct) of
        None \<Rightarrow> bindM (settle_thread en cx rc pr (snd ct)) (\<lambda>_. ret (bump (lit ''unanswered'') done))
      | Some v \<Rightarrow>
          catch_gh
            (bindM (act_on_thread en cx rc pr ct v)
               (\<lambda>_. ret (bump (action_name (chosen_action v (snd ct))) done)))
            (\<lambda>_. bindM (settle_thread en cx rc pr (snd ct)) (\<lambda>_. ret (bump (lit ''failed'') done))))"

section \<open>One pull request\<close>

text \<open>The two dictionaries keyed by comment id; a later entry replaces an earlier one.\<close>

definition by_id :: "('a \<Rightarrow> int) \<Rightarrow> 'a list \<Rightarrow> (int, 'a) dict" where
  "by_id f xs = foldl (\<lambda>d x. dset (f x) x d) [] xs"

definition tally_text :: "tally \<Rightarrow> str" where
  "tally_text d =
     join (lit '', '') (map (\<lambda>kn. show_nat (snd kn) @ lit '' '' @ fst kn) (filter (\<lambda>kn. snd kn \<noteq> 0) d))"

text \<open>The end of \<open>_answer\<close>: the operator hears of replies, the outcome counts the rest.\<close>

definition sweep_report ::
  "env \<Rightarrow> ctx \<Rightarrow> repo_config \<Rightarrow> int \<Rightarrow> pr_meta \<Rightarrow> tally \<Rightarrow> outcome eff" where
  "sweep_report en cx rc pr m done =
     bindM (whenM (dget_or done (lit ''reply'') 0 \<noteq> 0)
       (bindM (dm_owner en cx
          (lit ''I answered '' @ show_nat (dget_or done (lit ''reply'') 0)
       @ lit '' of my review threads on *'' @ pm_title m @ lit ''* ('' @ pm_url m @ lit '') and closed ''
       @ show_nat (dget_or done (lit ''resolve'') 0) @ lit ''. The ball is back with '' @ pm_author m
       @ lit ''.''))
         (\<lambda>_. ret ()))) (\<lambda>_.
       ret (outcome (rc_slug rc) pr Oc_threads
         (if tally_text done = [] then lit ''nothing to do'' else tally_text done)))"

text \<open>What is done with the answer of the run.\<close>

definition deliver_answers ::
  "env \<Rightarrow> ctx \<Rightarrow> repo_config \<Rightarrow> int \<Rightarrow> pr_meta \<Rightarrow> str \<Rightarrow> thread list \<Rightarrow> outcome eff" where
  "deliver_answers en cx rc pr m answer_text pending =
     bindM (foldM (answer_one en cx rc pr (by_id tv_comment_id (parse_thread_verdicts answer_text)))
              no_tally (by_id th_comment_id pending)) 
       (sweep_report en cx rc pr m)"

definition answer_replies ::
  "env \<Rightarrow> ctx \<Rightarrow> repo_config \<Rightarrow> int \<Rightarrow> thread list \<Rightarrow> outcome eff" where
  "answer_replies en cx rc pr pending =
     bindM (ask ''meta'' (rc_slug rc) pr (\<lambda>tr. en_meta en tr (rc_slug rc) pr)) (\<lambda>m.
       if pm_state m \<noteq> lit ''OPEN'' then
         bindM (whenM (pm_state m = lit ''MERGED'' \<and> \<not> cx_dry cx)
                  (bindM (once_key en (merged_key (rc_slug rc) pr)) (\<lambda>_. ret ()))) (\<lambda>_.
           ret (outcome (rc_slug rc) pr Oc_skip (lit ''pr is '' @ lower (pm_state m))))
       else if cx_dry cx then ret (outcome (rc_slug rc) pr Oc_threads (lit ''dry run''))
       else
         bindM (with_slot en cx None (\<lambda>s.
             if \<not> st_ok s then ret (Inl (st_detail s))
             else bindM (run_review en cx rc (On_pr m)
                    (thread_preamble (bot cx) (pm_author m) (pm_url m) pending) THREADS None False)
                    (\<lambda>r. ret (Inr r)))) (\<lambda>came.
         case came of
           Inl detail \<Rightarrow> ret (outcome (rc_slug rc) pr Oc_budget detail)
         | Inr r \<Rightarrow>
             bindM (stamp en (\<lambda>now_ms. record_spend now_ms (rc_slug rc) pr (lit ''threads'') (rn_cost r)
                      (Some (rn_duration r)))) (\<lambda>_.
             if \<not> rn_ok r then
               bindM (dm_owner en cx
                 (lit ''I couldn't work through the replies on *'' @ pm_title m @ lit ''* ('' @ pm_url m
       @ lit ''): '' @ opt_show (rn_error r)))
                 (\<lambda>_. ret (outcome (rc_slug rc) pr Oc_failed (or_unknown (rn_error r))))
             else deliver_answers en cx rc pr m (rn_text r) pending)))"

definition pending_of :: "db \<Rightarrow> repo_config \<Rightarrow> int \<Rightarrow> thread list \<Rightarrow> thread list" where
  "pending_of d rc pr ts =
     filter (\<lambda>t. answered t \<and> \<not> notice_seen d (thread_state (rc_slug rc) pr t)) ts"

text \<open>\<open>_one\<close> inside its \<open>try\<close>; the breaker is passed in and handed on.\<close>

definition sweep_body ::
  "env \<Rightarrow> ctx \<Rightarrow> repo_config \<Rightarrow> int \<Rightarrow> bool \<Rightarrow> outcome option eff" where
  "sweep_body en cx rc pr tripped =
     bindM (gets (\<lambda>d. notice_seen d (merged_key (rc_slug rc) pr))) (\<lambda>seen.
       if seen \<or> tripped then ret None
       else
         bindM (ask ''threads'' (rc_slug rc) pr (\<lambda>tr. en_threads en tr (rc_slug rc) pr)) (\<lambda>got.
           if pt_state got = lit ''MERGED'' then
             bindM (whenM (\<not> cx_dry cx)
                      (bindM (once_key en (merged_key (rc_slug rc) pr)) (\<lambda>_. ret ()))) (\<lambda>_. ret None)
           else
             bindM (gets (\<lambda>d. pending_of d rc pr (pt_threads got))) (\<lambda>pending.
               if pending = [] then ret None
               else bindM (answer_replies en cx rc pr pending) (\<lambda>out. ret (Some out)))))"

definition sweep_one ::
  "env \<Rightarrow> ctx \<Rightarrow> repo_config \<Rightarrow> int \<Rightarrow> bool \<Rightarrow> (bool \<times> outcome option) eff" where
  "sweep_one en cx rc pr tripped =
     catchM (bindM (sweep_body en cx rc pr tripped) (\<lambda>out. ret (tripped, out)))
       (\<lambda>e. case e of
          GhError s \<Rightarrow> ret (tripped \<or> contains (lower s) (lit ''rate limit''), None)
        | _ \<Rightarrow> ret (tripped, Some (outcome (rc_slug rc) pr Oc_failed (en_show_exn en e))))"

section \<open>The sweep\<close>

definition sweep_jobs :: "ctx \<Rightarrow> str option \<Rightarrow> int list \<Rightarrow> int \<Rightarrow> db \<Rightarrow> (repo_config \<times> int) list" where
  "sweep_jobs cx slug only now_ms d =
     concat (map (\<lambda>rc. map (Pair rc)
                (if only \<noteq> [] then only else reviewed_prs d (rc_slug rc) (sweep_from now_ms)))
              (filter (\<lambda>rc. blank_opt slug \<or> rc_slug rc = opt_str slug) (cfg_repos (cx_cfg cx))))"

definition sweep :: "env \<Rightarrow> ctx \<Rightarrow> str option \<Rightarrow> int list \<Rightarrow> outcome list eff" where
  "sweep en cx slug only =
     bindM (now en) (\<lambda>ck.
     bindM (gets (sweep_jobs cx slug only (ck_now ck))) (\<lambda>jobs.
     bindM (foldM (\<lambda>st job. bindM (sweep_one en cx (fst job) (snd job) (fst st))
              (\<lambda>r. ret (fst r, snd st @ [snd r]))) (False, []) jobs) (\<lambda>st.
       ret (List.map_filter id (snd st)))))"

section \<open>Closure\<close>



lemma exn_behaves [safe_intros]:
  "(\<And>s. preserves R (f s)) \<Longrightarrow> (\<And>e. preserves R (g e)) \<Longrightarrow>
   preserves R (case e of GhError s \<Rightarrow> f s | _ \<Rightarrow> g e)"
  by (cases e) simp_all

lemma sum_behaves [safe_intros]:
  "(\<And>a. x = Inl a \<Longrightarrow> preserves R (f a)) \<Longrightarrow> (\<And>b. x = Inr b \<Longrightarrow> preserves R (g b)) \<Longrightarrow>
   preserves R (case x of Inl a \<Rightarrow> f a | Inr b \<Rightarrow> g b)"
  by (cases x) simp_all

lemma action_behaves [safe_intros]:
  "preserves R x \<Longrightarrow> preserves R y \<Longrightarrow> preserves R z \<Longrightarrow>
   preserves R (case a of Resolve \<Rightarrow> x | Reply \<Rightarrow> y | Leave \<Rightarrow> z)"
  by (cases a) simp_all

lemma answer_one_behaves [safe_intros]:
  assumes "\<not> cx_dry cx" shows "behaves cx (answer_one en cx rc pr vs done ct)"
  unfolding answer_one_def act_on_thread_def settle_thread_def
  by (intro safe_intros) (use assms in \<open>auto simp: quiet_def\<close>)

lemma answer_replies_behaves [safe_intros]: "behaves cx (answer_replies en cx rc pr pending)"
  unfolding answer_replies_def deliver_answers_def sweep_report_def by (intro safe_intros) auto

lemma sweep_behaves [safe_intros]: "behaves cx (sweep en cx slug only)"
  unfolding sweep_def sweep_one_def sweep_body_def by (intro safe_intros)

lemma answer_replies_keeps [safe_intros]:
  assumes d: "cx_dry cx" shows "preserves keeps_db (answer_replies en cx rc pr pending)"
  unfolding answer_replies_def by (intro safe_intros) (use d in auto)

lemma sweep_keeps [safe_intros]:
  assumes d: "cx_dry cx" shows "preserves keeps_db (sweep en cx slug only)"
  unfolding sweep_def sweep_one_def sweep_body_def by (intro safe_intros) (use d in auto)

lemma spend_evolves [safe_intros]:
  "preserves db_evolves (stamp en (\<lambda>now_ms. record_spend now_ms repo pr kind cost dur))"
  by (rule evolves_updates) (rule db_step.spend)

lemma sweep_evolves [safe_intros]: "preserves db_evolves (sweep en cx slug only)"
  unfolding sweep_def sweep_one_def sweep_body_def answer_replies_def deliver_answers_def sweep_report_def
    answer_one_def act_on_thread_def settle_thread_def
  by (intro safe_intros)

section \<open>Properties\<close>

lemma by_id_mem: "(k, x) \<in> set (by_id f xs) \<Longrightarrow> x \<in> set xs \<and> f x = k"
proof -
  have "(k, x) \<in> set (foldl (\<lambda>d x. dset (f x) x d) d xs) \<Longrightarrow> (k, x) \<in> set d \<or> x \<in> set xs \<and> f x = k" for d
  proof (induction xs arbitrary: d)
    case (Cons y ys)
    have "(k, x) \<in> set (dset (f y) y d) \<Longrightarrow> (k, x) \<in> set d \<or> x = y \<and> f y = k"
      by (induction d) (auto split: if_splits)
    with Cons show ?case by fastforce
  qed simp
  from this [of "[]"] show "(k, x) \<in> set (by_id f xs) \<Longrightarrow> ?thesis" by (simp add: by_id_def)
qed

text \<open>What a sweep of these threads may write on the pull request.\<close>

fun sweep_write :: "str \<Rightarrow> int \<Rightarrow> thread list \<Rightarrow> event \<Rightarrow> bool" where
  "sweep_write slug pr ts (Gh_resolve i) = (\<exists>t \<in> set ts. th_node_id t = i)"
| "sweep_write slug pr ts (Gh_reply repo n cid body) =
     (repo = slug \<and> n = pr \<and> (\<exists>t \<in> set ts. th_comment_id t = cid \<and> \<not> th_outdated t))"
| "sweep_write slug pr ts ev = (\<not> github_write ev)"

lemma foldM_adds:
  assumes "\<And>s x. x \<in> set xs \<Longrightarrow> preserves (adds P) (f s x)"
  shows "preserves (adds P) (foldM f s xs)"
  using assms
proof (induction xs arbitrary: s)
  case (Cons x xs)
  then show ?case by (auto intro!: adds.bind)
qed (simp add: adds.pure_ret)

lemma sweep_write_message: "is_message ev \<Longrightarrow> sweep_write slug pr ts ev"
  by (cases ev) simp_all

lemma dm_owner_adds: "(\<And>ev. is_message ev \<Longrightarrow> P ev) \<Longrightarrow> preserves (adds P) (dm_owner en cx s)"
  unfolding dm_owner_def relay_def jane_notify_def slack_post_def Let_def
  by (intro safe_intros) simp_all

text \<open>
  C25: Whatever the model answers, a sweep writes to nothing but the threads it was shown: it
  closes only threads that were offered, replies only on this pull request to the comment of
  an offered thread, and never on an outdated one, where nobody would read it.
\<close>

theorem sweep_touches_only_offered:
  "preserves (adds (sweep_write (rc_slug rc) pr pending)) (answer_replies en cx rc pr pending)"
proof -
  let ?P = "sweep_write (rc_slug rc) pr pending"
  have one: "preserves (adds ?P) (answer_one en cx rc pr vs tl ct)"
    if ct: "ct \<in> set (by_id th_comment_id pending)" for vs tl ct
  proof -
    obtain k t where kt: "ct = (k, t)" by (cases ct)
    with ct by_id_mem [of k t th_comment_id pending]
    have t: "t \<in> set pending" "th_comment_id t = k" by simp_all
    have act: "preserves (adds ?P) (act_on_thread en cx rc pr ct v)" for v
    proof (cases "chosen_action v t")
      case Resolve
      have ev: "?P (Gh_resolve (th_node_id t))" using t by auto
      show ?thesis
        unfolding kt act_on_thread_def snd_conv Resolve thread_action.case resolve_thread_def
        by (intro safe_intros ev)
    next
      case Reply
      then have "\<not> th_outdated t" by (auto simp: chosen_action_def split: if_splits)
      with t have ev: "?P (Gh_reply (rc_slug rc) pr k body)" for body by auto
      show ?thesis
        unfolding kt act_on_thread_def snd_conv fst_conv Reply thread_action.case reply_to_thread_def Let_def
        by (intro safe_intros ev)
    next
      case Leave
      show ?thesis
        unfolding kt act_on_thread_def snd_conv Leave thread_action.case settle_thread_def
        by (intro safe_intros)
    qed
    show ?thesis
      unfolding answer_one_def settle_thread_def by (intro safe_intros act)
  qed
  have deliver: "preserves (adds ?P) (deliver_answers en cx rc pr m ans pending)" for m ans
    unfolding deliver_answers_def sweep_report_def
    by (intro adds.bind foldM_adds one preserves_when adds.pure_ret dm_owner_adds sweep_write_message)
  have owner: "preserves (adds ?P) (tell_owner en cx v)" for v
    unfolding tell_owner_def dm_owner_once_def
    by (intro safe_intros dm_owner_adds sweep_write_message)
  show ?thesis
    unfolding answer_replies_def with_slot_def
    by (intro deliver owner safe_intros dm_owner_adds [OF sweep_write_message]) simp_all
qed

text \<open>A thread is dealt with when its state is recorded, or GitHub was asked to act on it.\<close>

definition handled :: "repo_config \<Rightarrow> int \<Rightarrow> world \<Rightarrow> thread \<Rightarrow> bool" where
  "handled rc pr w t \<longleftrightarrow>
     notice_seen (wd_db w) (thread_state (rc_slug rc) pr t) \<or>
     Gh_resolve (th_node_id t) \<in> set (wd_trace w) \<or>
     (\<exists>body. Gh_reply (rc_slug rc) pr (th_comment_id t) body \<in> set (wd_trace w))"

text \<open>Nothing is forgotten: notices stay and the trace only grows.\<close>

definition remembers :: "world \<Rightarrow> world \<Rightarrow> bool" where
  "remembers w w' \<longleftrightarrow>
     set (dkeys (db_notices (wd_db w))) \<subseteq> set (dkeys (db_notices (wd_db w'))) \<and>
     set (wd_trace w) \<subseteq> set (wd_trace w')"

interpretation remembers: effect_relation remembers
proof
  fix u v w
  show "remembers w w" by (simp add: remembers_def)
  show "remembers u v \<Longrightarrow> remembers v w \<Longrightarrow> remembers u w" unfolding remembers_def by blast
qed

lemma remembers_prims:
  "preserves remembers (perform en ev)" "preserves remembers (tell en ev)"
  "preserves remembers (once_key en key)"
  by (auto simp: preserves_def remembers_def perform_def tell_def alter_def notice_once_def Let_def)

lemma handled_mono: "remembers w w' \<Longrightarrow> handled rc pr w t \<Longrightarrow> handled rc pr w' t"
  by (auto simp: remembers_def handled_def notice_seen_def)

lemma answer_one_remembers: "preserves remembers (answer_one en cx rc pr vs done ct)"
  unfolding answer_one_def act_on_thread_def settle_thread_def resolve_thread_def reply_to_thread_def Let_def
  by (intro preserves_cases preserves_when action_behaves remembers.closed remembers_prims)

lemma settle_handles:
  "\<not> cx_no_publish cx \<Longrightarrow>
   handled rc pr (snd (bindM (settle_thread en cx rc pr t) (\<lambda>_. ret x) w)) t"
  by (simp add: settle_thread_def whenM_def bindM_def alter_def ret_def Let_def handled_def
      notice_once_def notice_seen_def)

lemma reply_has_body:
  assumes "thread_verdict_of gs = Some v" "tv_action v = Reply"
  shows "strip (tv_body v) \<noteq> []"
proof (cases "splitlines (strip (gs ! 1))")
  case Nil
  with assms show ?thesis by (simp add: thread_verdict_of_def)
next
  case (Cons l ls)
  with assms show ?thesis
    by (cases "int_of_str (gs ! 0)"; cases "map_of thread_actions (lower (strip l))")
      (auto simp: thread_verdict_of_def Let_def split: if_splits)
qed

lemma valid_reply: "v \<in> set (parse_thread_verdicts s) \<Longrightarrow> tv_action v = Reply \<Longrightarrow> strip (tv_body v) \<noteq> []"
  unfolding parse_thread_verdicts_def map_filter_mem using reply_has_body by blast

lemma bindM_rest: "bindM m f w = (r, w') \<Longrightarrow> m w = (Inr x, w1) \<Longrightarrow> f x w1 = (r, w')"
  by (simp add: bindM_def)

lemma preserves_result: "m w = (r, w') \<Longrightarrow> preserves R m \<Longrightarrow> R w w'"
  by (metis preserves_def snd_conv)

lemma act_handles:
  assumes "\<not> cx_no_publish cx" "th_node_id t \<noteq> []" "th_comment_id t = k"
    and "tv_action v = Reply \<Longrightarrow> strip (tv_body v) \<noteq> []"
  shows "handled rc pr (snd (act_on_thread en cx rc pr (k, t) v w)) t"
proof (cases "chosen_action v t")
  case Resolve
  with assms show ?thesis
    by (simp add: act_on_thread_def resolve_thread_def bindM_def perform_def ret_def handled_def
        split: sum.splits)
next
  case Reply
  then have "tv_action v = Reply" by (auto simp: chosen_action_def split: if_splits)
  with Reply assms show ?thesis
    by (simp add: act_on_thread_def reply_to_thread_def bindM_def perform_def ret_def handled_def Let_def
        split: sum.splits) blast
next
  case Leave
  with settle_handles [OF assms(1), of rc pr en t "()" w] show ?thesis
    by (simp add: act_on_thread_def bindM_def ret_def split: prod.splits sum.splits)
qed

lemma answer_one_handles:
  assumes "\<not> cx_no_publish cx" "th_node_id t \<noteq> []" "th_comment_id t = k"
    and "\<And>v. dget vs k = Some v \<Longrightarrow> tv_action v = Reply \<Longrightarrow> strip (tv_body v) \<noteq> []"
  shows "handled rc pr (snd (answer_one en cx rc pr vs done (k, t) w)) t"
proof (cases "dget vs k")
  case None
  with settle_handles [OF assms(1)] show ?thesis by (simp add: answer_one_def)
next
  case (Some v)
  let ?act = "act_on_thread en cx rc pr (k, t) v"
  let ?m = "bindM ?act (\<lambda>_. ret (bump (action_name (chosen_action v t)) done))"
  have h: "handled rc pr (snd (?act w)) t"
    by (rule act_handles [OF assms(1-3)]) (use assms(4) Some in blast)
  then have h': "handled rc pr (snd (?m w)) t"
    by (cases "?act w"; cases "fst (?act w)") (simp_all add: bindM_def ret_def)
  let ?s = "\<lambda>_ :: str. bindM (settle_thread en cx rc pr t) (\<lambda>_. ret (bump (lit ''failed'') done))"
  have "handled rc pr (snd (catch_gh ?m ?s w)) t"
  proof (cases "?m w")
    case (Pair r w')
    show ?thesis
    proof (cases r)
      case (Inr x)
      with Pair h' show ?thesis by (simp add: catch_gh_def catchM_def)
    next
      case (Inl e)
      with Pair h' settle_handles [OF assms(1), of rc pr en t] show ?thesis
        by (cases e) (simp_all add: catch_gh_def catchM_def raiseM_def)
    qed
  qed
  with Some show ?thesis by (simp add: answer_one_def)
qed

lemma foldM_handles:
  assumes "\<And>s. preserves remembers (f s x)" "\<And>s x. preserves remembers (f s x)"
    and "\<And>s w. handled rc pr (snd (f s x w)) t" "x \<in> set xs" "foldM f s xs w = (Inr s', w')"
  shows "handled rc pr w' t"
  using assms(4,5)
proof (induction xs arbitrary: s w)
  case (Cons y ys)
  from Cons.prems(2) obtain s1 w1 where s1: "f s y w = (Inr s1, w1)" "foldM f s1 ys w1 = (Inr s', w')"
    by (auto simp: bindM_def split: prod.splits sum.splits)
  show ?case
  proof (cases "x = y")
    case True
    with assms(3) [of s w] s1 have "handled rc pr w1 t" by simp
    moreover have "preserves remembers (foldM f s1 ys)" by (intro remembers.fold assms(2))
    ultimately show ?thesis using s1(2) handled_mono by (auto simp: preserves_def dest: spec [of _ w1])
  next
    case False
    with Cons.prems(1) s1(2) Cons.IH show ?thesis by simp
  qed
qed simp

lemma by_id_distinct:
  "distinct (map f xs) \<Longrightarrow> x \<in> set xs \<Longrightarrow> (f x, x) \<in> set (by_id f xs)"
proof -
  have keep: "f y \<notin> f ` set ys \<Longrightarrow> (f y, y) \<in> set d \<Longrightarrow>
      (f y, y) \<in> set (foldl (\<lambda>d x. dset (f x) x d) d ys)" for y ys d
  proof (induction ys arbitrary: d)
    case (Cons z zs)
    have "(f y, y) \<in> set d \<Longrightarrow> f y \<noteq> f z \<Longrightarrow> (f y, y) \<in> set (dset (f z) z d)" for d
      by (induction d) auto
    with Cons show ?case by auto
  qed simp
  have put: "(k, v) \<in> set (dset k v d)" for k v and d :: "('b, 'a) dict" by (induction d) auto
  have "distinct (map f xs) \<Longrightarrow> x \<in> set xs \<Longrightarrow>
      (f x, x) \<in> set (foldl (\<lambda>d x. dset (f x) x d) d xs)" for d
  proof (induction xs arbitrary: d)
    case (Cons y ys)
    show ?case
    proof (cases "x = y")
      case True
      with Cons.prems(1) show ?thesis by (simp add: keep put)
    next
      case False
      with Cons show ?thesis by simp
    qed
  qed simp
  then show "distinct (map f xs) \<Longrightarrow> x \<in> set xs \<Longrightarrow> ?thesis" by (simp add: by_id_def)
qed

text \<open>
  A run that was paid for is not paid for again: when the answers of a publishing sweep
  have been worked through, every thread that was offered is recorded as settled or GitHub
  was asked to close it or reply to it, whatever the model said and whichever calls failed.
\<close>

theorem sweep_handles_every_thread:
  assumes "\<not> cx_no_publish cx" "distinct (map th_comment_id pending)" "t \<in> set pending" "th_node_id t \<noteq> []"
    and "deliver_answers en cx rc pr m answer_text pending w = (Inr out, w')"
  shows "handled rc pr w' t"
proof -
  let ?vs = "by_id tv_comment_id (parse_thread_verdicts answer_text)"
  let ?fold = "foldM (answer_one en cx rc pr ?vs) no_tally (by_id th_comment_id pending)"
  from assms(5) obtain tl w1 where f: "?fold w = (Inr tl, w1)"
    unfolding deliver_answers_def by (auto simp: bindM_def split: prod.splits sum.splits)
  have ok: "tv_action v = Reply \<Longrightarrow> strip (tv_body v) \<noteq> []" if "dget ?vs k = Some v" for k v
    using that valid_reply by_id_mem [of k v] map_of_SomeD by fastforce
  have "handled rc pr w1 t"
    by (rule foldM_handles [OF answer_one_remembers answer_one_remembers
          answer_one_handles [OF assms(1,4) refl ok] by_id_distinct [OF assms(2,3)] f])
  moreover have "preserves remembers (sweep_report en cx rc pr m tl)"
    unfolding sweep_report_def dm_owner_def relay_def jane_notify_def slack_post_def Let_def
    by (intro preserves_cases preserves_when remembers.closed remembers_prims)
  with bindM_rest [OF assms(5) [unfolded deliver_answers_def] f] have "remembers w1 w'"
    by (rule preserves_result)
  ultimately show ?thesis using handled_mono by blast
qed

lemma no_verdicts: "by_id tv_comment_id (parse_thread_verdicts []) = []"
proof -
  have "parse_thread_verdicts [] = []"
    by (simp add: parse_thread_verdicts_def findall_def THREAD_BLOCK_def findall_from.simps bol_def
        List.map_filter_simps str_eval)
  then show ?thesis unfolding by_id_def by simp
qed

theorem sweep_handles_every_thread_witness:
  "handled sample_repo 7
     (snd (deliver_answers sample_env_ok sample_ctx sample_repo 7 sample_meta [] [sample_thread] empty_world))
     sample_thread"
proof -
  have ids: "by_id th_comment_id [sample_thread] = [(th_comment_id sample_thread, sample_thread)]"
    by (simp add: by_id_def)
  obtain w1 where one: "answer_one sample_env_ok sample_ctx sample_repo 7 [] no_tally
      (th_comment_id sample_thread, sample_thread) empty_world
      = (Inr (bump (lit ''unanswered'') no_tally), w1)"
    by (simp add: answer_one_def settle_thread_def whenM_def bindM_def alter_def ret_def Let_def
        sample_ctx_def)
  have quiet_report: "dget_or (bump (lit ''unanswered'') no_tally) (lit ''reply'') 0 = 0"
    by (simp add: no_tally_def bump_def dget_or_def str_eval)
  obtain out where rep: "sweep_report sample_env_ok sample_ctx sample_repo 7 sample_meta
      (bump (lit ''unanswered'') no_tally) w1 = (Inr out, w1)"
    by (simp add: sweep_report_def quiet_report whenM_def bindM_def ret_def)
  have d: "deliver_answers sample_env_ok sample_ctx sample_repo 7 sample_meta []
      [sample_thread] empty_world = (Inr out, w1)"
    by (simp add: deliver_answers_def ids no_verdicts bindM_def one ret_def rep)
  show ?thesis
    unfolding d snd_conv
    by (rule sweep_handles_every_thread [OF _ _ _ _ d])
      (simp_all add: sample_ctx_def sample_thread_def str_eval)
qed

end
