(* ===== verification/Ci_Watch.thy ===== *)
theory Ci_Watch
  imports Sweeper
begin

text \<open>
  The CI watch (\<open>src/robbie/ci_watch.py\<close>): what the build said about an approved commit.
  The state of a watched row is decided from one fresh read of the pull request; a red build
  is told to the author once. The properties give the exact condition of every state a row
  is settled in, and say that a red build is settled only when its note is out.
\<close>

definition CI_WATCH_HOURS :: int where "CI_WATCH_HOURS = 24"

definition ci_cutoff :: "int \<Rightarrow> int" where
  "ci_cutoff now_ms = now_ms - CI_WATCH_HOURS * 3600000"

text \<open>\<open>_settle\<close>\<close>

definition settle_ci :: "env \<Rightarrow> ctx \<Rightarrow> str \<Rightarrow> ci_state \<Rightarrow> unit eff" where
  "settle_ci en cx key cs = whenM (\<not> quiet cx) (stamp en (\<lambda>now_ms. set_ci_state now_ms key cs))"

definition model_name :: "review_row \<Rightarrow> str" where
  "model_name row =
     (if blank_opt (rv_model row) then lit ''the account's model'' else opt_str (rv_model row))"

text \<open>The end of \<open>_one\<close>, for a red build; the \<open>try\<close> is around the note alone.\<close>

definition red_note :: "env \<Rightarrow> ctx \<Rightarrow> repo_config \<Rightarrow> pr_meta \<Rightarrow> publish_result option eff" where
  "red_note en cx rc m =
     once_per en (posted_key ''approved-red'' rc m)
       (report_red_build en cx rc m (failing_checks m (rc_ignore_checks rc)) (quiet cx)) (quiet cx)"

definition report_red :: "env \<Rightarrow> ctx \<Rightarrow> repo_config \<Rightarrow> review_row \<Rightarrow> pr_meta \<Rightarrow> outcome option eff" where
  "report_red en cx rc row m =
     bindM (catchM (bindM (red_note en cx rc m) (\<lambda>r. ret (Inr r)))
        (\<lambda>e. case e of
           GhError s \<Rightarrow> ret (Inl None)
         | _ \<Rightarrow> ret (Inl (Some (outcome (rv_repo row) (rv_pr row) Oc_failed (en_show_exn en e)))))) (\<lambda>came.
     case came of
       Inl out \<Rightarrow> ret out
     | Inr r \<Rightarrow>
         bindM (settle_ci en cx (rv_key row) Ci_red) (\<lambda>_.
           ret (map_option (\<lambda>p. outcome (rv_repo row) (rv_pr row) Oc_ci_note (pb_detail p)) r)))"

definition watch_meta :: "env \<Rightarrow> ctx \<Rightarrow> repo_config \<Rightarrow> review_row \<Rightarrow> pr_meta \<Rightarrow> outcome option eff" where
  "watch_meta en cx rc row m =
     (if pm_state m \<noteq> lit ''OPEN'' then
        bindM (settle_ci en cx (rv_key row) Ci_gone) (\<lambda>_.
        bindM (whenM (pm_state m = lit ''MERGED'' \<and> \<not> cx_dry cx)
                 (bindM (once_key en (merged_key (rv_repo row) (rv_pr row))) (\<lambda>_. ret ())))
          (\<lambda>_. ret None))
      else if pm_head_sha m \<noteq> rv_head row then
        bindM (settle_ci en cx (rv_key row) Ci_stale) (\<lambda>_. ret None)
      else case ci_outcome m (rc_ignore_checks rc) of
        Waiting \<Rightarrow> ret None
      | Green \<Rightarrow>
          bindM (settle_ci en cx (rv_key row) Ci_green) (\<lambda>_.
            ret (Some (outcome (rv_repo row) (rv_pr row) Oc_ready (lit ''green after '' @ model_name row))))
      | Red \<Rightarrow> report_red en cx rc row m)"

definition watch_one :: "env \<Rightarrow> ctx \<Rightarrow> repo_config \<Rightarrow> review_row \<Rightarrow> outcome option eff" where
  "watch_one en cx rc row =
     bindM (catch_gh
        (bindM (ask ''meta'' (rv_repo row) (rv_pr row) (\<lambda>tr. en_meta en tr (rv_repo row) (rv_pr row)))
           (\<lambda>m. ret (Some m)))
        (\<lambda>_. ret None)) (\<lambda>got.
     case got of None \<Rightarrow> ret None | Some m \<Rightarrow> watch_meta en cx rc row m)"

text \<open>Rows of a repository that left the configuration are skipped.\<close>

definition watch_jobs :: "ctx \<Rightarrow> int \<Rightarrow> db \<Rightarrow> (repo_config \<times> review_row) list" where
  "watch_jobs cx cutoff d =
     List.map_filter (\<lambda>row. case cfg_repo (cx_cfg cx) (rv_repo row) of
         Inr rc \<Rightarrow> Some (rc, row) | Inl e \<Rightarrow> None) (watching_ci d cutoff)"

definition watch :: "env \<Rightarrow> ctx \<Rightarrow> outcome list eff" where
  "watch en cx =
     bindM (now en) (\<lambda>ck.
     bindM (whenM (\<not> quiet cx) (modify (\<lambda>d. fst (expire_ci_watch (ci_cutoff (ck_now ck)) d)))) (\<lambda>_.
     bindM (gets (watch_jobs cx (ci_cutoff (ck_now ck)))) (\<lambda>jobs.
     bindM (mapM (\<lambda>job. watch_one en cx (fst job) (snd job)) jobs) (\<lambda>outs.
       ret (List.map_filter id outs)))))"

section \<open>Closure\<close>

lemma outcome_cases [safe_intros]:
  "(c = Green \<Longrightarrow> preserves R x) \<Longrightarrow> (c = Red \<Longrightarrow> preserves R y) \<Longrightarrow> (c = Waiting \<Longrightarrow> preserves R z) \<Longrightarrow>
   preserves R (case c of Green \<Rightarrow> x | Red \<Rightarrow> y | Waiting \<Rightarrow> z)"
  by (cases c) simp_all

lemma settle_ci_safe [safe_intros]:
  "preserves (adds P) (settle_ci en cx key cs)" "preserves db_evolves (settle_ci en cx key cs)"
  unfolding settle_ci_def by (intro safe_intros db_step.ci)+

lemma settle_ci_keeps [safe_intros]: "quiet cx \<Longrightarrow> preserves keeps_db (settle_ci en cx key cs)"
  by (simp add: settle_ci_def whenM_def keeps.pure_ret)

lemma red_note_safe [safe_intros]:
  "behaves cx (red_note en cx rc m)" "preserves db_evolves (red_note en cx rc m)"
  unfolding red_note_def by (intro safe_intros; simp)+

lemma red_note_keeps [safe_intros]: "quiet cx \<Longrightarrow> preserves keeps_db (red_note en cx rc m)"
  unfolding red_note_def by (intro once_per_keeps safe_intros)

lemma watch_safe [safe_intros]:
  "behaves cx (watch en cx)" "preserves db_evolves (watch en cx)"
  unfolding watch_def watch_one_def watch_meta_def report_red_def
  by (intro safe_intros db_step.expire)+

lemma watch_keeps [safe_intros]:
  assumes d: "cx_dry cx" shows "preserves keeps_db (watch en cx)"
proof -
  have q: "quiet cx" using d by (simp add: quiet_def)
  show ?thesis
    unfolding watch_def watch_one_def watch_meta_def report_red_def
    by (intro safe_intros q) (use d q in auto)
qed

section \<open>Properties\<close>

text \<open>The state a row is settled in, from the fresh read alone; \<open>None\<close> leaves it waiting.\<close>

definition verdict_of_build :: "repo_config \<Rightarrow> review_row \<Rightarrow> pr_meta \<Rightarrow> ci_state option" where
  "verdict_of_build rc row m =
     (if pm_state m \<noteq> lit ''OPEN'' then Some Ci_gone
      else if pm_head_sha m \<noteq> rv_head row then Some Ci_stale
      else case ci_outcome m (rc_ignore_checks rc) of
        Green \<Rightarrow> Some Ci_green | Red \<Rightarrow> Some Ci_red | Waiting \<Rightarrow> None)"

text \<open>The bucket of a check's name: what a name is counted as, for names not ignored.\<close>

definition some_check :: "pr_meta \<Rightarrow> str list \<Rightarrow> bucket \<Rightarrow> bool" where
  "some_check m ignore b \<longleftrightarrow>
     (\<exists>c \<in> set (pm_checks m). bucket_of c = b \<and> check_name c \<notin> set ignore)"

lemma kept_bucket:
  "kept ignore (sorted_set (map check_name (in_bucket b (pm_checks m)))) \<noteq> [] \<longleftrightarrow> some_check m ignore b"
  by (auto simp: kept_Nil_iff some_check_def set_in_bucket image_subset_iff)

lemma ci_outcome_cases:
  "ci_outcome m ignore =
     (if some_check m ignore Failing then Red
      else if some_check m ignore Running \<or> \<not> some_check m ignore Passing then Waiting
      else Green)"
  unfolding ci_outcome_def Let_def summarize_checks_def check_summary.simps kept_bucket
  using kept_bucket [of ignore Passing m] by auto

text \<open>
  An approved commit counts as green exactly when, among the checks that are not ignored,
  at least one passed, none failed and none is still running; a single failing one makes it
  red, and a commit no check reports on is still waiting.
\<close>

theorem ci_outcome_exact:
  "(ci_outcome m ignore = Green) =
     (some_check m ignore Passing \<and> \<not> some_check m ignore Failing \<and> \<not> some_check m ignore Running) \<and>
   (ci_outcome m ignore = Red) = some_check m ignore Failing \<and>
   ci_outcome (m\<lparr>pm_checks := []\<rparr>) ignore = Waiting"
  unfolding ci_outcome_cases by (auto simp: some_check_def)

lemma red_note_loud:
  assumes "\<not> quiet cx"
  shows "db_reviews (wd_db (snd (red_note en cx rc m w))) = db_reviews (wd_db w) \<and>
    notice_seen (wd_db (snd (red_note en cx rc m w))) (posted_key ''approved-red'' rc m)
      = (\<exists>r. fst (red_note en cx rc m w) = Inr r)"
proof -
  let ?k = "posted_key ''approved-red'' rc m"
  let ?post = "report_red_build en cx rc m (failing_checks m (rc_ignore_checks rc)) False"
  have n: "red_note en cx rc m = once_per en ?k ?post False" using assms by (simp add: red_note_def)
  obtain x w1 where p: "?post w = (x, w1)" by (cases "?post w")
  have d1: "wd_db w1 = wd_db w"
    using preserves_result [OF p notes_keep(2)] by (simp add: keeps_db_def)
  have posted: "pb_posted r" if "x = Inr r" for r
    using p that
    by (auto simp: report_red_build_def post_note_def bindM_def perform_def ret_def result_def
        split: sum.splits)
  show ?thesis
  proof (cases "notice_seen (wd_db w) ?k")
    case True
    then show ?thesis unfolding n by (simp add: once_per_def bindM_def gets_def ret_def)
  next
    case fresh: False
    show ?thesis
    proof (cases x)
      case (Inl e)
      with p fresh d1 show ?thesis unfolding n by (simp add: once_per_def bindM_def gets_def)
    next
      case (Inr r)
      with p fresh d1 posted [OF Inr] show ?thesis
        unfolding n
        by (simp add: once_per_def bindM_def gets_def ret_def whenM_def alter_def Let_def
            notice_once_def notice_seen_def)
    qed
  qed
qed

lemma settle_ci_loud:
  "\<not> quiet cx \<Longrightarrow> \<exists>now_ms. settle_ci en cx key cs w = (Inr (), w\<lparr>wd_db := set_ci_state now_ms key cs (wd_db w)\<rparr>)"
  by (auto simp: settle_ci_def whenM_def stamp_def)

lemma set_ci_state_reviews:
  "db_reviews d = db_reviews d' \<Longrightarrow>
   db_reviews (set_ci_state now_ms key cs d) = db_reviews (set_ci_state now_ms key cs d')"
  by (simp add: set_ci_state_def update_where_def)

lemma merged_notice_reviews:
  "db_reviews (wd_db (snd (bindM (whenM b (bindM (once_key en key) (\<lambda>_. ret ()))) (\<lambda>_. ret x) w)))
   = db_reviews (wd_db w)"
  by (simp add: whenM_def bindM_def alter_def ret_def Let_def notice_once_def)

text \<open>
  A publishing watch leaves the reviews in the state the fresh read decides: gone for a
  closed pull request, stale for an approval of an older commit, green or red by the build,
  and untouched while the build runs. A red build is settled exactly when its note is on
  record, so a note that GitHub refused is owed again next tick.
\<close>

theorem watch_decides:
  assumes "\<not> quiet cx"
  shows "\<exists>now_ms. db_reviews (wd_db (snd (watch_meta en cx rc row m w))) =
    (case verdict_of_build rc row m of
       None \<Rightarrow> db_reviews (wd_db w)
     | Some cs \<Rightarrow>
         if cs = Ci_red \<and>
            \<not> notice_seen (wd_db (snd (watch_meta en cx rc row m w))) (posted_key ''approved-red'' rc m)
         then db_reviews (wd_db w)
         else db_reviews (set_ci_state now_ms (rv_key row) cs (wd_db w)))"
proof -
  have settle: "\<exists>now_ms. db_reviews (wd_db (snd (bindM (settle_ci en cx (rv_key row) cs) f w)))
      = db_reviews (set_ci_state now_ms (rv_key row) cs (wd_db w))"
    if f: "\<And>v. db_reviews (wd_db (snd (f () v))) = db_reviews (wd_db v)" for cs f
    using settle_ci_loud [OF assms, of en "rv_key row" cs w] f by (auto simp: bindM_def)
  consider (gone) "pm_state m \<noteq> lit ''OPEN''"
    | (stale) "pm_state m = lit ''OPEN''" "pm_head_sha m \<noteq> rv_head row"
    | (build) "pm_state m = lit ''OPEN''" "pm_head_sha m = rv_head row" by blast
  then show ?thesis
  proof cases
    case gone
    then show ?thesis
      unfolding watch_meta_def verdict_of_build_def
      using settle [of "\<lambda>_. bindM (whenM (pm_state m = lit ''MERGED'' \<and> \<not> cx_dry cx)
          (bindM (once_key en (merged_key (rv_repo row) (rv_pr row))) (\<lambda>_. ret ()))) (\<lambda>_. ret None)" Ci_gone]
      by (simp add: merged_notice_reviews)
  next
    case stale
    then show ?thesis
      unfolding watch_meta_def verdict_of_build_def
      using settle [of "\<lambda>_. ret None" Ci_stale] by (simp add: ret_def)
  next
    case build
    show ?thesis
    proof (cases "ci_outcome m (rc_ignore_checks rc)")
      case Green
      with build show ?thesis
        unfolding watch_meta_def verdict_of_build_def
        using settle [of "\<lambda>_. ret (Some (outcome (rv_repo row) (rv_pr row) Oc_ready
          (lit ''green after '' @ model_name row)))" Ci_green] by (simp add: ret_def)
    next
      case Waiting
      with build show ?thesis by (simp add: watch_meta_def verdict_of_build_def ret_def)
    next
      case Red
      obtain x w1 where n: "red_note en cx rc m w = (x, w1)" by (cases "red_note en cx rc m w")
      from red_note_loud [OF assms, of en rc m w] n
      have d1: "db_reviews (wd_db w1) = db_reviews (wd_db w)"
        "notice_seen (wd_db w1) (posted_key ''approved-red'' rc m) = (\<exists>r. x = Inr r)" by simp_all
      have eq: "watch_meta en cx rc row m = report_red en cx rc row m"
        using build Red by (simp add: watch_meta_def)
      have v: "verdict_of_build rc row m = Some Ci_red" using build Red by (simp add: verdict_of_build_def)
      show ?thesis
      proof (cases x)
        case (Inl e)
        with n have "snd (report_red en cx rc row m w) = w1"
          by (cases e) (simp_all add: report_red_def bindM_def catchM_def ret_def)
        with Inl d1 show ?thesis unfolding eq v by simp
      next
        case (Inr r)
        obtain now_ms where s: "settle_ci en cx (rv_key row) Ci_red w1
            = (Inr (), w1\<lparr>wd_db := set_ci_state now_ms (rv_key row) Ci_red (wd_db w1)\<rparr>)"
          using settle_ci_loud [OF assms] by blast
        with n Inr have "snd (report_red en cx rc row m w)
            = w1\<lparr>wd_db := set_ci_state now_ms (rv_key row) Ci_red (wd_db w1)\<rparr>"
          by (simp add: report_red_def bindM_def catchM_def ret_def)
        moreover have "notice_seen (set_ci_state now_ms (rv_key row) Ci_red (wd_db w1))
            (posted_key ''approved-red'' rc m)"
          using Inr d1(2) by (simp add: notice_seen_def set_ci_state_def update_where_def)
        ultimately show ?thesis
          unfolding eq v using set_ci_state_reviews [OF d1(1)] by auto
      qed
    qed
  qed
qed

theorem watch_decides_witness:
  "\<exists>now_ms. db_reviews (wd_db (snd (watch_meta sample_env_ok sample_ctx sample_repo
       (new_row 1 (lit ''k'') (lit ''acme/app'') 7 (lit ''old'') [] RvPublished 0) sample_meta empty_world))) =
    db_reviews (set_ci_state now_ms (lit ''k'') Ci_stale (wd_db empty_world))"
proof -
  have "\<not> quiet sample_ctx" by (simp add: quiet_def sample_ctx_def)
  from watch_decides [OF this, of sample_env_ok sample_repo
      "new_row 1 (lit ''k'') (lit ''acme/app'') 7 (lit ''old'') [] RvPublished 0" sample_meta empty_world]
  show ?thesis by (simp add: verdict_of_build_def sample_meta_def new_row_def str_eval)
qed

end
