(* ===== verification/Orchestrator.thy ===== *)
theory Orchestrator
  imports Ci_Watch
begin

text \<open>
  One pull request's turn (\<open>src/robbie/orchestrator.py\<close>): the candidates, the gate, the action
  it leads to, the review with its slot and its run, the delivery of what the run said, and the
  notifications. What the lemmas show here is that each of these keeps to the quiet flags and
  changes the tables only by the steps of the database; what a delivery leaves behind is in
  \<open>Delivery\<close>, and the tick around a turn in \<open>Tick\<close>.
\<close>

section \<open>Small pieces\<close>

definition exn_text :: "env \<Rightarrow> exn \<Rightarrow> str" where
  "exn_text en e = (case e of GhError s \<Rightarrow> s | _ \<Rightarrow> en_show_exn en e)"

definition candidates :: "env \<Rightarrow> repo_config \<Rightarrow> int list eff" where
  "candidates en rc =
     bindM (ask ''queue'' (rc_slug rc) 0 (\<lambda>tr. en_queue en tr (rc_slug rc))) (\<lambda>prs.
       if \<not> rc_self_review rc then ret prs
       else bindM (ask ''authored'' (rc_slug rc) 0 (\<lambda>tr. en_authored en tr (rc_slug rc)))
              (\<lambda>own. ret (prs @ filter (\<lambda>p. p \<notin> set prs) own)))"

text \<open>\<open>_pass_state\<close>\<close>

definition pass_state :: "ctx \<Rightarrow> review_state \<Rightarrow> str option \<Rightarrow> review_state \<times> str option" where
  "pass_state cx st reason =
     (if cx_no_publish cx then (RvFailed, Some (lit ''--no-publish: nothing was posted''))
      else (st, reason))"

definition finish :: "env \<Rightarrow> str \<Rightarrow> review_state \<Rightarrow> finish_args \<Rightarrow> unit eff" where
  "finish en key st a = stamp en (\<lambda>now_ms. finish_review now_ms key st a)"

definition finish_pass :: "env \<Rightarrow> ctx \<Rightarrow> str \<Rightarrow> review_state \<Rightarrow> str option \<Rightarrow> finish_args \<Rightarrow> unit eff" where
  "finish_pass en cx key st reason a =
     finish en key (fst (pass_state cx st reason)) (a\<lparr>fa_hold := snd (pass_state cx st reason)\<rparr>)"

definition verdict_text :: "verdict \<Rightarrow> str" where
  "verdict_text v =
     (case v of Needs_work \<Rightarrow> lit ''needs-work'' | Comment \<Rightarrow> lit ''comment'' | Ok_verdict \<Rightarrow> lit ''ok'')"

definition state_text :: "review_state \<Rightarrow> str" where
  "state_text st =
     (case st of RvRunning \<Rightarrow> lit ''running'' | RvPublished \<Rightarrow> lit ''published''
      | RvHeld \<Rightarrow> lit ''held'' | RvFailed \<Rightarrow> lit ''failed'')"

definition tell_props :: "env \<Rightarrow> ctx \<Rightarrow> pr_meta \<Rightarrow> string \<Rightarrow> unit eff" where
  "tell_props en cx m status =
     whenM (\<not> quiet cx)
       (report en (cfg_props_url (cx_cfg cx)) (pm_number m) (pm_head_sha m) (lit status))"

definition gave_up :: "env \<Rightarrow> ctx \<Rightarrow> repo_config \<Rightarrow> pr_meta \<Rightarrow> str \<Rightarrow> str \<Rightarrow> outcome eff" where
  "gave_up en cx rc m detail told =
     bindM (dm_owner en cx told) (\<lambda>_.
     bindM (tell_props en cx m ''skipped'') (\<lambda>_.
       ret (outcome (rc_slug rc) (pm_number m) Oc_failed detail)))"

text \<open>The cache the gate fills and the prompt empties, \<open>self._threads\<close>.\<close>

definition cache_threads :: "str \<times> int \<Rightarrow> thread list \<Rightarrow> unit eff" where
  "cache_threads k ts = (\<lambda>w. (Inr (), w\<lparr>wd_threads := dset k ts (wd_threads w)\<rparr>))"

definition pop_threads :: "str \<times> int \<Rightarrow> thread list option eff" where
  "pop_threads k =
     (\<lambda>w. (Inr (dget (wd_threads w) k), w\<lparr>wd_threads := AList.delete k (wd_threads w)\<rparr>))"

definition clear_threads :: "unit eff" where
  "clear_threads = (\<lambda>w. (Inr (), w\<lparr>wd_threads := []\<rparr>))"

definition prior_threads :: "env \<Rightarrow> repo_config \<Rightarrow> pr_meta \<Rightarrow> thread list eff" where
  "prior_threads en rc m =
     bindM (pop_threads (rc_slug rc, pm_number m)) (\<lambda>cached.
     case cached of
       Some ts \<Rightarrow> ret ts
     | None \<Rightarrow>
         catch_gh
           (bindM (ask ''threads'' (rc_slug rc) (pm_number m) (\<lambda>tr. en_threads en tr (rc_slug rc) (pm_number m)))
              (\<lambda>got. ret (pt_threads got)))
           (\<lambda>_. ret []))"

definition pass_row :: "review_row \<Rightarrow> str" where
  "pass_row r =
     take 8 (rv_head r) @ (lit '' '' @ [8594] @ lit '' '') @
       (case rv_verdict r of Some v \<Rightarrow> verdict_text v
        | None \<Rightarrow> if blank_opt (rv_hold r) then state_text (rv_state r) else opt_str (rv_hold r))"

definition pass_history :: "repo_config \<Rightarrow> pr_meta \<Rightarrow> db \<Rightarrow> str" where
  "pass_history rc m d =
     (let rows = passes_for d (rc_slug rc) (pm_number m) in
      if rows = [] then []
      else (lit ''This is pass '' @ show_nat (length rows + 1) @ lit '' on this PR. Earlier passes: ''
       @ join (lit '', '') (map pass_row rows) @ lit ''.'' @ [NL]))"

section \<open>The gate\<close>

definition gate :: "env \<Rightarrow> ctx \<Rightarrow> repo_config \<Rightarrow> int \<Rightarrow> (pr_meta \<times> str \<times> str \<times> decision) eff" where
  "gate en cx rc pr =
     bindM (ask ''meta'' (rc_slug rc) pr (\<lambda>tr. en_meta en tr (rc_slug rc) pr)) (\<lambda>m.
     case label_hold m rc of
       Some held \<Rightarrow> ret (m, [], [], held)
     | None \<Rightarrow>
         (case done_label m rc of
            Some l \<Rightarrow>
              bindM (whenM (\<not> cx_dry cx) (modify (\<lambda>d. fst (settle_done (rc_slug rc) pr d)))) (\<lambda>_.
                ret (m, [], [], mk_decision Skip (l @ lit '' '' @ [8212] @ lit '' a human has it'')))
          | None \<Rightarrow>
              bindM (ask ''request'' (rc_slug rc) pr (\<lambda>tr. en_request en tr (rc_slug rc) pr)) (\<lambda>ra.
              let key = dedup_key (rc_slug rc) pr (pm_head_sha m) ra in
              bindM (gets (\<lambda>d. get_review d key)) (\<lambda>prior.
              case already_judged (map_option rv_state prior) of
                Some judged \<Rightarrow> ret (m, key, ra, judged)
              | None \<Rightarrow>
                  bindM (ask ''threads'' (rc_slug rc) pr (\<lambda>tr. en_threads en tr (rc_slug rc) pr)) (\<lambda>got.
                  bindM (cache_threads (rc_slug rc, pr) (pt_threads got)) (\<lambda>_.
                  bindM (gets (\<lambda>d. sha_was_judged d (rc_slug rc) pr (pm_head_sha m))) (\<lambda>sj.
                    ret (m, key, ra,
                      evaluate m rc sj (length (filter awaiting_author (pt_threads got)))))))))))"

section \<open>Notifications\<close>

definition author_dm :: "env \<Rightarrow> ctx \<Rightarrow> pr_meta \<Rightarrow> str \<Rightarrow> unit eff" where
  "author_dm en cx m s =
     bindM (dm_author en cx (pm_author m) s) (\<lambda>st.
       whenM (st = Unmapped)
         (bindM (once_key en (lit ''nomap:'' @ pm_author m)) (\<lambda>fresh.
            whenM fresh
              (bindM (dm_owner en cx
                 (unmapped_note (pm_author m) (sl_users_file (cfg_slack (cx_cfg cx))))) (\<lambda>_. ret ())))))"

definition notify :: "env \<Rightarrow> ctx \<Rightarrow> repo_config \<Rightarrow> pr_meta \<Rightarrow> verdict \<Rightarrow> finding list \<Rightarrow> unit eff" where
  "notify en cx rc m v findings =
     (let phrase = verdict_phrase (v = Needs_work) (severity_count (en_rep en) True findings)
                     (severity_count (en_rep en) False findings)
      in bindM (whenM (\<not> blank_opt (rc_slack_channel rc))
                  (bindM (slack_post en cx (opt_str (rc_slack_channel rc)) (channel_note m phrase)) (\<lambda>_. ret ())))
           (\<lambda>_. author_dm en cx m (author_note m phrase)))"

definition announce_approval :: "env \<Rightarrow> ctx \<Rightarrow> repo_config \<Rightarrow> pr_meta \<Rightarrow> str \<Rightarrow> unit eff" where
  "announce_approval en cx rc m ci =
     bindM (catch_gh
        (bindM (once_per en (posted_key ''approved'' rc m)
                  (post_approval en cx rc m (cx_no_publish cx)) (cx_no_publish cx)) (\<lambda>_. ret ()))
        (\<lambda>_. ret ())) (\<lambda>_.
     bindM (whenM (\<not> blank_opt (rc_slack_channel rc))
        (bindM (slack_post en cx (opt_str (rc_slack_channel rc)) (approved_channel_note (bot cx) m))
           (\<lambda>_. ret ()))) (\<lambda>_.
     bindM (dm_reviewers en cx (approved_note m ci)) (\<lambda>_.
       author_dm en cx m (approved_author_note m))))"

section \<open>Asking for a build, taking back a rejection\<close>

definition ci_already_started :: "env \<Rightarrow> repo_config \<Rightarrow> pr_meta \<Rightarrow> str option eff" where
  "ci_already_started en rc m =
     catch_gh
       (bindM (ask ''meta'' (rc_slug rc) (pm_number m) (\<lambda>tr. en_meta en tr (rc_slug rc) (pm_number m))) (\<lambda>fresh.
        if pm_head_sha fresh \<noteq> pm_head_sha m then ret None
        else if ci_started fresh (rc_ignore_checks rc)
        then ret (Some (lit ''CI already running for '' @ take 8 (pm_head_sha m)))
        else
          bindM (ask ''asked'' (rc_slug rc) (pm_number m)
              (\<lambda>tr. en_asked en tr (rc_slug rc) (pm_number m) (rc_ci_phrase rc) (pm_head_sha m))) (\<lambda>asked.
            ret (if asked then Some (lit ''CI already asked for '' @ take 8 (pm_head_sha m)) else None))))
       (\<lambda>_. ret None)"

definition ask_for_ci :: "env \<Rightarrow> ctx \<Rightarrow> repo_config \<Rightarrow> pr_meta \<Rightarrow> str eff" where
  "ask_for_ci en cx rc m =
     bindM (ci_already_started en rc m) (\<lambda>started.
     case started of
       Some s \<Rightarrow> ret s
     | None \<Rightarrow>
         catch_gh
           (bindM (once_per en (lit ''run-ci:'' @ rc_slug rc @ lit '':'' @ show_int (pm_number m) @ lit '':'' @ pm_head_sha m)
                     (request_ci en rc m (cx_no_publish cx)) (cx_no_publish cx)) (\<lambda>r.
              ret (case r of None \<Rightarrow> (lit ''CI already asked for '' @ take 8 (pm_head_sha m))
                   | Some p \<Rightarrow> pb_detail p)))
           (\<lambda>s. bindM (dm_owner en cx
                (lit ''I approved *'' @ pm_title m @ lit ''* ('' @ pm_url m @ lit '') but couldn't post `''
       @ rc_ci_phrase rc @ lit ''`, so CI has not started: '' @ s))
              (\<lambda>_. ret (lit ''CI request failed''))))"

definition dismiss_if_vetoed :: "env \<Rightarrow> ctx \<Rightarrow> repo_config \<Rightarrow> int \<Rightarrow> str option eff" where
  "dismiss_if_vetoed en cx rc pr =
     bindM (ask ''rejection'' (rc_slug rc) pr (\<lambda>tr. en_rejection en tr (rc_slug rc) pr)) (\<lambda>node.
     case node of
       None \<Rightarrow> ret None
     | Some i \<Rightarrow> bindM (dismiss_own_rejection en i (quiet cx)) (\<lambda>r. ret (Some (pb_detail r))))"

definition retract_rejection :: "env \<Rightarrow> ctx \<Rightarrow> repo_config \<Rightarrow> pr_meta \<Rightarrow> unit eff" where
  "retract_rejection en cx rc m =
     catch_gh (bindM (dismiss_if_vetoed en cx rc (pm_number m)) (\<lambda>_. ret ()))
       (\<lambda>s. dm_owner_once en cx (lit ''dismiss:'' @ rc_slug rc @ lit '':'' @ show_int (pm_number m))
          (lit ''I approved *'' @ pm_title m @ lit ''* ('' @ pm_url m
       @ lit '') but couldn't retract my earlier changes-requested review, so GitHub still reads the ''
       @ lit ''PR as blocked by me: '' @ s))"

definition token_login :: "env \<Rightarrow> str option eff" where
  "token_login en =
     bindM (\<lambda>w. (Inr (wd_login w), w)) (\<lambda>known.
     bindM (case known of
        Some l \<Rightarrow> ret l
      | None \<Rightarrow>
          bindM (catch_gh (ask ''whoami'' [] 0 (\<lambda>tr. en_whoami en tr)) (\<lambda>_. ret [])) (\<lambda>l.
          bindM (\<lambda>w. (Inr (), w\<lparr>wd_login := Some l\<rparr>)) (\<lambda>_. ret l))) (\<lambda>l.
       ret (if l = [] then None else Some l)))"

section \<open>Delivery\<close>

record unusable_run =
  un_reason :: str
  un_told :: str
  un_detail :: str

definition unusable :: "blocks \<Rightarrow> unusable_run option" where
  "unusable b =
     (case bl_verdict b of
        None \<Rightarrow>
          Some \<lparr>un_reason = lit ''run gave no verdict'', un_told = lit ''couldn't parse a verdict'',
                un_detail = lit ''no verdict''\<rparr>
      | Some v \<Rightarrow>
          if v \<noteq> Ok_verdict \<and> \<not> publishable b then
            Some \<lparr>un_reason = lit ''verdict without a summary body'',
                  un_told = (lit ''got a '' @ verdict_text v @ lit '' verdict with no summary body''),
                  un_detail = lit ''no summary body''\<rparr>
          else None)"

text \<open>The column set every exit of \<open>_deliver\<close> writes.\<close>

definition common_args :: "env \<Rightarrow> review_run \<Rightarrow> choice \<Rightarrow> blocks \<Rightarrow> finding list \<Rightarrow> finish_args" where
  "common_args en r ch b findings =
     no_args\<lparr>fa_verdict := bl_verdict b, fa_cost := rn_cost r, fa_tokens_in := rn_tokens_in r,
       fa_tokens_out := rn_tokens_out r, fa_duration := Some (rn_duration r),
       fa_transcript := Some (opt_str (rn_transcript r)), fa_model := ch_model ch,
       fa_findings := Some (int (length findings)),
       fa_blocking := Some (int (severity_count (en_rep en) True findings)),
       fa_should_fix := Some (int (severity_count (en_rep en) False findings)),
       fa_summary := Some (int (summary_findings (bl_github b)))\<rparr>"

definition deliver_ok ::
  "env \<Rightarrow> ctx \<Rightarrow> repo_config \<Rightarrow> pr_meta \<Rightarrow> str \<Rightarrow> finish_args \<Rightarrow> outcome eff" where
  "deliver_ok en cx rc m key common =
     bindM (clear_needs_work en rc (pm_number m) (cx_no_publish cx)) (\<lambda>_.
     bindM (retract_rejection en cx rc m) (\<lambda>_.
     bindM (ask_for_ci en cx rc m) (\<lambda>ci.
     bindM (finish_pass en cx key RvPublished None
        (common\<lparr>fa_ci := (if cx_no_publish cx then None else Some Ci_waiting), fa_inline := Some 0\<rparr>)) (\<lambda>_.
     bindM (announce_approval en cx rc m ci) (\<lambda>_.
     bindM (tell_props en cx m ''posted'') (\<lambda>_.
       ret (outcome (rc_slug rc) (pm_number m) Oc_review (lit ''ok '' @ [8212] @ lit '' '' @ ci))))))))"

definition after_publish ::
  "env \<Rightarrow> ctx \<Rightarrow> repo_config \<Rightarrow> pr_meta \<Rightarrow> str \<Rightarrow> verdict \<Rightarrow> finding list \<Rightarrow> finish_args
   \<Rightarrow> publish_result option \<Rightarrow> outcome eff" where
  "after_publish en cx rc m key v findings common res =
     (case res of
        None \<Rightarrow>
          ret (outcome (rc_slug rc) (pm_number m) Oc_review
                (lit ''already published for '' @ take 8 (pm_head_sha m)))
      | Some p \<Rightarrow>
          bindM (whenM (pb_posted p)
            (bindM (finish_pass en cx key RvPublished None (common\<lparr>fa_inline := Some (pb_inline p)\<rparr>)) (\<lambda>_.
             bindM (notify en cx rc m v findings) (\<lambda>_. tell_props en cx m ''posted'')))) (\<lambda>_.
          ret (outcome (rc_slug rc) (pm_number m) Oc_review (verdict_text v @ lit '': '' @ pb_detail p))))"

definition deliver_findings ::
  "env \<Rightarrow> ctx \<Rightarrow> repo_config \<Rightarrow> pr_meta \<Rightarrow> str \<Rightarrow> review_run \<Rightarrow> blocks \<Rightarrow> verdict \<Rightarrow> finding list
   \<Rightarrow> finish_args \<Rightarrow> outcome eff" where
  "deliver_findings en cx rc m key r b v findings common =
     bindM (finish_pass en cx key RvPublished None common) (\<lambda>_.
     bindM (token_login en) (\<lambda>login.
     bindM (catchM
        (bindM (once_per en (posted_key ''review'' rc m)
           (publish_review en cx v rc m (bl_github b) findings (cx_no_publish cx) login)
           (cx_no_publish cx)) (\<lambda>res. ret (Inr res)))
        (\<lambda>e. bindM (gave_up en cx rc m (lit ''publish: '' @ exn_text en e)
            (lit ''I couldn't publish my '' @ verdict_text v @ lit '' review of *'' @ pm_title m
       @ lit ''* ('' @ pm_url m @ lit ''): '' @ exn_text en e @ lit ''. It's ready to post by hand: ''
       @ opt_show (rn_transcript r)))
          (\<lambda>out. ret (Inl out)))) (\<lambda>came.
     case came of
       Inl out \<Rightarrow> ret out
     | Inr res \<Rightarrow> after_publish en cx rc m key v findings common res)))"

definition deliver ::
  "env \<Rightarrow> ctx \<Rightarrow> repo_config \<Rightarrow> pr_meta \<Rightarrow> str \<Rightarrow> review_run \<Rightarrow> choice \<Rightarrow> outcome eff" where
  "deliver en cx rc m key r ch =
     (case rn_blocks r of
        None \<Rightarrow>
          gave_up en cx rc m (lit ''no blocks'')
            (lit ''I ran a review of *'' @ pm_title m @ lit ''* ('' @ pm_url m
       @ lit '') that parsed no blocks at all. Transcript: '' @ opt_show (rn_transcript r))
      | Some b \<Rightarrow>
          bindM (liftE (parse_findings (en_loads en) (bl_inline b))) (\<lambda>findings.
          let common = common_args en r ch b findings in
          case (unusable b, bl_verdict b) of
            (None, Some Ok_verdict) \<Rightarrow> deliver_ok en cx rc m key common
          | (None, Some v) \<Rightarrow> deliver_findings en cx rc m key r b v findings common
          | (None, None) \<Rightarrow> raiseM AssertionError
          | (Some bad, _) \<Rightarrow>
              bindM (finish_pass en cx key RvHeld (Some (un_reason bad)) common) (\<lambda>_.
              gave_up en cx rc m (un_detail bad)
                (lit ''I reviewed *'' @ pm_title m @ lit ''* ('' @ pm_url m @ lit '') but '' @ un_told bad
       @ lit '', so I posted nothing. Transcript: '' @ opt_show (rn_transcript r)))))"

section \<open>A review\<close>

definition failed_review ::
  "env \<Rightarrow> ctx \<Rightarrow> repo_config \<Rightarrow> pr_meta \<Rightarrow> str \<Rightarrow> review_run \<Rightarrow> choice \<Rightarrow> outcome eff" where
  "failed_review en cx rc m key r ch =
     bindM (stamp en (\<lambda>now_ms. record_spend now_ms (rc_slug rc) (pm_number m) (lit ''failed'')
        (if ch_via_endpoint ch then None else rn_cost r) (Some (rn_duration r)))) (\<lambda>_.
     bindM (finish en key RvFailed
        (no_args\<lparr>fa_hold := rn_error r, fa_duration := Some (rn_duration r),
                 fa_transcript := Some (opt_str (rn_transcript r)), fa_model := ch_model ch\<rparr>)) (\<lambda>_.
     gave_up en cx rc m (or_unknown (rn_error r))
       (lit ''I tried to review *'' @ pm_title m @ lit ''* ('' @ pm_url m
       @ lit '') but the run failed: '' @ opt_show (rn_error r) @ lit ''. I'll retry next cycle.'')))"

definition run_in_slot ::
  "env \<Rightarrow> ctx \<Rightarrow> repo_config \<Rightarrow> pr_meta \<Rightarrow> str \<Rightarrow> str \<Rightarrow> str \<Rightarrow> slot \<Rightarrow> (str + choice \<times> review_run) eff" where
  "run_in_slot en cx rc m key ra prompt s =
     (if \<not> st_ok s then ret (Inl (st_detail s))
      else
        bindM (stamp en (\<lambda>now_ms. start_review now_ms key (rc_slug rc) (pm_number m) (pm_head_sha m) ra)) (\<lambda>_.
        bindM (tell_props en cx m ''reviewing'') (\<lambda>_.
        bindM (run_review en cx rc (On_pr m) prompt REVIEW (ch_model (st_choice s))
                 (ch_via_endpoint (st_choice s))) (\<lambda>r.
          ret (Inr (st_choice s, r))))))"

definition review_pr :: "env \<Rightarrow> ctx \<Rightarrow> repo_config \<Rightarrow> pr_meta \<Rightarrow> str \<Rightarrow> str \<Rightarrow> outcome eff" where
  "review_pr en cx rc m key ra =
     (if cx_dry cx then ret (outcome (rc_slug rc) (pm_number m) Oc_review (lit ''dry run''))
      else
        bindM (prior_threads en rc m) (\<lambda>ts.
        bindM (gets (pass_history rc m)) (\<lambda>history.
        let prompt = preamble (pm_author m) (Some (summarize_checks m)) (threads_block (bot cx) ts) history in
        bindM (with_slot en cx (Some key) (run_in_slot en cx rc m key ra prompt)) (\<lambda>came.
        case came of
          Inl detail \<Rightarrow> ret (outcome (rc_slug rc) (pm_number m) Oc_budget detail)
        | Inr cr \<Rightarrow>
            if \<not> rn_ok (snd cr) then failed_review en cx rc m key (snd cr) (fst cr)
            else deliver en cx rc m key (snd cr) (fst cr)))))"

definition act :: "env \<Rightarrow> ctx \<Rightarrow> repo_config \<Rightarrow> pr_meta \<times> str \<times> str \<times> decision \<Rightarrow> outcome eff" where
  "act en cx rc g =
     (let m = fst g; key = fst (snd g); ra = fst (snd (snd g)); dc = snd (snd (snd g)) in
      case dc_action dc of
        Skip \<Rightarrow> ret (outcome (rc_slug rc) (pm_number m) Oc_skip (dc_reason dc))
      | Hold \<Rightarrow>
          bindM (case dc_dm dc of
              None \<Rightarrow> ret ()
            | Some s \<Rightarrow> whenM (s \<noteq> []) (dm_owner_once en cx (lit ''hold:'' @ key) s)) (\<lambda>_.
          bindM (whenM (dc_record dc \<and> \<not> quiet cx)
              (stamp en (\<lambda>now_ms. record_hold now_ms key (rc_slug rc) (pm_number m) (pm_head_sha m) ra
                  (dc_reason dc)))) (\<lambda>_.
            ret (outcome (rc_slug rc) (pm_number m) Oc_hold (dc_reason dc))))
      | Ci_note \<Rightarrow>
          bindM (once_per en (posted_key ''ci-red'' rc m)
              (post_ci_note en cx rc m (dc_checks dc) (quiet cx)) (quiet cx)) (\<lambda>r.
            ret (outcome (rc_slug rc) (pm_number m) Oc_ci_note
              (case r of
                 None \<Rightarrow> (lit ''already noted the red build for '' @ take 8 (pm_head_sha m))
               | Some p \<Rightarrow> pb_detail p)))
      | Review \<Rightarrow> review_pr en cx rc m key ra)"

definition handle :: "env \<Rightarrow> ctx \<Rightarrow> repo_config \<Rightarrow> int \<Rightarrow> outcome eff" where
  "handle en cx rc pr =
     catchM (bindM (gate en cx rc pr) (act en cx rc))
       (\<lambda>e. case e of
          GhError s \<Rightarrow> ret (outcome (rc_slug rc) pr Oc_skip (lit ''github unreachable''))
        | _ \<Rightarrow> ret (outcome (rc_slug rc) pr Oc_failed (en_show_exn en e)))"

definition requested_or_forced :: "env \<Rightarrow> str \<Rightarrow> int \<Rightarrow> str eff" where
  "requested_or_forced en slug pr =
     catch_gh (ask ''request'' slug pr (\<lambda>tr. en_request en tr slug pr)) (\<lambda>_. ret (lit ''forced''))"

definition review_one :: "env \<Rightarrow> ctx \<Rightarrow> str \<Rightarrow> int \<Rightarrow> outcome eff" where
  "review_one en cx slug pr =
     bindM (liftE (cfg_repo (cx_cfg cx) slug)) (\<lambda>rc.
     bindM (ask ''meta'' slug pr (\<lambda>tr. en_meta en tr slug pr)) (\<lambda>m.
     bindM (requested_or_forced en slug pr) (\<lambda>ra.
     let key = dedup_key slug pr (pm_head_sha m) ra;
         key' = (if blank_opt (cx_model cx) then key else key @ [58] @ opt_str (cx_model cx))
     in review_pr en cx rc m key' ra)))"

section \<open>Closure\<close>

lemma small_safe [safe_intros]:
  "preserves (adds P) (finish en key st a)" "preserves (adds P) (finish_pass en cx key st reason a)"
  "preserves (adds P) (cache_threads k ts)" "preserves (adds P) (pop_threads k)"
  "preserves (adds P) clear_threads"
  "preserves keeps_db (cache_threads k ts)" "preserves keeps_db (pop_threads k)"
  "preserves keeps_db clear_threads"
  "preserves db_evolves (cache_threads k ts)" "preserves db_evolves (pop_threads k)"
  "preserves db_evolves clear_threads"
  by (simp_all add: preserves_def adds_def keeps_db_def db_evolves_def finish_def finish_pass_def stamp_def
      cache_threads_def pop_threads_def clear_threads_def)

lemma finish_evolves [safe_intros]:
  "preserves db_evolves (finish en key st a)" "preserves db_evolves (finish_pass en cx key st reason a)"
  unfolding finish_pass_def finish_def by (intro evolves_updates db_step.finish)+

lemma login_safe [safe_intros]:
  "preserves (adds P) (\<lambda>w. (Inr (wd_login w), w))" "preserves (adds P) (\<lambda>w. (Inr (), w\<lparr>wd_login := l\<rparr>))"
  "preserves db_evolves (\<lambda>w. (Inr (wd_login w), w))" "preserves db_evolves (\<lambda>w. (Inr (), w\<lparr>wd_login := l\<rparr>))"
  by (simp_all add: preserves_def adds_def db_evolves_def)

lemma tell_props_safe [safe_intros]:
  "behaves cx (tell_props en cx m status)" "preserves db_evolves (tell_props en cx m status)"
  unfolding tell_props_def by (intro safe_intros report_behaves; assumption)+

lemma gave_up_safe [safe_intros]:
  "behaves cx (gave_up en cx rc m detail told)" "preserves db_evolves (gave_up en cx rc m detail told)"
  unfolding gave_up_def by (intro safe_intros)+

lemma author_dm_safe [safe_intros]:
  "behaves cx (author_dm en cx m s)" "preserves db_evolves (author_dm en cx m s)"
  unfolding author_dm_def by (intro safe_intros)+

lemma notify_safe [safe_intros]:
  "behaves cx (notify en cx rc m v fs)" "preserves db_evolves (notify en cx rc m v fs)"
  unfolding notify_def Let_def by (intro safe_intros)+

lemma prior_threads_safe [safe_intros]:
  "behaves cx (prior_threads en rc m)" "preserves keeps_db (prior_threads en rc m)"
  "preserves db_evolves (prior_threads en rc m)"
  unfolding prior_threads_def by (intro safe_intros)+

lemma gate_safe [safe_intros]:
  "behaves cx (gate en cx rc pr)" "preserves db_evolves (gate en cx rc pr)"
  unfolding gate_def Let_def by (intro safe_intros db_step.done_by_human)+

lemma gate_keeps [safe_intros]:
  assumes d: "cx_dry cx" shows "preserves keeps_db (gate en cx rc pr)"
  unfolding gate_def Let_def by (intro safe_intros) (use d in auto)

lemma dismiss_if_vetoed_safe [safe_intros]:
  "behaves cx (dismiss_if_vetoed en cx rc pr)" "preserves db_evolves (dismiss_if_vetoed en cx rc pr)"
  unfolding dismiss_if_vetoed_def by (intro safe_intros impI; assumption?)+

lemma retract_safe [safe_intros]:
  "behaves cx (retract_rejection en cx rc m)" "preserves db_evolves (retract_rejection en cx rc m)"
  unfolding retract_rejection_def by (intro safe_intros)+

text \<open>Past the dry-run exit, a quiet pass is one that publishes nothing.\<close>

lemma unpublished: "\<not> cx_dry cx \<Longrightarrow> quiet cx \<longrightarrow> cx_no_publish cx"
  by (simp add: quiet_def)

lemma approval_behaves:
  assumes u: "\<not> cx_dry cx"
  shows "behaves cx (announce_approval en cx rc m ci)" "behaves cx (ask_for_ci en cx rc m)"
  unfolding announce_approval_def ask_for_ci_def ci_already_started_def
  by (intro safe_intros unpublished [OF u])+

lemma approval_evolves [safe_intros]:
  "preserves db_evolves (announce_approval en cx rc m ci)" "preserves db_evolves (ask_for_ci en cx rc m)"
  unfolding announce_approval_def ask_for_ci_def ci_already_started_def by (intro safe_intros)+

lemma token_login_safe [safe_intros]:
  "behaves cx (token_login en)" "preserves db_evolves (token_login en)"
  unfolding token_login_def by (intro safe_intros)+

lemma deliver_ok_behaves:
  assumes u: "\<not> cx_dry cx" shows "behaves cx (deliver_ok en cx rc m key common)"
  unfolding deliver_ok_def by (intro safe_intros approval_behaves u unpublished [OF u])

lemma deliver_findings_behaves:
  assumes u: "\<not> cx_dry cx" shows "behaves cx (deliver_findings en cx rc m key r b v findings common)"
  unfolding deliver_findings_def after_publish_def by (intro safe_intros unpublished [OF u])

lemma deliver_cases:
  assumes "\<And>fs. preserves R (deliver_ok en cx rc m key (common_args en r ch b fs))"
    and "\<And>v fs. preserves R (deliver_findings en cx rc m key r b v fs (common_args en r ch b fs))"
    and "\<And>bad fs. preserves R (bindM (finish_pass en cx key RvHeld (Some (un_reason bad)) (common_args en r ch b fs))
                      (\<lambda>_. gave_up en cx rc m (un_detail bad) (told bad)))"
    and "preserves R (raiseM AssertionError :: outcome eff)"
  shows "preserves R
    (case (unusable b, bl_verdict b) of
       (None, Some Ok_verdict) \<Rightarrow> deliver_ok en cx rc m key (common_args en r ch b fs)
     | (None, Some v) \<Rightarrow> deliver_findings en cx rc m key r b v fs (common_args en r ch b fs)
     | (None, None) \<Rightarrow> raiseM AssertionError
     | (Some bad, _) \<Rightarrow>
         bindM (finish_pass en cx key RvHeld (Some (un_reason bad)) (common_args en r ch b fs))
           (\<lambda>_. gave_up en cx rc m (un_detail bad) (told bad)))"
  using assms by (auto split: option.splits verdict.splits)

lemma deliver_behaves:
  assumes u: "\<not> cx_dry cx" shows "behaves cx (deliver en cx rc m key r ch)"
proof (cases "rn_blocks r")
  case None
  then show ?thesis unfolding deliver_def by simp (intro safe_intros)
next
  case (Some b)
  show ?thesis
    unfolding deliver_def Some option.case Let_def
    by (intro adds.bind adds.pure_lift deliver_cases deliver_ok_behaves [OF u]
        deliver_findings_behaves [OF u] small_safe gave_up_safe adds.pure_raise)
qed

lemma deliver_evolves [safe_intros]: "preserves db_evolves (deliver en cx rc m key r ch)"
proof (cases "rn_blocks r")
  case None
  then show ?thesis unfolding deliver_def by simp (intro safe_intros)
next
  case (Some b)
  have "preserves db_evolves (deliver_ok en cx rc m key common)"
    "preserves db_evolves (deliver_findings en cx rc m key r b v fs common)" for common v fs
    unfolding deliver_ok_def deliver_findings_def after_publish_def by (intro safe_intros)+
  then show ?thesis
    unfolding deliver_def Some option.case Let_def
    by (intro evolves.bind evolves.pure_lift deliver_cases finish_evolves gave_up_safe evolves.pure_raise)
qed

lemma start_evolves [safe_intros]:
  "preserves db_evolves (stamp en (\<lambda>now_ms. start_review now_ms key repo pr head ra))"
  "preserves db_evolves (stamp en (\<lambda>now_ms. record_hold now_ms key repo pr head ra reason))"
  by (rule evolves_updates, rule db_step.start) (rule evolves_updates, rule db_step.hold)

lemma run_in_slot_safe:
  "\<not> cx_dry cx \<Longrightarrow> behaves cx (run_in_slot en cx rc m key ra prompt s)"
  "preserves db_evolves (run_in_slot en cx rc m key ra prompt s)"
  unfolding run_in_slot_def by (intro safe_intros; auto)+

lemma review_pr_behaves [safe_intros]: "behaves cx (review_pr en cx rc m key ra)"
  unfolding review_pr_def Let_def failed_review_def
  by (intro safe_intros run_in_slot_safe deliver_behaves; assumption)

lemma review_pr_evolves [safe_intros]: "preserves db_evolves (review_pr en cx rc m key ra)"
  unfolding review_pr_def Let_def failed_review_def by (intro safe_intros run_in_slot_safe)

lemma action_cases [safe_intros]:
  "preserves R x \<Longrightarrow> preserves R y \<Longrightarrow> preserves R z \<Longrightarrow> preserves R u \<Longrightarrow>
   preserves R (case a of Review \<Rightarrow> u | Skip \<Rightarrow> x | Hold \<Rightarrow> y | Ci_note \<Rightarrow> z)"
  by (cases a) simp_all

lemma act_safe [safe_intros]:
  "behaves cx (act en cx rc g)" "preserves db_evolves (act en cx rc g)"
  unfolding act_def Let_def by (intro safe_intros impI; assumption?)+

lemma act_keeps [safe_intros]:
  assumes d: "cx_dry cx" shows "preserves keeps_db (act en cx rc g)"
proof -
  have q: "quiet cx" using d by (simp add: quiet_def)
  show ?thesis
    unfolding act_def Let_def review_pr_def
    by (intro safe_intros once_per_keeps q) (use d q in auto)
qed

lemma handle_safe [safe_intros]:
  "behaves cx (handle en cx rc pr)" "preserves db_evolves (handle en cx rc pr)"
  "cx_dry cx \<Longrightarrow> preserves keeps_db (handle en cx rc pr)"
  unfolding handle_def by (intro safe_intros; assumption?)+

lemma review_one_safe [safe_intros]:
  "behaves cx (review_one en cx slug pr)" "preserves db_evolves (review_one en cx slug pr)"
  unfolding review_one_def requested_or_forced_def Let_def by (intro safe_intros)+

end
