(* ===== verification/Delivery.thy ===== *)
theory Delivery
  imports Orchestrator
begin

text \<open>
  What a delivered review leaves behind: the row of its key is judged and carries what the
  run cost, whatever GitHub and Slack did after that; and the one way out of the delivery
  that leaves no record at all.
\<close>

section \<open>Steps that leave the reviews alone\<close>

definition keeps_reviews :: "world \<Rightarrow> world \<Rightarrow> bool" where
  "keeps_reviews w w' \<longleftrightarrow> db_reviews (wd_db w') = db_reviews (wd_db w)"

interpretation reviews: effect_relation keeps_reviews
  by unfold_locales (simp_all add: keeps_reviews_def)

lemma keeps_reviews_db: "preserves keeps_db m \<Longrightarrow> preserves keeps_reviews m"
  by (simp add: preserves_def keeps_db_def keeps_reviews_def)

lemma reviews_once_key: "preserves keeps_reviews (once_key en key)"
  by (simp add: preserves_def keeps_reviews_def alter_def notice_once_def Let_def)

lemma reviews_once_per: "preserves keeps_db post \<Longrightarrow> preserves keeps_reviews (once_per en key post q)"
  unfolding once_per_def
  by (intro preserves_cases preserves_when reviews.closed reviews_once_key keeps_reviews_db)

lemma reviews_messages:
  "preserves keeps_reviews (author_dm en cx m s)"
  "preserves keeps_reviews (notify en cx rc m v fs)"
  "preserves keeps_reviews (announce_approval en cx rc m ci)"
  "preserves keeps_reviews (tell_props en cx m status)"
  "preserves keeps_reviews (gave_up en cx rc m detail told)"
proof -
  have owner: "preserves keeps_reviews (dm_owner en cx s)" "preserves keeps_reviews (slack_post en cx ch s)"
    "preserves keeps_reviews (dm_reviewers en cx s)" "preserves keeps_reviews (dm_author en cx who s)"
    "preserves keeps_reviews (report en url n h st)" for s ch who url n h st
    by (intro keeps_reviews_db messages_keep)+
  show author: "preserves keeps_reviews (author_dm en cx m s)" for s
    unfolding author_dm_def by (intro preserves_when reviews.closed reviews_once_key owner)
  show "preserves keeps_reviews (notify en cx rc m v fs)"
    unfolding notify_def Let_def by (intro preserves_when reviews.closed owner author)
  show "preserves keeps_reviews (announce_approval en cx rc m ci)"
    unfolding announce_approval_def
    by (intro preserves_when reviews.closed owner author reviews_once_per notes_keep)
  show props: "preserves keeps_reviews (tell_props en cx m status)" for status
    unfolding tell_props_def by (intro preserves_when reviews.closed owner)
  show "preserves keeps_reviews (gave_up en cx rc m detail told)"
    unfolding gave_up_def by (intro reviews.closed owner props)
qed

lemma reviews_token: "preserves keeps_reviews (token_login en)"
proof -
  have io: "preserves keeps_reviews (\<lambda>w. (Inr (wd_login w), w))"
    "preserves keeps_reviews (\<lambda>w. (Inr (), w\<lparr>wd_login := l\<rparr>))" for l
    by (simp_all add: preserves_def keeps_reviews_def)
  show ?thesis
    unfolding token_login_def
    by (intro preserves_cases reviews.closed io keeps_reviews_db [OF keeps_prims(4)])
qed

section \<open>What a computation establishes\<close>

text \<open>If it returns, the reviews satisfy \<open>Q\<close>.\<close>

definition establishes :: "(review_row list \<Rightarrow> bool) \<Rightarrow> 'a eff \<Rightarrow> bool" where
  "establishes Q m \<longleftrightarrow> (\<forall>w x w'. m w = (Inr x, w') \<longrightarrow> Q (db_reviews (wd_db w')))"

text \<open>\<open>Q\<close> holds before and, whether or not it returns, after.\<close>

lemma bind_cases:
  assumes "bindM m f w = (Inr y, w')"
  obtains x w1 where "m w = (Inr x, w1)" "f x w1 = (Inr y, w')"
  using assms by (auto simp: bindM_def split: prod.splits sum.splits)

lemma establishes_bind: "(\<And>x. establishes Q (f x)) \<Longrightarrow> establishes Q (bindM m f)"
  unfolding establishes_def by (meson bind_cases)

lemma establishes_keep:
  assumes "establishes Q m" "\<And>x. preserves keeps_reviews (f x)"
  shows "establishes Q (bindM m f)"
  unfolding establishes_def
proof (intro allI impI)
  fix w x w'
  assume "bindM m f w = (Inr x, w')"
  then obtain y w1 where "m w = (Inr y, w1)" "f y w1 = (Inr x, w')" by (rule bind_cases)
  with assms preserves_result [of "f y" w1 "Inr x" w' keeps_reviews]
  show "Q (db_reviews (wd_db w'))" by (auto simp: establishes_def keeps_reviews_def)
qed

text \<open>The row of this key is judged, and its cost is the run's.\<close>

definition judged_with :: "ctx \<Rightarrow> str \<Rightarrow> finish_args \<Rightarrow> review_row list \<Rightarrow> bool" where
  "judged_with cx key a rows \<longleftrightarrow>
     (\<forall>row \<in> set rows. rv_key row = key \<longrightarrow>
        (if cx_no_publish cx then rv_state row = RvFailed
         else rv_state row = RvPublished \<or> rv_state row = RvHeld) \<and>
        (fa_cost a \<noteq> None \<longrightarrow> rv_cost row = fa_cost a) \<and>
        (fa_verdict a \<noteq> None \<longrightarrow> rv_verdict row = fa_verdict a))"

lemma finish_row_fields:
  "rv_key (finish_row t st a r) = rv_key r" "rv_state (finish_row t st a r) = st"
  "rv_cost (finish_row t st a r) = given (fa_cost a) (rv_cost r)"
  "rv_verdict (finish_row t st a r) = given (fa_verdict a) (rv_verdict r)"
  by (simp_all add: finish_row_def)

lemma given_new: "new \<noteq> None \<Longrightarrow> given new old = new"
  by (auto simp: given_def)

lemma finish_pass_judges:
  assumes "st = RvPublished \<or> st = RvHeld" "fa_cost a' = fa_cost a" "fa_verdict a' = fa_verdict a"
  shows "judged_with cx key a (db_reviews (wd_db (snd (finish_pass en cx key st reason a' w))))"
proof -
  let ?st = "fst (pass_state cx st reason)"
  let ?a = "a'\<lparr>fa_hold := snd (pass_state cx st reason)\<rparr>"
  have st: "if cx_no_publish cx then ?st = RvFailed else ?st = RvPublished \<or> ?st = RvHeld"
    using assms(1) by (simp add: pass_state_def)
  have "judged_with cx key a (map (\<lambda>r. if rv_key r = key then finish_row t ?st ?a r else r) rows)" for t rows
    unfolding judged_with_def
  proof (intro ballI impI)
    fix row
    assume "row \<in> set (map (\<lambda>r. if rv_key r = key then finish_row t ?st ?a r else r) rows)" "rv_key row = key"
    then obtain r where "row = finish_row t ?st ?a r" by (auto split: if_splits)
    with st assms(2,3) show "(if cx_no_publish cx then rv_state row = RvFailed
        else rv_state row = RvPublished \<or> rv_state row = RvHeld) \<and>
      (fa_cost a \<noteq> None \<longrightarrow> rv_cost row = fa_cost a) \<and>
      (fa_verdict a \<noteq> None \<longrightarrow> rv_verdict row = fa_verdict a)"
      by (simp add: finish_row_fields given_new)
  qed
  then show ?thesis
    by (simp add: finish_pass_def finish_def stamp_def finish_review_def update_where_def)
qed

lemma finish_pass_establishes:
  "st = RvPublished \<or> st = RvHeld \<Longrightarrow> fa_cost a' = fa_cost a \<Longrightarrow> fa_verdict a' = fa_verdict a \<Longrightarrow>
   establishes (judged_with cx key a) (finish_pass en cx key st reason a')"
  unfolding establishes_def using finish_pass_judges by (metis snd_conv)

lemma deliver_ok_judges:
  "establishes (judged_with cx key common) (deliver_ok en cx rc m key common)"
  unfolding deliver_ok_def
  by (rule establishes_bind, rule establishes_bind, rule establishes_bind, rule establishes_keep,
      rule finish_pass_establishes) (simp_all, intro reviews.closed reviews_messages)

text \<open>From a judged database on, publishing and telling leave it judged.\<close>

definition stays :: "(review_row list \<Rightarrow> bool) \<Rightarrow> 'a eff \<Rightarrow> bool" where
  "stays Q m \<longleftrightarrow> (\<forall>w. Q (db_reviews (wd_db w)) \<longrightarrow> Q (db_reviews (wd_db (snd (m w)))))"

lemma stays_keeps: "preserves keeps_reviews m \<Longrightarrow> stays Q m"
  by (simp add: stays_def preserves_def keeps_reviews_def)

lemma stays_bind: "stays Q m \<Longrightarrow> (\<And>x. stays Q (f x)) \<Longrightarrow> stays Q (bindM m f)"
proof -
  assume m: "stays Q m" and f: "\<And>x. stays Q (f x)"
  have "Q (db_reviews (wd_db (snd (bindM m f w))))" if "Q (db_reviews (wd_db w))" for w
  proof (cases "m w")
    case (Pair r w1)
    with m that have "Q (db_reviews (wd_db w1))" by (auto simp: stays_def dest: spec [of _ w])
    with Pair f show ?thesis by (cases r) (simp_all add: bindM_def stays_def)
  qed
  then show ?thesis by (simp add: stays_def)
qed

lemma stays_finish:
  "st = RvPublished \<or> st = RvHeld \<Longrightarrow> fa_cost a' = fa_cost a \<Longrightarrow> fa_verdict a' = fa_verdict a \<Longrightarrow>
   stays (judged_with cx key a) (finish_pass en cx key st reason a')"
  unfolding stays_def using finish_pass_judges by blast

lemma establishes_stays:
  assumes "establishes Q m" "\<And>x. stays Q (f x)" shows "establishes Q (bindM m f)"
  unfolding establishes_def
proof (intro allI impI)
  fix w x w'
  assume "bindM m f w = (Inr x, w')"
  then obtain y w1 where y: "m w = (Inr y, w1)" "f y w1 = (Inr x, w')" by (rule bind_cases)
  with assms(1) have "Q (db_reviews (wd_db w1))" by (auto simp: establishes_def)
  with assms(2) [of y] y show "Q (db_reviews (wd_db w'))" by (auto simp: stays_def dest: spec [of _ w1])
qed

lemma after_publish_stays:
  "stays (judged_with cx key common) (after_publish en cx rc m key v fs common res)"
proof (cases res)
  case None
  then show ?thesis by (simp add: after_publish_def stays_keeps reviews.pure_ret)
next
  case (Some p)
  have tell: "stays (judged_with cx key common)
      (bindM (finish_pass en cx key RvPublished None (common\<lparr>fa_inline := Some n\<rparr>))
         (\<lambda>_. bindM (notify en cx rc m v fs) (\<lambda>_. tell_props en cx m ''posted'')))" for n
    by (intro stays_bind stays_finish stays_keeps reviews_messages) simp_all
  show ?thesis
    unfolding after_publish_def Some option.case whenM_def
    by (rule stays_bind) (cases "pb_posted p"; simp add: tell stays_keeps reviews.pure_ret)+
qed

lemma deliver_findings_judges:
  "establishes (judged_with cx key common) (deliver_findings en cx rc m key r b v fs common)"
proof -
  have publish: "preserves keeps_reviews (catchM
      (bindM (once_per en k (publish_review en cx v rc m body fs q login) q') (\<lambda>res. ret (Inr res)))
      (\<lambda>e. bindM (gave_up en cx rc m (detail e) (told e)) (\<lambda>out. ret (Inl out))))"
    for k body q q' login and detail told
    by (intro reviews.closed reviews_once_per publish_keeps reviews_messages)
  show ?thesis
    unfolding deliver_findings_def
    by (rule establishes_stays, rule finish_pass_establishes, simp_all,
        intro stays_bind stays_keeps [OF reviews_token] stays_keeps [OF publish])
      (auto intro: after_publish_stays stays_keeps [OF reviews.pure_ret] split: sum.splits)
qed

lemma deliver_judges:
  assumes "deliver en cx rc m key r ch w = (Inr out, w')" "rn_blocks r = Some b"
    and "parse_findings (en_loads en) (bl_inline b) = Inr fs"
  shows "judged_with cx key (common_args en r ch b fs) (db_reviews (wd_db w'))"
proof -
  let ?c = "common_args en r ch b fs"
  have held: "establishes (judged_with cx key ?c)
      (bindM (finish_pass en cx key RvHeld (Some reason) ?c) (\<lambda>_. gave_up en cx rc m detail told))"
    for reason detail told
    by (rule establishes_keep, rule finish_pass_establishes) (simp_all add: reviews_messages)
  have raise: "establishes (judged_with cx key ?c) (raiseM AssertionError :: outcome eff)"
    by (simp add: establishes_def raiseM_def)
  have "establishes (judged_with cx key ?c) (deliver en cx rc m key r ch)"
    unfolding deliver_def assms(2) option.case assms(3) Let_def
    using held deliver_ok_judges [of cx key ?c en rc m] deliver_findings_judges [of cx key ?c en rc m r b]
      raise
    by (auto simp: bindM_def liftE_def split: option.splits verdict.splits)
  with assms(1) show ?thesis by (auto simp: establishes_def)
qed

text \<open>
  C7: A delivery that returns has judged the row: unless nothing was to be published, the row
  of the review's key is published or held, so no later gate reviews the same request again,
  and it carries the run's cost and verdict, whatever failed while posting or telling.
\<close>

theorem deliver_records:
  assumes "deliver en cx rc m key r ch w = (Inr out, w')" "rn_blocks r = Some b"
    and "parse_findings (en_loads en) (bl_inline b) = Inr fs"
  shows "judged_with cx key (common_args en r ch b fs) (db_reviews (wd_db w'))"
  using deliver_judges [OF assms] .

section \<open>The way out that records nothing\<close>

text \<open>
  An approval is lost when GitHub cannot be read at the wrong moment: the labels are read
  before anything is recorded, that read is not guarded, and its failure leaves the database
  as it was, with the row still running and the run's cost nowhere in it, while the turn is
  reported as one that was skipped.
\<close>

theorem ok_delivery_lost:
  assumes "rn_blocks r = Some b" "bl_verdict b = Some Ok_verdict"
    and "parse_findings (en_loads en) (bl_inline b) = Inr fs"
    and "en_labels en (wd_trace w) (rc_slug rc) (pm_number m) = Inl (GhError s)"
  shows "wd_db (snd (deliver en cx rc m key r ch w)) = wd_db w \<and>
    fst (deliver en cx rc m key r ch w) = Inl (GhError s)"
proof -
  have "unusable b = None" using assms(2) by (simp add: unusable_def)
  then have d: "deliver en cx rc m key r ch w = deliver_ok en cx rc m key (common_args en r ch b fs) w"
    using assms(1-3) by (simp add: deliver_def bindM_def liftE_def)
  show ?thesis
    unfolding d using assms(4) by (simp add: deliver_ok_def clear_needs_work_def bindM_def ask_def)
qed

section \<open>Witnesses\<close>

definition sample_run :: "verdict option \<Rightarrow> review_run" where
  "sample_run v =
     \<lparr>rn_ok = True, rn_blocks = Some \<lparr>bl_verdict = v, bl_github = [], bl_inline = []\<rparr>, rn_text = [],
      rn_cost = Some 3, rn_tokens_in = Some 5, rn_tokens_out = Some 2, rn_duration = 60,
      rn_transcript = None, rn_error = None\<rparr>"

definition running_world :: world where
  "running_world =
     empty_world\<lparr>wd_db := start_review 0 (lit ''k'') (rc_slug sample_repo) 7 (lit ''h'') (lit ''t'') empty_db\<rparr>"

theorem deliver_records_witness:
  "judged_with sample_ctx (lit ''k'')
     (common_args sample_env_ok (sample_run None) default_choice
        \<lparr>bl_verdict = None, bl_github = [], bl_inline = []\<rparr> [])
     (db_reviews (wd_db (snd (deliver sample_env_ok sample_ctx sample_repo sample_meta (lit ''k'')
        (sample_run None) default_choice running_world))))"
proof -
  let ?b = "\<lparr>bl_verdict = None, bl_github = [], bl_inline = []\<rparr> :: blocks"
  let ?m = "deliver sample_env_ok sample_ctx sample_repo sample_meta (lit ''k'') (sample_run None) default_choice"
  have b: "rn_blocks (sample_run None) = Some ?b" by (simp add: sample_run_def)
  have f: "parse_findings (en_loads sample_env_ok) (bl_inline ?b) = Inr []" "parse_findings (en_loads sample_env_ok) [] = Inr []"
    by (simp_all add: parse_findings_def str_eval)
  have dm: "dm_owner sample_env_ok sample_ctx s w
      = (Inr True, w\<lparr>wd_trace := wd_trace w @ [Slack_post (lit ''U1'') s]\<rparr>)" for s w
    by (simp add: dm_owner_def slack_post_def sample_ctx_def sample_config_def quiet_def tell_def
        sample_env_ok_def sample_env_of_def)
  have props: "tell_props sample_env_ok sample_ctx sample_meta s w = (Inr (), w)" for s w
    by (simp add: tell_props_def report_def sample_ctx_def sample_config_def whenM_def ret_def)
  obtain out w' where r: "?m running_world = (Inr out, w')"
    by (simp add: deliver_def b bindM_def liftE_def f Let_def unusable_def finish_pass_def finish_def
        stamp_def gave_up_def dm props ret_def)
  from deliver_records [OF r b f(1)] r show ?thesis by simp
qed

theorem ok_delivery_lost_witness:
  "let en = sample_env_ok\<lparr>en_labels := \<lambda>tr r n. Inl (GhError [])\<rparr>;
       out = deliver en sample_ctx sample_repo sample_meta (lit ''k'') (sample_run (Some Ok_verdict))
               default_choice running_world
   in wd_db (snd out) = wd_db running_world \<and> fst out = Inl (GhError [])"
  unfolding Let_def
  by (rule ok_delivery_lost [where b = "\<lparr>bl_verdict = Some Ok_verdict, bl_github = [], bl_inline = []\<rparr>"
        and fs = "[]"])
    (simp_all add: sample_run_def parse_findings_def str_eval)

end
