(* ===== verification/Tick.thy ===== *)
theory Tick
  imports Delivery
begin

text \<open>
  The tick around the turns (\<open>src/robbie/orchestrator.py\<close>: \<open>poll_once\<close>, \<open>_seed\<close>,
  \<open>_retire_unlabeled\<close>, \<open>retract_stale_rejections\<close>, \<open>status\<close>) and the loop's decision to
  wait (\<open>main.py\<close>: \<open>_ticks\<close>). The tasks of a tick run one after another here, in the order
  they are created. The properties: what a quiet and a dry tick may do, what a tick keeps of
  the database, when a container may start at all, and why going straight round ends.
\<close>

section \<open>Cold start\<close>

definition seed_hold :: "env \<Rightarrow> repo_config \<Rightarrow> int \<Rightarrow> pr_meta \<Rightarrow> str \<Rightarrow> unit eff" where
  "seed_hold en rc pr m ra =
     stamp en (\<lambda>now_ms. record_hold now_ms (dedup_key (rc_slug rc) pr (pm_head_sha m) ra)
       (rc_slug rc) pr (pm_head_sha m) ra (lit ''backlog at cold start''))"

text \<open>The loop of \<open>_seed\<close>: whether it got through the whole list.\<close>

fun seed_prs :: "env \<Rightarrow> ctx \<Rightarrow> repo_config \<Rightarrow> int list \<Rightarrow> bool eff" where
  "seed_prs en cx rc [] = ret True"
| "seed_prs en cx rc (pr # prs) =
     bindM (catch_gh
        (bindM (ask ''meta'' (rc_slug rc) pr (\<lambda>tr. en_meta en tr (rc_slug rc) pr)) (\<lambda>m.
         bindM (ask ''request'' (rc_slug rc) pr (\<lambda>tr. en_request en tr (rc_slug rc) pr)) (\<lambda>ra.
           ret (Some (m, ra)))))
        (\<lambda>_. ret None)) (\<lambda>got.
     case got of
       None \<Rightarrow> ret False
     | Some q \<Rightarrow>
         bindM (whenM (\<not> cx_dry cx) (seed_hold en rc pr (fst q) (snd q))) (\<lambda>_.
           seed_prs en cx rc prs))"

definition seed_note :: "repo_config \<Rightarrow> int list \<Rightarrow> str" where
  "seed_note rc prs =
     (lit ''robbie is on for *'' @ rc_slug rc @ lit ''*. '' @ show_nat (length prs)
       @ lit '' PR(s) currently request '' @ rc_reviewer_login rc @ [39] @ lit ''s review with the ''
       @ [34] @ rc_label rc @ [34]
       @ lit '' label; I've noted them and will review *new* requests from here on. Run `robbie once ''
       @ lit ''--repo '' @ rc_slug rc @ lit '' --pr <n>` to go through one from the backlog.'')"

definition seed :: "env \<Rightarrow> ctx \<Rightarrow> repo_config \<Rightarrow> int list \<Rightarrow> unit eff" where
  "seed en cx rc prs =
     bindM (seed_prs en cx rc prs) (\<lambda>through.
       if \<not> through \<or> cx_dry cx then ret ()
       else bindM (stamp en (\<lambda>now_ms. mark_seeded now_ms (rc_slug rc))) (\<lambda>_.
            bindM (dm_owner en cx (seed_note rc prs)) (\<lambda>_. ret ())))"

section \<open>The sweep of the board\<close>

definition retire_unlabeled :: "env \<Rightarrow> ctx \<Rightarrow> repo_config \<Rightarrow> unit eff" where
  "retire_unlabeled en cx rc =
     bindM (catch_gh
        (bindM (ask ''labeled'' (rc_slug rc) 0 (\<lambda>tr. en_heads en tr (rc_slug rc))) (\<lambda>hs. ret (Some hs)))
        (\<lambda>_. ret None)) (\<lambda>got.
     case got of
       None \<Rightarrow> ret ()
     | Some heads \<Rightarrow>
         if length heads = QUEUE_LIMIT \<or> cx_dry cx then ret ()
         else
           bindM (modify (\<lambda>d. fst (settle_unlabeled (rc_slug rc) (dkeys heads) d))) (\<lambda>_.
           bindM (modify (\<lambda>d. fst (settle_stale (rc_slug rc) (map (\<lambda>h. (fst h, lp_head (snd h))) heads) d))) (\<lambda>_.
             modify (\<lambda>d. fst (unrequest (rc_slug rc)
               (map fst (filter (\<lambda>h. \<exists>n \<in> set (lp_labels (snd h)). n \<in> set (brake_labels rc)) heads)) d)))))"

section \<open>The backlog of contradicted rejections\<close>

definition contradicted :: "db \<Rightarrow> repo_config \<Rightarrow> int list \<Rightarrow> int list \<Rightarrow> int list" where
  "contradicted d rc vetoed only =
     (let both = sort (remdups (filter (\<lambda>p. p \<in> set (approved_prs d (rc_slug rc))) vetoed))
      in if only = [] then both else filter (\<lambda>p. p \<in> set only) both)"

definition retract_one :: "env \<Rightarrow> ctx \<Rightarrow> repo_config \<Rightarrow> int \<Rightarrow> outcome eff" where
  "retract_one en cx rc pr =
     catch_gh
       (bindM (dismiss_if_vetoed en cx rc pr) (\<lambda>detail.
          ret (outcome (rc_slug rc) pr Oc_retract
            (if blank_opt detail then (lit ''nothing of mine standing'') else opt_str detail))))
       (\<lambda>s. ret (outcome (rc_slug rc) pr Oc_failed (take 120 s)))"

definition retract_stale_rejections :: "env \<Rightarrow> ctx \<Rightarrow> repo_config \<Rightarrow> int list \<Rightarrow> outcome list eff" where
  "retract_stale_rejections en cx rc only =
     bindM (catch_gh
        (bindM (ask ''vetoed'' (rc_slug rc) 0 (\<lambda>tr. en_vetoed en tr (rc_slug rc))) (\<lambda>v. ret (Some v)))
        (\<lambda>_. ret None)) (\<lambda>got.
     case got of
       None \<Rightarrow> ret []
     | Some vetoed \<Rightarrow>
         bindM (gets (\<lambda>d. contradicted d rc vetoed only)) (\<lambda>prs. mapM (retract_one en cx rc) prs))"

section \<open>The tick\<close>

definition request :: "env \<Rightarrow> repo_config \<Rightarrow> int list \<Rightarrow> unit eff" where
  "request en rc prs =
     (\<lambda>w. let r = set_requested (ck_now (en_clock en (wd_trace w))) (rc_slug rc) prs (wd_db w)
          in (fst r, w\<lparr>wd_db := snd r\<rparr>))"

definition poll_repo :: "env \<Rightarrow> ctx \<Rightarrow> repo_config \<Rightarrow> outcome list eff" where
  "poll_repo en cx rc =
     bindM (catch_gh (bindM (candidates en rc) (\<lambda>prs. ret (Some prs))) (\<lambda>_. ret None)) (\<lambda>got.
     case got of
       None \<Rightarrow> ret []
     | Some prs \<Rightarrow>
         bindM (whenM (\<not> cx_dry cx) (request en rc prs)) (\<lambda>_.
         bindM (gets (\<lambda>d. is_seeded d (rc_slug rc))) (\<lambda>seeded.
           if \<not> seeded then bindM (seed en cx rc prs) (\<lambda>_. ret [])
           else bindM (retire_unlabeled en cx rc) (\<lambda>_. mapM (handle en cx rc) prs))))"

definition poll_once :: "env \<Rightarrow> ctx \<Rightarrow> outcome list eff" where
  "poll_once en cx =
     bindM clear_threads (\<lambda>_.
     bindM (meter_check en cx False) (\<lambda>v.
     bindM (if bv_allowed v then sweep en cx None [] else ret []) (\<lambda>answered.
     bindM (watch en cx) (\<lambda>watched.
     bindM (mapM (poll_repo en cx) (cfg_repos (cx_cfg cx))) (\<lambda>turns.
       ret (answered @ watched @ concat turns))))))"

text \<open>
  \<open>_ticks\<close>: after a tick that finished a review the loop goes straight round, unless nothing
  was to be published; otherwise it waits out the interval.
\<close>

definition goes_round :: "ctx \<Rightarrow> outcome list \<Rightarrow> bool" where
  "goes_round cx outs \<longleftrightarrow> (\<exists>oc \<in> set outs. oc_action oc = Oc_review) \<and> \<not> quiet cx"

section \<open>The queue as it is shown\<close>

definition pad_right :: "nat \<Rightarrow> str \<Rightarrow> str" where
  "pad_right n s = s @ replicate (n - length s) 32"

definition prior_mark :: "review_row option \<Rightarrow> bool \<Rightarrow> str" where
  "prior_mark prior judged =
     (case prior of
        None \<Rightarrow> if judged then ([8635] @ lit '' needs re-review (re-requested since last pass)'') else ([8226] @ lit '' not reviewed yet'')
      | Some r \<Rightarrow>
          (case rv_state r of
             RvHeld \<Rightarrow> ([9208] @ lit '' held '' @ [8212] @ lit '' '' @ opt_show (rv_hold r))
           | RvPublished \<Rightarrow> ([10003] @ lit '' reviewed ('' @ opt_show (map_option verdict_text (rv_verdict r)) @ lit '')'')
           | st \<Rightarrow> ([8230] @ lit '' '' @ state_text st)))"

definition status_mark :: "env \<Rightarrow> repo_config \<Rightarrow> int \<Rightarrow> pr_meta \<Rightarrow> str eff" where
  "status_mark en rc pr m =
     (case label_hold m rc of
        Some held \<Rightarrow> ret (([9940] @ lit '' '' @ dc_reason held))
      | None \<Rightarrow>
          (case done_label m rc of
             Some l \<Rightarrow> ret (([10003] @ lit '' '' @ l @ lit '' '' @ [8212] @ lit '' a human has it''))
           | None \<Rightarrow>
               bindM (requested_or_forced en (rc_slug rc) pr) (\<lambda>ra.
               bindM (gets (\<lambda>d. get_review d (dedup_key (rc_slug rc) pr (pm_head_sha m) ra))) (\<lambda>prior.
               bindM (gets (\<lambda>d. sha_was_judged d (rc_slug rc) pr (pm_head_sha m))) (\<lambda>judged.
                 ret (prior_mark prior judged))))))"

definition status_row :: "env \<Rightarrow> repo_config \<Rightarrow> int \<Rightarrow> str eff" where
  "status_row en rc pr =
     bindM (ask ''meta'' (rc_slug rc) pr (\<lambda>tr. en_meta en tr (rc_slug rc) pr)) (\<lambda>m.
     bindM (status_mark en rc pr m) (\<lambda>mark.
       ret ((lit ''  '' @ rc_slug rc @ lit ''#'' @ pad_right 6 (show_int pr) @ lit '' '' @ mark @ lit ''  ''
       @ [8212] @ lit '' '' @ take 60 (pm_title m)))))"

definition status :: "env \<Rightarrow> ctx \<Rightarrow> str list eff" where
  "status en cx =
     bindM (mapM (\<lambda>rc. bindM (candidates en rc) (\<lambda>prs. mapM (status_row en rc) prs)) (cfg_repos (cx_cfg cx)))
       (\<lambda>rows. ret (concat rows))"

section \<open>Closure\<close>

lemma request_safe [safe_intros]:
  "preserves (adds P) (request en rc prs)" "preserves db_evolves (request en rc prs)"
  by (simp_all add: preserves_def adds_def db_evolves_def request_def Let_def db_step.requested
      r_into_rtranclp)

lemma seed_hold_safe [safe_intros]:
  "preserves (adds P) (seed_hold en rc pr m ra)" "preserves db_evolves (seed_hold en rc pr m ra)"
  unfolding seed_hold_def by (intro safe_intros)+

lemma seed_prs_safe [safe_intros]:
  "behaves cx (seed_prs en cx rc prs)" "preserves db_evolves (seed_prs en cx rc prs)"
  by (induction prs) (simp_all add: adds.pure_ret evolves.pure_ret, (intro safe_intros; assumption?)+)

lemma seed_prs_keeps [safe_intros]: "cx_dry cx \<Longrightarrow> preserves keeps_db (seed_prs en cx rc prs)"
proof (induction prs)
  case (Cons pr prs)
  then show ?case unfolding seed_prs.simps by (intro safe_intros) simp_all
qed (simp add: keeps.pure_ret)

lemma seeded_evolves [safe_intros]:
  "preserves db_evolves (stamp en (\<lambda>now_ms. mark_seeded now_ms repo))"
  by (rule evolves_updates) (rule db_step.seeded)

lemma seed_safe [safe_intros]:
  "behaves cx (seed en cx rc prs)" "preserves db_evolves (seed en cx rc prs)"
  "cx_dry cx \<Longrightarrow> preserves keeps_db (seed en cx rc prs)"
  unfolding seed_def by (intro safe_intros; simp)+

lemma retire_safe [safe_intros]:
  "preserves (adds (permitted cx)) (retire_unlabeled en cx rc)"
  "preserves db_evolves (retire_unlabeled en cx rc)"
  "cx_dry cx \<Longrightarrow> preserves keeps_db (retire_unlabeled en cx rc)"
  unfolding retire_unlabeled_def
  by (intro safe_intros db_step.unlabeled db_step.stale db_step.unrequest; simp)+

lemma candidates_safe [safe_intros]:
  "behaves cx (candidates en rc)" "preserves keeps_db (candidates en rc)"
  "preserves db_evolves (candidates en rc)"
  unfolding candidates_def by (intro safe_intros)+

lemma poll_repo_safe [safe_intros]:
  "behaves cx (poll_repo en cx rc)" "preserves db_evolves (poll_repo en cx rc)"
  unfolding poll_repo_def by (intro safe_intros)+

lemma poll_repo_keeps [safe_intros]:
  assumes d: "cx_dry cx" shows "preserves keeps_db (poll_repo en cx rc)"
  unfolding poll_repo_def by (intro safe_intros d) (use d in simp)

lemma poll_once_behaves: "behaves cx (poll_once en cx)"
  unfolding poll_once_def by (intro safe_intros)

lemma poll_once_evolves: "preserves db_evolves (poll_once en cx)"
  unfolding poll_once_def by (intro safe_intros)

lemma poll_once_keeps: "cx_dry cx \<Longrightarrow> preserves keeps_db (poll_once en cx)"
  unfolding poll_once_def by (intro safe_intros)

section \<open>What a tick may do\<close>

text \<open>
  A tick keeps its promises about the outside, whatever GitHub, Slack and the containers
  answer: under --dry-run or --no-publish it writes nothing to the repositories and sends no
  message, and under --dry-run it starts no container either; what it already did stays done.
\<close>

theorem tick_is_quiet:
  "\<exists>es. wd_trace (snd (poll_once en cx w)) = wd_trace w @ es \<and> list_all (permitted cx) es"
  using poll_once_behaves [of cx en] by (simp add: preserves_def adds_def)

text \<open>
  A dry tick records nothing: no notice is spent, no row is held or retired, no
  repository is marked as seeded, so the next real tick finds everything to do as it was.
\<close>

theorem dry_tick_records_nothing:
  assumes "cx_dry cx"
  shows "wd_db (snd (poll_once en cx w)) = wd_db w"
  using poll_once_keeps [OF assms] by (simp add: preserves_def keeps_db_def)

theorem dry_tick_records_nothing_witness:
  "wd_db (snd (poll_once sample_env_ok (sample_ctx\<lparr>cx_dry := True\<rparr>) running_world)) = wd_db running_world"
  by (rule dry_tick_records_nothing) simp

text \<open>
  A tick that starts from a database the program can reach ends in one, with the
  invariant of the tables and with no container counted that was not counted before, on every
  path through it, those that end in an exception included.
\<close>

theorem tick_keeps_invariant:
  assumes "db_reach (wd_db w)"
  shows "db_reach (wd_db (snd (poll_once en cx w))) \<and> db_inv (wd_db (snd (poll_once en cx w))) \<and>
    wd_inflight (snd (poll_once en cx w)) = wd_inflight w"
proof -
  have e: "db_evolves w (snd (poll_once en cx w))"
    using poll_once_evolves [of en cx] by (simp add: preserves_def)
  from evolves_reach [OF e assms] have r: "db_reach (wd_db (snd (poll_once en cx w)))" .
  from r reach_inv [OF r] e show ?thesis by (simp add: db_evolves_def)
qed

lemma running_reached: "db_reach (wd_db running_world)"
  unfolding running_world_def by (simp, rule db_reach.step [OF db_reach.init db_step.start])

theorem tick_keeps_invariant_witness:
  "db_inv (wd_db (snd (poll_once sample_env_ok sample_ctx running_world)))"
  using tick_keeps_invariant [OF running_reached, of sample_env_ok sample_ctx] by simp

section \<open>When a container may start\<close>

text \<open>
  The policy in one place: what GitHub says of the pull request, read in the order of the
  gate, and what the database remembers of it.
\<close>

definition due :: "env \<Rightarrow> repo_config \<Rightarrow> int \<Rightarrow> world \<Rightarrow> bool" where
  "due en rc pr w \<longleftrightarrow>
     (let slug = rc_slug rc;
          tr1 = wd_trace w @ [Gh_read (lit ''meta'') slug pr];
          tr2 = tr1 @ [Gh_read (lit ''request'') slug pr]
      in case en_meta en (wd_trace w) slug pr of
           Inl e \<Rightarrow> False
         | Inr m \<Rightarrow>
             (case en_request en tr1 slug pr of
                Inl e \<Rightarrow> False
              | Inr ra \<Rightarrow>
                  (case en_threads en tr2 slug pr of
                     Inl e \<Rightarrow> False
                   | Inr got \<Rightarrow>
                       (\<forall>l \<in> set (brake_labels rc @ rc_done_labels rc). \<not> has_label m l) \<and>
                       (case get_review (wd_db w) (dedup_key slug pr (pm_head_sha m) ra) of
                          None \<Rightarrow> True
                        | Some r \<Rightarrow> rv_state r \<noteq> RvPublished \<and> rv_state r \<noteq> RvHeld) \<and>
                       \<not> sha_was_judged (wd_db w) slug pr (pm_head_sha m) \<and>
                       pm_changed_files m \<noteq> 0 \<and>
                       (\<forall>t \<in> set (pt_threads got). \<not> awaiting_author t) \<and>
                       failing_checks m (rc_ignore_checks rc) = [])))"

lemma evaluate_Review:
  assumes "dc_action (evaluate m rc sj n) = Review"
  shows "\<not> braked m rc \<and> pm_changed_files m \<noteq> 0 \<and> \<not> sj \<and> n = 0 \<and> failing_checks m (rc_ignore_checks rc) = []"
proof (cases "label_hold m rc")
  case (Some d)
  with assms evaluate_brake [OF Some] label_hold_Some [OF Some] show ?thesis by simp
next
  case None
  with assms show ?thesis
    by (simp add: evaluate_def mk_decision_def Let_def label_hold_None_iff split: if_splits)
qed

lemma gate_review_due:
  assumes "gate en cx rc pr w = (Inr (m, key, ra, dc), w')" "dc_action dc = Review"
  shows "due en rc pr w"
proof -
  let ?slug = "rc_slug rc"
  let ?tr1 = "wd_trace w @ [Gh_read (lit ''meta'') ?slug pr]"
  let ?tr2 = "?tr1 @ [Gh_read (lit ''request'') ?slug pr]"
  from assms(1) obtain m0 where m0: "en_meta en (wd_trace w) ?slug pr = Inr m0"
    by (auto simp: gate_def bindM_def ask_def split: sum.splits)
  have hold: "label_hold m0 rc = None"
  proof (cases "label_hold m0 rc")
    case (Some d)
    with assms m0 have "dc = d" by (simp add: gate_def bindM_def ask_def ret_def)
    with assms(2) label_hold_Some [OF Some] show ?thesis by simp
  qed
  have hand: "done_label m0 rc = None"
  proof (cases "done_label m0 rc")
    case (Some l)
    with assms m0 hold show ?thesis
      by (auto simp: gate_def bindM_def ask_def ret_def whenM_def modify_def mk_decision_def split: if_splits)
  qed
  from assms(1) m0 hold hand obtain r0 where r0: "en_request en ?tr1 ?slug pr = Inr r0"
    by (auto simp: gate_def bindM_def ask_def split: sum.splits)
  let ?key = "dedup_key ?slug pr (pm_head_sha m0) r0"
  have judged: "already_judged (map_option rv_state (get_review (wd_db w) ?key)) = None"
  proof (cases "already_judged (map_option rv_state (get_review (wd_db w) ?key))")
    case (Some d)
    with assms m0 hold hand r0 have "dc = d"
      by (simp add: gate_def bindM_def ask_def ret_def Let_def gets_def)
    with assms(2) already_judged_Skip [OF Some] show ?thesis by simp
  qed
  from assms(1) m0 hold hand r0 judged obtain got where got: "en_threads en ?tr2 ?slug pr = Inr got"
    by (auto simp: gate_def bindM_def ask_def gets_def Let_def split: sum.splits)
  from assms(1) m0 hold hand r0 judged got
  have "dc = evaluate m0 rc (sha_was_judged (wd_db w) ?slug pr (pm_head_sha m0))
      (length (filter awaiting_author (pt_threads got)))"
    by (auto simp: gate_def bindM_def ask_def gets_def cache_threads_def ret_def Let_def)
  with assms(2) have "dc_action (evaluate m0 rc (sha_was_judged (wd_db w) ?slug pr (pm_head_sha m0))
      (length (filter awaiting_author (pt_threads got)))) = Review" by simp
  from evaluate_Review [OF this]
  have "pm_changed_files m0 \<noteq> 0 \<and> \<not> sha_was_judged (wd_db w) ?slug pr (pm_head_sha m0) \<and>
      filter awaiting_author (pt_threads got) = [] \<and> failing_checks m0 (rc_ignore_checks rc) = []" by simp
  moreover have "\<forall>l \<in> set (brake_labels rc @ rc_done_labels rc). \<not> has_label m0 l"
    using hold hand by (auto simp: label_hold_None_iff braked_def done_label_iff)
  moreover have "case get_review (wd_db w) ?key of None \<Rightarrow> True
      | Some r \<Rightarrow> rv_state r \<noteq> RvPublished \<and> rv_state r \<noteq> RvHeld"
    using judged by (auto simp: already_judged_iff split: option.splits)
  ultimately show ?thesis
    unfolding due_def Let_def using m0 r0 got by (simp add: filter_empty_conv)
qed

text \<open>What a gate hands on is what GitHub said of the pull request, and a note only when a check fails.\<close>

lemma evaluate_Ci_note:
  "label_hold m rc = None \<Longrightarrow> dc_action (evaluate m rc sj n) = Ci_note \<Longrightarrow> failing_checks m (rc_ignore_checks rc) \<noteq> []"
  by (simp add: evaluate_def mk_decision_def Let_def split: if_splits)

lemma gate_facts:
  assumes "gate en cx rc pr w = (Inr (m, key, ra, dc), w')"
  shows "en_meta en (wd_trace w) (rc_slug rc) pr = Inr m \<and>
    (dc_action dc = Ci_note \<longrightarrow> failing_checks m (rc_ignore_checks rc) \<noteq> [])"
proof -
  from assms obtain m0 where m0: "en_meta en (wd_trace w) (rc_slug rc) pr = Inr m0"
    by (auto simp: gate_def bindM_def ask_def split: sum.splits)
  show ?thesis
  proof (cases "label_hold m0 rc")
    case (Some d)
    with assms m0 have "m = m0" "dc = d" by (simp_all add: gate_def bindM_def ask_def ret_def)
    with m0 label_hold_Some [OF Some] show ?thesis by simp
  next
    case hold: None
    show ?thesis
    proof (cases "done_label m0 rc")
      case (Some l)
      with assms m0 hold show ?thesis
        by (auto simp: gate_def bindM_def ask_def ret_def whenM_def modify_def mk_decision_def split: if_splits)
    next
      case None
      with assms m0 hold have "m = m0"
        by (auto simp: gate_def bindM_def ask_def gets_def cache_threads_def ret_def Let_def
            split: option.splits sum.splits)
      moreover have "dc_action dc = Ci_note \<longrightarrow> failing_checks m0 (rc_ignore_checks rc) \<noteq> []"
        using assms m0 hold None evaluate_Ci_note [OF hold] already_judged_Skip
        by (auto simp: gate_def bindM_def ask_def gets_def cache_threads_def ret_def Let_def
            split: option.splits sum.splits)
      ultimately show ?thesis using m0 by simp
    qed
  qed
qed

text \<open>A turn that may not review reads this pull request and sends messages.\<close>

definition turn_event :: "repo_config \<Rightarrow> int \<Rightarrow> event \<Rightarrow> bool" where
  "turn_event rc pr ev \<longleftrightarrow> is_message ev \<or>
     (\<exists>what \<in> {''meta'', ''request'', ''threads''}. ev = Gh_read (lit what) (rc_slug rc) pr)"

lemma gate_turn: "preserves (adds (turn_event rc pr)) (gate en cx rc pr)"
  unfolding gate_def Let_def by (intro safe_intros) (auto simp: turn_event_def)

text \<open>The note on a red build, if it goes out, and nothing after it.\<close>

definition red_note_event :: "repo_config \<Rightarrow> pr_meta \<Rightarrow> event \<Rightarrow> bool" where
  "red_note_event rc m ev \<longleftrightarrow>
     (\<exists>text. ev = Gh_comment (rc_slug rc) (pm_number m) (lit ''<!-- robbie-ci-red sha='' @ pm_head_sha m @ text))"

lemma ci_note_sent:
  "\<exists>es. wd_trace (snd (once_per en k (post_ci_note en cx rc m cs q) q w)) = wd_trace w @ es \<and>
     (es = [] \<or> \<not> q \<and> (\<exists>ev. es = [ev] \<and> red_note_event rc m ev))"
proof -
  have post: "\<exists>r es. post_ci_note en cx rc m cs q u = (r, u\<lparr>wd_trace := wd_trace u @ es\<rparr>) \<and>
      (es = [] \<or> \<not> q \<and> (\<exists>ev. es = [ev] \<and> red_note_event rc m ev))" for u
  proof (cases q)
    case True
    then show ?thesis by (intro exI [of _ "Inr (result False (lit ''dry run''))"] exI [of _ "[]"])
        (simp add: post_ci_note_def post_note_def ret_def)
  next
    case False
    then show ?thesis
      by (auto simp: post_ci_note_def post_note_def bindM_def perform_def ret_def red_note_event_def split: sum.splits)
  qed
  from post [of w] obtain r es where p: "post_ci_note en cx rc m cs q w = (r, w\<lparr>wd_trace := wd_trace w @ es\<rparr>)"
    "es = [] \<or> \<not> q \<and> (\<exists>ev. es = [ev] \<and> red_note_event rc m ev)" by blast
  show ?thesis
  proof (cases "\<not> q \<and> notice_seen (wd_db w) k")
    case True
    then show ?thesis by (intro exI [of _ "[]"]) (simp add: once_per_def bindM_def gets_def ret_def)
  next
    case False
    with p show ?thesis
      by (intro exI [of _ es], cases r)
        (auto simp: once_per_def bindM_def gets_def ret_def whenM_def alter_def Let_def)
  qed
qed

lemma act_turn:
  assumes "dc_action (snd (snd (snd g))) \<noteq> Review"
  shows "\<exists>es sent. wd_trace (snd (act en cx rc g w)) = wd_trace w @ es @ sent \<and> list_all (turn_event rc pr) es \<and>
    (sent = [] \<or> \<not> quiet cx \<and> dc_action (snd (snd (snd g))) = Ci_note \<and> (\<exists>ev. sent = [ev] \<and> red_note_event rc (fst g) ev))"
proof -
  obtain m key ra dc where g: "g = (m, key, ra, dc)" by (cases g)
  have msg: "is_message ev \<Longrightarrow> turn_event rc pr ev" for ev by (simp add: turn_event_def)
  have dm: "preserves (adds (turn_event rc pr)) (dm_owner_once en cx k s)" for k s
    unfolding dm_owner_once_def by (intro safe_intros dm_owner_adds msg)
  have no_note: ?thesis if "preserves (adds (turn_event rc pr)) (act en cx rc g)"
  proof -
    from that obtain es where "wd_trace (snd (act en cx rc g w)) = wd_trace w @ es" "list_all (turn_event rc pr) es"
      by (auto simp: preserves_def adds_def)
    then show ?thesis by (intro exI [of _ es] exI [of _ "[]"]) simp
  qed
  show ?thesis
  proof (cases "dc_action dc")
    case Ci_note
    let ?once = "once_per en (posted_key ''ci-red'' rc m) (post_ci_note en cx rc m (dc_checks dc) (quiet cx)) (quiet cx)"
    from ci_note_sent [of en "posted_key ''ci-red'' rc m" cx rc m "dc_checks dc" "quiet cx" w] obtain es where
      e: "wd_trace (snd (?once w)) = wd_trace w @ es"
      "es = [] \<or> \<not> quiet cx \<and> (\<exists>ev. es = [ev] \<and> red_note_event rc m ev)" by blast
    have "snd (act en cx rc g w) = snd (?once w)"
      using g Ci_note by (cases "?once w"; cases "fst (?once w)") (auto simp: act_def Let_def bindM_def ret_def)
    with e g Ci_note show ?thesis by (intro exI [of _ "[]"] exI [of _ es]) simp
  next
    case Skip
    then have "preserves (adds (turn_event rc pr)) (act en cx rc g)" using g by (simp add: act_def Let_def adds.pure_ret)
    then show ?thesis by (rule no_note)
  next
    case Hold
    then have "preserves (adds (turn_event rc pr)) (act en cx rc g)"
      using g by (simp add: act_def Let_def) (intro safe_intros dm)
    then show ?thesis by (rule no_note)
  qed (use assms g in simp)
qed

text \<open>
  C6: A container for a pull request is started only when it is due: no brake or hand-over
  label is on it, it changes files, neither this request nor this commit was judged before,
  no finding waits for its author and no check that counts is failing. Otherwise its turn, however
  it ends, reads this pull request and sends messages, and it writes to GitHub at most once: the
  note on a red build, on this pull request, when a check that counts does fail and the run is not
  a quiet one.
\<close>

theorem not_due_no_container:
  assumes "\<not> due en rc pr w"
  shows "\<exists>es sent. wd_trace (snd (handle en cx rc pr w)) = wd_trace w @ es @ sent \<and>
    list_all (\<lambda>ev. is_message ev \<or>
      (\<exists>what \<in> {''meta'', ''request'', ''threads''}. ev = Gh_read (lit what) (rc_slug rc) pr)) es \<and>
    (sent = [] \<or> \<not> quiet cx \<and> (\<exists>m text. en_meta en (wd_trace w) (rc_slug rc) pr = Inr m \<and>
       failing_checks m (rc_ignore_checks rc) \<noteq> [] \<and>
       sent = [Gh_comment (rc_slug rc) (pm_number m) (lit ''<!-- robbie-ci-red sha='' @ pm_head_sha m @ text)]))"
proof -
  obtain r w1 where g: "gate en cx rc pr w = (r, w1)" by (cases "gate en cx rc pr w")
  from preserves_result [OF g gate_turn] obtain es1 where 1: "wd_trace w1 = wd_trace w @ es1" "list_all (turn_event rc pr) es1"
    by (auto simp: adds_def)
  show ?thesis
  proof (cases r)
    case (Inl e)
    with g 1 show ?thesis
      by (intro exI [of _ es1] exI [of _ "[]"], cases e)
        (simp_all add: handle_def catchM_def bindM_def ret_def turn_event_def [abs_def])
  next
    case (Inr q)
    obtain m key ra dc where q: "q = (m, key, ra, dc)" by (cases q)
    with gate_review_due g Inr assms have "dc_action (snd (snd (snd q))) \<noteq> Review" by fastforce
    from act_turn [OF this, of en cx rc w1 pr] obtain es2 sent where
      2: "wd_trace (snd (act en cx rc q w1)) = wd_trace w1 @ es2 @ sent" "list_all (turn_event rc pr) es2"
      "sent = [] \<or> \<not> quiet cx \<and> dc_action dc = Ci_note \<and> (\<exists>ev. sent = [ev] \<and> red_note_event rc m ev)"
      using q by auto
    have "snd (handle en cx rc pr w) = snd (act en cx rc q w1)"
      using g Inr by (cases "act en cx rc q w1"; cases "fst (act en cx rc q w1)")
        (auto simp: handle_def catchM_def bindM_def ret_def split: exn.splits)
    with 1 2 gate_facts [OF g [unfolded Inr q]] show ?thesis
      by (intro exI [of _ "es1 @ es2"] exI [of _ sent]) (auto simp: turn_event_def [abs_def] red_note_event_def)
  qed
qed

theorem not_due_no_container_witness:
  "list_all (\<lambda>ev. \<not> is_run ev) (wd_trace (snd (handle
     (sample_env_ok\<lparr>en_meta := \<lambda>tr r n. Inr (sample_meta\<lparr>pm_labels := [lit ''approved'']\<rparr>)\<rparr>)
     sample_ctx sample_repo 7 empty_world)))"
proof -
  let ?en = "sample_env_ok\<lparr>en_meta := \<lambda>tr r n. Inr (sample_meta\<lparr>pm_labels := [lit ''approved'']\<rparr>)\<rparr>"
  have "\<not> due ?en sample_repo 7 empty_world"
    by (simp add: due_def Let_def sample_repo_def sample_env_ok_def sample_env_of_def has_label_def)
  from not_due_no_container [OF this, of sample_ctx] obtain es sent where
    t: "wd_trace (snd (handle ?en sample_ctx sample_repo 7 empty_world)) = es @ sent"
    "list_all (\<lambda>ev. is_message ev \<or>
      (\<exists>what \<in> {''meta'', ''request'', ''threads''}. ev = Gh_read (lit what) (rc_slug sample_repo) 7)) es"
    "sent = [] \<or> (\<exists>n s. sent = [Gh_comment (rc_slug sample_repo) n s])"
    by (auto simp: empty_world_def)
  have "\<not> is_run ev" if "is_message ev" for ev using that by (cases ev) simp_all
  with t show ?thesis unfolding t(1) by (auto simp: list_all_iff)
qed

end
