(* ===== verification/Progress.thy ===== *)
theory Progress
  imports Tick
begin

text \<open>
  Why the loop that goes straight round after a review comes to rest: a turn that ends in a
  review leaves its key judged, so the same pull request at the same commit and request is not
  due again, and a turn always ends.
\<close>

section \<open>The keys of the rows\<close>

definition keeps_keys :: "world \<Rightarrow> world \<Rightarrow> bool" where
  "keeps_keys w w' \<longleftrightarrow> map rv_key (db_reviews (wd_db w')) = map rv_key (db_reviews (wd_db w))"

interpretation row_keys: effect_relation keeps_keys
  by unfold_locales (simp_all add: keeps_keys_def)

lemma keys_reviews: "preserves keeps_reviews m \<Longrightarrow> preserves keeps_keys m"
  by (simp add: preserves_def keeps_reviews_def keeps_keys_def)

lemma keys_finish: "preserves keeps_keys (finish_pass en cx key st reason a)" "preserves keeps_keys (finish en key st a)"
proof -
  have "map rv_key (map (\<lambda>r. if rv_key r = key then finish_row t st a r else r) rows) = map rv_key rows"
    for t rows st a by (simp add: comp_def if_distrib finish_row_fields cong: if_cong)
  then have f: "preserves keeps_keys (finish en key st a)" for st a
    by (simp add: preserves_def keeps_keys_def finish_def stamp_def finish_review_def update_where_def)
  show "preserves keeps_keys (finish en key st a)" by (rule f)
  show "preserves keeps_keys (finish_pass en cx key st reason a)" unfolding finish_pass_def by (rule f)
qed

lemma reviews_asks:
  "preserves keeps_reviews (dm_owner_once en cx k s)"
  "preserves keeps_reviews (retract_rejection en cx rc m)"
  "preserves keeps_reviews (ask_for_ci en cx rc m)"
  "preserves keeps_reviews (clear_needs_work en rc pr dry)"
proof -
  have owner: "preserves keeps_reviews (dm_owner en cx s)" for s
    by (intro keeps_reviews_db messages_keep)
  have read: "preserves keeps_reviews (ask what repo n f)" for what repo n and f :: "trace \<Rightarrow> 'b res"
    by (intro keeps_reviews_db keeps_prims)
  show once: "preserves keeps_reviews (dm_owner_once en cx k s)" for k s
    unfolding dm_owner_once_def by (intro preserves_cases preserves_when reviews.closed reviews_once_key owner)
  show "preserves keeps_reviews (retract_rejection en cx rc m)"
    unfolding retract_rejection_def dismiss_if_vetoed_def
    by (intro preserves_cases reviews.closed once keeps_reviews_db [OF keeps_prims(4)]
        keeps_reviews_db [OF publish_keeps(2)])
  show "preserves keeps_reviews (ask_for_ci en cx rc m)"
    unfolding ask_for_ci_def ci_already_started_def
    by (intro preserves_cases reviews.closed owner keeps_reviews_db [OF keeps_prims(4)]
        reviews_once_per notes_keep)
  show "preserves keeps_reviews (clear_needs_work en rc pr dry)"
    by (intro keeps_reviews_db publish_keeps)
qed

text \<open>Of the reviews, a delivery touches what closing a pass touches.\<close>

context effect_relation begin

lemma deliver_by:
  assumes keeps: "\<And>w w'. keeps_reviews w w' \<Longrightarrow> R w w'"
    and finish: "\<And>st reason a. preserves R (finish_pass en cx key st reason a)"
  shows "preserves R (deliver en cx rc m key r ch)"
proof (cases "rn_blocks r")
  case None
  have "preserves keeps_reviews (deliver en cx rc m key r ch)"
    using None unfolding deliver_def by simp (intro reviews_messages)
  then show ?thesis using keeps by (simp add: preserves_def)
next
  case (Some b)
  have up: "preserves keeps_reviews c \<Longrightarrow> preserves R c" for c :: "unit eff"
    using keeps by (simp add: preserves_def)
  have up_text: "preserves keeps_reviews c \<Longrightarrow> preserves R c" for c :: "str eff"
    using keeps by (simp add: preserves_def)
  have up_login: "preserves keeps_reviews c \<Longrightarrow> preserves R c" for c :: "str option eff"
    using keeps by (simp add: preserves_def)
  have up_out: "preserves keeps_reviews c \<Longrightarrow> preserves R c" for c :: "outcome eff"
    using keeps by (simp add: preserves_def)
  have up_note: "preserves keeps_reviews c \<Longrightarrow> preserves R c" for c :: "publish_result eff"
    using keeps by (simp add: preserves_def)
  have up_once: "preserves keeps_reviews c \<Longrightarrow> preserves R c" for c :: "publish_result option eff"
    using keeps by (simp add: preserves_def)
  have asked: "preserves R (clear_needs_work en rc pr dry)" for pr dry
    by (rule up_note, rule reviews_asks)
  have ok: "preserves R (deliver_ok en cx rc m key common)" for common
    unfolding deliver_ok_def
    by (intro closed finish asked up [OF reviews_asks(2)] up_text [OF reviews_asks(3)]
        up [OF reviews_messages(3)] up [OF reviews_messages(4)])
  have publish: "preserves R (once_per en k (publish_review en cx v rc m body fs q login) q')"
    for k v body fs q q' login by (intro up_once reviews_once_per publish_keeps)
  have findings: "preserves R (deliver_findings en cx rc m key r b v fs common)" for v fs common
    unfolding deliver_findings_def after_publish_def
    by (intro preserves_cases sum_behaves preserves_when closed finish publish
        up_login [OF reviews_token] up [OF reviews_messages(2)]
        up [OF reviews_messages(4)] up_out [OF reviews_messages(5)])
  show ?thesis
    unfolding deliver_def Some option.case Let_def
    by (intro bind pure_lift deliver_cases ok findings finish up_out [OF reviews_messages(5)] pure_raise)
qed

end

lemma keys_deliver: "preserves keeps_keys (deliver en cx rc m key r ch)"
  by (rule row_keys.deliver_by) (simp_all add: keeps_keys_def keeps_reviews_def keys_finish)

section \<open>A review leaves its key judged\<close>

definition judged_key :: "db \<Rightarrow> str \<Rightarrow> bool" where
  "judged_key d key \<longleftrightarrow> already_judged (map_option rv_state (get_review d key)) \<noteq> None"

lemma judged_key_iff:
  "judged_key d key \<longleftrightarrow>
     (\<exists>r. get_review d key = Some r \<and> (rv_state r = RvPublished \<or> rv_state r = RvHeld))"
  by (auto simp: judged_key_def already_judged_def split: if_splits)

lemma judged_with_key:
  assumes "judged_with cx key a (db_reviews d)" "\<not> cx_no_publish cx" "key \<in> rv_key ` set (db_reviews d)"
  shows "judged_key d key"
proof -
  from assms(3) obtain r where r: "get_review d key = Some r"
    unfolding get_review_def
    by (cases "find_first (\<lambda>r. rv_key r = key) (db_reviews d)") (auto simp: find_first_None_iff)
  then have "r \<in> set (db_reviews d)" "rv_key r = key"
    unfolding get_review_def by (auto dest: find_first_SomeD)
  with assms(1,2) r show ?thesis by (auto simp: judged_key_iff judged_with_def)
qed

lemma gave_up_failed: "gave_up en cx rc m detail told w = (Inr out, w') \<Longrightarrow> oc_action out = Oc_failed"
  unfolding gave_up_def by (auto elim!: bind_cases simp: ret_def outcome_def)

lemma deliver_review_judges:
  assumes "deliver en cx rc m key r ch w = (Inr out, w')" "oc_action out = Oc_review" "\<not> cx_no_publish cx"
    and "key \<in> rv_key ` set (db_reviews (wd_db w))"
  shows "judged_key (wd_db w') key"
proof (cases "rn_blocks r")
  case None
  with assms(1,2) gave_up_failed show ?thesis by (fastforce simp: deliver_def)
next
  case (Some b)
  from assms(1) obtain fs where fs: "parse_findings (en_loads en) (bl_inline b) = Inr fs"
    unfolding deliver_def Some option.case by (elim bind_cases) (auto simp: liftE_def)
  have "keeps_keys w w'" using preserves_result [OF assms(1) keys_deliver] .
  with assms(4) have "key \<in> rv_key ` set (db_reviews (wd_db w'))"
    unfolding keeps_keys_def by (metis image_set)
  with judged_with_key deliver_judges [OF assms(1) Some fs] assms(3) show ?thesis by blast
qed

lemma with_slot_result:
  assumes "with_slot en cx key use w = (Inr x, w')"
  obtains s w1 w2 where "use s w1 = (Inr x, w2)" "wd_db w' = wd_db w2"
proof -
  let ?body = "\<lambda>cv. if \<not> bv_allowed (snd cv)
      then use \<lparr>st_ok = False, st_detail = bv_detail (snd cv), st_choice = default_choice\<rparr>
      else finallyM (use \<lparr>st_ok = True, st_detail = bv_detail (snd cv), st_choice = fst cv\<rparr>)
             (inflight (\<lambda>n. n - 1))"
  from assms obtain cv u where "bindM (whenM (bv_allowed (snd cv)) (inflight Suc))
      (\<lambda>_. bindM (tell_owner en cx (snd cv)) (\<lambda>_. ?body cv)) u = (Inr x, w')"
    unfolding with_slot_def by (rule bind_cases)
  then obtain v where "bindM (tell_owner en cx (snd cv)) (\<lambda>_. ?body cv) v = (Inr x, w')" by (rule bind_cases)
  then obtain w1 where "?body cv w1 = (Inr x, w')" by (rule bind_cases)
  then show ?thesis
    using that by (auto simp: finallyM_def inflight_def split: if_splits prod.splits)
qed

lemma start_has_key:
  "key \<in> rv_key ` set (db_reviews (start_review now_ms key repo pr head ra d))"
  "\<forall>row \<in> set (db_reviews (start_review now_ms key repo pr head ra d)). rv_key row = key \<longrightarrow> rv_cost row = None"
  by (auto simp: start_review_def insert_or_replace_def new_row_def Let_def)

lemma run_in_slot_starts:
  assumes "run_in_slot en cx rc m key ra prompt s w = (Inr (Inr cr), w')"
  shows "key \<in> rv_key ` set (db_reviews (wd_db w'))"
    "\<forall>row \<in> set (db_reviews (wd_db w')). rv_key row = key \<longrightarrow> rv_cost row = None"
proof -
  let ?rest = "bindM (tell_props en cx m ''reviewing'') (\<lambda>_.
      bindM (run_review en cx rc (On_pr m) prompt REVIEW (ch_model (st_choice s)) (ch_via_endpoint (st_choice s)))
        (\<lambda>r. ret (Inr (st_choice s, r) :: str + choice \<times> review_run)))"
  let ?start = "stamp en (\<lambda>now_ms. start_review now_ms key (rc_slug rc) (pm_number m) (pm_head_sha m) ra)"
  from assms have "bindM ?start (\<lambda>_. ?rest) w = (Inr (Inr cr), w')"
    by (auto simp: run_in_slot_def ret_def split: if_splits)
  then obtain w1 where w1: "?start w = (Inr (), w1)" "?rest w1 = (Inr (Inr cr), w')"
    by (rule bind_cases) simp
  have "preserves keeps_reviews ?rest"
    by (intro reviews.closed reviews_messages keeps_reviews_db [OF run_review_keeps])
  with w1(2) have "keeps_reviews w1 w'" by (rule preserves_result)
  with w1(1) have "db_reviews (wd_db w') = db_reviews (start_review (ck_now (en_clock en (wd_trace w))) key
      (rc_slug rc) (pm_number m) (pm_head_sha m) ra (wd_db w))"
    by (auto simp: keeps_reviews_def stamp_def)
  with start_has_key show "key \<in> rv_key ` set (db_reviews (wd_db w'))"
    "\<forall>row \<in> set (db_reviews (wd_db w')). rv_key row = key \<longrightarrow> rv_cost row = None" by simp_all
qed

text \<open>
  When a finished run leaves its slot its reservation is gone and its cost is written nowhere yet:
  a run admitted between the two is let in on a figure that leaves the finished one out.
\<close>

theorem slot_freed_before_cost:
  assumes "with_slot en cx (Some key) (run_in_slot en cx rc m key ra prompt) w = (Inr (Inr cr), w')"
  shows "wd_inflight w' = wd_inflight w \<and>
    (\<forall>row \<in> set (db_reviews (wd_db w')). rv_key row = key \<longrightarrow> rv_cost row = None)"
proof -
  have "preserves db_evolves (with_slot en cx (Some key) (run_in_slot en cx rc m key ra prompt))"
    by (rule with_slot_evolves) (rule run_in_slot_safe)
  with assms have "db_evolves w w'" by (rule preserves_result)
  moreover from assms obtain s u v where
    "run_in_slot en cx rc m key ra prompt s u = (Inr (Inr cr), v)" "wd_db w' = wd_db v" by (rule with_slot_result)
  ultimately show ?thesis using run_in_slot_starts(2) by (auto simp: db_evolves_def)
qed

lemma review_judges:
  assumes "\<not> quiet cx" "review_pr en cx rc m key ra w = (Inr out, w')" "oc_action out = Oc_review"
  shows "judged_key (wd_db w') key"
proof -
  have q: "\<not> cx_dry cx" "\<not> cx_no_publish cx" using assms(1) by (simp_all add: quiet_def)
  from assms(2) q obtain ts history came w1 w2 where
    slot: "with_slot en cx (Some key) (run_in_slot en cx rc m key ra
        (preamble (pm_author m) (Some (summarize_checks m)) (threads_block (bot cx) ts) history)) w1
      = (Inr came, w2)"
    and tail: "(case came of
          Inl detail \<Rightarrow> ret (outcome (rc_slug rc) (pm_number m) Oc_budget detail)
        | Inr cr \<Rightarrow>
            if \<not> rn_ok (snd cr) then failed_review en cx rc m key (snd cr) (fst cr)
            else deliver en cx rc m key (snd cr) (fst cr)) w2 = (Inr out, w')"
    unfolding review_pr_def Let_def by (auto elim!: bind_cases)
  show ?thesis
  proof (cases came)
    case (Inl detail)
    with tail assms(3) show ?thesis by (auto simp: ret_def outcome_def)
  next
    case (Inr cr)
    from slot obtain s u v where use: "run_in_slot en cx rc m key ra
        (preamble (pm_author m) (Some (summarize_checks m)) (threads_block (bot cx) ts) history) s u
        = (Inr came, v)" "wd_db w2 = wd_db v" by (rule with_slot_result)
    with Inr run_in_slot_starts(1) have row: "key \<in> rv_key ` set (db_reviews (wd_db w2))" by metis
    show ?thesis
    proof (cases "rn_ok (snd cr)")
      case True
      with tail Inr deliver_review_judges row assms(3) q(2) show ?thesis by fastforce
    next
      case False
      with tail Inr have "failed_review en cx rc m key (snd cr) (fst cr) w2 = (Inr out, w')" by simp
      then have "oc_action out = Oc_failed"
        unfolding failed_review_def by (elim bind_cases) (rule gave_up_failed)
      with assms(3) show ?thesis by simp
    qed
  qed
qed

section \<open>A turn that ends in a review is over\<close>

lemma act_review:
  assumes "act en cx rc (m, key, ra, dc) w = (Inr out, w')" "oc_action out = Oc_review"
  shows "dc_action dc = Review \<and> review_pr en cx rc m key ra w = (Inr out, w')"
  using assms
  by (cases "dc_action dc") (auto simp: act_def Let_def ret_def outcome_def elim!: bind_cases)

lemma gate_review_key:
  assumes "gate en cx rc pr w = (Inr (m, key, ra, dc), w')" "dc_action dc = Review"
  shows "en_meta en (wd_trace w) (rc_slug rc) pr = Inr m \<and>
    en_request en (wd_trace w @ [Gh_read (lit ''meta'') (rc_slug rc) pr]) (rc_slug rc) pr = Inr ra \<and>
    key = dedup_key (rc_slug rc) pr (pm_head_sha m) ra"
proof -
  from gate_review_due [OF assms] obtain m0 r0 where
    0: "en_meta en (wd_trace w) (rc_slug rc) pr = Inr m0"
    "en_request en (wd_trace w @ [Gh_read (lit ''meta'') (rc_slug rc) pr]) (rc_slug rc) pr = Inr r0"
    "\<forall>l \<in> set (brake_labels rc @ rc_done_labels rc). \<not> has_label m0 l"
    by (auto simp: due_def Let_def split: sum.splits)
  then have "label_hold m0 rc = None" "done_label m0 rc = None"
    by (auto simp: label_hold_None_iff braked_def done_label_iff)
  with assms 0 show ?thesis
    by (auto simp: gate_def bindM_def ask_def gets_def cache_threads_def ret_def Let_def
        split: option.splits sum.splits)
qed

lemma handle_review_path:
  assumes "handle en cx rc pr w = (Inr out, w')" "oc_action out = Oc_review"
  obtains m ra wg where "en_meta en (wd_trace w) (rc_slug rc) pr = Inr m"
    "en_request en (wd_trace w @ [Gh_read (lit ''meta'') (rc_slug rc) pr]) (rc_slug rc) pr = Inr ra"
    "due en rc pr w" "wg = snd (gate en cx rc pr w)"
    "review_pr en cx rc m (dedup_key (rc_slug rc) pr (pm_head_sha m) ra) ra wg = (Inr out, w')"
proof -
  have "bindM (gate en cx rc pr) (act en cx rc) w = (Inr out, w')"
    using assms by (auto simp: handle_def catchM_def ret_def outcome_def split: prod.splits sum.splits exn.splits)
  then obtain m key ra dc w1 where g: "gate en cx rc pr w = (Inr (m, key, ra, dc), w1)"
    and a: "act en cx rc (m, key, ra, dc) w1 = (Inr out, w')"
    by (elim bind_cases) (metis prod.collapse)
  from act_review [OF a assms(2)] have r: "dc_action dc = Review" "review_pr en cx rc m key ra w1 = (Inr out, w')"
    by simp_all
  from g gate_review_key [OF g r(1)] gate_review_due [OF g r(1)] r that show ?thesis by simp
qed

section \<open>A quiet pass judges nothing\<close>

definition judges_nothing :: "world \<Rightarrow> world \<Rightarrow> bool" where
  "judges_nothing w w' \<longleftrightarrow>
     (\<forall>key. judged_key (wd_db w') key \<longrightarrow> judged_key (wd_db w) key) \<and>
     (\<forall>repo pr head. sha_was_judged (wd_db w') repo pr head \<longrightarrow> sha_was_judged (wd_db w) repo pr head)"

interpretation unjudged: effect_relation judges_nothing
  by unfold_locales (simp_all add: judges_nothing_def)

lemma unjudged_reviews: "keeps_reviews w w' \<Longrightarrow> judges_nothing w w'"
  by (simp add: keeps_reviews_def judges_nothing_def judged_key_def get_review_def sha_was_judged_def)

lemma unjudged_keep: "preserves keeps_reviews m \<Longrightarrow> preserves judges_nothing m"
  using unjudged_reviews by (simp add: preserves_def)

lemma unjudged_finish:
  "preserves judges_nothing (finish en key RvFailed a)"
  "cx_no_publish cx \<Longrightarrow> preserves judges_nothing (finish_pass en cx key st reason a)"
proof -
  have "judged_key (finish_review t key RvFailed a d) k \<Longrightarrow> judged_key d k" for t a d k
    by (auto simp: judged_key_iff finish_review_def get_update_where finish_row_fields split: if_splits)
  moreover have "sha_was_judged (finish_review t key RvFailed a d) repo pr head \<Longrightarrow> sha_was_judged d repo pr head"
    for t a d repo pr head
    by (auto simp: sha_was_judged_def finish_review_def update_where_def finish_row_fields split: if_splits)
  ultimately have f: "preserves judges_nothing (finish en key RvFailed a)" for a
    by (simp add: preserves_def judges_nothing_def finish_def stamp_def)
  then show "preserves judges_nothing (finish en key RvFailed a)" .
  from f show "cx_no_publish cx \<Longrightarrow> preserves judges_nothing (finish_pass en cx key st reason a)"
    by (simp add: finish_pass_def pass_state_def)
qed

lemma unjudged_start:
  "preserves judges_nothing (stamp en (\<lambda>now_ms. start_review now_ms key repo pr head ra))"
proof -
  have "judged_key (start_review t key repo pr head ra d) k \<Longrightarrow> judged_key d k" for t d k
    by (auto simp: judged_key_iff start_review_def get_insert_or_replace [where k = key] new_row_def split: if_splits)
  moreover have "sha_was_judged (start_review t key repo pr head ra d) r n h \<Longrightarrow> sha_was_judged d r n h" for t d r n h
    by (auto simp: sha_was_judged_def start_review_def insert_or_replace_def new_row_def Let_def)
  ultimately show ?thesis by (simp add: preserves_def judges_nothing_def stamp_def)
qed

lemma unjudged_gate: "preserves judges_nothing (gate en cx rc pr)"
proof -
  have "judged_key (fst (settle_done repo n d)) k \<Longrightarrow> judged_key d k" for repo n d k
    by (auto simp: judged_key_iff settle_done_def Let_def get_update_where split: if_splits)
  moreover have "sha_was_judged (fst (settle_done repo n d)) r p h \<Longrightarrow> sha_was_judged d r p h" for repo n d r p h
    by (auto simp: sha_was_judged_def settle_done_def Let_def update_where_def split: if_splits)
  ultimately have "preserves judges_nothing (modify (\<lambda>d. fst (settle_done repo n d)))" for repo n
    by (simp add: preserves_def judges_nothing_def modify_def)
  then show ?thesis
    unfolding gate_def Let_def
    by (intro preserves_cases preserves_when unjudged.closed unjudged_keep [OF keeps_reviews_db [OF keeps_prims(4)]]
        unjudged_keep [OF keeps_reviews_db [OF small_safe(6)]])
qed

lemma unjudged_slot:
  assumes "\<And>s. preserves judges_nothing (use s)" shows "preserves judges_nothing (with_slot en cx key use)"
proof -
  have "preserves keeps_reviews (tell_owner en cx v)" for v
    unfolding tell_owner_def by (intro preserves_cases reviews.closed reviews_asks)
  then show ?thesis
    unfolding with_slot_def
    by (intro preserves_cases preserves_when unjudged.bind unjudged.ending unjudged.pure_ret assms
        unjudged_keep [OF keeps_reviews_db [OF preserves_meter(5)]]
        unjudged_keep [OF keeps_reviews_db [OF preserves_inflight(2)]] unjudged_keep)
qed

lemma unjudged_review:
  assumes "quiet cx" shows "preserves judges_nothing (review_pr en cx rc m key ra)"
proof (cases "cx_dry cx")
  case True
  then show ?thesis by (simp add: review_pr_def unjudged.pure_ret)
next
  case False
  with assms have q: "cx_no_publish cx" by (simp add: quiet_def)
  have run: "preserves judges_nothing (run_in_slot en cx rc m key ra prompt s)" for prompt s
    unfolding run_in_slot_def
    by (intro preserves_cases unjudged.closed unjudged_start unjudged_keep [OF reviews_messages(4)]
        unjudged_keep [OF keeps_reviews_db [OF run_review_keeps]])
  have "preserves keeps_reviews (stamp en (\<lambda>now_ms. record_spend now_ms repo pr src cost dur))" for repo pr src cost dur
    by (simp add: preserves_def keeps_reviews_def stamp_def record_spend_def)
  then have failed: "preserves judges_nothing (failed_review en cx rc m key r ch)" for r ch
    unfolding failed_review_def
    by (intro unjudged.closed unjudged_finish unjudged_keep reviews_messages)
  have "preserves judges_nothing (deliver en cx rc m key r ch)" for r ch
    by (rule unjudged.deliver_by [OF unjudged_reviews unjudged_finish(2) [OF q]])
  with run failed show ?thesis
    unfolding review_pr_def Let_def
    by (intro preserves_cases sum_behaves unjudged.closed unjudged_slot
        unjudged_keep [OF keeps_reviews_db [OF prior_threads_safe(2)]])
qed

text \<open>
  C5: a turn that ends in a review is repeated in a quiet run and only there. Otherwise the
  database it leaves behind makes the same pull request, with the same head commit and the same
  request, no longer due, whatever else GitHub says of it by then, so a loop that goes straight
  round after a review starts no second container for it. A dry run and one that publishes
  nothing leave the key unjudged on purpose: if GitHub answers as it did, the pull request is
  due again, and that is why the loop never goes straight round there.
\<close>

theorem reviewed_is_not_due_again:
  assumes "handle en cx rc pr w = (Inr out, w1)" "oc_action out = Oc_review" "wd_db w2 = wd_db w1"
    and "en_meta en (wd_trace w) (rc_slug rc) pr = Inr m" "en_meta en (wd_trace w2) (rc_slug rc) pr = Inr m2"
    and "pm_head_sha m2 = pm_head_sha m"
    and "en_request en (wd_trace w2 @ [Gh_read (lit ''meta'') (rc_slug rc) pr]) (rc_slug rc) pr =
         en_request en (wd_trace w @ [Gh_read (lit ''meta'') (rc_slug rc) pr]) (rc_slug rc) pr"
  shows "(\<not> quiet cx \<longrightarrow> \<not> due en rc pr w2) \<and>
    (quiet cx \<and> m2 = m \<and>
     en_threads en (wd_trace w2 @ [Gh_read (lit ''meta'') (rc_slug rc) pr, Gh_read (lit ''request'') (rc_slug rc) pr])
       (rc_slug rc) pr =
     en_threads en (wd_trace w @ [Gh_read (lit ''meta'') (rc_slug rc) pr, Gh_read (lit ''request'') (rc_slug rc) pr])
       (rc_slug rc) pr \<longrightarrow>
     due en rc pr w2 \<and> (\<forall>outs. \<not> goes_round cx outs))"
proof -
  obtain ra wg where
    k: "en_request en (wd_trace w @ [Gh_read (lit ''meta'') (rc_slug rc) pr]) (rc_slug rc) pr = Inr ra"
    "due en rc pr w" "wg = snd (gate en cx rc pr w)"
    "review_pr en cx rc m (dedup_key (rc_slug rc) pr (pm_head_sha m) ra) ra wg = (Inr out, w1)"
    by (rule handle_review_path [OF assms(1,2)]) (use assms(4) in simp)
  have "\<not> due en rc pr w2" if "\<not> quiet cx"
  proof -
    from review_judges [OF that k(4) assms(2)] obtain row where
      "get_review (wd_db w2) (dedup_key (rc_slug rc) pr (pm_head_sha m2) ra) = Some row"
      "rv_state row = RvPublished \<or> rv_state row = RvHeld"
      unfolding judged_key_iff assms(3) assms(6) by blast
    with k(1) assms(5,7) show ?thesis by (auto simp: due_def Let_def split: sum.splits)
  qed
  moreover have "due en rc pr w2"
    if "quiet cx" "m2 = m" "en_threads en (wd_trace w2 @ [Gh_read (lit ''meta'') (rc_slug rc) pr,
        Gh_read (lit ''request'') (rc_slug rc) pr]) (rc_slug rc) pr =
      en_threads en (wd_trace w @ [Gh_read (lit ''meta'') (rc_slug rc) pr,
        Gh_read (lit ''request'') (rc_slug rc) pr]) (rc_slug rc) pr"
  proof -
    have "judges_nothing w wg" using unjudged_gate [of en cx rc pr] k(3) by (simp add: preserves_def)
    moreover have "judges_nothing wg w1" using preserves_result [OF k(4) unjudged_review [OF that(1)]] .
    ultimately have none: "judges_nothing w w1" by (rule unjudged.trans)
    have free: "(case get_review d key of None \<Rightarrow> True | Some r \<Rightarrow> rv_state r \<noteq> RvPublished \<and> rv_state r \<noteq> RvHeld)
        \<longleftrightarrow> \<not> judged_key d key" for d key by (auto simp: judged_key_iff split: option.splits)
    from k(2) none show ?thesis
      unfolding due_def Let_def free assms(3,5,7) assms(4) that(2)
      using that(3) k(1) by (auto simp: judges_nothing_def split: sum.splits)
  qed
  ultimately show ?thesis by (simp add: goes_round_def)
qed

section \<open>A turn that approves\<close>

text \<open>An outside in which the model answers \<open>ok\<close> and every call succeeds.\<close>

definition approval_text :: str where
  "approval_text = join [NL] [marker (lit ''VERDICT''), lit ''ok'', END_MARK]"

definition approving_env :: env where
  "approving_env =
     sample_env_ok\<lparr>en_run := \<lambda>tr ev. Ended 0 [] [],
       en_loads := \<lambda>s. Inr (JObj [(lit ''result'', JStr approval_text)])\<rparr>"

lemma approval_scan:
  "block_of approval_text (lit ''VERDICT'') = lit ''ok''" "block_of approval_text (lit ''INLINE'') = []"
proof -
  let ?v = "lit ''VERDICT''" and ?i = "lit ''INLINE''"
  let ?ls = "[marker ?v, lit ''ok'', END_MARK]"
  have ls: "split_on NL (join [NL] ?ls) = ?ls"
    by (rule split_on_join) (auto simp: marker_def END_MARK_def lit_def)
  have v: "scan ?v ?ls = [strip (join [NL] [lit ''ok''])]"
    using scan_block [of ?v "marker ?v" "[lit ''ok'']" END_MARK "[]"]
    by (simp add: opens_def closes_def marker_def END_MARK_def lit_def startswith_def)
  have "opens ?i l = False" if "l \<in> set ?ls" for l
    using that by (auto simp: opens_def marker_def END_MARK_def lit_def startswith_def)
  then have i: "scan ?i ?ls = []" by (simp add: scan_none list_all_iff)
  show "block_of approval_text ?v = lit ''ok''" "block_of approval_text ?i = []"
    using block_scan [of ?v approval_text] block_scan [of ?i approval_text] ls v i
    unfolding approval_text_def
    by (simp_all add: last_or_def lit_def strip_p_def lstrip_p_def rstrip_p_def is_space_def)
qed

lemma approval_blocks:
  "bl_verdict (parse_blocks approval_text) = Some Ok_verdict" "bl_inline (parse_blocks approval_text) = []"
proof -
  have "strip (lit ''ok'') = lit ''ok''" "letters_only (lower (lit ''ok'')) = lit ''ok''"
    by (simp_all add: lit_def strip_p_def lstrip_p_def rstrip_p_def is_space_def letters_only_def
        lower_def lower_cp_def)
  moreover have "map_of verdict_table (lit ''ok'') = Some Ok_verdict"
    by (simp add: verdict_table_def lit_def)
  ultimately show "bl_verdict (parse_blocks approval_text) = Some Ok_verdict"
    "bl_inline (parse_blocks approval_text) = []"
    by (simp_all add: parse_blocks_def approval_scan)
qed

definition yields :: "('a \<Rightarrow> bool) \<Rightarrow> 'a eff \<Rightarrow> bool" where
  "yields Q m \<longleftrightarrow> (\<forall>w. \<exists>x w'. m w = (Inr x, w') \<and> Q x)"

lemma yields_bind: "yields P m \<Longrightarrow> (\<And>x. P x \<Longrightarrow> yields Q (f x)) \<Longrightarrow> yields Q (bindM m f)"
proof -
  assume m: "yields P m" and f: "\<And>x. P x \<Longrightarrow> yields Q (f x)"
  have "\<exists>y w'. bindM m f w = (Inr y, w') \<and> Q y" for w
  proof -
    from m obtain x w1 where x: "m w = (Inr x, w1)" "P x" by (auto simp: yields_def dest: spec [of _ w])
    with f have "\<exists>y w'. f x w1 = (Inr y, w') \<and> Q y" by (auto simp: yields_def)
    with x(1) show ?thesis by (simp add: bindM_def)
  qed
  then show ?thesis by (simp add: yields_def)
qed

lemma yields_after: "returns m \<Longrightarrow> (\<And>x. yields Q (f x)) \<Longrightarrow> yields Q (bindM m f)"
  by (rule yields_bind [where P = "\<lambda>_. True"]) (auto simp: returns_def yields_def, metis prod.collapse)

lemma yields_ret: "Q x \<Longrightarrow> yields Q (ret x)"
  by (simp add: yields_def ret_def)

lemma returns_more:
  "returns (stamp en g)" "(\<And>tr. \<exists>x. f tr = Inr x) \<Longrightarrow> returns (ask what repo n f)"
  "(\<And>tr. \<exists>x. en_write en tr ev = Inr x) \<Longrightarrow> returns (perform en ev)"
  by (auto simp: returns_def stamp_def ask_def perform_def)

lemma returns_catch: "returns m \<Longrightarrow> returns (catch_gh m h)"
proof -
  assume m: "returns m"
  have "\<exists>x. fst (catch_gh m h w) = Inr x" for w
  proof -
    from m obtain x where "fst (m w) = Inr x" by (auto simp: returns_def)
    then show ?thesis by (cases "m w") (simp add: catch_gh_def catchM_def)
  qed
  then show ?thesis by (simp add: returns_def)
qed

lemma returns_option:
  "returns x \<Longrightarrow> (\<And>a. returns (f a)) \<Longrightarrow> returns (case v of None \<Rightarrow> x | Some a \<Rightarrow> f a)"
  by (simp split: option.splits)

lemmas returns_intros =
  returns_bind returns_prims returns_if returns_option returns_more returns_catch dm_owner_returns

lemma approving_calls:
  "\<exists>x. en_write approving_env tr ev = Inr x" "\<exists>x. en_labels approving_env tr slug n = Inr x"
  "\<exists>x. en_rejection approving_env tr slug n = Inr x" "\<exists>x. en_meta approving_env tr slug n = Inr x"
  "\<exists>x. en_asked approving_env tr slug n s h = Inr x"
  by (auto simp: approving_env_def sample_env_ok_def sample_env_of_def)

lemma approving_ok: "yields (\<lambda>out. oc_action out = Oc_review) (deliver_ok approving_env sample_ctx sample_repo sample_meta key common)"
proof -
  have slack: "returns (slack_post approving_env sample_ctx ch s)" for ch s
    unfolding slack_post_def by (intro returns_intros)
  have reviewers: "returns (dm_reviewers approving_env sample_ctx s)" for s
  proof -
    have "sl_approved_ids (cfg_slack (cx_cfg sample_ctx)) = []" by (simp add: sample_ctx_def sample_config_def)
    then show ?thesis by (simp add: dm_reviewers_def dm_owner_returns)
  qed
  have once: "returns (once_per approving_env k (post_note approving_env rc m body d q) q')" for k rc m body d q q'
    unfolding once_per_def post_note_def whenM_def by (intro returns_intros approving_calls)
  have author: "returns (author_dm approving_env sample_ctx m s)" for m s
    unfolding author_dm_def dm_author_def whenM_def by (intro returns_intros slack)
  have props: "returns (tell_props approving_env sample_ctx m st)" for m st
    by (simp add: tell_props_def report_def sample_ctx_def sample_config_def whenM_def returns_prims)
  have steps:
    "returns (clear_needs_work approving_env sample_repo n q)"
    "returns (retract_rejection approving_env sample_ctx sample_repo m)"
    "returns (ask_for_ci approving_env sample_ctx sample_repo m)"
    "returns (finish_pass approving_env sample_ctx key st reason a)"
    "returns (announce_approval approving_env sample_ctx sample_repo m ci)" for n q m st reason a ci
    unfolding clear_needs_work_def set_label_def retract_rejection_def dismiss_if_vetoed_def
      dismiss_own_rejection_def ask_for_ci_def ci_already_started_def finish_pass_def finish_def
      announce_approval_def whenM_def request_ci_def post_approval_def
    by (intro returns_intros approving_calls once slack reviewers author)+
  show ?thesis
    unfolding deliver_ok_def
    by (intro yields_after steps props yields_ret) (simp add: outcome_def)
qed

definition approved_run :: "review_run \<Rightarrow> bool" where
  "approved_run r \<longleftrightarrow>
     rn_ok r \<and> (\<exists>b. rn_blocks r = Some b \<and> bl_verdict b = Some Ok_verdict \<and> bl_inline b = [])"

lemma approving_run:
  "yields approved_run (run_review approving_env sample_ctx rc su prompt REVIEW model via)"
proof -
  let ?r = "\<lambda>tag d. \<lparr>rn_ok = True, rn_blocks = Some (parse_blocks approval_text), rn_text = approval_text,
      rn_cost = None, rn_tokens_in = None, rn_tokens_out = None, rn_duration = d,
      rn_transcript = Some (transcript_path (cx_cfg sample_ctx) tag (lit ''.md'')), rn_error = None\<rparr>"
  have env: "en_run approving_env tr ev = Ended 0 [] []"
    "en_loads approving_env s = Inr (JObj [(lit ''result'', JStr approval_text)])" for tr ev s
    by (simp_all add: approving_env_def)
  have "read_envelope (cx_cfg sample_ctx) tag REVIEW d (JObj [(lit ''result'', JStr approval_text)]) = Inr (?r tag d)"
    for tag d by (simp add: read_envelope_def jstr_def jget_obj_def jor_def as_int_or_none_def lit_def)
  then have "conclude approving_env (cx_cfg sample_ctx) rc tag REVIEW now_ms d (Ended 0 [] []) = Inr (?r tag d)"
    for tag now_ms d by (simp add: conclude_def env)
  then show ?thesis
    by (simp add: yields_def run_review_def bindM_def run_container_def Let_def now_def liftE_def env
        approved_run_def approval_blocks)
qed

lemma approving_deliver:
  assumes "approved_run r"
  shows "yields (\<lambda>out. oc_action out = Oc_review) (deliver approving_env sample_ctx sample_repo sample_meta key r ch)"
proof -
  from assms obtain b where b: "rn_blocks r = Some b" "bl_verdict b = Some Ok_verdict" "bl_inline b = []"
    by (auto simp: approved_run_def)
  have f: "parse_findings (en_loads approving_env) [] = Inr []" by (simp add: parse_findings_def str_eval)
  have "deliver approving_env sample_ctx sample_repo sample_meta key r ch
      = deliver_ok approving_env sample_ctx sample_repo sample_meta key (common_args approving_env r ch b [])"
    by (rule ext) (simp add: deliver_def b f bindM_def liftE_def unusable_def Let_def)
  with approving_ok show ?thesis by simp
qed

lemma approving_slot:
  assumes "wd_db w = empty_db" "wd_inflight w = 0"
  shows "\<exists>ch r w'. with_slot approving_env sample_ctx (Some key)
      (run_in_slot approving_env sample_ctx sample_repo sample_meta key ra prompt) w = (Inr (Inr (ch, r)), w') \<and>
    approved_run r"
proof -
  let ?ch = "\<lparr>ch_model = Some (lit ''a''), ch_via_endpoint = False\<rparr>"
  let ?use = "run_in_slot approving_env sample_ctx sample_repo sample_meta key ra prompt"
  have arm: "choose_arm (en_sha256 approving_env) (cx_cfg sample_ctx) (cx_model sample_ctx) key = ?ch"
    by (simp add: choose_arm_def choose_model_def arms_def arm_choice_def from_bytes_big_def Let_def numeral_2_eq_2 sample_ctx_def
        sample_config_def approving_env_def sample_env_ok_def sample_env_of_def)
  have spent: "spend_since empty_db t ms = 0" for t ms
    by (simp add: spend_since_def empty_db_def)
  obtain v where v: "meter_of approving_env sample_ctx False w = Inr v" "bv_allowed v" "bv_notice v = None"
    using assms
    by (simp add: meter_of_def budget_check_def check_api_def spent sample_ctx_def sample_config_def Let_def)
  have admitted: "admit_key approving_env sample_ctx (Some key) w = (Inr (?ch, v), w)"
    by (simp add: admit_key_def admit_def arm v Let_def)
  have run: "yields (\<lambda>x. \<exists>cr. x = Inr cr \<and> approved_run (snd cr)) (?use \<lparr>st_ok = True, st_detail = d, st_choice = ?ch\<rparr>)"
    for d
  proof -
    have props: "returns (tell_props approving_env sample_ctx sample_meta st)" for st
      by (simp add: tell_props_def report_def sample_ctx_def sample_config_def whenM_def returns_prims)
    show ?thesis
      unfolding run_in_slot_def
      by (simp, intro yields_after returns_more props yields_bind [OF approving_run] yields_ret) simp
  qed
  let ?w = "w\<lparr>wd_inflight := Suc (wd_inflight w)\<rparr>"
  from run [of "bv_detail v"] obtain cr w2 where
    "?use \<lparr>st_ok = True, st_detail = bv_detail v, st_choice = ?ch\<rparr> ?w = (Inr (Inr cr), w2)" "approved_run (snd cr)"
    by (auto simp: yields_def dest: spec [of _ ?w])
  then show ?thesis
    by (cases cr) (simp add: with_slot_def bindM_def admitted v whenM_def inflight_def tell_owner_def
        ret_def finallyM_def)
qed

lemma approving_review:
  assumes "wd_db w = empty_db" "wd_inflight w = 0"
  shows "\<exists>out w'. review_pr approving_env sample_ctx sample_repo sample_meta key ra w = (Inr out, w') \<and>
    oc_action out = Oc_review"
proof -
  have "\<exists>ts w1. prior_threads approving_env sample_repo sample_meta w = (Inr ts, w1) \<and>
      wd_db w1 = empty_db \<and> wd_inflight w1 = 0"
    using assms
    by (auto simp: prior_threads_def bindM_def pop_threads_def ret_def catch_gh_def catchM_def ask_def
        approving_env_def sample_env_ok_def sample_env_of_def split: option.splits)
  then obtain ts w1 where p: "prior_threads approving_env sample_repo sample_meta w = (Inr ts, w1)"
    "wd_db w1 = empty_db" "wd_inflight w1 = 0" by blast
  let ?prompt = "preamble (pm_author sample_meta) (Some (summarize_checks sample_meta))
      (threads_block (bot sample_ctx) ts) (pass_history sample_repo sample_meta (wd_db w1))"
  obtain ch r w2 where s: "with_slot approving_env sample_ctx (Some key)
      (run_in_slot approving_env sample_ctx sample_repo sample_meta key ra ?prompt) w1 = (Inr (Inr (ch, r)), w2)"
    "approved_run r" using approving_slot [OF p(2,3)] by blast
  have ok: "rn_ok r" using s(2) by (simp add: approved_run_def)
  have "\<not> cx_dry sample_ctx" by (simp add: sample_ctx_def)
  with p(1) s(1) ok have "review_pr approving_env sample_ctx sample_repo sample_meta key ra w =
      deliver approving_env sample_ctx sample_repo sample_meta key r ch w2"
    by (simp add: review_pr_def bindM_def gets_def Let_def)
  with approving_deliver [OF s(2)] show ?thesis by (auto simp: yields_def dest: spec [of _ w2])
qed

lemma approving_gate:
  "\<exists>key ra dc w1. gate approving_env cx sample_repo 7 empty_world = (Inr (sample_meta, key, ra, dc), w1) \<and>
     dc_action dc = Review \<and> wd_db w1 = empty_db \<and> wd_inflight w1 = 0"
proof -
  have "label_hold sample_meta sample_repo = None" "done_label sample_meta sample_repo = None"
    by (simp_all add: label_hold_None_iff braked_def done_label_iff has_label_def sample_meta_def)
  moreover have "dc_action (evaluate sample_meta sample_repo False 0) = Review"
    using calculation(1) by (simp add: evaluate_def failing_checks_def kept_def summarize_checks_def
        in_bucket_def sorted_set_def sample_meta_def mk_decision_def Let_def)
  moreover have "get_review empty_db k = None" "\<not> sha_was_judged empty_db r n h" for k r n h
    by (simp_all add: get_review_def sha_was_judged_def empty_db_def)
  ultimately show ?thesis
    by (simp add: gate_def bindM_def ask_def gets_def cache_threads_def ret_def Let_def already_judged_def
        approving_env_def sample_env_ok_def sample_env_of_def empty_world_def)
qed

lemma dry_handle:
  "\<exists>out w'. handle approving_env (sample_ctx\<lparr>cx_dry := True\<rparr>) sample_repo 7 empty_world = (Inr out, w') \<and>
     oc_action out = Oc_review"
proof -
  from approving_gate [of "sample_ctx\<lparr>cx_dry := True\<rparr>"] obtain key ra dc w1 where
    "gate approving_env (sample_ctx\<lparr>cx_dry := True\<rparr>) sample_repo 7 empty_world
      = (Inr (sample_meta, key, ra, dc), w1)" "dc_action dc = Review" by blast
  then show ?thesis
    by (simp add: handle_def catchM_def bindM_def act_def Let_def review_pr_def ret_def outcome_def)
qed

lemma approving_handle:
  "\<exists>out w'. handle approving_env sample_ctx sample_repo 7 empty_world = (Inr out, w') \<and> oc_action out = Oc_review"
proof -
  from approving_gate [of sample_ctx] obtain key ra dc w1 where
    g: "gate approving_env sample_ctx sample_repo 7 empty_world = (Inr (sample_meta, key, ra, dc), w1)"
    "dc_action dc = Review" "wd_db w1 = empty_db" "wd_inflight w1 = 0" by blast
  from approving_review [OF g(3,4)] obtain out w' where
    "review_pr approving_env sample_ctx sample_repo sample_meta key ra w1 = (Inr out, w')" "oc_action out = Oc_review"
    by blast
  with g show ?thesis by (simp add: handle_def catchM_def bindM_def act_def Let_def)
qed

theorem reviewed_is_not_due_again_witness:
  "\<not> due approving_env sample_repo 7 (snd (handle approving_env sample_ctx sample_repo 7 empty_world)) \<and>
   due approving_env sample_repo 7
     (snd (handle approving_env (sample_ctx\<lparr>cx_dry := True\<rparr>) sample_repo 7 empty_world))"
proof -
  have same: "en_meta approving_env tr slug n = Inr sample_meta"
    "en_request approving_env tr slug n = en_request approving_env tr' slug n"
    "en_threads approving_env tr slug n = en_threads approving_env tr' slug n" for tr tr' slug n
    by (simp_all add: approving_env_def sample_env_ok_def sample_env_of_def)
  from approving_handle obtain out w' where
    h: "handle approving_env sample_ctx sample_repo 7 empty_world = (Inr out, w')" "oc_action out = Oc_review" by blast
  from dry_handle obtain out2 w2 where
    d: "handle approving_env (sample_ctx\<lparr>cx_dry := True\<rparr>) sample_repo 7 empty_world = (Inr out2, w2)"
    "oc_action out2 = Oc_review" by blast
  from reviewed_is_not_due_again [OF h refl same(1) same(1) refl same(2)]
  have "\<not> due approving_env sample_repo 7 w'" by (simp add: quiet_def sample_ctx_def)
  moreover from reviewed_is_not_due_again [OF d refl same(1) same(1) refl same(2)] same(3)
  have "due approving_env sample_repo 7 w2" by (simp add: quiet_def)
  ultimately show ?thesis using h(1) d(1) by simp
qed

section \<open>A repository's part of the tick ends\<close>

definition only_gh :: "'a res \<Rightarrow> bool" where
  "only_gh r \<longleftrightarrow> (case r of Inl e \<Rightarrow> (\<exists>s. e = GhError s) | Inr x \<Rightarrow> True)"

text \<open>What \<open>gh\<close> documents: a read that fails raises \<open>GhError\<close>, and a search lists a pull request once.\<close>

definition reads_fail_cleanly :: "env \<Rightarrow> bool" where
  "reads_fail_cleanly en \<longleftrightarrow>
     (\<forall>tr slug n. only_gh (en_queue en tr slug) \<and> only_gh (en_authored en tr slug) \<and>
        only_gh (en_heads en tr slug) \<and> only_gh (en_meta en tr slug n) \<and> only_gh (en_request en tr slug n))"

definition lists_once :: "env \<Rightarrow> bool" where
  "lists_once en \<longleftrightarrow>
     (\<forall>tr slug prs. en_queue en tr slug = Inr prs \<or> en_authored en tr slug = Inr prs \<longrightarrow> distinct prs)"

definition fails_cleanly :: "('a \<Rightarrow> bool) \<Rightarrow> 'a eff \<Rightarrow> bool" where
  "fails_cleanly Q m \<longleftrightarrow> (\<forall>w. case m w of (Inl e, w') \<Rightarrow> (\<exists>s. e = GhError s) | (Inr x, w') \<Rightarrow> Q x)"

lemma clean_bind:
  assumes m: "fails_cleanly P m" and f: "\<And>x. P x \<Longrightarrow> fails_cleanly Q (f x)"
  shows "fails_cleanly Q (bindM m f)"
  unfolding fails_cleanly_def
proof
  fix w
  obtain r w1 where r: "m w = (r, w1)" by (cases "m w")
  with m have "case r of Inl e \<Rightarrow> (\<exists>s. e = GhError s) | Inr x \<Rightarrow> P x"
    by (auto simp: fails_cleanly_def split: sum.splits dest: spec [of _ w])
  with r f show "case bindM m f w of (Inl e, w') \<Rightarrow> (\<exists>s. e = GhError s) | (Inr x, w') \<Rightarrow> Q x"
    by (cases r) (auto simp: bindM_def fails_cleanly_def)
qed

lemma clean_ask:
  assumes "\<And>tr. only_gh (f tr)" "\<And>tr x. f tr = Inr x \<Longrightarrow> Q x" shows "fails_cleanly Q (ask what repo n f)"
  unfolding fails_cleanly_def
proof
  fix w
  show "case ask what repo n f w of (Inl e, w') \<Rightarrow> (\<exists>s. e = GhError s) | (Inr x, w') \<Rightarrow> Q x"
    using assms(1) [of "wd_trace w"] assms(2) [of "wd_trace w"]
    by (cases "f (wd_trace w)") (simp_all add: ask_def only_gh_def)
qed

lemma clean_ret: "Q x \<Longrightarrow> fails_cleanly Q (ret x)"
  by (simp add: fails_cleanly_def ret_def)

lemma clean_caught:
  assumes m: "fails_cleanly Q m" and h: "\<And>s. yields Q (h s)"
  shows "yields Q (catch_gh m h)"
  unfolding yields_def
proof
  fix w
  obtain r w1 where r: "m w = (r, w1)" by (cases "m w")
  with m have "case r of Inl e \<Rightarrow> (\<exists>s. e = GhError s) | Inr x \<Rightarrow> Q x"
    by (auto simp: fails_cleanly_def split: sum.splits dest: spec [of _ w])
  with r h show "\<exists>x w'. catch_gh m h w = (Inr x, w') \<and> Q x"
    by (cases r) (auto simp: catch_gh_def catchM_def yields_def)
qed

lemma yields_returns: "yields Q m \<Longrightarrow> returns m"
  unfolding yields_def returns_def by (metis fst_conv)

lemma returns_map: "(\<And>x. returns (f x)) \<Longrightarrow> returns (mapM f xs)"
  by (induction xs) (auto intro!: returns_bind returns_prims)

lemma returns_modify: "returns (modify g)"
  by (simp add: returns_def modify_def)

lemma handle_returns: "returns (handle en cx rc pr)"
proof -
  have "\<exists>x. fst (catchM m (\<lambda>e. case e of GhError s \<Rightarrow> ret (a s) | _ \<Rightarrow> ret (b e)) w) = Inr x"
    for m :: "outcome eff" and a b w
    by (cases "m w"; cases "fst (m w)") (auto simp: catchM_def ret_def split: exn.splits)
  then show ?thesis by (simp add: returns_def handle_def)
qed

lemma seed_returns:
  assumes "reads_fail_cleanly en" shows "returns (seed en cx rc prs)"
proof -
  have got: "returns (catch_gh
      (bindM (ask ''meta'' slug pr (\<lambda>tr. en_meta en tr slug pr)) (\<lambda>m.
       bindM (ask ''request'' slug pr (\<lambda>tr. en_request en tr slug pr)) (\<lambda>ra. ret (Some (m, ra)))))
      (\<lambda>_. ret None))" for slug pr
    by (rule yields_returns [where Q = "\<lambda>_. True"], intro clean_caught clean_bind clean_ask clean_ret yields_ret)
      (use assms in \<open>simp_all add: reads_fail_cleanly_def\<close>)
  have "returns (seed_prs en cx rc prs)"
    by (induction prs) (simp_all add: returns_prims seed_hold_def whenM_def,
        intro returns_bind got returns_option returns_if returns_prims returns_more)
  then show ?thesis
    unfolding seed_def by (intro returns_bind returns_if returns_prims returns_more dm_owner_returns)
qed

lemma retire_returns:
  assumes "reads_fail_cleanly en" shows "returns (retire_unlabeled en cx rc)"
proof -
  have got: "returns (catch_gh
      (bindM (ask ''labeled'' slug 0 (\<lambda>tr. en_heads en tr slug)) (\<lambda>hs. ret (Some hs))) (\<lambda>_. ret None))" for slug
    by (rule yields_returns [where Q = "\<lambda>_. True"], intro clean_caught clean_bind clean_ask clean_ret yields_ret)
      (use assms in \<open>simp_all add: reads_fail_cleanly_def\<close>)
  show ?thesis
    unfolding retire_unlabeled_def
    by (intro returns_bind got returns_option returns_if returns_prims returns_modify)
qed

text \<open>
  C10: when GitHub's reads fail only the way \<open>gh\<close> fails and a search lists nothing twice, a
  repository's part of the tick always ends: no pull request, however it fails, and no
  unreadable queue takes the tick down with it.
\<close>

theorem repo_tick_ends:
  assumes "reads_fail_cleanly en" "lists_once en"
  shows "\<exists>outs. fst (poll_repo en cx rc w) = Inr outs"
proof -
  have "fails_cleanly distinct (candidates en rc)"
    unfolding candidates_def
    by (rule clean_bind [where P = distinct], rule clean_ask)
      (use assms in \<open>auto simp: reads_fail_cleanly_def lists_once_def
        intro!: clean_ret clean_bind [where P = distinct] clean_ask\<close>)
  then have queue: "yields (\<lambda>got. \<forall>prs. got = Some prs \<longrightarrow> distinct prs)
      (catch_gh (bindM (candidates en rc) (\<lambda>prs. ret (Some prs))) (\<lambda>_. ret None))"
    by (intro clean_caught clean_bind [where P = distinct] clean_ret yields_ret) auto
  have ask: "distinct prs \<Longrightarrow> returns (request en rc prs)" for prs
    by (simp add: returns_def request_def set_requested_def)
  have rest: "yields (\<lambda>_. True) (case got of
       None \<Rightarrow> ret []
     | Some prs \<Rightarrow>
         bindM (whenM (\<not> cx_dry cx) (request en rc prs)) (\<lambda>_.
         bindM (gets (\<lambda>d. is_seeded d (rc_slug rc))) (\<lambda>seeded.
           if \<not> seeded then bindM (seed en cx rc prs) (\<lambda>_. ret [])
           else bindM (retire_unlabeled en cx rc) (\<lambda>_. mapM (handle en cx rc) prs))))"
    if "\<forall>prs. got = Some prs \<longrightarrow> distinct prs" for got
  proof (cases got)
    case (Some prs)
    with that ask have "returns (whenM (\<not> cx_dry cx) (request en rc prs))"
      by (simp add: whenM_def returns_prims)
    then have "returns (bindM (whenM (\<not> cx_dry cx) (request en rc prs)) (\<lambda>_.
         bindM (gets (\<lambda>d. is_seeded d (rc_slug rc))) (\<lambda>seeded.
           if \<not> seeded then bindM (seed en cx rc prs) (\<lambda>_. ret [])
           else bindM (retire_unlabeled en cx rc) (\<lambda>_. mapM (handle en cx rc) prs))))"
      by (intro returns_bind returns_if returns_prims seed_returns retire_returns returns_map handle_returns assms)
    with Some show ?thesis unfolding returns_def yields_def by simp (metis prod.collapse)
  qed (simp add: yields_ret)
  have "returns (poll_repo en cx rc)"
    unfolding poll_repo_def by (rule yields_returns, rule yields_bind, rule queue, rule rest)
  then show ?thesis by (simp add: returns_def)
qed

theorem slot_freed_before_cost_witness:
  "\<exists>cr w'. with_slot approving_env sample_ctx (Some (lit ''k''))
      (run_in_slot approving_env sample_ctx sample_repo sample_meta (lit ''k'') (lit ''t'') []) empty_world = (Inr (Inr cr), w') \<and>
    wd_inflight w' = 0"
proof -
  have "wd_db empty_world = empty_db" "wd_inflight empty_world = 0" by (simp_all add: empty_world_def)
  from approving_slot [OF this] obtain cr w' where
    s: "with_slot approving_env sample_ctx (Some (lit ''k''))
      (run_in_slot approving_env sample_ctx sample_repo sample_meta (lit ''k'') (lit ''t'') []) empty_world = (Inr (Inr cr), w')"
    by (metis surj_pair)
  from slot_freed_before_cost [OF s] s show ?thesis by (auto simp: empty_world_def)
qed

theorem repo_tick_ends_witness:
  "\<exists>outs. fst (poll_repo (sample_env_ok\<lparr>en_queue := \<lambda>tr slug. Inl (GhError [])\<rparr>) sample_ctx sample_repo empty_world)
     = Inr outs"
  by (rule repo_tick_ends)
    (simp_all add: reads_fail_cleanly_def lists_once_def only_gh_def sample_env_ok_def sample_env_of_def)

end
