(* ===== verification/Issues.thy ===== *)
theory Issues
  imports Progress
begin

text \<open>
  The bug queue's tick (\<open>src/robbie/issues.py\<close>): read a report, let the form decide, ask a
  model the one question the form leaves open, and write the answer back. The properties say
  what may take an issue out of the queue, what clears one for the fixer, and that the money
  question fails towards a person.
\<close>

record settled_issue =
  sd_number :: int
  sd_action :: str
  sd_reason :: str

definition action_text :: "triage_action \<Rightarrow> str" where
  "action_text a = (case a of Attempt \<Rightarrow> lit ''attempt'' | Ask \<Rightarrow> lit ''ask'' | Assign \<Rightarrow> lit ''assign'')"

section \<open>The money question\<close>

definition money_arm :: "repo_config \<Rightarrow> str" where
  "money_arm rc =
     (if blank_opt (ic_money_model (rc_issues rc)) then (lit ''the account default'')
      else opt_str (ic_money_model (rc_issues rc)))"

text \<open>\<open>budget.check(cfg, db, 1, ...)\<close>: one run is assumed in flight, whatever really is.\<close>

definition one_more :: "env \<Rightarrow> ctx \<Rightarrow> bool \<Rightarrow> budget_verdict eff" where
  "one_more en cx via_endpoint =
     (\<lambda>w. (budget_check (en_clock en (wd_trace w)) (cx_cfg cx) (wd_db w) 1 via_endpoint, w))"

definition money_verdict :: "repo_config \<Rightarrow> review_run \<Rightarrow> triage_verdict \<times> str" where
  "money_verdict rc r =
     (if \<not> rn_ok r then
        (\<lparr>tr_action = Assign, tr_reason = (lit ''the money check could not finish'')\<rparr>, opt_str (rn_error r))
      else if touches_money (rn_text r) then
        (\<lparr>tr_action = Assign, tr_reason = (money_arm rc @ lit '' found a money path in the code this report lands in'')\<rparr>, [])
      else
        (\<lparr>tr_action = Attempt, tr_reason = (money_arm rc @ lit '' found no money path in the code this report lands in'')\<rparr>, []))"

definition ask_about_money :: "env \<Rightarrow> ctx \<Rightarrow> repo_config \<Rightarrow> issue_meta \<Rightarrow> (triage_verdict \<times> str) option eff" where
  "ask_about_money en cx rc i =
     (if cx_dry cx then ret None
      else
        bindM (one_more en cx (ic_money_via_endpoint (rc_issues rc))) (\<lambda>v.
        if \<not> bv_allowed v then ret None
        else
          bindM (run_review en cx rc (On_issue i) (money_prompt (im_title i) (im_body i)) MONEY
                   (ic_money_model (rc_issues rc)) (ic_money_via_endpoint (rc_issues rc))) (\<lambda>r.
          bindM (stamp en (\<lambda>now_ms. record_spend now_ms (rc_slug rc) (im_number i) (lit ''money'')
                   (rn_cost r) (Some (rn_duration r)))) (\<lambda>_.
            ret (Some (money_verdict rc r))))))"

section \<open>One issue\<close>

definition clear_for_fix :: "env \<Rightarrow> ctx \<Rightarrow> repo_config \<Rightarrow> int \<Rightarrow> issue_meta \<Rightarrow> triage_verdict \<Rightarrow> settled_issue option eff" where
  "clear_for_fix en cx rc n i call =
     bindM (settle_issue en cx rc i
        (lit ''Nothing in this report puts it out of an automated fix's reach, so it is queued for ''
       @ lit ''one. A person reviews whatever comes out of that.'' @ [NL, NL] @ lit ''_''
       @ tr_reason call @ lit ''._'')
        (ic_fixable_label (rc_issues rc)) [] [] (cx_dry cx)) (\<lambda>_.
       ret (Some \<lparr>sd_number = n, sd_action = action_text (tr_action call), sd_reason = tr_reason call\<rparr>))"

definition assigned_note :: "repo_config \<Rightarrow> triage_verdict \<Rightarrow> str \<Rightarrow> str" where
  "assigned_note rc call err =
     (lit ''To ''
       @ (if ic_assignee (rc_issues rc) = [] then lit ''nobody'' else join (lit '', '') (ic_assignee (rc_issues rc)))
       @ lit '': '' @ tr_reason call)
     @ (if err \<noteq> [] then (lit '' ('' @ err @ lit '')'') else [])"

definition hand_over :: "env \<Rightarrow> ctx \<Rightarrow> repo_config \<Rightarrow> int \<Rightarrow> issue_meta \<Rightarrow> triage_verdict \<Rightarrow> str \<Rightarrow> settled_issue option eff" where
  "hand_over en cx rc n i call err =
     bindM (settle_issue en cx rc i (lit ''Over to a human.'' @ [NL, NL] @ lit ''_'' @ tr_reason call @ lit ''._'')
        [] (ic_assignee (rc_issues rc)) [] (cx_dry cx)) (\<lambda>_.
     bindM (whenM (\<not> cx_dry cx)
        (bindM (jane_notify en cx
           (lit ''Triage assigned bug #'' @ show_int n @ lit '' to a person: '' @ im_title i) (im_url i)
           (assigned_note rc call err) (lit ''normal'') (lit ''robbie'')) (\<lambda>_. ret ()))) (\<lambda>_.
       ret (Some \<lparr>sd_number = n, sd_action = action_text (tr_action call), sd_reason = tr_reason call\<rparr>)))"

definition settle_call :: "env \<Rightarrow> ctx \<Rightarrow> repo_config \<Rightarrow> int \<Rightarrow> issue_meta \<Rightarrow> triage_verdict \<times> str \<Rightarrow> settled_issue option eff" where
  "settle_call en cx rc n i ce =
     (if tr_action (fst ce) = Attempt then clear_for_fix en cx rc n i (fst ce)
      else hand_over en cx rc n i (fst ce) (snd ce))"

definition form_verdict :: "env \<Rightarrow> repo_config \<Rightarrow> issue_meta \<Rightarrow> triage_verdict res" where
  "form_verdict en rc i =
     triage (form_fields (im_body i)) (ic_rules (rc_issues rc)) (from_sentry (en_word en) (im_body i))"

definition decide_issue :: "env \<Rightarrow> ctx \<Rightarrow> repo_config \<Rightarrow> int \<Rightarrow> issue_meta \<Rightarrow> settled_issue option eff" where
  "decide_issue en cx rc n i =
     bindM (liftE (form_verdict en rc i)) (\<lambda>call.
     if tr_action call \<noteq> Ask then settle_call en cx rc n i (call, [])
     else
       bindM (ask_about_money en cx rc i) (\<lambda>asked.
       case asked of None \<Rightarrow> ret None | Some ce \<Rightarrow> settle_call en cx rc n i ce))"

definition linked :: "int \<Rightarrow> str list \<Rightarrow> settled_issue" where
  "linked n prs = \<lparr>sd_number = n, sd_action = lit ''linked'', sd_reason = join (lit '', '') prs\<rparr>"

definition triage_one :: "env \<Rightarrow> ctx \<Rightarrow> repo_config \<Rightarrow> int \<Rightarrow> settled_issue option eff" where
  "triage_one en cx rc n =
     bindM (ask ''issue'' (rc_slug rc) n (\<lambda>tr. en_issue en tr (rc_slug rc) n)) (\<lambda>i.
     if im_state i \<noteq> lit ''OPEN'' then ret None
     else
       bindM (ask ''fixing'' (rc_slug rc) n (\<lambda>tr. en_fixing en tr (rc_slug rc) n)) (\<lambda>prs.
       if prs \<noteq> [] then
         bindM (point_to_fix en cx rc i prs [] (cx_dry cx)) (\<lambda>_. ret (Some (linked n prs)))
       else decide_issue en cx rc n i))"

text \<open>An issue GitHub would not serve is left for the next round.\<close>

definition triage_tick :: "env \<Rightarrow> ctx \<Rightarrow> repo_config \<Rightarrow> settled_issue list eff" where
  "triage_tick en cx rc =
     (if ic_labels (rc_issues rc) = [] then ret []
      else
        bindM (ask ''issues'' (rc_slug rc) 0 (\<lambda>tr. en_issues en tr (rc_slug rc) (ic_labels (rc_issues rc)))) (\<lambda>ns.
        bindM (mapM (\<lambda>n. catch_gh (triage_one en cx rc n) (\<lambda>_. ret None)) ns) (\<lambda>outs.
          ret (List.map_filter id outs))))"

section \<open>Closure\<close>

lemma one_more_safe [safe_intros]:
  "preserves (adds P) (one_more en cx via)" "preserves keeps_db (one_more en cx via)"
  "preserves db_evolves (one_more en cx via)"
  by (simp_all add: preserves_def adds_def keeps_db_def db_evolves_def one_more_def)

lemma triage_evolves [safe_intros]: "preserves db_evolves (triage_tick en cx rc)"
  unfolding triage_tick_def triage_one_def decide_issue_def settle_call_def clear_for_fix_def hand_over_def
    ask_about_money_def point_to_fix_def
  by (intro safe_intros)

lemma triage_keeps [safe_intros]:
  assumes d: "cx_dry cx" shows "preserves keeps_db (triage_tick en cx rc)"
  unfolding triage_tick_def triage_one_def decide_issue_def settle_call_def clear_for_fix_def hand_over_def
    ask_about_money_def point_to_fix_def
  by (intro safe_intros) (use d in auto)

section \<open>What may take an issue out of the queue\<close>

definition no_write :: "event \<Rightarrow> bool" where
  "no_write ev \<longleftrightarrow> \<not> github_write ev"

text \<open>Nobody took a label off: whatever was to remove one was refused.\<close>

fun takes_label_off :: "event \<Rightarrow> bool" where
  "takes_label_off (Gh_del_label repo n l) = True"
| "takes_label_off _ = False"

definition labels_stay :: "env \<Rightarrow> world \<Rightarrow> world \<Rightarrow> bool" where
  "labels_stay en w w' \<longleftrightarrow>
     (\<exists>es. wd_trace w' = wd_trace w @ es \<and>
        (\<forall>i < length es. takes_label_off (es ! i) \<longrightarrow> (\<exists>e. en_write en (wd_trace w @ take i es) (es ! i) = Inl e)))"

interpretation labels_stay: effect_relation "labels_stay en" for en
proof
  fix u v w
  show "labels_stay en w w" by (simp add: labels_stay_def)
  show "labels_stay en u w" if "labels_stay en u v" "labels_stay en v w"
  proof -
    from that obtain es fs where e: "wd_trace v = wd_trace u @ es" "wd_trace w = (wd_trace u @ es) @ fs"
      "\<forall>i < length es. takes_label_off (es ! i) \<longrightarrow> (\<exists>e. en_write en (wd_trace u @ take i es) (es ! i) = Inl e)"
      "\<forall>i < length fs. takes_label_off (fs ! i) \<longrightarrow> (\<exists>e. en_write en ((wd_trace u @ es) @ take i fs) (fs ! i) = Inl e)"
      unfolding labels_stay_def by auto
    have "\<exists>e. en_write en (wd_trace u @ take i (es @ fs)) ((es @ fs) ! i) = Inl e"
      if "i < length (es @ fs)" "takes_label_off ((es @ fs) ! i)" for i
    proof (cases "i < length es")
      case True
      with e(3) that show ?thesis by (simp add: nth_append)
    next
      case False
      with that have "i - length es < length fs" "takes_label_off (fs ! (i - length es))" by (auto simp: nth_append)
      with e(4) False show ?thesis by (simp add: nth_append)
    qed
    with e(2) show ?thesis unfolding labels_stay_def by (intro exI [of _ "es @ fs"]) simp
  qed
qed

lemma no_write_stays: "adds no_write w w' \<Longrightarrow> labels_stay en w w'"
proof -
  have "\<not> takes_label_off ev" if "no_write ev" for ev using that by (cases ev) (simp_all add: no_write_def)
  then show "adds no_write w w' \<Longrightarrow> labels_stay en w w'"
    unfolding adds_def labels_stay_def by (auto simp: list_all_length)
qed

text \<open>The queue label goes last, so a settling that fails anywhere leaves it on.\<close>

lemma performs_fails:
  "performs en evs w = (Inl e, w') \<Longrightarrow>
   \<exists>k < length evs. wd_trace w' = wd_trace w @ take (Suc k) evs \<and> en_write en (wd_trace w @ take k evs) (evs ! k) = Inl e"
proof (induction evs arbitrary: w)
  case (Cons ev evs)
  let ?w = "w\<lparr>wd_trace := wd_trace w @ [ev]\<rparr>"
  show ?case
  proof (cases "en_write en (wd_trace w) ev")
    case (Inl e')
    with Cons.prems show ?thesis by (intro exI [of _ 0]) (auto simp: bindM_def perform_def)
  next
    case (Inr s)
    with Cons.prems have "performs en evs ?w = (Inl e, w')" by (simp add: bindM_def perform_def)
    from Cons.IH [OF this] obtain k where "k < length evs" "wd_trace w' = wd_trace ?w @ take (Suc k) evs"
      "en_write en (wd_trace ?w @ take k evs) (evs ! k) = Inl e" by blast
    then show ?thesis by (intro exI [of _ "Suc k"]) simp
  qed
qed (simp add: ret_def)

lemma settle_fails:
  assumes "settle_issue en cx rc i say add_label assignee clears dry w = (Inl e, w')"
  shows "labels_stay en w w'"
proof -
  let ?es = "settle_events cx rc i say add_label assignee clears"
  have "performs en ?es w = (Inl e, w')"
    using assms by (auto simp: settle_issue_def bindM_def ret_def split: if_splits prod.splits sum.splits)
  from performs_fails [OF this] obtain k where k: "k < length ?es" "wd_trace w' = wd_trace w @ take (Suc k) ?es"
    "en_write en (wd_trace w @ take k ?es) (?es ! k) = Inl e" by blast
  obtain front last where es: "?es = front @ [last]" "\<forall>ev \<in> set front. \<not> takes_label_off ev"
    by (auto simp: settle_events_def Let_def)
  have only: "j = k" if "j < Suc k" "takes_label_off (take (Suc k) ?es ! j)" for j
  proof (rule ccontr)
    assume "j \<noteq> k"
    with that k(1) es have "?es ! j \<in> set front" by (auto simp: nth_append)
    with es(2) that show False by simp
  qed
  have "\<exists>e. en_write en (wd_trace w @ take j (take (Suc k) ?es)) (take (Suc k) ?es ! j) = Inl e"
    if "j < length (take (Suc k) ?es)" "takes_label_off (take (Suc k) ?es ! j)" for j
  proof -
    from that(1) have "j < Suc k" by simp
    with only that(2) have "j = k" by blast
    with k(3) show ?thesis by simp
  qed
  with k(2) show ?thesis unfolding labels_stay_def by blast
qed

text \<open>Unless it comes to a decision, it leaves the labels on, and without an exception it wrote nothing.\<close>

definition undecided :: "env \<Rightarrow> 'a option eff \<Rightarrow> bool" where
  "undecided en m \<longleftrightarrow>
     (\<forall>w r w'. m w = (r, w') \<and> (\<nexists>d. r = Inr (Some d)) \<longrightarrow> labels_stay en w w' \<and> (r = Inr None \<longrightarrow> adds no_write w w'))"

lemma undecided_bind:
  assumes m: "preserves (adds no_write) m" and f: "\<And>x. undecided en (f x)" shows "undecided en (bindM m f)"
  unfolding undecided_def
proof (intro allI impI, elim conjE)
  fix w r w'
  assume b: "bindM m f w = (r, w')" and r: "\<nexists>d. r = Inr (Some d)"
  obtain x w1 where x: "m w = (x, w1)" by (cases "m w")
  have a: "adds no_write w w1" using preserves_result [OF x m] .
  show "labels_stay en w w' \<and> (r = Inr None \<longrightarrow> adds no_write w w')"
  proof (cases x)
    case (Inl e)
    with b x have "r = Inl e" "w' = w1" by (simp_all add: bindM_def)
    with a no_write_stays show ?thesis by simp
  next
    case (Inr y)
    with b x have "f y w1 = (r, w')" by (simp add: bindM_def)
    with f [of y] r have "labels_stay en w1 w'" "r = Inr None \<longrightarrow> adds no_write w1 w'"
      unfolding undecided_def by blast+
    with a no_write_stays labels_stay.trans adds.trans show ?thesis by blast
  qed
qed

lemma undecided_ret: "undecided en (ret None)"
  by (simp add: undecided_def ret_def labels_stay.refl adds.refl)

text \<open>After a settling there is nothing left that could fail.\<close>

lemma undecided_settle:
  assumes "\<And>w. \<exists>d w'. rest w = (Inr (Some d), w')"
  shows "undecided en (bindM (settle_issue en cx rc i say add_label assignee clears dry) (\<lambda>_. rest))"
  unfolding undecided_def
proof (intro allI impI, elim conjE)
  fix w r w'
  let ?s = "settle_issue en cx rc i say add_label assignee clears dry"
  assume b: "bindM ?s (\<lambda>_. rest) w = (r, w')" and r: "\<nexists>d. r = Inr (Some d)"
  obtain x w1 where x: "?s w = (x, w1)" by (cases "?s w")
  show "labels_stay en w w' \<and> (r = Inr None \<longrightarrow> adds no_write w w')"
  proof (cases x)
    case (Inl e)
    with b x settle_fails [of en cx rc i say add_label assignee clears dry w e w1] show ?thesis by (auto simp: bindM_def)
  next
    case (Inr y)
    with b x r assms [of w1] show ?thesis by (auto simp: bindM_def)
  qed
qed

lemma settle_call_undecided: "undecided en (settle_call en cx rc n i ce)"
proof -
  have jane: "returns (jane_notify en cx title url body urgency kind)" for title url body urgency kind
    unfolding jane_notify_def by (intro returns_intros)
  have told: "\<exists>d w'. bindM (whenM b (bindM (jane_notify en cx t u s l k) (\<lambda>_. ret ()))) (\<lambda>_. ret (Some x)) w = (Inr (Some d), w')"
    for b t u s l k x w
  proof -
    have "returns (whenM b (bindM (jane_notify en cx t u s l k) (\<lambda>_. ret ())))"
      unfolding whenM_def by (intro returns_intros jane)
    then obtain y where "fst (whenM b (bindM (jane_notify en cx t u s l k) (\<lambda>_. ret ())) w) = Inr y"
      by (auto simp: returns_def)
    then show ?thesis
      by (cases "whenM b (bindM (jane_notify en cx t u s l k) (\<lambda>_. ret ())) w") (simp add: bindM_def ret_def)
  qed
  show ?thesis
  proof (cases "tr_action (fst ce) = Attempt")
    case True
    then show ?thesis
      unfolding settle_call_def clear_for_fix_def if_P [OF True] by (intro undecided_settle) (simp add: ret_def)
  next
    case False
    then show ?thesis
      unfolding settle_call_def hand_over_def if_not_P [OF False] by (intro undecided_settle told)
  qed
qed

lemma ask_no_write: "preserves (adds no_write) (ask_about_money en cx rc i)"
  unfolding ask_about_money_def by (intro safe_intros) (simp_all add: no_write_def)

lemma decide_undecided: "undecided en (decide_issue en cx rc n i)"
proof -
  have asked: "undecided en (case a of None \<Rightarrow> ret None | Some ce \<Rightarrow> settle_call en cx rc n i ce)" for a
    by (cases a) (simp_all add: undecided_ret settle_call_undecided)
  show ?thesis
    unfolding decide_issue_def
    by (intro undecided_bind adds.pure_lift) (auto intro!: undecided_bind ask_no_write settle_call_undecided asked)
qed

text \<open>
  C26: Whatever ends the triage of an issue without a decision leaves it in its queue: a read or a
  write that fails anywhere, a closed issue, a paused meter or a dry run. No label came off, an
  attempt to take one off was refused; and if nothing failed, nothing was written to GitHub at all,
  so the next tick reads the report again.
\<close>

theorem undecided_stays_queued:
  assumes "triage_one en cx rc n w = (r, w')" "\<nexists>d. r = Inr (Some d)"
  shows "\<exists>es. wd_trace w' = wd_trace w @ es \<and>
    (\<forall>i < length es. takes_label_off (es ! i) \<longrightarrow> (\<exists>e. en_write en (wd_trace w @ take i es) (es ! i) = Inl e)) \<and>
    (r = Inr None \<longrightarrow> list_all no_write es)"
proof -
  have link: "undecided en (bindM (point_to_fix en cx rc i prs [] q) (\<lambda>_. ret (Some (linked n prs))))" for i prs q
    unfolding point_to_fix_def by (intro undecided_settle) (simp add: ret_def)
  have rest: "undecided en (if im_state i \<noteq> lit ''OPEN'' then ret None
     else
       bindM (ask ''fixing'' (rc_slug rc) n (\<lambda>tr. en_fixing en tr (rc_slug rc) n)) (\<lambda>prs.
       if prs \<noteq> [] then
         bindM (point_to_fix en cx rc i prs [] (cx_dry cx)) (\<lambda>_. ret (Some (linked n prs)))
       else decide_issue en cx rc n i))" for i
    by (auto intro!: undecided_ret undecided_bind link decide_undecided adds_prims simp: no_write_def)
  have "undecided en (triage_one en cx rc n)"
    unfolding triage_one_def by (intro undecided_bind rest adds_prims) (simp add: no_write_def)
  with assms have "labels_stay en w w'" "r = Inr None \<longrightarrow> adds no_write w w'" by (auto simp: undecided_def)
  then show ?thesis by (auto simp: labels_stay_def adds_def)
qed

text \<open>
  A model that never came back is a decision, though: the report is handed to a person, and the
  queue label comes off with it, where the module says such an issue stays in the queue.
\<close>

theorem lost_money_answer_is_settled:
  assumes "form_verdict en rc i = Inr call" "tr_action call = Ask" "\<not> cx_dry cx"
    and "one_more en cx (ic_money_via_endpoint (rc_issues rc)) w = (Inr v, w)" "bv_allowed v"
    and "run_review en cx rc (On_issue i) (money_prompt (im_title i) (im_body i)) MONEY
       (ic_money_model (rc_issues rc)) (ic_money_via_endpoint (rc_issues rc)) w = (Inr r, w1)" "\<not> rn_ok r"
    and "\<And>tr ev. \<exists>s. en_write en tr ev = Inr s"
  shows "\<exists>d w' l. decide_issue en cx rc n i w = (Inr (Some d), w') \<and> sd_action d = lit ''assign'' \<and>
    Gh_del_label (rc_slug rc) (im_number i) l \<in> set (wd_trace w')"
proof -
  have sent: "performs en es u = (Inr (), u\<lparr>wd_trace := wd_trace u @ es\<rparr>)" for es u
  proof (induction es arbitrary: u)
    case (Cons ev es)
    from assms(8) obtain s where "en_write en (wd_trace u) ev = Inr s" by blast
    with Cons show ?case by (simp add: bindM_def perform_def)
  qed (simp add: ret_def)
  obtain ce w2 where money: "ask_about_money en cx rc i w = (Inr (Some ce), w2)" "tr_action (fst ce) = Assign"
    using assms(3-7) by (simp add: ask_about_money_def bindM_def stamp_def ret_def money_verdict_def)
  let ?es = "settle_events cx rc i (lit ''Over to a human.'' @ [NL, NL] @ lit ''_'' @ tr_reason (fst ce) @ lit ''._'')
      [] (ic_assignee (rc_issues rc)) []"
  let ?w3 = "w2\<lparr>wd_trace := wd_trace w2 @ ?es\<rparr>"
  let ?jane = "whenM (\<not> cx_dry cx) (bindM (jane_notify en cx
      (lit ''Triage assigned bug #'' @ show_int n @ lit '' to a person: '' @ im_title i) (im_url i)
      (assigned_note rc (fst ce) (snd ce)) (lit ''normal'') (lit ''robbie'')) (\<lambda>_. ret ()))"
  have "returns ?jane" unfolding whenM_def jane_notify_def by (intro returns_intros)
  then obtain w4 where j: "?jane ?w3 = (Inr (), w4)" by (auto simp: returns_def) (metis prod.collapse)
  have "preserves (adds (\<lambda>_. True)) ?jane" unfolding jane_notify_def by (intro safe_intros) simp_all
  from preserves_result [OF j this] obtain more where more: "wd_trace w4 = wd_trace w2 @ ?es @ more" by (auto simp: adds_def)
  have "decide_issue en cx rc n i w =
      (Inr (Some \<lparr>sd_number = n, sd_action = lit ''assign'', sd_reason = tr_reason (fst ce)\<rparr>), w4)"
    using assms(1-3) money sent j
    by (simp add: decide_issue_def bindM_def liftE_def settle_call_def hand_over_def settle_issue_def ret_def action_text_def)
  moreover have "Gh_del_label (rc_slug rc) (im_number i) (ic_clears (rc_issues rc)) \<in> set (wd_trace w4)"
    using more by (simp add: settle_events_def Let_def)
  ultimately show ?thesis by (intro exI conjI) auto
qed

section \<open>What clears an issue for the fixer\<close>

definition says_no :: "str \<Rightarrow> bool" where
  "says_no s \<longleftrightarrow> set (money_marks s) = {lit ''no''}"

lemma money_attempt: "tr_action (fst (money_verdict rc r)) = Attempt \<longleftrightarrow> rn_ok r \<and> says_no (rn_text r)"
  by (simp add: money_verdict_def touches_money_def says_no_def)

lemma ask_result:
  assumes "ask_about_money en cx rc i w = (Inr (Some ce), w')"
  obtains r w1 where
    "run_review en cx rc (On_issue i) (money_prompt (im_title i) (im_body i)) MONEY
       (ic_money_model (rc_issues rc)) (ic_money_via_endpoint (rc_issues rc)) w = (Inr r, w1)"
    "ce = money_verdict rc r" "\<not> cx_dry cx"
proof -
  let ?run = "run_review en cx rc (On_issue i) (money_prompt (im_title i) (im_body i)) MONEY
       (ic_money_model (rc_issues rc)) (ic_money_via_endpoint (rc_issues rc))"
  let ?rest = "\<lambda>r. bindM (stamp en (\<lambda>now_ms. record_spend now_ms (rc_slug rc) (im_number i) (lit ''money'')
      (rn_cost r) (Some (rn_duration r)))) (\<lambda>_. ret (Some (money_verdict rc r)))"
  have d: "\<not> cx_dry cx" using assms by (auto simp: ask_about_money_def ret_def)
  with assms have "bindM (one_more en cx (ic_money_via_endpoint (rc_issues rc)))
      (\<lambda>v. if \<not> bv_allowed v then ret None else bindM ?run ?rest) w = (Inr (Some ce), w')"
    by (simp add: ask_about_money_def)
  then obtain v u where v: "one_more en cx (ic_money_via_endpoint (rc_issues rc)) w = (Inr v, u)"
    "(if \<not> bv_allowed v then ret None else bindM ?run ?rest) u = (Inr (Some ce), w')" by (rule bind_cases)
  from v have "bindM ?run ?rest w = (Inr (Some ce), w')"
    by (auto simp: one_more_def ret_def split: if_splits)
  then obtain r w1 where r: "?run w = (Inr r, w1)" "?rest r w1 = (Inr (Some ce), w')" by (rule bind_cases)
  from r(2) have "ce = money_verdict rc r" by (auto simp: ret_def elim!: bind_cases)
  with that r(1) d show ?thesis by blast
qed

text \<open>A run of the money question on this issue, and what it answered.\<close>

definition cleared_by_model :: "env \<Rightarrow> ctx \<Rightarrow> repo_config \<Rightarrow> issue_meta \<Rightarrow> bool" where
  "cleared_by_model en cx rc i \<longleftrightarrow>
     (\<exists>w r w'. run_review en cx rc (On_issue i) (money_prompt (im_title i) (im_body i)) MONEY
        (ic_money_model (rc_issues rc)) (ic_money_via_endpoint (rc_issues rc)) w = (Inr r, w') \<and>
        rn_ok r \<and> says_no (rn_text r))"

lemma decide_attempt:
  assumes "decide_issue en cx rc n i w = (Inr (Some d), w')" "sd_action d = action_text Attempt"
  shows "\<exists>call. form_verdict en rc i = Inr call \<and>
    (tr_action call = Attempt \<or> tr_action call = Ask \<and> cleared_by_model en cx rc i)"
proof -
  have act: "tr_action (fst ce) = Attempt"
    if "settle_call en cx rc n i ce u = (Inr (Some d), w')" for ce u
  proof (cases "tr_action (fst ce)")
    case Ask
    with that assms(2) show ?thesis
      by (auto simp: settle_call_def hand_over_def ret_def action_text_def elim!: bind_cases)
  next
    case Assign
    with that assms(2) show ?thesis
      by (auto simp: settle_call_def hand_over_def ret_def action_text_def elim!: bind_cases)
  qed
  from assms(1) obtain call where call: "form_verdict en rc i = Inr call"
    and rest: "(if tr_action call \<noteq> Ask then settle_call en cx rc n i (call, [])
       else bindM (ask_about_money en cx rc i) (\<lambda>asked.
         case asked of None \<Rightarrow> ret None | Some ce \<Rightarrow> settle_call en cx rc n i ce)) w = (Inr (Some d), w')"
    unfolding decide_issue_def by (elim bind_cases) (auto simp: liftE_def)
  show ?thesis
  proof (cases "tr_action call = Ask")
    case False
    with rest act call show ?thesis by fastforce
  next
    case True
    with rest have "bindM (ask_about_money en cx rc i) (\<lambda>asked.
         case asked of None \<Rightarrow> ret None | Some ce \<Rightarrow> settle_call en cx rc n i ce) w = (Inr (Some d), w')" by simp
    then obtain asked u where u: "ask_about_money en cx rc i w = (Inr asked, u)"
      "(case asked of None \<Rightarrow> ret None | Some ce \<Rightarrow> settle_call en cx rc n i ce) u = (Inr (Some d), w')"
      by (rule bind_cases)
    then obtain ce where ce: "asked = Some ce" by (cases asked) (auto simp: ret_def)
    with u act have a: "tr_action (fst ce) = Attempt" by simp
    from u(1) ce have "ask_about_money en cx rc i w = (Inr (Some ce), u)" by simp
    from ask_result [OF this] a have "cleared_by_model en cx rc i"
      unfolding cleared_by_model_def by (metis money_attempt)
    with True call show ?thesis by blast
  qed
qed

text \<open>
  An issue is handed to the fixer only when it is open, nobody's pull request closes it,
  and either no answer in its form forbids an attempt or the one open answer was put to a
  model whose run finished and whose every money mark says no.
\<close>

theorem attempt_is_cleared:
  assumes "triage_one en cx rc n w = (Inr (Some d), w')" "sd_action d = lit ''attempt''"
  shows "\<exists>i call. en_issue en (wd_trace w) (rc_slug rc) n = Inr i \<and> im_state i = lit ''OPEN'' \<and>
    en_fixing en (wd_trace w @ [Gh_read (lit ''issue'') (rc_slug rc) n]) (rc_slug rc) n = Inr [] \<and>
    form_verdict en rc i = Inr call \<and>
    (tr_action call = Attempt \<or> tr_action call = Ask \<and> cleared_by_model en cx rc i)"
proof -
  let ?tr = "wd_trace w @ [Gh_read (lit ''issue'') (rc_slug rc) n]"
  from assms(1) obtain i where i: "en_issue en (wd_trace w) (rc_slug rc) n = Inr i"
    by (auto simp: triage_one_def bindM_def ask_def split: sum.splits)
  with assms(1) have open_issue: "im_state i = lit ''OPEN''"
    by (auto simp: triage_one_def bindM_def ask_def ret_def split: if_splits)
  with assms(1) i obtain prs where prs: "en_fixing en ?tr (rc_slug rc) n = Inr prs"
    by (auto simp: triage_one_def bindM_def ask_def split: sum.splits if_splits)
  let ?w = "w\<lparr>wd_trace := ?tr @ [Gh_read (lit ''fixing'') (rc_slug rc) n]\<rparr>"
  have rest: "(if prs \<noteq> [] then
         bindM (point_to_fix en cx rc i prs [] (cx_dry cx)) (\<lambda>_. ret (Some (linked n prs)))
       else decide_issue en cx rc n i) ?w = (Inr (Some d), w')"
    using assms(1) i open_issue prs by (simp add: triage_one_def bindM_def ask_def)
  have "prs = []"
  proof (rule ccontr)
    assume "prs \<noteq> []"
    with rest have "d = linked n prs" by (auto simp: ret_def elim!: bind_cases)
    with assms(2) show False by (simp add: linked_def)
  qed
  with rest have "decide_issue en cx rc n i ?w = (Inr (Some d), w')" by simp
  from decide_attempt [OF this] assms(2) i open_issue prs \<open>prs = []\<close> show ?thesis
    by (auto simp: action_text_def)
qed

lemma performs_first: "ev \<in> set (wd_trace (snd (performs en (ev # evs) w)))"
proof -
  let ?w = "w\<lparr>wd_trace := wd_trace w @ [ev]\<rparr>"
  have "adds (\<lambda>_. True) ?w (snd (performs en evs ?w))"
    using performs_adds [of "\<lambda>_. True" evs en] by (simp add: preserves_def list_all_iff)
  then show ?thesis
    by (cases "en_write en (wd_trace w) ev") (auto simp: bindM_def perform_def adds_def)
qed

section \<open>Under --no-publish\<close>

text \<open>
  \<open>robbie --no-publish triage\<close> writes to GitHub all the same: only \<open>dry_run\<close> is handed to
  the triage, so an issue somebody already fixes gets its comment, although the command
  promises to write nothing.
\<close>

theorem no_publish_does_not_silence_triage:
  assumes "\<not> cx_dry cx" "en_issue en (wd_trace w) (rc_slug rc) n = Inr i" "im_state i = lit ''OPEN''"
    and "en_fixing en (wd_trace w @ [Gh_read (lit ''issue'') (rc_slug rc) n]) (rc_slug rc) n = Inr (p # ps)"
  shows "\<exists>body. Gh_comment (rc_slug rc) (im_number i) body \<in> set (wd_trace (snd (triage_one en cx rc n w)))"
proof -
  let ?w = "w\<lparr>wd_trace := wd_trace w @ [Gh_read (lit ''issue'') (rc_slug rc) n, Gh_read (lit ''fixing'') (rc_slug rc) n]\<rparr>"
  let ?m = "point_to_fix en cx rc i (p # ps) [] False"
  have eq: "triage_one en cx rc n w = bindM ?m (\<lambda>_. ret (Some (linked n (p # ps)))) ?w"
    using assms by (simp add: triage_one_def bindM_def ask_def)
  obtain say where m: "?m = settle_issue en cx rc i say [] [] [] False" by (simp add: point_to_fix_def)
  obtain body rest where es: "settle_events cx rc i say [] [] [] = Gh_comment (rc_slug rc) (im_number i) body # rest"
    by (simp add: settle_events_def Let_def)
  have "Gh_comment (rc_slug rc) (im_number i) body \<in> set (wd_trace (snd (performs en (settle_events cx rc i say [] [] []) ?w)))"
    unfolding es by (rule performs_first)
  then have "Gh_comment (rc_slug rc) (im_number i) body \<in> set (wd_trace (snd (triage_one en cx rc n w)))"
    unfolding eq m settle_issue_def
    by (cases "performs en (settle_events cx rc i say [] [] []) ?w";
        cases "fst (performs en (settle_events cx rc i say [] [] []) ?w)") (auto simp: bindM_def ret_def)
  then show ?thesis by blast
qed

section \<open>Witnesses\<close>

definition sample_issue :: issue_meta where
  "sample_issue =
     \<lparr>im_number = 5, im_title = lit ''Total is off'', im_url = lit ''u'', im_author = lit ''ana'', im_body = [],
      im_labels = [lit ''bug'', lit ''triage''], im_state = lit ''OPEN''\<rparr>"

definition issue_env :: "issue_meta \<Rightarrow> str list \<Rightarrow> env" where
  "issue_env i prs = sample_env_ok\<lparr>en_issue := \<lambda>tr slug n. Inr i, en_fixing := \<lambda>tr slug n. Inr prs\<rparr>"

text \<open>A queue whose form blocks one area and asks nothing.\<close>

definition area_repo :: repo_config where
  "area_repo = sample_repo\<lparr>rc_issues := sample_issues\<lparr>ic_rules :=
     \<lparr>require = [], needs = [], block_if = [(lit ''Area'', [lit ''billing''])], ask_if = []\<rparr>\<rparr>\<rparr>"

theorem undecided_stays_queued_witness:
  "list_all no_write (wd_trace (snd (triage_one (issue_env (sample_issue\<lparr>im_state := lit ''CLOSED''\<rparr>) []) sample_ctx
     sample_repo 5 empty_world)))"
proof -
  let ?en = "issue_env (sample_issue\<lparr>im_state := lit ''CLOSED''\<rparr>) []"
  obtain w' where r: "triage_one ?en sample_ctx sample_repo 5 empty_world = (Inr None, w')"
    by (simp add: triage_one_def bindM_def ask_def issue_env_def ret_def)
  from undecided_stays_queued [OF r] r show ?thesis by (auto simp: empty_world_def)
qed

lemma empty_form: "form_verdict en area_repo sample_issue = Inr \<lparr>tr_action = Attempt, tr_reason = lit ''no answer forbids an attempt''\<rparr>"
proof -
  have "form_fields [] = []"
    by (simp add: form_fields_def form_lines_def form_step_def form_start_def keep_line_def is_heading_def
        FENCES_def str_eval)
  then show ?thesis
    by (simp add: form_verdict_def triage_def has_rules_def area_repo_def sample_issue_def dget_or_def)
qed

theorem attempt_is_cleared_witness:
  "\<exists>i call. form_verdict (issue_env sample_issue []) area_repo i = Inr call \<and>
     (tr_action call = Attempt \<or> tr_action call = Ask \<and> cleared_by_model (issue_env sample_issue []) sample_ctx area_repo i)"
proof -
  let ?en = "issue_env sample_issue []"
  have writes: "performs ?en es w = (Inr (), w\<lparr>wd_trace := wd_trace w @ es\<rparr>)" for es w
    by (induction es arbitrary: w)
      (simp_all add: ret_def bindM_def perform_def issue_env_def sample_env_ok_def sample_env_of_def)
  have "\<exists>w' d. triage_one ?en sample_ctx area_repo 5 empty_world = (Inr (Some d), w') \<and> sd_action d = lit ''attempt''"
  proof -
    have "en_issue ?en tr slug n = Inr sample_issue" "en_fixing ?en tr slug n = Inr []" for tr slug n
      by (simp_all add: issue_env_def)
    moreover have "im_state sample_issue = lit ''OPEN''" "\<not> cx_dry sample_ctx"
      by (simp_all add: sample_issue_def sample_ctx_def)
    ultimately show ?thesis
      by (simp add: triage_one_def bindM_def ask_def decide_issue_def liftE_def empty_form settle_call_def
          clear_for_fix_def settle_issue_def writes ret_def action_text_def)
  qed
  then show ?thesis using attempt_is_cleared by fast
qed

theorem no_publish_does_not_silence_triage_witness:
  "quiet (sample_ctx\<lparr>cx_no_publish := True\<rparr>) \<and>
   (\<exists>body. Gh_comment (rc_slug sample_repo) 5 body \<in> set (wd_trace (snd (triage_one (issue_env sample_issue [lit ''u''])
      (sample_ctx\<lparr>cx_no_publish := True\<rparr>) sample_repo 5 empty_world))))"
  using no_publish_does_not_silence_triage [of "sample_ctx\<lparr>cx_no_publish := True\<rparr>" "issue_env sample_issue [lit ''u'']"
      empty_world sample_repo 5 sample_issue "lit ''u''" "[]"]
  by (simp add: quiet_def sample_ctx_def issue_env_def sample_issue_def)

end
