(* ===== verification/Fixer.thy ===== *)
theory Fixer
  imports Issues
begin

text \<open>
  The fixer's tick (\<open>src/robbie/fixer.py\<close>): one container per cleared issue, and GitHub asked
  afterwards whether a pull request came out of it. The properties: the outcome is GitHub's
  word and never the model's, and every decision moves an issue along the queues, unless two
  labels of the configuration are the same.
\<close>

definition BRANCH_PREFIX :: str where "BRANCH_PREFIX = (lit ''robbie/issue-'')"

record fixed_issue =
  fx_number :: int
  fx_opened :: str
  fx_reason :: str

definition queue_labels :: "repo_config \<Rightarrow> str list" where
  "queue_labels rc =
     filter (\<lambda>l. l \<noteq> ic_clears (rc_issues rc)) (ic_labels (rc_issues rc)) @ [ic_fixable_label (rc_issues rc)]"

definition why_not :: "bool \<Rightarrow> str \<Rightarrow> str" where
  "why_not ok s =
     (if \<not> ok then (lit ''the fix run could not finish'')
      else let body = strip (fb_body (parse_fix s)) in
        if body \<noteq> [] then body
        else (lit ''the run ended without opening a pull request and without saying why''))"

text \<open>
  \<open>open_pr_for\<close>: the environment answers with the url of the first row, or the empty string,
  for the branch of the issue.
\<close>

definition open_pr_for :: "env \<Rightarrow> repo_config \<Rightarrow> int \<Rightarrow> str eff" where
  "open_pr_for en rc n = ask ''branch-pr'' (rc_slug rc) n (\<lambda>tr. en_branch_pr en tr (rc_slug rc) n)"

text \<open>\<open>_settle\<close>\<close>

definition settle_fix :: "env \<Rightarrow> ctx \<Rightarrow> repo_config \<Rightarrow> issue_meta \<Rightarrow> str \<Rightarrow> str \<Rightarrow> fixed_issue option eff" where
  "settle_fix en cx rc i opened reason =
     bindM (settle_issue en cx rc i
        (if opened \<noteq> [] then (lit ''Opened '' @ opened @ lit '' for this '' @ [8212]
       @ lit '' still a draft, and it needs a human review.'')
         else (lit ''I could not fix this one, so it is back with a person.'' @ [NL, NL] @ lit ''_'' @ reason
       @ lit ''_''))
        [] (if opened \<noteq> [] then [] else ic_assignee (rc_issues rc)) (ic_fixable_label (rc_issues rc)) False) (\<lambda>_.
       ret (Some \<lparr>fx_number = im_number i, fx_opened = opened, fx_reason = reason\<rparr>))"

definition assignees :: "repo_config \<Rightarrow> str" where
  "assignees rc =
     (if ic_assignee (rc_issues rc) = [] then lit ''nobody'' else join (lit '', '') (ic_assignee (rc_issues rc)))"

definition private_reason :: "review_run \<Rightarrow> str" where
  "private_reason r =
     (let reason = why_not (rn_ok r) (rn_text r) in
      if blank_opt (rn_error r) then reason else (reason @ lit '' ('' @ opt_str (rn_error r) @ lit '')''))"

text \<open>What follows the run: GitHub's answer decides.\<close>

definition report_fix :: "env \<Rightarrow> ctx \<Rightarrow> repo_config \<Rightarrow> int \<Rightarrow> issue_meta \<Rightarrow> review_run \<Rightarrow> str \<Rightarrow> fixed_issue option eff" where
  "report_fix en cx rc n i r opened =
     (if opened \<noteq> [] then
        bindM (jane_notify en cx (lit ''robbie opened a draft PR for bug #'' @ show_int n @ lit '': '' @ im_title i) opened
                 (lit ''It needs your review before it goes to Code Review.'') (lit ''normal'') (lit ''robbie'')) (\<lambda>_.
          settle_fix en cx rc i opened
            (if fb_body (parse_fix (rn_text r)) \<noteq> [] then fb_body (parse_fix (rn_text r)) else lit ''fixed''))
      else
        bindM (jane_notify en cx (lit ''robbie could not fix bug #'' @ show_int n @ lit '': '' @ im_title i) (im_url i)
                 (lit ''Assigned to '' @ assignees rc @ lit '': '' @ take 400 (private_reason r)) (lit ''normal'') (lit ''robbie'')) (\<lambda>_.
          settle_fix en cx rc i [] (why_not (rn_ok r) (rn_text r))))"

definition attempt_fix :: "env \<Rightarrow> ctx \<Rightarrow> repo_config \<Rightarrow> int \<Rightarrow> issue_meta \<Rightarrow> fixed_issue option eff" where
  "attempt_fix en cx rc n i =
     bindM (jane_notify en cx (lit ''robbie started fixing bug #'' @ show_int n @ lit '': '' @ im_title i) (im_url i)
              (lit ''Usually takes 10 to 45 minutes.'') (lit ''low'') (lit ''robbie'')) (\<lambda>_.
     bindM (run_review en cx rc (On_issue i) (fix_preamble n (im_title i) (im_body i)) FIX
              (ic_fix_model (rc_issues rc)) (ic_fix_via_endpoint (rc_issues rc))) (\<lambda>r.
     bindM (stamp en (\<lambda>now_ms. record_spend now_ms (rc_slug rc) n (lit ''fix'') (rn_cost r)
              (Some (rn_duration r)))) (\<lambda>_.
     bindM (open_pr_for en rc n) (report_fix en cx rc n i r))))"

definition run_fix :: "env \<Rightarrow> ctx \<Rightarrow> repo_config \<Rightarrow> int \<Rightarrow> issue_meta \<Rightarrow> fixed_issue option eff" where
  "run_fix en cx rc n i =
     bindM (one_more en cx (ic_fix_via_endpoint (rc_issues rc))) (\<lambda>v.
       if \<not> bv_allowed v then ret None else attempt_fix en cx rc n i)"

definition unless_linked :: "env \<Rightarrow> ctx \<Rightarrow> repo_config \<Rightarrow> int \<Rightarrow> issue_meta \<Rightarrow> fixed_issue option eff" where
  "unless_linked en cx rc n i =
     bindM (ask ''fixing'' (rc_slug rc) n (\<lambda>tr. en_fixing en tr (rc_slug rc) n)) (\<lambda>prs.
     if prs \<noteq> [] then
       bindM (point_to_fix en cx rc i prs (ic_fixable_label (rc_issues rc)) False) (\<lambda>_.
         ret (Some \<lparr>fx_number = n, fx_opened = hd prs, fx_reason = (lit ''someone else's pull request closes it'')\<rparr>))
     else run_fix en cx rc n i)"

definition fix_open_issue :: "env \<Rightarrow> ctx \<Rightarrow> repo_config \<Rightarrow> int \<Rightarrow> issue_meta \<Rightarrow> fixed_issue option eff" where
  "fix_open_issue en cx rc n i =
     bindM (open_pr_for en rc n) (\<lambda>opened.
     if opened \<noteq> [] then settle_fix en cx rc i opened (lit ''a pull request was already open'')
     else unless_linked en cx rc n i)"

definition fix_one :: "env \<Rightarrow> ctx \<Rightarrow> repo_config \<Rightarrow> int \<Rightarrow> fixed_issue option eff" where
  "fix_one en cx rc n =
     bindM (ask ''issue'' (rc_slug rc) n (\<lambda>tr. en_issue en tr (rc_slug rc) n)) (\<lambda>i.
       if im_state i \<noteq> lit ''OPEN'' \<or> cx_dry cx then ret None else fix_open_issue en cx rc n i)"

definition fix_tick :: "env \<Rightarrow> ctx \<Rightarrow> repo_config \<Rightarrow> fixed_issue list eff" where
  "fix_tick en cx rc =
     (if ic_labels (rc_issues rc) = [] \<or> cfg_fix_mcp (cx_cfg cx) = [] then ret []
      else
        bindM (ask ''issues'' (rc_slug rc) 0 (\<lambda>tr. en_issues en tr (rc_slug rc) (queue_labels rc))) (\<lambda>ns.
        bindM (mapM (\<lambda>n. catch_gh (fix_one en cx rc n) (\<lambda>_. ret None)) ns) (\<lambda>outs.
          ret (List.map_filter id outs))))"

section \<open>Closure\<close>

lemma open_pr_safe [safe_intros]:
  "preserves keeps_db (open_pr_for en rc n)" "preserves db_evolves (open_pr_for en rc n)"
  "P (Gh_read (lit ''branch-pr'') (rc_slug rc) n) \<Longrightarrow> preserves (adds P) (open_pr_for en rc n)"
  unfolding open_pr_for_def by (intro safe_intros; assumption?)+

lemmas fix_defs =
  fix_one_def fix_open_issue_def unless_linked_def run_fix_def attempt_fix_def report_fix_def settle_fix_def
  point_to_fix_def

lemma fix_evolves [safe_intros]: "preserves db_evolves (fix_tick en cx rc)"
  unfolding fix_tick_def fix_defs by (intro safe_intros)

lemma fix_keeps [safe_intros]:
  assumes d: "cx_dry cx" shows "preserves keeps_db (fix_tick en cx rc)"
  unfolding fix_tick_def fix_one_def by (intro safe_intros) (use d in auto)

section \<open>Nothing the model says is taken as proof\<close>

text \<open>Whatever it reports satisfies \<open>Q\<close>.\<close>

definition claims :: "('a \<Rightarrow> bool) \<Rightarrow> 'a option eff \<Rightarrow> bool" where
  "claims Q m \<longleftrightarrow> (\<forall>w w' x. m w = (Inr (Some x), w') \<longrightarrow> Q x)"

lemma claims_bind: "(\<And>x. claims Q (f x)) \<Longrightarrow> claims Q (bindM m f)"
  unfolding claims_def by (meson bind_cases)

lemma claims_ask: "(\<And>x tr. g tr = Inr x \<Longrightarrow> claims Q (f x)) \<Longrightarrow> claims Q (bindM (ask what repo n g) f)"
  by (auto simp: claims_def ask_def elim!: bind_cases)

lemma claims_if: "(b \<Longrightarrow> claims Q m) \<Longrightarrow> (\<not> b \<Longrightarrow> claims Q m') \<Longrightarrow> claims Q (if b then m else m')"
  by simp

lemma claims_ret: "claims Q (ret None)" "Q x \<Longrightarrow> claims Q (ret (Some x))"
  by (simp_all add: claims_def ret_def)

lemmas claims_intros = claims_if claims_ret claims_bind

text \<open>The url is one GitHub gave: of the branch, or of a pull request that closes the issue.\<close>

definition githubs_word :: "env \<Rightarrow> repo_config \<Rightarrow> int \<Rightarrow> str \<Rightarrow> bool" where
  "githubs_word en rc n url \<longleftrightarrow>
     (\<exists>tr. en_branch_pr en tr (rc_slug rc) n = Inr url) \<or>
     (\<exists>tr ps. en_fixing en tr (rc_slug rc) n = Inr (url # ps))"

lemma settle_fix_claims: "Q opened \<Longrightarrow> claims (\<lambda>f. Q (fx_opened f)) (settle_fix en cx rc i opened reason)"
  unfolding settle_fix_def by (intro claims_intros) simp

text \<open>
  C27: what the fixer reports as opened is what GitHub named, whatever the run said of itself:
  a url in the outcome is the answer to the question for the branch's pull request, asked
  before or after the run, or the first pull request GitHub lists as closing the issue.
\<close>

theorem fix_outcome_is_githubs:
  assumes "fix_one en cx rc n w = (Inr (Some f), w')" "fx_opened f \<noteq> []"
  shows "githubs_word en rc n (fx_opened f)"
proof -
  let ?Q = "\<lambda>url. url = [] \<or> githubs_word en rc n url"
  have report: "claims (\<lambda>f. ?Q (fx_opened f)) (report_fix en cx rc n i r url)"
    if "en_branch_pr en tr (rc_slug rc) n = Inr url" for i r url tr
    unfolding report_fix_def
    by (intro claims_if claims_bind settle_fix_claims) (use that in \<open>auto simp: githubs_word_def\<close>)
  have linked: "claims (\<lambda>f. ?Q (fx_opened f)) (unless_linked en cx rc n i)" for i
  proof -
    have "?Q (hd prs)" if "prs \<noteq> []" "en_fixing en tr (rc_slug rc) n = Inr prs" for prs tr
      using that by (cases prs) (auto simp: githubs_word_def)
    then show ?thesis
      unfolding unless_linked_def run_fix_def attempt_fix_def open_pr_for_def
      by (intro claims_ask claims_if claims_bind claims_ret report) auto
  qed
  have "claims (\<lambda>f. ?Q (fx_opened f)) (fix_one en cx rc n)"
    unfolding fix_one_def fix_open_issue_def open_pr_for_def
    by (rule claims_bind, intro claims_if claims_ret claims_ask settle_fix_claims linked)
      (auto simp: githubs_word_def)
  with assms show ?thesis by (auto simp: claims_def)
qed

section \<open>From queue to queue\<close>

text \<open>The labels of an issue after a write went through.\<close>

fun relabel :: "str set \<Rightarrow> event \<Rightarrow> str set" where
  "relabel ls (Gh_add_label repo n l) = insert l ls"
| "relabel ls (Gh_del_label repo n l) = ls - {l}"
| "relabel ls ev = ls"

definition in_queue :: "str list \<Rightarrow> str set \<Rightarrow> bool" where
  "in_queue names ls \<longleftrightarrow> set names \<subseteq> ls"

lemma relabel_settled:
  "foldl relabel ls (settle_events cx rc i say add_label assignee clears) =
     (if add_label = [] then ls else insert add_label ls)
       - {if clears = [] then ic_clears (rc_issues rc) else clears}"
  by (simp add: settle_events_def Let_def)

lemma checked_labels:
  assumes "check_issue_config ic = Inr ic'" "ic_labels ic \<noteq> []"
  shows "ic_clears ic \<in> set (ic_labels ic)" "ic_fixable_label ic \<noteq> []"
  using assms by (auto simp: check_issue_config_def split: if_splits)

text \<open>
  With a configuration that is accepted and whose fixable label is not the one it clears,
  every decision moves an issue to the one place it belongs: cleared, it is in the fixer's
  queue and no longer in the triage's; assigned, it is in neither; settled by the fixer, it
  has left the fixer's.
\<close>

theorem queues_hand_over:
  fixes rc i say cx ls
  defines "ic \<equiv> rc_issues rc"
  defines "cleared \<equiv> foldl relabel ls (settle_events cx rc i say (ic_fixable_label ic) [] [])"
    and "assigned \<equiv> foldl relabel ls (settle_events cx rc i say [] (ic_assignee ic) [])"
    and "fixed \<equiv> \<lambda>ls'. foldl relabel ls' (settle_events cx rc i say [] (ic_assignee ic) (ic_fixable_label ic))"
  assumes "check_issue_config ic = Inr ic'" "ic_labels ic \<noteq> []" "ic_fixable_label ic \<noteq> ic_clears ic"
    and "in_queue (ic_labels ic) ls"
  shows "in_queue (queue_labels rc) cleared \<and> \<not> in_queue (ic_labels ic) cleared \<and>
    \<not> in_queue (ic_labels ic) assigned \<and> \<not> in_queue (queue_labels rc) (fixed ls')"
proof -
  note c = checked_labels [OF assms(5,6)]
  have "cleared = insert (ic_fixable_label ic) ls - {ic_clears ic}" "assigned = ls - {ic_clears ic}"
    "fixed ls' = ls' - {ic_fixable_label ic}"
    using c(2) by (simp_all add: cleared_def assigned_def fixed_def relabel_settled ic_def)
  with c assms(7,8) show ?thesis
    by (auto simp: in_queue_def queue_labels_def ic_def)
qed

text \<open>
  Nothing rejects a configuration whose fixable label is the one the triage clears, and
  then an issue cleared for the fixer gets the label and loses it again: it is in neither
  queue, and no tick ever looks at it again.
\<close>

theorem shared_label_loses_issue:
  assumes "ic_fixable_label (rc_issues rc) = ic_clears (rc_issues rc)"
    and "check_issue_config (rc_issues rc) = Inr ic'" "ic_labels (rc_issues rc) \<noteq> []"
  shows "let ls' = foldl relabel ls (settle_events cx rc i say (ic_fixable_label (rc_issues rc)) [] [])
    in \<not> in_queue (ic_labels (rc_issues rc)) ls' \<and> \<not> in_queue (queue_labels rc) ls'"
proof -
  note c = checked_labels [OF assms(2,3)]
  show ?thesis
    unfolding Let_def relabel_settled
    using c assms(1) by (auto simp: in_queue_def queue_labels_def)
qed

section \<open>Witnesses\<close>

lemma sample_config_accepted: "check_issue_config sample_issues = Inr sample_issues"
  by (simp add: check_issue_config_def sample_issues_def)

theorem queues_hand_over_witness:
  "in_queue (queue_labels sample_repo)
     (foldl relabel (set (ic_labels sample_issues))
       (settle_events sample_ctx sample_repo sample_issue [] (ic_fixable_label sample_issues) [] []))"
proof -
  have ic: "rc_issues sample_repo = sample_issues" by (simp add: sample_repo_def)
  have side: "ic_labels sample_issues \<noteq> []" "ic_fixable_label sample_issues \<noteq> ic_clears sample_issues"
    "in_queue (ic_labels sample_issues) (set (ic_labels sample_issues))"
    by (simp_all add: sample_issues_def in_queue_def)
  from queues_hand_over [of sample_repo, unfolded ic, OF sample_config_accepted side] show ?thesis by blast
qed

theorem shared_label_loses_issue_witness:
  "\<not> in_queue (queue_labels (sample_repo\<lparr>rc_issues := sample_issues\<lparr>ic_fixable_label := lit ''triage''\<rparr>\<rparr>))
     (foldl relabel (set (ic_labels sample_issues))
       (settle_events sample_ctx (sample_repo\<lparr>rc_issues := sample_issues\<lparr>ic_fixable_label := lit ''triage''\<rparr>\<rparr>)
         sample_issue [] (lit ''triage'') [] []))"
proof -
  let ?ic = "sample_issues\<lparr>ic_fixable_label := lit ''triage''\<rparr>"
  have ic: "rc_issues (sample_repo\<lparr>rc_issues := ?ic\<rparr>) = ?ic" by simp
  have side: "ic_fixable_label ?ic = ic_clears ?ic" "check_issue_config ?ic = Inr ?ic" "ic_labels ?ic \<noteq> []"
    and label: "ic_fixable_label ?ic = lit ''triage''"
    by (simp_all add: sample_issues_def check_issue_config_def)
  from shared_label_loses_issue [of "sample_repo\<lparr>rc_issues := ?ic\<rparr>", unfolded ic, OF side] show ?thesis
    unfolding Let_def label by blast
qed

theorem fix_outcome_is_githubs_witness:
  "\<exists>f w'. fix_one (issue_env sample_issue [lit ''url'']) sample_ctx sample_repo 5 empty_world = (Inr (Some f), w') \<and>
     githubs_word (issue_env sample_issue [lit ''url'']) sample_repo 5 (fx_opened f)"
proof -
  let ?en = "issue_env sample_issue [lit ''url'']"
  have writes: "performs ?en es w = (Inr (), w\<lparr>wd_trace := wd_trace w @ es\<rparr>)" for es w
    by (induction es arbitrary: w)
      (simp_all add: ret_def bindM_def perform_def issue_env_def sample_env_ok_def sample_env_of_def)
  have env: "en_issue ?en tr slug n = Inr sample_issue" "en_fixing ?en tr slug n = Inr [lit ''url'']"
    "en_branch_pr ?en tr slug n = Inr []" for tr slug n
    by (simp_all add: issue_env_def sample_env_ok_def sample_env_of_def)
  have "im_state sample_issue = lit ''OPEN''" "\<not> cx_dry sample_ctx"
    by (simp_all add: sample_issue_def sample_ctx_def)
  then obtain f w' where f: "fix_one ?en sample_ctx sample_repo 5 empty_world = (Inr (Some f), w')"
    "fx_opened f = lit ''url''"
    by (simp add: fix_one_def fix_open_issue_def unless_linked_def open_pr_for_def point_to_fix_def settle_issue_def
        bindM_def ask_def env writes ret_def)
  have "fx_opened f \<noteq> []" using f(2) by (simp add: lit_def)
  from fix_outcome_is_githubs [OF f(1) this] f(1) show ?thesis by blast
qed

end
