(* ===== verification/Worklist.thy ===== *)
theory Worklist
  imports Fixer
begin

text \<open>
  What robbie knows, as files other processes read (\<open>src/robbie/export.py\<close>), and the weekly
  digest of parked pull requests (\<open>src/robbie/digest.py\<close>). The lists of GitHub, the clock and
  the parser of timestamps are a feed; the module's cache of CI outcomes is an argument and a
  result. The properties: what may stand on the operator's plate, that a partial export is
  never written, which pull requests a digest names and in which order, and two ways a pass
  is lost.
\<close>

section \<open>What is read\<close>

text \<open>
  The answers of GitHub as parsed JSON, \<open>datetime.fromisoformat(s).timestamp()\<close>, \<open>time.time()\<close>,
  and weekday, hour, ISO year and ISO week of the clock.
\<close>

record feed =
  fd_open_prs :: "trace \<Rightarrow> str \<Rightarrow> json res"
  fd_assigned :: "trace \<Rightarrow> str \<Rightarrow> json res"
  fd_open_issues :: "trace \<Rightarrow> str \<Rightarrow> json res"
  fd_parked :: "trace \<Rightarrow> str \<Rightarrow> json res"
  fd_iso :: "str \<Rightarrow> rat res"
  fd_time :: "trace \<Rightarrow> rat"
  fd_calendar :: "trace \<Rightarrow> int \<times> int \<times> int \<times> int"

definition read_feed :: "string \<Rightarrow> str \<Rightarrow> (trace \<Rightarrow> str \<Rightarrow> json res) \<Rightarrow> json eff" where
  "read_feed what slug f = ask what slug 0 (\<lambda>tr. f tr slug)"

definition seconds :: "feed \<Rightarrow> rat eff" where
  "seconds fd = (\<lambda>w. (Inr (fd_time fd (wd_trace w)), w))"

text \<open>\<open>await gh_json(...) or []\<close>, iterated over.\<close>

definition rows_of :: "json \<Rightarrow> json list res" where
  "rows_of j = jiter (jor j (JList []))"

type_synonym row = "(str \<times> json) list"

section \<open>One pull request in a few words\<close>

definition READY_DAYS :: int where "READY_DAYS = 30"
definition CI_RECHECK_S :: rat where "CI_RECHECK_S = 900"

definition LEGACY_FIX_PREFIXES :: "str list" where
  "LEGACY_FIX_PREFIXES = [(lit ''fix/issue-'')]"

text \<open>\<open>datetime.fromisoformat(iso.replace("Z", "+00:00"))\<close>\<close>

definition parse_iso :: "feed \<Rightarrow> json \<Rightarrow> rat res" where
  "parse_iso fd j =
     (case j of JStr s \<Rightarrow> fd_iso fd (replace (lit ''Z'') (lit ''+00:00'') s) | _ \<Rightarrow> Inl AttributeError)"

definition epoch :: "feed \<Rightarrow> json \<Rightarrow> int res" where
  "epoch fd j =
     (if \<not> truthy j then Inr 0
      else case parse_iso fd j of
        Inr t \<Rightarrow> Inr (trunc t)
      | Inl e \<Rightarrow> if e = ValueError then Inr 0 else Inl e)"

text \<open>\<open>_labels\<close>\<close>

definition label_list :: "json \<Rightarrow> json list res" where
  "label_list pr =
     bindE (jget_list pr (lit ''labels'')) (\<lambda>ls.
     bindE (jiter ls) (mapE (\<lambda>l. jget_or l (lit ''name'') (JStr []))))"

text \<open>\<open>_status\<close>\<close>

definition standing :: "repo_config \<Rightarrow> json \<Rightarrow> str res" where
  "standing rc pr =
     bindE (label_list pr) (\<lambda>labels.
     if JStr (rc_needs_work_label rc) \<in> set labels then Inr (lit ''needs work'')
     else
       bindE (jget pr (lit ''isDraft'')) (\<lambda>draft.
       if truthy draft then Inr (lit ''draft'')
       else
         bindE (jget pr (lit ''reviewDecision'')) (\<lambda>decision.
         if decision = JStr (lit ''APPROVED'') then Inr (lit ''approved'')
         else if JStr (rc_label rc) \<in> set labels then Inr (lit ''code review'') else Inr (lit ''open''))))"

text \<open>\<open>x.get(k) or ""\<close>, and \<open>(pr.get("author") or {}).get("login") or ""\<close>.\<close>

definition text_field :: "json \<Rightarrow> string \<Rightarrow> json res" where
  "text_field pr k = bindE (jget pr (lit k)) (\<lambda>v. Inr (jor v (JStr [])))"

definition author_login :: "json \<Rightarrow> json res" where
  "author_login pr =
     bindE (jget_obj pr (lit ''author'')) (\<lambda>a. jget a (lit ''login''))"

text \<open>\<open>_brief\<close>\<close>

definition brief :: "repo_config \<Rightarrow> json \<Rightarrow> row res" where
  "brief rc pr =
     bindE (jitem pr (lit ''number'')) (\<lambda>n.
     bindE (text_field pr ''title'') (\<lambda>title.
     bindE (text_field pr ''url'') (\<lambda>url.
     bindE (author_login pr) (\<lambda>login.
       Inr [(lit ''repo'', JStr (rc_slug rc)), (lit ''number'', n), (lit ''title'', title),
            (lit ''url'', url), (lit ''author'', jor login (JStr []))]))))"

definition number_of :: "json \<Rightarrow> int res" where
  "number_of pr = bindE (jitem pr (lit ''number'')) py_int"

text \<open>\<open>{int(pr["number"]): pr for pr in open_prs}\<close>\<close>

definition by_number :: "json list \<Rightarrow> (int, json) dict res" where
  "by_number prs = foldE (\<lambda>d pr. bindE (number_of pr) (\<lambda>n. Inr (dset n pr d))) [] prs"

section \<open>The parts of a worklist\<close>

definition ci_name :: "ci_state \<Rightarrow> str" where
  "ci_name c =
     (case c of Ci_waiting \<Rightarrow> lit ''waiting'' | Ci_green \<Rightarrow> lit ''green'' | Ci_red \<Rightarrow> lit ''red''
      | Ci_stale \<Rightarrow> lit ''stale'' | Ci_gone \<Rightarrow> lit ''gone'' | Ci_done \<Rightarrow> lit ''done''
      | Ci_unlabeled \<Rightarrow> lit ''unlabeled'' | Ci_expired \<Rightarrow> lit ''expired'')"

definition ci_text :: "ci_state option \<Rightarrow> json" where
  "ci_text c = (case c of None \<Rightarrow> JNull | Some st \<Rightarrow> JStr (ci_name st))"

text \<open>One row of \<open>awaiting\<close>, if the row of the database is one of this repository's open heads.\<close>

definition awaiting_row :: "repo_config \<Rightarrow> (int, json) dict \<Rightarrow> review_row \<Rightarrow> row list res" where
  "awaiting_row rc open_prs r =
     (if rv_repo r \<noteq> rc_slug rc then Inr []
      else case dget open_prs (rv_pr r) of
        None \<Rightarrow> Inr []
      | Some pr \<Rightarrow>
          bindE (jget pr (lit ''headRefOid'')) (\<lambda>head.
          if head \<noteq> JStr (rv_head r) then Inr []
          else bindE (brief rc pr) (\<lambda>b.
            Inr [b @ [(lit ''head'', JStr (rv_head r)), (lit ''ci'', ci_text (rv_ci r))]])))"

definition awaiting :: "repo_config \<Rightarrow> (int, json) dict \<Rightarrow> review_row list \<Rightarrow> row list res" where
  "awaiting rc open_prs rows = bindE (mapE (awaiting_row rc open_prs) rows) (\<lambda>rs. Inr (concat rs))"

text \<open>\<open>str.isdigit\<close>: decimal digits, and the superscripts and circled digits that \<open>int\<close> does not read.\<close>

definition other_digits :: "(nat \<times> nat) list" where
  "other_digits =
     [(178, 179), (185, 185), (4969, 4977), (6618, 6618), (8304, 8304), (8308, 8313), (8320, 8329), (9312, 9320),
      (9332, 9340), (9352, 9360), (9450, 9450), (9461, 9469), (9471, 9471), (10102, 10110), (10112, 10120),
      (10122, 10130), (68160, 68163), (69216, 69224), (69714, 69722), (127232, 127242)]"

definition isdigit :: "str \<Rightarrow> bool" where
  "isdigit s \<longleftrightarrow>
     s \<noteq> [] \<and> list_all (\<lambda>c. is_digit c \<or> list_ex (\<lambda>r. fst r \<le> c \<and> c \<le> snd r) other_digits) s"

text \<open>\<open>int(suffix) if suffix.isdigit() else None\<close>\<close>

definition issue_number :: "str \<Rightarrow> json res" where
  "issue_number suffix =
     (if isdigit suffix
      then (case int_of_str suffix of None \<Rightarrow> Inl ValueError | Some i \<Rightarrow> Inr (JInt i))
      else Inr JNull)"

definition fix_prefix :: "str \<Rightarrow> str option" where
  "fix_prefix branch = find_first (startswith branch) (BRANCH_PREFIX # LEGACY_FIX_PREFIXES)"

definition fix_fields :: "feed \<Rightarrow> repo_config \<Rightarrow> json \<Rightarrow> str \<Rightarrow> row res" where
  "fix_fields fd rc pr suffix =
     bindE (brief rc pr) (\<lambda>b.
     bindE (issue_number suffix) (\<lambda>i.
     bindE (bindE (jget pr (lit ''createdAt'')) (epoch fd)) (\<lambda>opened.
     bindE (jget pr (lit ''isDraft'')) (\<lambda>draft.
     bindE (label_list pr) (\<lambda>labels.
     bindE (standing rc pr) (\<lambda>st.
       Inr (b @ [(lit ''issue'', i), (lit ''opened_at'', JInt opened), (lit ''draft'', JBool (truthy draft)),
                 (lit ''labels'', JList labels), (lit ''status'', JStr st)])))))))"

definition fix_row :: "feed \<Rightarrow> repo_config \<Rightarrow> json \<Rightarrow> row list res" where
  "fix_row fd rc pr =
     bindE (text_field pr ''headRefName'') (\<lambda>branch.
     case branch of
       JStr s \<Rightarrow>
         (case fix_prefix s of
            None \<Rightarrow> Inr []
          | Some p \<Rightarrow> bindE (fix_fields fd rc pr (drop (length p) s)) (\<lambda>r. Inr [r]))
     | _ \<Rightarrow> Inl AttributeError)"

text \<open>\<open>_closing\<close>\<close>

definition closing_row :: "repo_config \<Rightarrow> (int, json) dict \<Rightarrow> json \<Rightarrow> row list res" where
  "closing_row rc open_prs ref =
     bindE (text_field ref ''url'') (\<lambda>url.
     case url of
       JStr u \<Rightarrow>
         if \<not> startswith u ((lit ''https://github.com/'' @ rc_slug rc @ lit ''/pull/'')) then Inr []
         else
           bindE (number_of ref) (\<lambda>n.
           bindE (case dget open_prs n of
               Some pr \<Rightarrow> if truthy pr then standing rc pr else Inr (lit ''closed'')
             | None \<Rightarrow> Inr (lit ''closed'')) (\<lambda>st.
             Inr [[(lit ''number'', JInt n), (lit ''url'', url), (lit ''status'', JStr st)]]))
     | _ \<Rightarrow> Inl AttributeError)"

definition closing :: "repo_config \<Rightarrow> (int, json) dict \<Rightarrow> json \<Rightarrow> json res" where
  "closing rc open_prs issue =
     bindE (jget_list issue (lit ''closedByPullRequestsReferences'')) (\<lambda>refs.
     bindE (jiter refs) (\<lambda>xs.
     bindE (mapE (closing_row rc open_prs) xs) (\<lambda>rs. Inr (JList (map JObj (concat rs))))))"

definition assigned_row :: "feed \<Rightarrow> repo_config \<Rightarrow> (int, json) dict \<Rightarrow> json \<Rightarrow> row res" where
  "assigned_row fd rc open_prs i =
     bindE (jitem i (lit ''number'')) (\<lambda>n.
     bindE (text_field i ''title'') (\<lambda>title.
     bindE (text_field i ''url'') (\<lambda>url.
     bindE (label_list i) (\<lambda>labels.
     bindE (bindE (jget i (lit ''updatedAt'')) (epoch fd)) (\<lambda>updated.
     bindE (closing rc open_prs i) (\<lambda>prs.
       Inr [(lit ''repo'', JStr (rc_slug rc)), (lit ''number'', n), (lit ''title'', title), (lit ''url'', url),
            (lit ''labels'', JList labels), (lit ''updated_at'', JInt updated), (lit ''prs'', prs)]))))))"

section \<open>CI of the operator's own pull requests\<close>

text \<open>The cache of the module: the outcome last read for a commit, and when.\<close>

type_synonym ci_key = "str \<times> int \<times> json"

definition cached :: "ci_key \<Rightarrow> (str \<times> rat) option eff" where
  "cached key = (\<lambda>w. (Inr (dget (wd_ci w) key), w))"

definition remember :: "ci_key \<Rightarrow> str \<times> rat \<Rightarrow> unit eff" where
  "remember key c = (\<lambda>w. (Inr (), w\<lparr>wd_ci := dset key c (wd_ci w)\<rparr>))"

definition forget :: "(ci_key \<Rightarrow> bool) \<Rightarrow> unit eff" where
  "forget P = (\<lambda>w. (Inr (), w\<lparr>wd_ci := filter (\<lambda>kv. \<not> P (fst kv)) (wd_ci w)\<rparr>))"

definition ci_word :: "repo_config \<Rightarrow> pr_meta \<Rightarrow> str" where
  "ci_word rc m =
     (if pm_checks m = [] then (lit ''none'')
      else case ci_outcome m (rc_ignore_checks rc) of Green \<Rightarrow> (lit ''green'') | Red \<Rightarrow> (lit ''red'') | Waiting \<Rightarrow> (lit ''pending''))"

definition fresh_ci :: "rat \<Rightarrow> str \<times> rat \<Rightarrow> bool" where
  "fresh_ci t c \<longleftrightarrow> fst c = (lit ''green'') \<or> fst c = (lit ''red'') \<or> t - snd c < CI_RECHECK_S"

definition mine_fields :: "repo_config \<Rightarrow> json \<Rightarrow> (int \<times> json \<times> row) res" where
  "mine_fields rc pr =
     bindE (brief rc pr) (\<lambda>b.
     bindE (text_field pr ''headRefOid'') (\<lambda>head.
     bindE (jget pr (lit ''isDraft'')) (\<lambda>draft.
     bindE (label_list pr) (\<lambda>labels.
     bindE (jget pr (lit ''reviewDecision'')) (\<lambda>decision.
     bindE (number_of pr) (\<lambda>n.
       Inr (n, head, b @ [(lit ''head'', head), (lit ''draft'', JBool (truthy draft)), (lit ''labels'', JList labels),
                          (lit ''review'', jor decision JNull)])))))))"

definition fetch_ci :: "env \<Rightarrow> feed \<Rightarrow> repo_config \<Rightarrow> int \<Rightarrow> ci_key \<Rightarrow> str eff" where
  "fetch_ci en fd rc n key =
     bindM (catch_gh
        (bindM (ask ''meta'' (rc_slug rc) n (\<lambda>tr. en_meta en tr (rc_slug rc) n)) (\<lambda>m. ret (Some m)))
        (\<lambda>_. ret None)) (\<lambda>got.
     case got of
       None \<Rightarrow> ret (lit ''none'')
     | Some m \<Rightarrow>
         bindM (seconds fd) (\<lambda>t.
         bindM (remember key (ci_word rc m, t)) (\<lambda>_. ret (ci_word rc m))))"

definition read_ci :: "env \<Rightarrow> feed \<Rightarrow> repo_config \<Rightarrow> int \<Rightarrow> json \<Rightarrow> str eff" where
  "read_ci en fd rc n head =
     bindM (seconds fd) (\<lambda>t.
     let key = (rc_slug rc, n, head) in
     bindM (cached key) (\<lambda>c.
     case c of
       Some c \<Rightarrow> if fresh_ci t c then ret (fst c) else fetch_ci en fd rc n key
     | None \<Rightarrow> fetch_ci en fd rc n key))"

text \<open>\<open>_mine\<close>\<close>

definition mine :: "env \<Rightarrow> feed \<Rightarrow> repo_config \<Rightarrow> json \<Rightarrow> row eff" where
  "mine en fd rc pr =
     bindM (liftE (mine_fields rc pr)) (\<lambda>f.
     bindM (read_ci en fd rc (fst f) (fst (snd f))) (\<lambda>ci.
       ret (snd (snd f) @ [(lit ''ci'', JStr ci)])))"

section \<open>The worklist of a repository\<close>

definition mine_if :: "env \<Rightarrow> feed \<Rightarrow> repo_config \<Rightarrow> json \<Rightarrow> row list eff" where
  "mine_if en fd rc pr =
     bindM (liftE (author_login pr)) (\<lambda>login.
     if login \<noteq> JStr (rc_reviewer_login rc) then ret []
     else bindM (mine en fd rc pr) (\<lambda>r. ret [r]))"

definition mine_all :: "env \<Rightarrow> feed \<Rightarrow> repo_config \<Rightarrow> json list \<Rightarrow> row list eff" where
  "mine_all en fd rc prs = bindM (mapM (mine_if en fd rc) prs) (\<lambda>rs. ret (concat rs))"

definition row_field :: "row \<Rightarrow> string \<Rightarrow> json" where
  "row_field r k = dget_or r (lit k) JNull"

text \<open>\<open>f["ci"] = ci.get(f["number"])\<close>; the row is the same object in both lists of fixes.\<close>

definition with_ci :: "row list \<Rightarrow> row \<Rightarrow> row" where
  "with_ci own f =
     f @ [(lit ''ci'', case find_first (\<lambda>p. row_field p ''number'' = row_field f ''number'') (rev own) of
             None \<Rightarrow> JNull | Some p \<Rightarrow> row_field p ''ci'')]"

text \<open>An outcome for a commit that is no longer a head of the operator's is dropped.\<close>

definition stale_key :: "repo_config \<Rightarrow> row list \<Rightarrow> ci_key \<Rightarrow> bool" where
  "stale_key rc own k \<longleftrightarrow>
     fst k = rc_slug rc \<and>
     \<not> (\<exists>p \<in> set own. row_field p ''number'' = JInt (fst (snd k)) \<and> row_field p ''head'' = snd (snd k))"

definition has_label_row :: "str \<Rightarrow> row \<Rightarrow> bool" where
  "has_label_row l f = (case row_field f ''labels'' of JList ls \<Rightarrow> JStr l \<in> set ls | _ \<Rightarrow> False)"

definition needs_work_rows :: "repo_config \<Rightarrow> json list \<Rightarrow> row list res" where
  "needs_work_rows rc prs =
     bindE (mapE (\<lambda>pr. bindE (label_list pr) (\<lambda>ls.
       if JStr (rc_needs_work_label rc) \<in> set ls then bindE (brief rc pr) (\<lambda>b. Inr [b]) else Inr [])) prs)
       (\<lambda>rs. Inr (concat rs))"

definition bug_labels :: "repo_config \<Rightarrow> str list" where
  "bug_labels rc = filter (\<lambda>l. l \<noteq> ic_clears (rc_issues rc)) (ic_labels (rc_issues rc))"

definition assigned :: "feed \<Rightarrow> repo_config \<Rightarrow> (int, json) dict \<Rightarrow> row list eff" where
  "assigned fd rc open_prs =
     (if bug_labels rc = [] then ret []
      else
        bindM (read_feed ''assigned'' (rc_slug rc) (fd_assigned fd)) (\<lambda>j.
        liftE (bindE (rows_of j) (mapE (assigned_row fd rc open_prs)))))"

definition open_names :: "repo_config \<Rightarrow> (int, json) dict \<Rightarrow> json list" where
  "open_names rc open_prs = map (\<lambda>n. JStr (rc_slug rc @ lit ''#'' @ show_int n)) (sort (dkeys open_prs))"

definition issue_names :: "env \<Rightarrow> repo_config \<Rightarrow> json list \<Rightarrow> json list res" where
  "issue_names en rc is =
     mapE (\<lambda>i. bindE (jitem i (lit ''number'')) (\<lambda>n. Inr (JStr (rc_slug rc @ lit ''#'' @ py_str (en_rep en) n)))) is"

text \<open>A list of the worklist by its name.\<close>

type_synonym part = "(str \<times> json list) list"

definition objects :: "row list \<Rightarrow> json list" where
  "objects rs = map JObj rs"

definition repo_lists :: "env \<Rightarrow> feed \<Rightarrow> repo_config \<Rightarrow> json list \<Rightarrow> (int, json) dict \<Rightarrow> part eff" where
  "repo_lists en fd rc prs open_prs =
     bindM (seconds fd) (\<lambda>t.
     bindM (gets (\<lambda>d. approved_and_green d (trunc (t * 1000) - READY_DAYS * 86400000))) (\<lambda>rows.
     bindM (liftE (awaiting rc open_prs rows)) (\<lambda>plate.
     bindM (liftE (bindE (mapE (fix_row fd rc) prs) (\<lambda>rs. Inr (concat rs)))) (\<lambda>fixes0.
     bindM (liftE (needs_work_rows rc prs)) (\<lambda>parked.
     bindM (mine_all en fd rc prs) (\<lambda>own.
     bindM (forget (stale_key rc own)) (\<lambda>_.
     let fixes = map (with_ci own) fixes0 in
     bindM (assigned fd rc open_prs) (\<lambda>bugs.
     bindM (bindM (read_feed ''open-issues'' (rc_slug rc) (fd_open_issues fd)) (\<lambda>j. liftE (rows_of j))) (\<lambda>is.
     bindM (liftE (issue_names en rc is)) (\<lambda>names.
       ret [(lit ''awaiting_you'', objects plate), (lit ''needs_work'', objects parked),
            (lit ''fixer_prs'', objects (filter (\<lambda>f. \<not> has_label_row (rc_label rc) f) fixes)),
            (lit ''fixes'', objects fixes), (lit ''triage_assigned'', objects bugs), (lit ''mine'', objects own),
            (lit ''open_prs'', open_names rc open_prs), (lit ''open_issues'', names)]))))))))))"

definition repo_worklist :: "env \<Rightarrow> feed \<Rightarrow> repo_config \<Rightarrow> part eff" where
  "repo_worklist en fd rc =
     bindM (bindM (read_feed ''open-prs'' (rc_slug rc) (fd_open_prs fd)) (\<lambda>j. liftE (rows_of j))) (\<lambda>prs.
     bindM (liftE (by_number prs)) (\<lambda>open_prs. repo_lists en fd rc prs open_prs))"

section \<open>The export\<close>

definition meter_fields :: "meter \<Rightarrow> row" where
  "meter_fields m =
     [(lit ''pct'', case mt_pct m of None \<Rightarrow> JNull | Some p \<Rightarrow> JFloat (Fin p)),
      (lit ''read_at'', JInt ((case mt_read_at m of None \<Rightarrow> 0 | Some t \<Rightarrow> t) div 1000)),
      (lit ''error'', case mt_error m of None \<Rightarrow> JNull | Some s \<Rightarrow> JStr s)]"

definition usage :: "rat \<Rightarrow> db \<Rightarrow> row" where
  "usage t d =
     (lit ''written_at'', JInt (trunc t)) #
     concat (map (\<lambda>n. case read_meter d n of None \<Rightarrow> [] | Some m \<Rightarrow> [(n, JObj (meter_fields m))]) [lit ''plan'', lit ''endpoint''])"

text \<open>\<open>lists.setdefault(key, []).extend(rows)\<close>\<close>

definition merge_part :: "part \<Rightarrow> part \<Rightarrow> part" where
  "merge_part acc p = foldl (\<lambda>d kv. dset (fst kv) (dget_or d (fst kv) [] @ snd kv) d) acc p"

text \<open>The parts of every repository, or nothing when one could not be read.\<close>

fun all_parts :: "env \<Rightarrow> feed \<Rightarrow> part \<Rightarrow> repo_config list \<Rightarrow> part option eff" where
  "all_parts en fd acc [] = ret (Some acc)"
| "all_parts en fd acc (rc # rcs) =
     bindM (catch_gh (bindM (repo_worklist en fd rc) (\<lambda>p. ret (Some p))) (\<lambda>_. ret None)) (\<lambda>got.
     case got of None \<Rightarrow> ret None | Some p \<Rightarrow> all_parts en fd (merge_part acc p) rcs)"

text \<open>What \<open>export_once\<close> writes: the two files, or nothing.\<close>

record written =
  wr_worklist :: row
  wr_usage :: row

definition export_once :: "env \<Rightarrow> feed \<Rightarrow> ctx \<Rightarrow> written option eff" where
  "export_once en fd cx =
     bindM (all_parts en fd [] (cfg_repos (cx_cfg cx))) (\<lambda>got.
     case got of
       None \<Rightarrow> ret None
     | Some acc \<Rightarrow>
         bindM (seconds fd) (\<lambda>t.
         bindM (gets (usage t)) (\<lambda>u.
           ret (Some \<lparr>wr_worklist = (lit ''written_at'', JInt (trunc t)) # map (\<lambda>kv. (fst kv, JList (snd kv))) acc,
                     wr_usage = u\<rparr>))))"

section \<open>The digest\<close>

text \<open>\<open>stale_changes_requested\<close>, from the answer on.\<close>

definition parked_nodes :: "json \<Rightarrow> json list res" where
  "parked_nodes reply =
     bindE (jget_obj (jor reply (JObj [])) (lit ''data'')) (\<lambda>d.
     bindE (jget_obj d (lit ''search'')) (\<lambda>s.
     bindE (jget_list s (lit ''nodes'')) (\<lambda>ns.
     bindE (jiter ns) (\<lambda>xs. Inr (filter truthy xs)))))"

text \<open>\<open>((node.get(k) or {}).get("nodes")) or []\<close>\<close>

definition inner_nodes :: "json \<Rightarrow> string \<Rightarrow> json list res" where
  "inner_nodes node k =
     bindE (jget_obj node (lit k)) (\<lambda>c. bindE (jget_list c (lit ''nodes'')) jiter)"

text \<open>\<open>int((now - then).total_seconds() // 86400)\<close>\<close>

definition days_since :: "feed \<Rightarrow> json \<Rightarrow> rat \<Rightarrow> int option res" where
  "days_since fd stamped t =
     (if \<not> truthy stamped then Inr None
      else case parse_iso fd stamped of
        Inr u \<Rightarrow> Inr (Some \<lfloor>(t - u) / 86400\<rfloor>)
      | Inl e \<Rightarrow> if e = ValueError then Inr None else Inl e)"

definition digest_line :: "env \<Rightarrow> json \<Rightarrow> int \<Rightarrow> int \<Rightarrow> str res" where
  "digest_line en node age pushed =
     bindE (author_login node) (\<lambda>login.
     bindE (jitem node (lit ''url'')) (\<lambda>url.
     bindE (jitem node (lit ''number'')) (\<lambda>n.
     bindE (jget node (lit ''title'')) (\<lambda>title.
     let author = py_str (en_rep en) (jor login (JStr (lit ''someone'')));
         recent = (if pushed < 1 then (lit ''today'') else (show_int pushed @ lit ''d ago''))
     in Inr ([8226] @ lit '' <'' @ py_str (en_rep en) url @ lit ''|*#'' @ py_str (en_rep en) n @ lit ''*> ''
       @ take 70 (py_str (en_rep en) title) @ lit '' '' @ [8212] @ lit '' '' @ author @ lit '' '' @ [183]
       @ lit '' changes requested *'' @ show_int age @ lit ''d* ago '' @ [183] @ lit '' last push ''
       @ recent)))))"

definition row_if_parked :: "env \<Rightarrow> int \<Rightarrow> json \<Rightarrow> int option \<Rightarrow> int option \<Rightarrow> (int \<times> str) list res" where
  "row_if_parked en threshold node age pushed =
     (case (age, pushed) of
        (Some a, Some p) \<Rightarrow>
          if a < threshold then Inr [] else bindE (digest_line en node a p) (\<lambda>l. Inr [(a, l)])
      | _ \<Rightarrow> Inr [])"

text \<open>One row of \<open>_lines\<close>, with its age.\<close>

definition digest_row :: "env \<Rightarrow> feed \<Rightarrow> rat \<Rightarrow> int \<Rightarrow> json \<Rightarrow> (int \<times> str) list res" where
  "digest_row en fd t threshold node =
     bindE (inner_nodes node ''reviews'') (\<lambda>reviews.
     bindE (inner_nodes node ''commits'') (\<lambda>commits.
     if reviews = [] \<or> commits = [] then Inr []
     else
       bindE (bindE (jget (last reviews) (lit ''submittedAt'')) (\<lambda>i. days_since fd i t)) (\<lambda>age.
       bindE (bindE (jget_obj (hd commits) (lit ''commit'')) (\<lambda>c.
               bindE (jget c (lit ''committedDate'')) (\<lambda>i. days_since fd i t))) (\<lambda>pushed.
         row_if_parked en threshold node age pushed))))"

definition digest_rows :: "env \<Rightarrow> feed \<Rightarrow> rat \<Rightarrow> int \<Rightarrow> json list \<Rightarrow> (int \<times> str) list res" where
  "digest_rows en fd t threshold nodes =
     bindE (mapE (digest_row en fd t threshold) nodes) (\<lambda>rs. Inr (sort_key (\<lambda>r. - fst r) (concat rs)))"

definition digest_text :: "int \<Rightarrow> str list \<Rightarrow> str" where
  "digest_text threshold ls =
     (lit ''<!here> '' @ show_nat (length ls) @ lit '' PR''
       @ (if length ls = 1 then [] else lit ''s'') @ lit '' stuck on requested changes for ''
       @ show_int threshold @ lit ''+ days '' @ [8212]
       @ lit '' parked out of every review queue until the author re-requests:'' @ [NL, NL]
       @ join [NL] ls @ [NL, NL]
       @ lit ''If the fixes are already pushed, *re-request the review* and it comes straight back to ''
       @ lit ''me. If it's dead, close it. '' @ [128591])"

definition digest_repo :: "env \<Rightarrow> feed \<Rightarrow> ctx \<Rightarrow> int \<Rightarrow> repo_config \<Rightarrow> nat eff" where
  "digest_repo en fd cx threshold rc =
     (case rc_slack_channel rc of
        None \<Rightarrow> ret 0
      | Some channel \<Rightarrow>
          if channel = [] then ret 0
          else
            bindM (read_feed ''parked'' (rc_slug rc) (fd_parked fd)) (\<lambda>reply.
            bindM (liftE (parked_nodes reply)) (\<lambda>nodes.
            bindM (seconds fd) (\<lambda>t.
            bindM (liftE (digest_rows en fd t threshold nodes)) (\<lambda>rows.
            if rows = [] then ret 0
            else
              bindM (slack_post en cx channel (digest_text threshold (map snd rows))) (\<lambda>_.
                ret (length rows)))))))"

definition post_digest :: "env \<Rightarrow> feed \<Rightarrow> ctx \<Rightarrow> int option \<Rightarrow> nat eff" where
  "post_digest en fd cx days =
     (let threshold = (case days of None \<Rightarrow> cfg_stale_review_days (cx_cfg cx) | Some d \<Rightarrow> d) in
      bindM (mapM (digest_repo en fd cx threshold) (cfg_repos (cx_cfg cx))) (\<lambda>ns. ret (sum_list ns)))"

section \<open>Their clock\<close>

definition pad2 :: "int \<Rightarrow> str" where
  "pad2 n = zero_pad 2 (show_int n)"

definition digest_due :: "config \<Rightarrow> int \<times> int \<times> int \<times> int \<Rightarrow> str option" where
  "digest_due cfg cal =
     (case cfg_digest_weekday cfg of
        None \<Rightarrow> None
      | Some day \<Rightarrow>
          if fst cal \<noteq> day \<or> fst (snd cal) < cfg_digest_utc_hour cfg then None
          else Some ((lit ''digest:'' @ show_int (fst (snd (snd cal))) @ lit ''-W'' @ pad2 (snd (snd (snd cal))))))"

text \<open>The body of \<open>main._exports\<close>: \<open>except Exception\<close> around all of it.\<close>

definition weekly_digest :: "env \<Rightarrow> feed \<Rightarrow> ctx \<Rightarrow> unit eff" where
  "weekly_digest en fd cx =
     (\<lambda>w. (case digest_due (cx_cfg cx) (fd_calendar fd (wd_trace w)) of
             None \<Rightarrow> ret ()
           | Some week \<Rightarrow>
               bindM (once_key en week) (\<lambda>first.
               if \<not> first then ret () else bindM (post_digest en fd cx None) (\<lambda>_. ret ()))) w)"

definition export_pass :: "env \<Rightarrow> feed \<Rightarrow> ctx \<Rightarrow> written option eff" where
  "export_pass en fd cx =
     bindM (if 0 < cfg_export_interval_s (cx_cfg cx) then export_once en fd cx else ret None) (\<lambda>files.
     bindM (weekly_digest en fd cx) (\<lambda>_. ret files))"

text \<open>\<open>except Exception: logger.exception(...)\<close>; what was written before stays written.\<close>

definition exports_turn :: "env \<Rightarrow> feed \<Rightarrow> ctx \<Rightarrow> unit eff" where
  "exports_turn en fd cx = catchM (bindM (export_pass en fd cx) (\<lambda>_. ret ())) (\<lambda>_. ret ())"

section \<open>The plate\<close>

lemma awaiting_row_mem:
  assumes "awaiting_row rc open_prs r = Inr rows" "x \<in> set rows"
  shows "rv_repo r = rc_slug rc \<and>
    (\<exists>pr b. dget open_prs (rv_pr r) = Some pr \<and> jget pr (lit ''headRefOid'') = Inr (JStr (rv_head r)) \<and>
       brief rc pr = Inr b \<and> x = b @ [(lit ''head'', JStr (rv_head r)), (lit ''ci'', ci_text (rv_ci r))])"
  using assms by (auto simp: awaiting_row_def bindE_Inr_iff split: if_splits option.splits)

lemma by_number_mem:
  assumes "by_number prs = Inr d" "dget d n = Some pr" shows "pr \<in> set prs \<and> number_of pr = Inr n"
proof -
  let ?f = "\<lambda>d pr. bindE (number_of pr) (\<lambda>n. Inr (dset n pr d))"
  have "foldE ?f d0 ps = Inr d \<Longrightarrow> dget d n = Some pr \<Longrightarrow>
      dget d0 n = Some pr \<or> pr \<in> set ps \<and> number_of pr = Inr n" for d0 ps
  proof (induction ps arbitrary: d0)
    case (Cons q qs)
    from Cons.prems(1) obtain k where k: "number_of q = Inr k" "foldE ?f (dset k q d0) qs = Inr d"
      by (auto simp: bindE_Inr_iff)
    from Cons.IH [OF k(2) Cons.prems(2)] k(1) show ?case by (auto split: if_splits)
  qed simp
  from this [of "[]" prs] assms show ?thesis by (simp add: by_number_def)
qed

lemma awaiting_mem:
  assumes "awaiting rc open_prs rs = Inr plate" "x \<in> set plate"
  shows "\<exists>r \<in> set rs. \<exists>rows. awaiting_row rc open_prs r = Inr rows \<and> x \<in> set rows"
proof -
  from assms obtain xss where "mapE (awaiting_row rc open_prs) rs = Inr xss" "x \<in> set (concat xss)"
    by (auto simp: awaiting_def bindE_Inr_iff)
  then obtain rows where l: "list_all2 (\<lambda>r rows. awaiting_row rc open_prs r = Inr rows) rs xss"
    and r: "rows \<in> set xss" "x \<in> set rows" by (auto simp: mapE_Inr_conv)
  from list_all2_mem2 [OF l r(1)] r(2) show ?thesis by blast
qed

lemma approved_and_green_mem:
  "r \<in> set (approved_and_green d since) \<Longrightarrow>
   r \<in> set (db_reviews d) \<and> rv_state r = RvPublished \<and> rv_verdict r = Some Ok_verdict \<and>
   is_requested d (rv_repo r) (rv_pr r) \<and>
   (\<forall>q \<in> set (db_reviews d). rv_state q = RvPublished \<and> rv_repo q = rv_repo r \<and> rv_pr q = rv_pr r \<longrightarrow> \<not> newer q r)"
  by (auto simp: approved_and_green_def newest_in_def newer_def Let_def)

text \<open>A computation that ends well leaves what its parts computed.\<close>

lemma bindM_Inr: "bindM m f w = (Inr y, w') \<longleftrightarrow> (\<exists>x w1. m w = (Inr x, w1) \<and> f x w1 = (Inr y, w'))"
  by (cases "m w"; cases "fst (m w)") (auto simp: bindM_def)

lemma liftE_Inr: "liftE r w = (Inr x, w') \<longleftrightarrow> r = Inr x \<and> w' = w"
  by (auto simp: liftE_def)

definition is_plate :: "repo_config \<Rightarrow> (int, json) dict \<Rightarrow> review_row list \<Rightarrow> part \<Rightarrow> bool" where
  "is_plate rc open_prs rows p \<longleftrightarrow>
     (\<exists>plate. awaiting rc open_prs rows = Inr plate \<and> dget p (lit ''awaiting_you'') = Some (objects plate))"

lemma repo_lists_plate:
  assumes "repo_lists en fd rc prs open_prs w = (Inr p, w')"
  shows "\<exists>since. is_plate rc open_prs (approved_and_green (wd_db w) since) p"
proof -
  let ?since = "trunc (fd_time fd (wd_trace w) * 1000) - READY_DAYS * 86400000"
  from assms obtain plate where pl: "awaiting rc open_prs (approved_and_green (wd_db w) ?since) = Inr plate"
    and p: "\<exists>rest. p = (lit ''awaiting_you'', objects plate) # rest"
    unfolding repo_lists_def Let_def
    by (auto simp only: bindM_Inr liftE_Inr seconds_def gets_def ret_def prod.inject sum.inject)
  then have "is_plate rc open_prs (approved_and_green (wd_db w) ?since) p" by (auto simp: is_plate_def)
  then show ?thesis by blast
qed

text \<open>
  C32: What stands on the operator's plate is true when it is written: each entry is the brief of a
  pull request that GitHub lists as open now, with the number, and the head commit, of a row of the
  database; that row is the newest published pass of the pull request, it is an approval, and
  somebody still asks for the review.
\<close>

theorem plate_is_current:
  assumes "repo_worklist en fd rc w = (Inr p, w')" "dget p (lit ''awaiting_you'') = Some plate" "x \<in> set plate"
  shows "\<exists>r \<in> set (db_reviews (wd_db w)). \<exists>prs pr b.
    bindE (fd_open_prs fd (wd_trace w) (rc_slug rc)) rows_of = Inr prs \<and> pr \<in> set prs \<and>
    brief rc pr = Inr b \<and> x = JObj (b @ [(lit ''head'', JStr (rv_head r)), (lit ''ci'', ci_text (rv_ci r))]) \<and>
    number_of pr = Inr (rv_pr r) \<and> jget pr (lit ''headRefOid'') = Inr (JStr (rv_head r)) \<and>
    rv_repo r = rc_slug rc \<and> rv_state r = RvPublished \<and> rv_verdict r = Some Ok_verdict \<and>
    (\<forall>q \<in> set (db_reviews (wd_db w)). rv_state q = RvPublished \<and> rv_repo q = rc_slug rc \<and> rv_pr q = rv_pr r \<longrightarrow>
       \<not> newer q r) \<and>
    is_requested (wd_db w) (rc_slug rc) (rv_pr r)"
proof -
  from assms(1) obtain j prs w1 open_prs where
    j: "read_feed ''open-prs'' (rc_slug rc) (fd_open_prs fd) w = (Inr j, w1)" "rows_of j = Inr prs"
    and o: "by_number prs = Inr open_prs" and l: "repo_lists en fd rc prs open_prs w1 = (Inr p, w')"
    unfolding repo_worklist_def by (auto simp: bindM_Inr liftE_Inr)
  from j(1) have r: "fd_open_prs fd (wd_trace w) (rc_slug rc) = Inr j" and db: "wd_db w1 = wd_db w"
    by (auto simp: read_feed_def ask_def)
  from repo_lists_plate [OF l] obtain since plate' where
    a: "awaiting rc open_prs (approved_and_green (wd_db w) since) = Inr plate'"
    "dget p (lit ''awaiting_you'') = Some (objects plate')"
    unfolding is_plate_def db by blast
  with assms(2,3) obtain y where y: "y \<in> set plate'" "x = JObj y" by (auto simp: objects_def)
  from awaiting_mem [OF a(1) y(1)] obtain row rows where
    row: "row \<in> set (approved_and_green (wd_db w) since)" "awaiting_row rc open_prs row = Inr rows" "y \<in> set rows" by blast
  from awaiting_row_mem [OF row(2,3)] obtain pr b where
    pr: "rv_repo row = rc_slug rc" "dget open_prs (rv_pr row) = Some pr"
    "jget pr (lit ''headRefOid'') = Inr (JStr (rv_head row))" "brief rc pr = Inr b"
    "y = b @ [(lit ''head'', JStr (rv_head row)), (lit ''ci'', ci_text (rv_ci row))]" by blast
  have "bindE (fd_open_prs fd (wd_trace w) (rc_slug rc)) rows_of = Inr prs" using r j(2) by simp
  with approved_and_green_mem [OF row(1)] by_number_mem [OF o pr(2)] pr y(2) show ?thesis
    by (intro bexI [of _ row] exI [of _ prs] exI [of _ pr] exI [of _ b]) auto
qed

section \<open>Nothing in part\<close>

lemma all_parts_fails:
  assumes "rc \<in> set rcs" "\<And>tr. \<exists>s. fd_open_prs fd tr (rc_slug rc) = Inl (GhError s)"
  shows "fst (all_parts en fd acc rcs w) \<noteq> Inr (Some p)"
  using assms(1)
proof (induction rcs arbitrary: acc w)
  case (Cons q qs)
  show ?case
  proof (cases "q = rc")
    case True
    from assms(2) [of "wd_trace w"] obtain s where "fd_open_prs fd (wd_trace w) (rc_slug rc) = Inl (GhError s)" by blast
    with True show ?thesis
      by (simp add: repo_worklist_def read_feed_def ask_def bindM_def catch_gh_def catchM_def ret_def)
  next
    case False
    with Cons.prems have "rc \<in> set qs" by simp
    with Cons.IH show ?thesis
      by (cases "catch_gh (bindM (repo_worklist en fd q) (\<lambda>p. ret (Some p))) (\<lambda>_. ret None) w";
          cases "fst (catch_gh (bindM (repo_worklist en fd q) (\<lambda>p. ret (Some p))) (\<lambda>_. ret None) w)")
        (auto simp: bindM_def ret_def split: option.splits)
  qed
qed simp

text \<open>
  A partial list would read as nothing pending, so none is written: while one repository
  cannot be read, an export writes no file, whatever the others answer.
\<close>

theorem no_partial_export:
  assumes "rc \<in> set (cfg_repos (cx_cfg cx))" "\<And>tr. \<exists>s. fd_open_prs fd tr (rc_slug rc) = Inl (GhError s)"
  shows "fst (export_once en fd cx w) \<noteq> Inr (Some files)"
proof -
  let ?m = "all_parts en fd [] (cfg_repos (cx_cfg cx))"
  have no: "fst (?m w) \<noteq> Inr (Some acc)" for acc using all_parts_fails [OF assms] .
  show ?thesis
  proof (cases "?m w")
    case (Pair r w1)
    with no show ?thesis
      by (cases r) (auto simp: export_once_def bindM_def ret_def split: option.splits)
  qed
qed

section \<open>The digest\<close>

lemma digest_row_shape:
  assumes "digest_row en fd t k node = Inr rs"
  shows "length rs \<le> 1 \<and> (\<forall>r \<in> set rs. k \<le> fst r)"
proof -
  have "length rs \<le> 1 \<and> (\<forall>r \<in> set rs. k \<le> fst r)" if "row_if_parked en k node a p = Inr rs" for a p
    using that by (cases a; cases p) (auto simp: row_if_parked_def bindE_Inr_iff split: if_splits)
  with assms show ?thesis by (auto simp: digest_row_def bindE_Inr_iff split: if_splits)
qed

text \<open>
  A digest names only reviews that have stood for the threshold, the oldest first, each pull
  request at most as often as the search returned it.
\<close>

theorem digest_oldest_first:
  assumes "digest_rows en fd t threshold nodes = Inr rows"
  shows "sorted (map (\<lambda>r. - fst r) rows) \<and> (\<forall>r \<in> set rows. threshold \<le> fst r) \<and>
    length rows \<le> length nodes"
proof -
  from assms obtain rss where m: "mapE (digest_row en fd t threshold) nodes = Inr rss"
    and rows: "rows = sort_key (\<lambda>r. - fst r) (concat rss)"
    by (auto simp: digest_rows_def bindE_Inr_iff)
  from m have l: "list_all2 (\<lambda>n rs. digest_row en fd t threshold n = Inr rs) nodes rss"
    by (simp add: mapE_Inr_conv)
  have "threshold \<le> fst r" if "r \<in> set rows" for r
  proof -
    from that rows obtain rs where rs: "rs \<in> set rss" "r \<in> set rs" by auto
    from list_all2_mem2 [OF l rs(1)] rs(2) show ?thesis using digest_row_shape by blast
  qed
  moreover have one: "length rs \<le> 1" if "digest_row en fd t threshold n = Inr rs" for n rs
    using digest_row_shape [OF that] by simp
  have "length (concat rss) \<le> length nodes"
    using l
  proof (induction nodes rss rule: list_all2_induct)
    case (Cons n ns rs rss)
    then show ?case using one [of n rs] by simp
  qed simp
  ultimately show ?thesis using rows by simp
qed

lemma post_digest_keeps: "preserves keeps_db (post_digest en fd cx days)"
  unfolding post_digest_def digest_repo_def slack_post_def read_feed_def seconds_def Let_def
  by (intro safe_intros) (auto simp: preserves_def keeps_db_def)

lemma once_key_seen: "notice_seen (wd_db (snd (once_key en week w))) week"
  by (simp add: alter_def notice_once_def notice_seen_def Let_def)

lemma weekly_digest_noted:
  assumes "digest_due (cx_cfg cx) (fd_calendar fd (wd_trace w)) = Some week"
  shows "notice_seen (wd_db (snd (weekly_digest en fd cx w))) week"
proof -
  let ?rest = "\<lambda>first. if \<not> first then ret () else bindM (post_digest en fd cx None) (\<lambda>_. ret ())"
  have keep: "preserves keeps_db (?rest first)" for first
    by (intro safe_intros post_digest_keeps)
  obtain b w1 where o: "once_key en week w = (Inr b, w1)" by (auto simp: alter_def Let_def)
  have "wd_db (snd (?rest b w1)) = wd_db w1" using keep [of b] by (simp add: preserves_def keeps_db_def)
  moreover have "weekly_digest en fd cx w = ?rest b w1"
    using assms o by (simp add: weekly_digest_def bindM_def)
  ultimately show ?thesis using once_key_seen [of en week w] o by simp
qed

text \<open>
  A week has one digest: once a pass has begun one, no later pass of that week reads or posts
  anything, also when the one that was begun failed half way and nobody got it.
\<close>

theorem digest_once_a_week:
  assumes "digest_due (cx_cfg cx) (fd_calendar fd (wd_trace w)) = Some week"
    and "digest_due (cx_cfg cx) (fd_calendar fd (wd_trace w2)) = Some week"
    and "wd_db w2 = wd_db (snd (weekly_digest en fd cx w))"
  shows "weekly_digest en fd cx w2 = (Inr (), w2)"
proof -
  have "notice_seen (wd_db w2) week" using weekly_digest_noted [OF assms(1)] assms(3) by simp
  then have "once_key en week w2 = (Inr False, w2)" by (simp add: alter_def notice_once_def)
  with assms(2) show ?thesis by (simp add: weekly_digest_def bindM_def ret_def)
qed

section \<open>A branch that stops the export\<close>

text \<open>
  \<open>isdigit\<close> is true of a superscript, which \<open>int\<close> does not read: one open pull request on such a
  branch ends every export with a \<open>ValueError\<close> that only the loop around it catches.
\<close>

lemma superscript_issue: "issue_number [178] = Inl ValueError"
  by (simp add: issue_number_def isdigit_def other_digits_def int_of_str_def strip_p_def lstrip_p_def rstrip_p_def
      is_space_def digit_val_def nd_zeros_def)

lemma superscript_branch_stops:
  assumes "brief rc pr = Inr b" "text_field pr ''headRefName'' = Inr (JStr (lit ''robbie/issue-'' @ [178]))"
  shows "fix_row fd rc pr = Inl ValueError"
proof -
  have "fix_prefix (lit ''robbie/issue-'' @ [178]) = Some (lit ''robbie/issue-'')"
    by (simp add: fix_prefix_def BRANCH_PREFIX_def)
  with assms show ?thesis by (simp add: fix_row_def fix_fields_def superscript_issue)
qed

section \<open>Witnesses\<close>

definition sample_feed :: feed where
  "sample_feed =
     \<lparr>fd_open_prs = (\<lambda>tr r. Inr (JList [JObj [(lit ''number'', JInt 7), (lit ''headRefOid'', JStr (lit ''h''))]])),
      fd_assigned = (\<lambda>tr r. Inr JNull), fd_open_issues = (\<lambda>tr r. Inr JNull), fd_parked = (\<lambda>tr r. Inl (GhError [])),
      fd_iso = (\<lambda>s. Inr 0), fd_time = (\<lambda>tr. 864000), fd_calendar = (\<lambda>tr. (0, 9, 2026, 3))\<rparr>"

definition digest_ctx :: ctx where
  "digest_ctx = sample_ctx\<lparr>cx_cfg := (cx_cfg sample_ctx)\<lparr>cfg_digest_weekday := Some 0, cfg_digest_utc_hour := 8\<rparr>\<rparr>"

definition plate_row :: review_row where
  "plate_row =
     \<lparr>rv_id = 1, rv_key = lit ''k'', rv_repo = rc_slug sample_repo, rv_pr = 7, rv_head = lit ''h'', rv_requested_at = [],
      rv_state = RvPublished, rv_verdict = Some Ok_verdict, rv_hold = None, rv_cost = None, rv_tokens_in = None,
      rv_tokens_out = None, rv_duration = None, rv_transcript = None, rv_model = None, rv_findings = None,
      rv_blocking = None, rv_should_fix = None, rv_inline = None, rv_summary = None, rv_ci = Some Ci_green,
      rv_ci_seen = None, rv_created = 0, rv_finished = None\<rparr>"

definition plate_world :: world where
  "plate_world =
     empty_world\<lparr>wd_db := empty_db\<lparr>db_reviews := [plate_row], db_requested := [(rc_slug sample_repo, 7, 0)]\<rparr>\<rparr>"

theorem digest_once_a_week_witness:
  "weekly_digest sample_env_ok sample_feed digest_ctx (snd (weekly_digest sample_env_ok sample_feed digest_ctx empty_world))
   = (Inr (), snd (weekly_digest sample_env_ok sample_feed digest_ctx empty_world))"
proof -
  have due: "digest_due (cx_cfg digest_ctx) (fd_calendar sample_feed tr)
      = Some (lit ''digest:'' @ show_int 2026 @ lit ''-W'' @ pad2 3)" for tr
    by (simp add: digest_due_def digest_ctx_def sample_feed_def)
  show ?thesis by (rule digest_once_a_week [OF due due refl])
qed

theorem no_partial_export_witness:
  "\<nexists>files. fst (export_once sample_env_ok (sample_feed\<lparr>fd_open_prs := \<lambda>tr r. Inl (GhError [])\<rparr>) sample_ctx
      empty_world) = Inr (Some files)"
  unfolding not_ex by (intro allI, rule no_partial_export [of sample_repo]) (simp_all add: sample_ctx_def sample_config_def)

definition parked_node :: "int \<Rightarrow> json" where
  "parked_node n =
     JObj [(lit ''number'', JInt n), (lit ''url'', JStr (lit ''u'')),
       (lit ''reviews'', JObj [(lit ''nodes'', JList [JObj [(lit ''submittedAt'', JStr (lit ''2026''))]])]),
       (lit ''commits'', JObj [(lit ''nodes'', JList [JObj [(lit ''commit'', JObj [(lit ''committedDate'', JStr (lit ''2026''))])]])])]"

lemma parked_row: "\<exists>l. digest_row sample_env_ok sample_feed 864000 7 (parked_node n) = Inr [(10, l)]"
proof -
  have a: "author_login (parked_node n) = Inr JNull"
    by (simp add: author_login_def parked_node_def jget_obj_def jor_def)
  have "\<exists>l. digest_line sample_env_ok (parked_node n) 10 p = Inr l" for p
    unfolding digest_line_def a by (simp add: parked_node_def)
  moreover have "days_since sample_feed (JStr (lit ''2026'')) 864000 = Inr (Some 10)"
    by (simp add: days_since_def parse_iso_def sample_feed_def)
  ultimately show ?thesis
    by (simp add: digest_row_def parked_node_def inner_nodes_def jget_obj_def jget_list_def jor_def row_if_parked_def)
      (metis bindE.simps(2))
qed

theorem digest_oldest_first_witness:
  "\<exists>rows. digest_rows sample_env_ok sample_feed 864000 7 [parked_node 1, parked_node 2] = Inr rows \<and>
     (\<forall>r \<in> set rows. 7 \<le> fst r)"
proof -
  from parked_row obtain k l where "digest_row sample_env_ok sample_feed 864000 7 (parked_node 1) = Inr [(10, k)]"
    "digest_row sample_env_ok sample_feed 864000 7 (parked_node 2) = Inr [(10, l)]" by blast
  then obtain rows where r: "digest_rows sample_env_ok sample_feed 864000 7 [parked_node 1, parked_node 2] = Inr rows"
    by (simp add: digest_rows_def)
  from digest_oldest_first [OF this] r show ?thesis by blast
qed

lemma no_fix_prefix: "fix_prefix [] = None"
  by (simp add: fix_prefix_def BRANCH_PREFIX_def LEGACY_FIX_PREFIXES_def lit_def)

lemma plate_lists:
  "\<exists>p w' x. repo_worklist sample_env_ok sample_feed sample_repo plate_world = (Inr p, w') \<and>
     dget p (lit ''awaiting_you'') = Some [x]"
  by (simp add: repo_worklist_def read_feed_def ask_def bindM_def liftE_def sample_feed_def rows_of_def jor_def by_number_def
      number_of_def repo_lists_def seconds_def gets_def plate_world_def empty_db_def approved_and_green_def plate_row_def
      newest_in_def on_board_def is_requested_def awaiting_def awaiting_row_def brief_def text_field_def author_login_def
      jget_obj_def fix_row_def no_fix_prefix needs_work_rows_def label_list_def jget_list_def mine_all_def mine_if_def
      ret_def forget_def assigned_def issue_names_def objects_def READY_DAYS_def trunc_def newer_def Let_def)

theorem plate_is_current_witness:
  "\<exists>p w' x. repo_worklist sample_env_ok sample_feed sample_repo plate_world = (Inr p, w') \<and>
     dget p (lit ''awaiting_you'') = Some [x] \<and>
     (\<exists>r \<in> set (db_reviews (wd_db plate_world)). \<exists>b. x = JObj (b @ [(lit ''head'', JStr (rv_head r)), (lit ''ci'', ci_text (rv_ci r))]))"
proof -
  from plate_lists obtain p w' x where
    p: "repo_worklist sample_env_ok sample_feed sample_repo plate_world = (Inr p, w')"
    "dget p (lit ''awaiting_you'') = Some [x]" by blast
  have "x \<in> set [x]" by simp
  from plate_is_current [OF p this] p show ?thesis by blast
qed

end
