(* ===== verification/Wire.thy ===== *)
theory Wire
  imports Json
begin

text \<open>
  Text on its way out of the program: \<open>json.dumps\<close> of a payload and \<open>urllib.parse.quote\<close> of a
  label, as \<open>src/robbie/publish.py\<close> uses them for what it writes to GitHub. A payload is plain
  ASCII whatever it holds, and reads back as what was put in; a quoted label cannot leave the
  part of a path it stands in.
\<close>

section \<open>Hexadecimal\<close>

definition hex_digit :: "nat \<Rightarrow> nat" where
  "hex_digit d = (if d < 10 then 48 + d else 87 + d)"

definition unhex :: "nat \<Rightarrow> nat option" where
  "unhex c =
     (if 48 \<le> c \<and> c \<le> 57 then Some (c - 48) else if 97 \<le> c \<and> c \<le> 102 then Some (c - 87)
      else if 65 \<le> c \<and> c \<le> 70 then Some (c - 55) else None)"

definition hex4 :: "nat \<Rightarrow> str" where
  "hex4 n = map hex_digit [n div 16 div 16 div 16, n div 16 div 16 mod 16, n div 16 mod 16, n mod 16]"

definition read_hex4 :: "str \<Rightarrow> nat option" where
  "read_hex4 s =
     (case s of
        a # b # c # d # r \<Rightarrow>
          (case (unhex a, unhex b, unhex c, unhex d) of
             (Some i, Some j, Some k, Some l) \<Rightarrow> Some (((i * 16 + j) * 16 + k) * 16 + l)
           | _ \<Rightarrow> None)
      | _ \<Rightarrow> None)"

lemma unhex_hex [simp]: "d < 16 \<Longrightarrow> unhex (hex_digit d) = Some d"
  by (auto simp: unhex_def hex_digit_def)

lemma read_hex4_hex4 [simp]:
  assumes "n < 65536" shows "read_hex4 (hex4 n @ s) = Some n"
proof -
  have "n div 16 div 16 div 16 < 16" using assms by (simp add: div_mult2_eq [symmetric])
  then show ?thesis by (simp add: read_hex4_def hex4_def)
qed

lemma length_hex4 [simp]: "length (hex4 n) = 4"
  by (simp add: hex4_def)

section \<open>\<open>json.dumps\<close>\<close>

text \<open>One character inside the quotes; past the basic plane it is a pair of surrogates.\<close>

definition u_escape :: "nat \<Rightarrow> str" where
  "u_escape n = [92, 117] @ hex4 n"

definition dumps_char :: "nat \<Rightarrow> str" where
  "dumps_char c =
     (if c = 34 then [92, 34] else if c = 92 then [92, 92] else if c = 10 then [92, 110]
      else if c = 13 then [92, 114] else if c = 9 then [92, 116] else if c = 12 then [92, 102]
      else if c = 8 then [92, 98] else if 32 \<le> c \<and> c \<le> 126 then [c]
      else if c < 65536 then u_escape c
      else u_escape (55296 + (c - 65536) div 1024) @ u_escape (56320 + (c - 65536) mod 1024))"

definition dumps_str :: "str \<Rightarrow> str" where
  "dumps_str s = [34] @ concat (map dumps_char s) @ [34]"

text \<open>\<open>rep\<close> is \<open>repr\<close> of a float.\<close>

fun dumps :: "(json \<Rightarrow> str) \<Rightarrow> json \<Rightarrow> str" where
  "dumps rep JNull = lit ''null''"
| "dumps rep (JBool b) = (if b then lit ''true'' else lit ''false'')"
| "dumps rep (JInt i) = show_int i"
| "dumps rep (JFloat x) = rep (JFloat x)"
| "dumps rep (JStr s) = dumps_str s"
| "dumps rep (JList xs) = [91] @ join [44, 32] (map (dumps rep) xs) @ [93]"
| "dumps rep (JObj kvs) =
     [123] @ join [44, 32] (map (\<lambda>kv. dumps_str (fst kv) @ [58, 32] @ dumps rep (snd kv)) kvs) @ [125]"

section \<open>Reading a string literal\<close>

text \<open>
  The rest of a JSON string after its opening quote: what it says, and the text after the
  closing quote. A high surrogate followed by the escape of a low one is one character.
\<close>

definition is_high :: "nat \<Rightarrow> bool" where "is_high u \<longleftrightarrow> 55296 \<le> u \<and> u < 56320"
definition is_low :: "nat \<Rightarrow> bool" where "is_low u \<longleftrightarrow> 56320 \<le> u \<and> u < 57344"

definition short_escape :: "nat \<Rightarrow> nat option" where
  "short_escape e =
     map_of [(34, 34), (92, 92), (47, 47), (98, 8), (102, 12), (110, 10), (114, 13), (116, 9)] e"

definition low_after :: "str \<Rightarrow> nat option" where
  "low_after s =
     (case s of
        a # b # r \<Rightarrow>
          if a = 92 \<and> b = 117
          then (case read_hex4 r of Some u \<Rightarrow> if is_low u then Some u else None | None \<Rightarrow> None)
          else None
      | _ \<Rightarrow> None)"

definition emit :: "nat \<Rightarrow> (str \<times> str) option \<Rightarrow> (str \<times> str) option" where
  "emit c r = map_option (\<lambda>p. (c # fst p, snd p)) r"

function read_string :: "str \<Rightarrow> (str \<times> str) option" where
  "read_string [] = None"
| "read_string (c # s) =
     (if c = 34 then Some ([], s)
      else if c < 32 then None
      else if c \<noteq> 92 then emit c (read_string s)
      else case s of
        [] \<Rightarrow> None
      | e # r \<Rightarrow>
          if e \<noteq> 117 then
            (case short_escape e of None \<Rightarrow> None | Some d \<Rightarrow> emit d (read_string r))
          else
            (case read_hex4 r of
               None \<Rightarrow> None
             | Some u \<Rightarrow>
                 (case if is_high u then low_after (drop 4 r) else None of
                    Some l \<Rightarrow> emit (65536 + (u - 55296) * 1024 + (l - 56320)) (read_string (drop 10 r))
                  | None \<Rightarrow> emit u (read_string (drop 4 r)))))"
  by pat_completeness auto
termination by (relation "measure length") auto

section \<open>A payload reads back\<close>

text \<open>A character that UTF-8 can carry.\<close>

definition scalar :: "nat \<Rightarrow> bool" where
  "scalar c \<longleftrightarrow> c < 1114112 \<and> \<not> is_high c \<and> \<not> is_low c"

lemma drop_hex4 [simp]: "drop 4 (hex4 n @ s) = s"
  by (simp add: hex4_def)

lemma read_escape:
  assumes "u < 65536" "\<not> is_high u" shows "read_string (u_escape u @ s) = emit u (read_string s)"
  using assms by (simp add: u_escape_def)

lemma read_pair:
  assumes "h < 65536" "l < 65536" "is_high h" "is_low l"
  shows "read_string (u_escape h @ u_escape l @ s) =
    emit (65536 + (h - 55296) * 1024 + (l - 56320)) (read_string s)"
proof -
  have "drop 10 (hex4 h @ [92, 117] @ hex4 l @ s) = s" by (simp add: hex4_def)
  then show ?thesis using assms by (simp add: u_escape_def low_after_def)
qed

lemma read_dumps_char:
  assumes "scalar c" shows "read_string (dumps_char c @ s) = emit c (read_string s)"
proof (cases "c < 65536")
  case True
  with assms show ?thesis
    by (auto simp: dumps_char_def short_escape_def read_escape scalar_def)
next
  case False
  let ?d = "c - 65536"
  have d: "?d < 1048576" using assms False unfolding scalar_def by linarith
  then have q: "?d div 1024 < 1024" by (simp add: div_less_iff_less_mult)
  have "65536 + ?d div 1024 * 1024 + ?d mod 1024 = c" using False by simp
  moreover have "is_high (55296 + ?d div 1024)" "is_low (56320 + ?d mod 1024)"
    using q by (simp_all add: is_high_def is_low_def)
  moreover have "dumps_char c = u_escape (55296 + ?d div 1024) @ u_escape (56320 + ?d mod 1024)"
    using False by (simp add: dumps_char_def)
  ultimately show ?thesis using q by (simp add: read_pair)
qed

lemma read_dumps_str: "list_all scalar s \<Longrightarrow> read_string (concat (map dumps_char s) @ 34 # r) = Some (s, r)"
  by (induction s) (simp_all add: read_dumps_char emit_def)

text \<open>A payload is ASCII, so it can always be sent.\<close>

lemma hex_digit_ascii: "d < 16 \<Longrightarrow> 32 \<le> hex_digit d \<and> hex_digit d \<le> 126"
  by (simp add: hex_digit_def)

lemma hex4_ascii: "n < 65536 \<Longrightarrow> x \<in> set (hex4 n) \<Longrightarrow> 32 \<le> x \<and> x \<le> 126"
proof -
  assume n: "n < 65536" and x: "x \<in> set (hex4 n)"
  have "n div 16 div 16 div 16 < 16" using n by (simp add: div_mult2_eq [symmetric])
  with x show ?thesis
    using hex_digit_ascii [of "n div 16 div 16 div 16"] hex_digit_ascii [of "n div 16 div 16 mod 16"]
      hex_digit_ascii [of "n div 16 mod 16"] hex_digit_ascii [of "n mod 16"]
    by (auto simp: hex4_def)
qed

lemma dumps_char_ascii: "c < 1114112 \<Longrightarrow> x \<in> set (dumps_char c) \<Longrightarrow> 32 \<le> x \<and> x \<le> 126"
proof -
  assume c: "c < 1114112" and x: "x \<in> set (dumps_char c)"
  have "(c - 65536) div 1024 < 1024" using c by (simp add: div_less_iff_less_mult)
  then have "55296 + (c - 65536) div 1024 < 65536" by simp
  moreover have "56320 + (c - 65536) mod 1024 < 65536" using mod_less_divisor [of 1024 "c - 65536"] by linarith
  ultimately show ?thesis
    using x by (auto simp: dumps_char_def u_escape_def split: if_splits dest: hex4_ascii [rotated])
qed

section \<open>\<open>quote(s, safe="")\<close>\<close>

definition unreserved :: "nat \<Rightarrow> bool" where
  "unreserved b \<longleftrightarrow>
     48 \<le> b \<and> b \<le> 57 \<or> 65 \<le> b \<and> b \<le> 90 \<or> 97 \<le> b \<and> b \<le> 122 \<or> b \<in> {95, 46, 45, 126}"

definition hex_upper :: "nat \<Rightarrow> nat" where
  "hex_upper d = (if d < 10 then 48 + d else 55 + d)"

definition quote_byte :: "nat \<Rightarrow> str" where
  "quote_byte b = (if unreserved b then [b] else [37, hex_upper (b div 16), hex_upper (b mod 16)])"

definition quote :: "str \<Rightarrow> str res" where
  "quote s = (if encodable s then Inr (concat (map quote_byte (utf8 s))) else Inl ValueError)"

fun unquote :: "str \<Rightarrow> nat list" where
  "unquote [] = []"
| "unquote (c # s) =
     (case s of
        a # b # r \<Rightarrow>
          if c \<noteq> 37 then c # unquote s
          else (case (unhex a, unhex b) of
                  (Some i, Some j) \<Rightarrow> (i * 16 + j) # unquote r
                | _ \<Rightarrow> c # unquote s)
      | _ \<Rightarrow> c # unquote s)"

lemma unhex_upper [simp]: "d < 16 \<Longrightarrow> unhex (hex_upper d) = Some d"
  by (auto simp: unhex_def hex_upper_def)

lemma unquote_byte: "b < 256 \<Longrightarrow> unquote (quote_byte b @ s) = b # unquote s"
  by (auto simp: quote_byte_def unreserved_def split: list.splits)

lemma utf8_bytes: "c < 1114112 \<Longrightarrow> b \<in> set (utf8_cp c) \<Longrightarrow> b < 256"
  by (auto simp: utf8_cp_def split: if_splits)

lemma quote_no_slash: "quote s = Inr q \<Longrightarrow> list_all (\<lambda>c. c < 1114112) s \<Longrightarrow> 47 \<notin> set q"
proof -
  have h: "d < 16 \<Longrightarrow> hex_upper d \<noteq> 47" for d by (simp add: hex_upper_def)
  have b: "b < 256 \<Longrightarrow> 47 \<notin> set (quote_byte b)" for b
    using h [of "b div 16"] h [of "b mod 16"] by (auto simp: quote_byte_def unreserved_def)
  assume "quote s = Inr q" "list_all (\<lambda>c. c < 1114112) s"
  then show ?thesis
    by (auto simp: quote_def utf8_def list_all_iff split: if_splits dest!: utf8_bytes b)
qed

lemma unquote_quote: "quote s = Inr q \<Longrightarrow> list_all (\<lambda>c. c < 1114112) s \<Longrightarrow> unquote q = utf8 s"
proof -
  have "\<forall>b \<in> set bs. b < 256 \<Longrightarrow> unquote (concat (map quote_byte bs)) = bs" for bs
    by (induction bs) (simp_all add: unquote_byte)
  moreover assume "quote s = Inr q" "list_all (\<lambda>c. c < 1114112) s"
  moreover from this have "\<forall>b \<in> set (utf8 s). b < 256"
    by (auto simp: utf8_def list_all_iff dest: utf8_bytes)
  ultimately show ?thesis by (auto simp: quote_def split: if_splits)
qed

end
