(* ===== verification/Loads.thy ===== *)
theory Loads
  imports Wire
begin

text \<open>
  JSON text, read and written: \<open>json.loads\<close>, which \<open>src/robbie/github.py\<close>, \<open>contract.py\<close> and
  \<open>dashboard.py\<close> apply to what others wrote, and \<open>json.dumps(data, indent=1, ensure_ascii=False)\<close>,
  the text of \<open>src/robbie/export.py\<close>. The reader follows the scanner of the standard library; what
  \<open>float\<close> makes of a literal is a parameter, as \<open>repr\<close> of a float is for the writer. The lemmas:
  every reader leaves less text than it was given, so it ends, and what either writer wrote is
  read back as it was.
\<close>

section \<open>Reading\<close>

definition white :: "nat \<Rightarrow> bool" where
  "white c \<longleftrightarrow> c \<in> {32, 9, 10, 13}"

definition skip :: "str \<Rightarrow> str" where
  "skip = dropWhile white"

definition digit :: "nat \<Rightarrow> bool" where
  "digit c \<longleftrightarrow> 48 \<le> c \<and> c \<le> 57"

text \<open>The digits at the head of a text, at least one, and the rest.\<close>

definition digits :: "str \<Rightarrow> (str \<times> str) option" where
  "digits s = (if takeWhile digit s = [] then None else Some (takeWhile digit s, dropWhile digit s))"

text \<open>A leading zero stands alone; a fraction and an exponent need a digit, and are not there without.\<close>

definition whole_part :: "str \<Rightarrow> (str \<times> str) option" where
  "whole_part s =
     (case s of [] \<Rightarrow> None | c # t \<Rightarrow> if c = 48 then Some ([48], t) else digits s)"

definition fraction :: "str \<Rightarrow> str \<times> str" where
  "fraction s =
     (case s of [] \<Rightarrow> ([], s) | c # t \<Rightarrow>
        if c \<noteq> 46 then ([], s) else case digits t of None \<Rightarrow> ([], s) | Some (d, r) \<Rightarrow> (46 # d, r))"

definition exp_sign :: "str \<Rightarrow> str \<times> str" where
  "exp_sign s = (case s of [] \<Rightarrow> ([], s) | c # t \<Rightarrow> if c \<in> {43, 45} then ([c], t) else ([], s))"

definition exponent :: "str \<Rightarrow> str \<times> str" where
  "exponent s =
     (case s of [] \<Rightarrow> ([], s) | c # t \<Rightarrow>
        if c \<notin> {101, 69} then ([], s)
        else case digits (snd (exp_sign t)) of
               None \<Rightarrow> ([], s) | Some (d, r) \<Rightarrow> (c # fst (exp_sign t) @ d, r))"

text \<open>\<open>int\<close> takes no literal of more digits than this (\<open>sys.int_info.default_max_str_digits\<close>).\<close>

definition MAX_DIGITS :: nat where "MAX_DIGITS = 4300"

definition read_unsigned :: "(str \<Rightarrow> pyfloat) \<Rightarrow> bool \<Rightarrow> str \<Rightarrow> (json \<times> str) option" where
  "read_unsigned fl neg s =
     (case whole_part s of
        None \<Rightarrow> None
      | Some (w, r) \<Rightarrow>
          let (f, r1) = fraction r; (x, r2) = exponent r1
          in if f = [] \<and> x = []
             then if MAX_DIGITS < length w then None
                  else Some (JInt ((if neg then - 1 else 1) * int (read_nat w)), r2)
             else Some (JFloat (fl ((if neg then [45] else []) @ w @ f @ x)), r2))"

text \<open>The names a value may be.\<close>

definition json_names :: "(str \<times> json) list" where
  "json_names =
     [(lit ''null'', JNull), (lit ''true'', JBool True), (lit ''false'', JBool False), (lit ''NaN'', JFloat NotANumber),
      (lit ''Infinity'', JFloat PosInf), (lit ''-Infinity'', JFloat NegInf)]"

definition read_name :: "str \<Rightarrow> (json \<times> str) option" where
  "read_name s =
     (case find_first (\<lambda>p. startswith s (fst p)) json_names of
        None \<Rightarrow> None | Some p \<Rightarrow> Some (snd p, drop (length (fst p)) s))"

definition read_plain :: "(str \<Rightarrow> pyfloat) \<Rightarrow> str \<Rightarrow> (json \<times> str) option" where
  "read_plain fl s =
     (case read_name s of
        Some r \<Rightarrow> Some r
      | None \<Rightarrow>
          (case s of [] \<Rightarrow> None | c # t \<Rightarrow> if c = 45 then read_unsigned fl True t else read_unsigned fl False s))"

text \<open>\<open>dict(pairs)\<close>: a later value of a key replaces the earlier one where it stands.\<close>

definition dict_of :: "(str \<times> json) list \<Rightarrow> (str \<times> json) list" where
  "dict_of ps = foldl (\<lambda>d p. dset (fst p) (snd p) d) [] ps"

function (sequential) read_value :: "(str \<Rightarrow> pyfloat) \<Rightarrow> str \<Rightarrow> (json \<times> str) option"
    and read_items :: "(str \<Rightarrow> pyfloat) \<Rightarrow> str \<Rightarrow> (json list \<times> str) option"
    and read_members :: "(str \<Rightarrow> pyfloat) \<Rightarrow> str \<Rightarrow> ((str \<times> json) list \<times> str) option" where
  "read_value fl [] = None"
| "read_value fl (c # t) =
     (if c = 34 then map_option (\<lambda>p. (JStr (fst p), snd p)) (read_string t)
      else if c = 123 then
        (case skip t of [] \<Rightarrow> None
         | d # u \<Rightarrow> if d = 125 then Some (JObj [], u)
                    else map_option (\<lambda>p. (JObj (dict_of (fst p)), snd p)) (read_members fl (d # u)))
      else if c = 91 then
        (case skip t of [] \<Rightarrow> None
         | d # u \<Rightarrow> if d = 93 then Some (JList [], u)
                    else map_option (\<lambda>p. (JList (fst p), snd p)) (read_items fl (d # u)))
      else read_plain fl (c # t))"
| "read_items fl s =
     (case read_value fl s of
        None \<Rightarrow> None
      | Some (v, r) \<Rightarrow>
          (case skip r of [] \<Rightarrow> None
           | d # u \<Rightarrow>
               if d = 93 then Some ([v], u)
               else if d = 44 then map_option (\<lambda>p. (v # fst p, snd p)) (read_items fl (skip u))
               else None))"
| "read_members fl [] = None"
| "read_members fl (c # t) =
     (if c \<noteq> 34 then None
      else case read_string t of
        None \<Rightarrow> None
      | Some (k, r) \<Rightarrow>
          (case skip r of [] \<Rightarrow> None
           | d # u \<Rightarrow>
               if d \<noteq> 58 then None
               else case read_value fl (skip u) of
                 None \<Rightarrow> None
               | Some (v, r2) \<Rightarrow>
                   (case skip r2 of [] \<Rightarrow> None
                    | e # w \<Rightarrow>
                        if e = 125 then Some ([(k, v)], w)
                        else if e = 44 then map_option (\<lambda>p. ((k, v) # fst p, snd p)) (read_members fl (skip w))
                        else None)))"
  by pat_completeness auto

lemma length_skip: "length (skip s) \<le> length s"
  by (simp add: skip_def length_dropWhile_le)

lemma digits_consume: "digits s = Some (d, r) \<Longrightarrow> length r < length s"
proof -
  assume "digits s = Some (d, r)"
  then have "takeWhile digit s \<noteq> []" "r = dropWhile digit s" by (auto simp: digits_def split: if_splits)
  moreover have "length s = length (takeWhile digit s) + length (dropWhile digit s)"
    by (simp only: length_append [symmetric] takeWhile_dropWhile_id)
  ultimately show ?thesis by simp
qed

lemma fraction_keeps: "length (snd (fraction s)) \<le> length s"
  by (auto simp: fraction_def split: list.splits option.splits dest!: digits_consume)

lemma exponent_keeps: "length (snd (exponent s)) \<le> length s"
  by (auto simp: exponent_def exp_sign_def split: list.splits option.splits if_splits dest!: digits_consume)

lemma whole_consumes: "whole_part s = Some (w, r) \<Longrightarrow> length r < length s"
  by (auto simp: whole_part_def split: list.splits if_splits dest: digits_consume)

lemma unsigned_consumes: "read_unsigned fl neg s = Some (v, r) \<Longrightarrow> length r < length s"
proof (cases "whole_part s")
  case (Some p)
  assume "read_unsigned fl neg s = Some (v, r)"
  with Some have "r = snd (exponent (snd (fraction (snd p))))"
    by (cases p) (auto simp: read_unsigned_def Let_def case_prod_beta split: if_splits)
  then have "length r \<le> length (snd p)" using exponent_keeps fraction_keeps le_trans by blast
  moreover have "length (snd p) < length s" using Some by (cases p) (simp add: whole_consumes)
  ultimately show ?thesis by simp
qed (simp add: read_unsigned_def)

lemma name_consumes: "read_name s = Some (v, r) \<Longrightarrow> length r < length s"
  by (auto simp: read_name_def json_names_def lit_def startswith_iff split: option.splits if_splits)

lemma plain_consumes: "read_plain fl s = Some (v, r) \<Longrightarrow> length r < length s"
  by (auto simp: read_plain_def split: option.splits list.splits if_splits dest: name_consumes unsigned_consumes)

lemma emit_Some: "emit c x = Some (k, r) \<longleftrightarrow> (\<exists>k'. x = Some (k', r) \<and> k = c # k')"
  by (auto simp: emit_def)

lemma string_consumes: "read_string s = Some (k, r) \<Longrightarrow> length r < length s"
proof (induction s arbitrary: k r rule: read_string.induct)
  case (2 c s)
  show ?case
  proof (cases "c = 92")
    case False
    with "2.prems" "2.IH"(1) show ?thesis by (fastforce simp: emit_Some split: if_splits)
  next
    case True
    with "2.prems" obtain e u where s: "s = e # u" by (cases s) auto
    show ?thesis
    proof (cases "e = 117")
      case False
      with True s "2.prems" obtain d k' where "short_escape e = Some d" "read_string u = Some (k', r)"
        by (auto simp: emit_Some split: option.splits)
      with "2.IH"(2) [of e u d k' r] True s False show ?thesis by simp
    next
      case e: True
      with True s "2.prems" obtain x where x: "read_hex4 u = Some x" by (auto split: option.splits)
      show ?thesis
      proof (cases "if is_high x then low_after (drop 4 u) else None")
        case None
        with True s e x "2.prems" obtain k' where "read_string (drop 4 u) = Some (k', r)" by (auto simp: emit_Some)
        then have "length r < length (drop 4 u)" by (rule "2.IH" [rotated -1]) (use True s e x None in simp_all)
        with s show ?thesis by simp
      next
        case (Some l)
        with True s e x "2.prems" obtain k' where "read_string (drop 10 u) = Some (k', r)" by (auto simp: emit_Some)
        then have "length r < length (drop 10 u)" by (rule "2.IH" [rotated -1]) (use True s e x Some in simp_all)
        with s show ?thesis by simp
      qed
    qed
  qed
qed simp

lemma skip_Cons: "skip s = d # u \<Longrightarrow> length u < length s"
  using length_skip [of s] by simp

lemma skip_rest: "skip s = d # u \<Longrightarrow> length (skip u) < length s"
  using skip_Cons length_skip [of u] by fastforce

lemma reader_consumes:
  "read_value_read_items_read_members_dom (Inl (fl, s)) \<Longrightarrow> read_value fl s = Some (v, r) \<Longrightarrow> length r < length s"
  "read_value_read_items_read_members_dom (Inr (Inl (fl, s))) \<Longrightarrow> read_items fl s = Some (vs, r) \<Longrightarrow> length r < length s"
  "read_value_read_items_read_members_dom (Inr (Inr (fl, s))) \<Longrightarrow> read_members fl s = Some (ps, r) \<Longrightarrow> length r < length s"
proof (induction fl s and fl s and fl s arbitrary: v r and vs r and ps r
    rule: read_value_read_items_read_members.pinduct)
  case (1 fl)
  then show ?case by (simp add: read_value.psimps)
next
  case (2 fl c t)
  consider "c = 34" | "c = 123" | "c = 91" | "c \<notin> {34, 123, 91}" by auto
  then show ?case
  proof cases
    case 1
    with 2 show ?thesis by (auto simp: read_value.psimps dest: string_consumes)
  next
    case c: 2
    with 2 obtain d u where d: "skip t = d # u" by (auto simp: read_value.psimps split: list.splits)
    show ?thesis
    proof (cases "d = 125")
      case False
      with 2 c d obtain ps where p: "read_members fl (d # u) = Some (ps, r)" by (auto simp: read_value.psimps)
      with c d False have "length r < length (d # u)" by (intro "2.IH"(1) [OF _ _ _ _ p]) simp_all
      with skip_Cons [OF d] show ?thesis by simp
    qed (use 2 c d skip_Cons [OF d] in \<open>simp add: read_value.psimps\<close>)
  next
    case c: 3
    with 2 obtain d u where d: "skip t = d # u" by (auto simp: read_value.psimps split: list.splits)
    show ?thesis
    proof (cases "d = 93")
      case False
      with 2 c d obtain vs where p: "read_items fl (d # u) = Some (vs, r)" by (auto simp: read_value.psimps)
      with c d False have "length r < length (d # u)" by (intro "2.IH"(2) [OF _ _ _ _ _ p]) simp_all
      with skip_Cons [OF d] show ?thesis by simp
    qed (use 2 c d skip_Cons [OF d] in \<open>simp add: read_value.psimps\<close>)
  next
    case 4
    with 2 show ?thesis by (auto simp: read_value.psimps dest: plain_consumes)
  qed
next
  case (3 fl s)
  from 3 obtain v x where v: "read_value fl s = Some (v, x)" by (auto simp: read_items.psimps split: option.splits)
  with 3 have x: "length x < length s" by blast
  from 3 v obtain d u where d: "skip x = d # u" by (auto simp: read_items.psimps split: list.splits)
  show ?case
  proof (cases "d = 93")
    case False
    with 3 v d obtain ws where p: "read_items fl (skip u) = Some (ws, r)" and c: "d = 44" by (auto simp: read_items.psimps split: if_splits)
    have "length r < length (skip u)" by (rule "3.IH"(2) [OF v _ d False c p]) simp
    with skip_Cons [OF d] x length_skip [of u] show ?thesis by simp
  qed (use 3 v d x skip_Cons [OF d] in \<open>simp add: read_items.psimps\<close>)
next
  case (4 fl)
  then show ?case by (simp add: read_members.psimps)
next
  case (5 fl c t)
  from 5 have c: "c = 34" by (auto simp: read_members.psimps split: if_splits)
  with 5 obtain k x where k: "read_string t = Some (k, x)" by (auto simp: read_members.psimps split: option.splits)
  from 5 c k obtain u where d: "skip x = 58 # u" by (auto simp: read_members.psimps split: list.splits if_splits)
  from 5 c k d obtain v y where v: "read_value fl (skip u) = Some (v, y)" by (auto simp: read_members.psimps split: option.splits)
  have y: "length y < length (skip u)" by (rule "5.IH"(1) [OF _ k _ d _ v]) (simp_all add: c)
  from 5 c k d v obtain e w where e: "skip y = e # w" by (auto simp: read_members.psimps split: list.splits)
  have w: "length w < length t"
    using skip_Cons [OF e] y length_skip [of u] skip_Cons [OF d] string_consumes [OF k] by simp
  show ?case
  proof (cases "e = 125")
    case False
    with 5 c k d v e obtain ws where p: "read_members fl (skip w) = Some (ws, r)" and f: "e = 44"
      by (auto simp: read_members.psimps split: if_splits)
    have "length r < length (skip w)" by (rule "5.IH"(2) [OF _ k _ d _ v _ e False f p]) (simp_all add: c)
    with w length_skip [of w] show ?thesis by simp
  qed (use 5 c k d v e w in \<open>simp add: read_members.psimps\<close>)
qed

termination read_value
proof (relation "measure (\<lambda>x. case x of Inl (fl, s) \<Rightarrow> 2 * length s | Inr (Inl (fl, s)) \<Rightarrow> 2 * length s + 1 | Inr (Inr (fl, s)) \<Rightarrow> 2 * length s + 1)", goal_cases)
  case (2 fl c t d u)
  then show ?case using skip_Cons [of t d u] by simp
next
  case (3 fl c t d u)
  then show ?case using skip_Cons [of t d u] by simp
qed (auto dest!: reader_consumes(1) string_consumes skip_rest)

declare read_items.simps [simp del]

definition loads :: "(str \<Rightarrow> pyfloat) \<Rightarrow> str \<Rightarrow> json res" where
  "loads fl s =
     (if startswith s [65279] then Inl ValueError
      else case read_value fl (skip s) of
        None \<Rightarrow> Inl ValueError
      | Some (v, r) \<Rightarrow> if skip r = [] then Inr v else Inl ValueError)"

section \<open>Writing\<close>

text \<open>\<open>ensure_ascii=False\<close>: only what JSON cannot hold is escaped.\<close>

definition plain_char :: "nat \<Rightarrow> str" where
  "plain_char c =
     (if c = 34 then [92, 34] else if c = 92 then [92, 92] else if c = 10 then [92, 110]
      else if c = 13 then [92, 114] else if c = 9 then [92, 116] else if c = 12 then [92, 102]
      else if c = 8 then [92, 98] else if c < 32 then u_escape c else [c])"

definition plain_str :: "str \<Rightarrow> str" where
  "plain_str s = [34] @ concat (map plain_char s) @ [34]"

text \<open>\<open>indent=1\<close>: an item on a line of its own, one blank for every level.\<close>

definition new_line :: "nat \<Rightarrow> str" where
  "new_line n = NL # replicate n 32"

fun pretty :: "(json \<Rightarrow> str) \<Rightarrow> nat \<Rightarrow> json \<Rightarrow> str" where
  "pretty rep n JNull = lit ''null''"
| "pretty rep n (JBool b) = (if b then lit ''true'' else lit ''false'')"
| "pretty rep n (JInt i) = show_int i"
| "pretty rep n (JFloat x) = rep (JFloat x)"
| "pretty rep n (JStr s) = plain_str s"
| "pretty rep n (JList xs) =
     (if xs = [] then [91, 93]
      else [91] @ new_line (Suc n) @ join (44 # new_line (Suc n)) (map (pretty rep (Suc n)) xs) @ new_line n @ [93])"
| "pretty rep n (JObj kvs) =
     (if kvs = [] then [123, 125]
      else [123] @ new_line (Suc n)
        @ join (44 # new_line (Suc n)) (map (\<lambda>kv. plain_str (fst kv) @ [58, 32] @ pretty rep (Suc n) (snd kv)) kvs)
        @ new_line n @ [125])"

section \<open>What is written is read\<close>

text \<open>Where a value ends: no digit, point or exponent follows it.\<close>

definition ends_value :: "str \<Rightarrow> bool" where
  "ends_value r \<longleftrightarrow> (case r of [] \<Rightarrow> True | c # t \<Rightarrow> \<not> digit c \<and> c \<notin> {46, 101, 69})"

definition reads_as :: "(str \<Rightarrow> pyfloat) \<Rightarrow> str \<Rightarrow> json \<Rightarrow> bool" where
  "reads_as fl p j \<longleftrightarrow>
     p \<noteq> [] \<and> \<not> white (hd p) \<and> hd p \<noteq> 93 \<and> (\<forall>r. ends_value r \<longrightarrow> read_value fl (p @ r) = Some (j, r))"

text \<open>
  A value the program can write: \<open>str\<close> of an \<open>int\<close> has the same limit as \<open>int\<close> of a \<open>str\<close>, a
  \<open>dict\<close> has no key twice, and text is what UTF-8 can carry. Of a float it is asked that its
  \<open>repr\<close> is printable ASCII and reads back, which Python promises.
\<close>

fun sound :: "(str \<Rightarrow> pyfloat) \<Rightarrow> (json \<Rightarrow> str) \<Rightarrow> json \<Rightarrow> bool" where
  "sound fl rep (JInt i) \<longleftrightarrow> length (show_nat (nat \<bar>i\<bar>)) \<le> MAX_DIGITS"
| "sound fl rep (JFloat x) \<longleftrightarrow>
     reads_as fl (rep (JFloat x)) (JFloat x) \<and> list_all (\<lambda>c. 32 \<le> c \<and> c < 127) (rep (JFloat x))"
| "sound fl rep (JStr s) \<longleftrightarrow> list_all scalar s"
| "sound fl rep (JList xs) \<longleftrightarrow> list_all (sound fl rep) xs"
| "sound fl rep (JObj kvs) \<longleftrightarrow>
     distinct (map fst kvs) \<and> list_all (\<lambda>kv. list_all scalar (fst kv) \<and> sound fl rep (snd kv)) kvs"
| "sound fl rep _ \<longleftrightarrow> True"

lemma skip_simps [simp]: "skip [] = []" "white c \<Longrightarrow> skip (c # s) = skip s" "\<not> white c \<Longrightarrow> skip (c # s) = c # s"
  by (simp_all add: skip_def)

lemma skip_blanks [simp]: "list_all white w \<Longrightarrow> skip (w @ s) = skip s"
  by (induction w) simp_all

lemma skip_start: "p \<noteq> [] \<Longrightarrow> \<not> white (hd p) \<Longrightarrow> skip (p @ r) = p @ r"
  by (cases p) simp_all

lemma white_simps [simp]: "white 32" "white NL" "\<not> white 44" "\<not> white 34" "\<not> white 58" "\<not> white 91" "\<not> white 93"
    "\<not> white 123" "\<not> white 125" "\<not> white 45" "\<not> white 110" "\<not> white 116" "\<not> white 102"
  by (simp_all add: white_def)

lemma ends_simps [simp]: "ends_value []" "ends_value (44 # s)" "ends_value (93 # s)" "ends_value (125 # s)" "ends_value (58 # s)"
  by (simp_all add: ends_value_def digit_def)

lemma ends_blank: "list_all white w \<Longrightarrow> ends_value s \<Longrightarrow> ends_value (w @ s)"
  by (cases w) (auto simp: ends_value_def digit_def white_def)

lemma digits_show_nat: "ends_value r \<Longrightarrow> digits (show_nat n @ r) = Some (show_nat n, r)"
proof -
  assume r: "ends_value r"
  have d: "\<forall>c \<in> set (show_nat n). digit c" using show_nat_digits by (auto simp: digit_def)
  have "takeWhile digit r = []" "dropWhile digit r = r" using r by (cases r; simp add: ends_value_def)+
  with d show ?thesis by (simp add: digits_def takeWhile_append2 dropWhile_append2)
qed

lemma show_nat_zero: "show_nat n = 48 # s \<Longrightarrow> n = 0"
proof (induction n arbitrary: s rule: show_nat.induct)
  case (1 n)
  show ?case
  proof (cases "n < 10")
    case False
    then have e: "show_nat n = show_nat (n div 10) @ [48 + n mod 10]" by (simp add: show_nat.simps [of n])
    obtain c u where c: "show_nat (n div 10) = c # u" by (cases "show_nat (n div 10)") auto
    with e "1.prems" have "show_nat (n div 10) = 48 # u" by simp
    from "1.IH" [OF False this] False show ?thesis by simp
  qed (use 1 in \<open>simp add: show_nat.simps\<close>)
qed

lemma whole_show_nat: "ends_value r \<Longrightarrow> whole_part (show_nat n @ r) = Some (show_nat n, r)"
proof -
  assume r: "ends_value r"
  obtain c u where c: "show_nat n = c # u" by (cases "show_nat n") auto
  show ?thesis
  proof (cases "c = 48")
    case True
    with c have "n = 0" using show_nat_zero by simp
    then show ?thesis by (simp add: whole_part_def show_nat.simps)
  next
    case False
    with c digits_show_nat [OF r, of n] show ?thesis by (simp add: whole_part_def)
  qed
qed

lemma unsigned_show_nat:
  assumes "ends_value r" "length (show_nat n) \<le> MAX_DIGITS"
  shows "read_unsigned fl neg (show_nat n @ r) = Some (JInt ((if neg then - 1 else 1) * int n), r)"
proof -
  have "fraction r = ([], r)" "exponent r = ([], r)"
    using assms(1) by (auto simp: fraction_def exponent_def ends_value_def split: list.splits)
  with assms show ?thesis by (simp add: read_unsigned_def whole_show_nat)
qed

lemma startswith_head: "startswith (c # t) (d # u) \<Longrightarrow> c = d"
  by (simp add: startswith_Cons)

lemma no_name:
  "digit c \<Longrightarrow> read_name (c # t) = None" "digit d \<Longrightarrow> read_name (45 # d # t) = None"
proof -
  show "digit c \<Longrightarrow> read_name (c # t) = None"
    by (auto simp: read_name_def json_names_def lit_def find_first_None_iff digit_def dest!: startswith_head split: option.splits)
  show "digit d \<Longrightarrow> read_name (45 # d # t) = None"
    by (auto simp: read_name_def json_names_def lit_def startswith_Cons digit_def)
qed

lemma reads_int:
  assumes "length (show_nat (nat \<bar>i\<bar>)) \<le> MAX_DIGITS" shows "reads_as fl (show_int i) (JInt i)"
proof -
  have h: "digit c" if "show_nat n = c # u" for n c u using that show_nat_digits [of c n] by (simp add: digit_def)
  have "read_value fl (show_int i @ r) = Some (JInt i, r)" if r: "ends_value r" for r
  proof (cases "i < 0")
    case True
    obtain c u where c: "show_nat (nat (- i)) = c # u" by (cases "show_nat (nat (- i))") auto
    have "read_name (45 # show_nat (nat (- i)) @ r) = None"
      using h [OF c] c by (simp add: no_name)
    with True assms show ?thesis by (simp add: show_int_def read_plain_def unsigned_show_nat [OF r])
  next
    case False
    obtain c u where c: "show_nat (nat i) = c # u" by (cases "show_nat (nat i)") auto
    then have d: "digit c" using h by blast
    then have "read_name (show_nat (nat i) @ r) = None" unfolding c by (simp add: no_name)
    with False assms d c unsigned_show_nat [OF r, of "nat i" fl False] show ?thesis
      by (simp add: show_int_def read_plain_def digit_def)
  qed
  moreover have "show_int i \<noteq> []" by (simp add: show_int_def)
  moreover from this have "hd (show_int i) = 45 \<or> digit (hd (show_int i))"
    using show_int_chars [of "hd (show_int i)" i] by (auto simp: digit_def)
  ultimately show ?thesis by (auto simp: reads_as_def white_def digit_def)
qed

lemma reads_name:
  "reads_as fl (lit ''null'') JNull" "reads_as fl (lit ''true'') (JBool True)" "reads_as fl (lit ''false'') (JBool False)"
  by (simp_all add: reads_as_def read_plain_def read_name_def json_names_def lit_def startswith_Cons)

text \<open>
  What a writer of JSON promises its reader, for the compact writer and the indented one: how the
  parts of a value are put together, which blanks stand between them, and that a string literal
  reads back.
\<close>

lemma dict_of_distinct: "distinct (map fst kvs) \<Longrightarrow> dict_of kvs = kvs"
  by (simp add: dict_of_def foldl_dset_distinct)

locale json_writer =
  fixes fl :: "str \<Rightarrow> pyfloat" and rep :: "json \<Rightarrow> str" and put :: "nat \<Rightarrow> json \<Rightarrow> str"
    and body :: "str \<Rightarrow> str" and lead sep stop :: "nat \<Rightarrow> str"
  assumes put_simple: "put n JNull = lit ''null''" "put n (JBool b) = (if b then lit ''true'' else lit ''false'')"
      "put n (JInt i) = show_int i" "put n (JFloat x) = rep (JFloat x)"
    and put_str: "put n (JStr s) = 34 # body s @ [34]"
    and put_list: "put n (JList xs) =
      (if xs = [] then [91, 93] else [91] @ lead n @ join (44 # sep n) (map (put (Suc n)) xs) @ stop n @ [93])"
    and put_dict: "put n (JObj kvs) =
      (if kvs = [] then [123, 125]
       else [123] @ lead n @ join (44 # sep n) (map (\<lambda>kv. (34 # body (fst kv) @ [34]) @ [58, 32] @ put (Suc n) (snd kv)) kvs)
         @ stop n @ [125])"
    and blanks: "list_all white (lead n)" "list_all white (sep n)" "list_all white (stop n)"
    and body_reads: "list_all scalar s \<Longrightarrow> read_string (body s @ 34 # r) = Some (s, r)"
begin

lemma items_read:
  assumes "xs \<noteq> []" "\<forall>x \<in> set xs. reads_as fl (put m x) x" "ends_value s" "s = 93 # r \<or> (\<exists>w. list_all white w \<and> s = w @ 93 # r)"
  shows "read_items fl (join (44 # sep n) (map (put m) xs) @ s) = Some (xs, r)"
  using assms(1,2)
proof (induction xs rule: induct_list012)
  case (2 x)
  then have "read_value fl (put m x @ s) = Some (x, s)" using assms(3) by (simp add: reads_as_def)
  moreover have "skip s = 93 # r" using assms(4) by auto
  ultimately show ?case by (simp add: read_items.simps [of fl "put m x @ s"])
next
  case (3 x y xs)
  let ?rest = "join (44 # sep n) (map (put m) (y # xs)) @ s"
  have "put m y \<noteq> []" "\<not> white (hd (put m y))" using "3.prems" by (simp_all add: reads_as_def)
  then have k: "skip ?rest = ?rest" by (cases xs) (auto simp: skip_start)
  have v: "read_value fl (put m x @ 44 # sep n @ ?rest) = Some (x, 44 # sep n @ ?rest)"
    using "3.prems" by (simp add: reads_as_def)
  have "read_items fl ?rest = Some (y # xs, r)" using "3.IH"(2) "3.prems" by simp
  with v k blanks(2) show ?case by (simp add: read_items.simps [of fl "put m x @ _"])
qed simp

lemma members_read:
  assumes "kvs \<noteq> []" "\<forall>kv \<in> set kvs. list_all scalar (fst kv) \<and> reads_as fl (put m (snd kv)) (snd kv)"
    "ends_value s" "list_all white w" "s = w @ 125 # r"
  shows "read_members fl (join (44 # sep n) (map (\<lambda>kv. (34 # body (fst kv) @ [34]) @ [58, 32] @ put m (snd kv)) kvs) @ s)
    = Some (kvs, r)"
  using assms(1,2)
proof (induction kvs rule: induct_list012)
  case (2 kv)
  then have "read_value fl (put m (snd kv) @ s) = Some (snd kv, s)" "skip (put m (snd kv) @ s) = put m (snd kv) @ s"
    using assms(3) by (simp_all add: reads_as_def skip_start)
  moreover have "skip s = 125 # r" using assms(4,5) by simp
  ultimately show ?case using 2 by (simp add: body_reads)
next
  case (3 kv kv' kvs)
  let ?rest = "join (44 # sep n) (map (\<lambda>kv. (34 # body (fst kv) @ [34]) @ [58, 32] @ put m (snd kv)) (kv' # kvs)) @ s"
  have k: "skip ?rest = ?rest" by (cases kvs) simp_all
  have v: "read_value fl (put m (snd kv) @ 44 # sep n @ ?rest) = Some (snd kv, 44 # sep n @ ?rest)"
      "skip (put m (snd kv) @ 44 # sep n @ ?rest) = put m (snd kv) @ 44 # sep n @ ?rest"
    using "3.prems" by (simp_all add: reads_as_def skip_start)
  have "read_members fl ?rest = Some (kv' # kvs, r)" using "3.IH"(2) "3.prems" by simp
  with v k blanks(2) "3.prems" show ?case by (simp add: body_reads)
qed simp

lemma join_start: "xs \<noteq> [] \<Longrightarrow> p (hd xs) \<noteq> [] \<Longrightarrow> \<exists>u. join s (map p xs) @ t = hd (p (hd xs)) # u"
proof (induction xs rule: induct_list012)
  case (2 x)
  then show ?case by (cases "p x") auto
next
  case (3 x y xs)
  then show ?case by (cases "p x") auto
qed simp

lemma put_reads: "sound fl rep j \<Longrightarrow> reads_as fl (put n j) j"
proof (induction j arbitrary: n)
  case (JList xs)
  show ?case
  proof (cases "xs = []")
    case False
    from JList have x: "\<forall>x \<in> set xs. reads_as fl (put (Suc n) x) x" by (simp add: list_all_iff)
    then have h: "reads_as fl (put (Suc n) (hd xs)) (hd xs)" using False by simp
    have "read_value fl (put n (JList xs) @ r) = Some (JList xs, r)" for r
    proof -
      let ?t = "join (44 # sep n) (map (put (Suc n)) xs) @ stop n @ 93 # r"
      have i: "read_items fl ?t = Some (xs, r)"
        by (rule items_read [OF False x]) (use blanks in \<open>auto intro: ends_blank\<close>)
      obtain u where u: "?t = hd (put (Suc n) (hd xs)) # u"
        using join_start [OF False, of "put (Suc n)" "44 # sep n" "stop n @ 93 # r"] h by (auto simp: reads_as_def)
      with h i show ?thesis by (simp add: put_list False blanks reads_as_def)
    qed
    then show ?thesis by (simp add: reads_as_def put_list False)
  qed (simp add: put_list reads_as_def)
next
  case (JObj kvs)
  show ?case
  proof (cases "kvs = []")
    case False
    from JObj have x: "\<forall>kv \<in> set kvs. list_all scalar (fst kv) \<and> reads_as fl (put (Suc n) (snd kv)) (snd kv)"
      by (fastforce simp: list_all_iff snds.simps)
    from JObj.prems have d: "dict_of kvs = kvs" by (simp add: dict_of_distinct)
    let ?p = "\<lambda>kv. (34 # body (fst kv) @ [34]) @ [58, 32] @ put (Suc n) (snd kv)"
    have "read_value fl (put n (JObj kvs) @ r) = Some (JObj kvs, r)" for r
    proof -
      let ?t = "join (44 # sep n) (map ?p kvs) @ stop n @ 125 # r"
      have i: "read_members fl ?t = Some (kvs, r)"
        by (rule members_read [OF False x]) (use blanks in \<open>auto intro: ends_blank\<close>)
      obtain u where u: "?t = 34 # u" using join_start [OF False, of ?p] by auto
      with d i show ?thesis by (simp add: put_dict False blanks)
    qed
    then show ?thesis by (simp add: reads_as_def put_dict False)
  qed (simp add: put_dict reads_as_def)
qed (simp_all add: put_simple put_str reads_name reads_int, simp add: reads_as_def body_reads)

end

lemma plain_char_reads: "read_string (plain_char c @ s) = emit c (read_string s)"
  by (auto simp: plain_char_def short_escape_def read_escape is_high_def)

lemma plain_body_reads: "read_string (concat (map plain_char s) @ 34 # r) = Some (s, r)"
  by (induction s) (simp_all add: plain_char_reads emit_def)

interpretation indented: json_writer fl rep "pretty rep" "\<lambda>s. concat (map plain_char s)"
    "\<lambda>n. new_line (Suc n)" "\<lambda>n. new_line (Suc n)" new_line for fl rep
  by unfold_locales (simp_all add: plain_str_def plain_body_reads new_line_def list_all_iff)

interpretation compact: json_writer fl rep "\<lambda>n. dumps rep" "\<lambda>s. concat (map dumps_char s)"
    "\<lambda>n. []" "\<lambda>n. [32]" "\<lambda>n. []" for fl rep
  by unfold_locales (simp_all add: dumps_str_def read_dumps_str)

lemma no_mark: "read_value fl (65279 # s) = None"
proof -
  have "read_name (65279 # s) = None"
    by (auto simp: read_name_def json_names_def lit_def find_first_None_iff dest!: startswith_head split: option.splits)
  then show ?thesis by (simp add: read_plain_def read_unsigned_def whole_part_def digits_def digit_def)
qed

lemma loads_written: "reads_as fl p j \<Longrightarrow> loads fl p = Inr j"
proof -
  assume r: "reads_as fl p j"
  then obtain c t where p: "p = c # t" "\<not> white c" by (cases p) (auto simp: reads_as_def)
  from r have v: "read_value fl p = Some (j, [])" unfolding reads_as_def by (metis append_Nil2 ends_simps(1))
  then have "c \<noteq> 65279" using p no_mark by auto
  with v p show ?thesis by (simp add: loads_def startswith_Cons del: read_value.simps)
qed

theorem loads_pretty: "sound fl rep j \<Longrightarrow> loads fl (pretty rep 0 j) = Inr j"
  by (intro loads_written indented.put_reads)

theorem loads_dumps: "sound fl rep j \<Longrightarrow> loads fl (dumps rep j) = Inr j"
  by (intro loads_written compact.put_reads)

end
