(* ===== verification/Gh.thy ===== *)
theory Gh
  imports Tick Worklist Loads
begin

text \<open>
  The \<open>gh\<close> process and every call the program makes of it (\<open>src/robbie/github.py\<close>, and the calls
  of \<open>publish.py\<close>, \<open>export.py\<close> and \<open>fixer.py\<close>): the arguments, the input, and what becomes of the
  way the process ends. A host says how a call ends; \<open>over_gh\<close> is the environment of the other
  theories with its GitHub side run by such a process. The properties: a process that fails is
  never read as an answer, a token that cannot read check runs changes nothing but the checks, a
  write addresses its own issue of its own repository, and what is posted is what is read.
\<close>

section \<open>The process\<close>

record gh_call =
  gc_args :: "str list"
  gc_stdin :: "str option"

text \<open>
  It could not be started (no such program, an argument the system does not take), it is past its
  deadline, or it left an exit code and the two streams, decoded or not decodable.
\<close>

datatype gh_end = Gh_unstarted exn | Gh_timed_out | Gh_ended int "str res" "str res"

record host =
  ho_run :: "gh_call \<Rightarrow> gh_end"
  ho_loads :: "str \<Rightarrow> json res"                        \<comment> \<open>\<open>ValueError\<close> is \<open>JSONDecodeError\<close>\<close>

definition GH_TIMEOUT_S :: nat where "GH_TIMEOUT_S = 120"

definition shown_args :: "str list \<Rightarrow> str" where
  "shown_args args = lit ''gh '' @ join [32] (take 3 args)"

definition gh :: "host \<Rightarrow> str list \<Rightarrow> str option \<Rightarrow> str res" where
  "gh h args inp =
     (if (case inp of None \<Rightarrow> False | Some s \<Rightarrow> \<not> encodable s) then Inl ValueError
      else case ho_run h \<lparr>gc_args = args, gc_stdin = inp\<rparr> of
        Gh_unstarted e \<Rightarrow> Inl e
      | Gh_timed_out \<Rightarrow> Inl (GhError (shown_args args @ lit '' timed out after '' @ show_nat GH_TIMEOUT_S @ lit ''s''))
      | Gh_ended code out err \<Rightarrow>
          if code \<noteq> 0
          then bindE err (\<lambda>e. Inl (GhError (shown_args args @ lit '' exited '' @ show_int code @ lit '': '' @ take 400 e)))
          else out)"

definition gh_json :: "host \<Rightarrow> str list \<Rightarrow> str option \<Rightarrow> json res" where
  "gh_json h args inp =
     bindE (gh h args inp) (\<lambda>raw.
     case ho_loads h (if raw = [] then (lit ''null'') else raw) of
       Inr j \<Rightarrow> Inr j
     | Inl e \<Rightarrow> if e = ValueError then Inl (GhError (lit ''gh returned non-JSON: '' @ take 200 raw)) else Inl e)"

definition whoami :: "host \<Rightarrow> str res" where
  "whoami h = bindE (gh h [(lit ''api''), (lit ''user''), (lit ''--jq''), (lit ''.login'')] None) (\<lambda>s. Inr (strip s))"

section \<open>Searches\<close>

definition page_of_numbers :: "str list" where
  "page_of_numbers = [(lit ''--state''), (lit ''open''), (lit ''--limit''), show_nat QUEUE_LIMIT, (lit ''--json''), (lit ''number'')]"

definition queue :: "host \<Rightarrow> str \<Rightarrow> str \<Rightarrow> str option \<Rightarrow> int list res" where
  "queue h repo label reviewer =
     bindE (gh_json h
       ([(lit ''search''), (lit ''prs''), (lit ''--repo''), repo]
        @ (if blank_opt reviewer then [] else [(lit ''--review-requested='' @ opt_str reviewer)])
        @ [(lit ''--label''), label] @ page_of_numbers) None) numbers_of"

definition authored :: "host \<Rightarrow> str \<Rightarrow> str \<Rightarrow> str \<Rightarrow> int list res" where
  "authored h repo label author =
     bindE (gh_json h
       ([(lit ''search''), (lit ''prs''), (lit ''--repo''), repo, (lit ''--author='' @ author), (lit ''--label''), label] @ page_of_numbers) None) numbers_of"

definition issue_queue :: "host \<Rightarrow> str \<Rightarrow> str list \<Rightarrow> int list res" where
  "issue_queue h repo labels =
     issue_queue_of labels
       (gh_json h ([(lit ''search''), (lit ''issues''), (lit ''--repo''), repo] @ map (\<lambda>l. (lit ''--label='' @ l)) labels @ page_of_numbers) None)"

section \<open>One pull request, one issue\<close>

definition ISSUE_FIELDS :: str where
  "ISSUE_FIELDS = (lit ''number,title,url,author,body,labels,state'')"

definition issue_meta_read :: "host \<Rightarrow> str \<Rightarrow> int \<Rightarrow> issue_meta res" where
  "issue_meta_read h repo n =
     bindE (gh_json h [(lit ''issue''), (lit ''view''), show_int n, (lit ''--repo''), repo, (lit ''--json''), ISSUE_FIELDS] None) issue_meta_of_json"

text \<open>\<open>owner, name = repo.split("/", 1)\<close>\<close>

definition owner_and_name :: "str \<Rightarrow> (str \<times> str) res" where
  "owner_and_name repo =
     (case split_on 47 repo of
        owner # part # parts \<Rightarrow> Inr (owner, join [47] (part # parts))
      | _ \<Rightarrow> Inl ValueError)"

definition FIXING_QUERY :: str where
  "FIXING_QUERY = ([NL] @ lit ''      query($n: Int!, $owner: String!, $name: String!) {'' @ [NL]
       @ lit ''        repository(owner: $owner, name: $name) { issue(number: $n) {'' @ [NL]
       @ lit ''          closedByPullRequestsReferences(first: 10, includeClosedPrs: true) {'' @ [NL]
       @ lit ''            nodes { url state }'' @ [NL] @ lit ''          }'' @ [NL]
       @ lit ''        } }'' @ [NL] @ lit ''      }'' @ [NL] @ lit ''    '')"

definition number_query :: "host \<Rightarrow> str \<Rightarrow> int \<Rightarrow> str \<Rightarrow> json res" where
  "number_query h repo n query =
     bindE (owner_and_name repo) (\<lambda>(owner, name).
     gh_json h
       [(lit ''api''), (lit ''graphql''), (lit ''-F''), (lit ''n='' @ show_int n), (lit ''-f''), (lit ''owner='' @ owner), (lit ''-f''), (lit ''name='' @ name),
        (lit ''-f''), (lit ''query='' @ query)] None)"

definition fixing_prs :: "host \<Rightarrow> str \<Rightarrow> int \<Rightarrow> str list res" where
  "fixing_prs h repo n = bindE (number_query h repo n FIXING_QUERY) fixing_prs_of_json"

definition ROLLUP :: str where "ROLLUP = (lit ''statusCheckRollup,'')"

definition PR_FIELDS :: str where
  "PR_FIELDS = (lit ''number,title,url,author,headRefOid,changedFiles,labels,'' @ ROLLUP
       @ lit ''baseRefName,state'')"

definition FORBIDDEN_NODE :: str where
  "FORBIDDEN_NODE = (lit ''not accessible by personal access token'')"

definition view_pr :: "host \<Rightarrow> str \<Rightarrow> int \<Rightarrow> str \<Rightarrow> json res" where
  "view_pr h repo pr ks = gh_json h [(lit ''pr''), (lit ''view''), show_int pr, (lit ''--repo''), repo, (lit ''--json''), ks] None"

definition commit_statuses :: "host \<Rightarrow> str \<Rightarrow> str \<Rightarrow> json res" where
  "commit_statuses h repo sha =
     (if sha = [] then Inr (JList [])
      else bindE (gh_json h [(lit ''api''), (lit ''repos/'' @ repo @ lit ''/commits/'' @ sha @ lit ''/status''), (lit ''--jq''), (lit ''[.statuses[] | {context, state}]'')]
                    None) (\<lambda>j. Inr (jor j (JList []))))"

text \<open>\<open>data[k] = v\<close>\<close>

fun set_item :: "json \<Rightarrow> str \<Rightarrow> json \<Rightarrow> json res" where
  "set_item (JObj kvs) k v = Inr (JObj (dset k v kvs))"
| "set_item _ k v = Inl TypeError"

definition without_rollup :: "host \<Rightarrow> str \<Rightarrow> int \<Rightarrow> json res" where
  "without_rollup h repo pr =
     bindE (view_pr h repo pr (replace ROLLUP [] PR_FIELDS)) (\<lambda>data.
     if \<not> truthy data then Inr data
     else bindE (jstr data ''headRefOid'' []) (\<lambda>sha.
       bindE (commit_statuses h repo sha) (\<lambda>found. set_item data (lit ''statusCheckRollup'') found)))"

definition pr_data :: "host \<Rightarrow> str \<Rightarrow> int \<Rightarrow> json res" where
  "pr_data h repo pr =
     (case view_pr h repo pr PR_FIELDS of
        Inl (GhError s) \<Rightarrow> if contains s FORBIDDEN_NODE then without_rollup h repo pr else Inl (GhError s)
      | r \<Rightarrow> r)"

definition pr_meta_read :: "host \<Rightarrow> str \<Rightarrow> int \<Rightarrow> pr_meta res" where
  "pr_meta_read h repo pr = bindE (pr_data h repo pr) pr_meta_of_json"

definition request_read :: "host \<Rightarrow> str \<Rightarrow> int \<Rightarrow> str \<Rightarrow> str res" where
  "request_read h repo pr reviewer =
     bindE (gh h
       [(lit ''api''), (lit ''repos/'' @ repo @ lit ''/issues/'' @ show_int pr @ lit ''/timeline''), (lit ''--paginate''), (lit ''--jq''),
        (lit ''.[] | select(.event=='' @ [34] @ lit ''review_requested'' @ [34]
       @ lit '' and .requested_reviewer.login=='' @ [34] @ reviewer @ [34] @ lit '') | .created_at'')] None)
       (\<lambda>raw. Inr (last_review_request raw))"

definition open_pr_read :: "host \<Rightarrow> str \<Rightarrow> int \<Rightarrow> str res" where
  "open_pr_read h repo n =
     bindE (gh_json h
       [(lit ''pr''), (lit ''list''), (lit ''--repo''), repo, (lit ''--head''), (BRANCH_PREFIX @ show_int n), (lit ''--state''), (lit ''all''), (lit ''--limit''), (lit ''1''),
        (lit ''--json''), (lit ''url'')] None) (\<lambda>rows.
     if \<not> truthy rows then Inr []
     else bindE (jiter rows) (\<lambda>rs. jstr (hd rs) ''url'' []))"

section \<open>Threads, checks, rejections\<close>

definition THREAD_PAGE :: nat where "THREAD_PAGE = 100"

definition THREADS_QUERY :: str where
  "THREADS_QUERY = ([NL] @ lit ''      query($owner:String!,$name:String!,$num:Int!,$first:Int!,$after:String){''
       @ [NL] @ lit ''        repository(owner:$owner,name:$name){ pullRequest(number:$num){'' @ [NL]
       @ lit ''          state'' @ [NL] @ lit ''          reviewThreads(first:$first, after:$after){''
       @ [NL] @ lit ''            pageInfo { hasNextPage endCursor }'' @ [NL]
       @ lit ''            nodes {'' @ [NL] @ lit ''              id isResolved isOutdated path line''
       @ [NL]
       @ lit ''              comments(first:$first){ nodes { databaseId author { login } body } }''
       @ [NL] @ lit ''            }'' @ [NL] @ lit ''          }}}}'' @ [NL] @ lit ''    '')"

definition threads_args :: "str \<Rightarrow> str \<Rightarrow> int \<Rightarrow> str option \<Rightarrow> str list" where
  "threads_args owner name pr after =
     [(lit ''api''), (lit ''graphql''), (lit ''-f''), (lit ''owner='' @ owner), (lit ''-f''), (lit ''name='' @ name), (lit ''-F''), (lit ''num='' @ show_int pr),
      (lit ''-F''), (lit ''first='' @ show_nat THREAD_PAGE), (lit ''-f''), (lit ''query='' @ THREADS_QUERY)]
     @ (if blank_opt after then [] else [(lit ''-f''), (lit ''after='' @ opt_str after)])"

definition threads_read :: "host \<Rightarrow> str \<Rightarrow> int \<Rightarrow> str \<Rightarrow> pr_threads res option" where
  "threads_read h repo pr reviewer =
     (case owner_and_name repo of
        Inl e \<Rightarrow> Some (Inl e)
      | Inr p \<Rightarrow> my_threads (\<lambda>after. gh_json h (threads_args (fst p) (snd p) pr after) None) reviewer)"

definition REJECTION_QUERY :: str where
  "REJECTION_QUERY = ([NL] @ lit ''      query($n: Int!, $owner: String!, $name: String!) {'' @ [NL]
       @ lit ''        repository(owner: $owner, name: $name) { pullRequest(number: $n) {'' @ [NL]
       @ lit ''          latestOpinionatedReviews(first: 20) {'' @ [NL]
       @ lit ''            nodes { id state author { login } }'' @ [NL] @ lit ''          }'' @ [NL]
       @ lit ''        } }'' @ [NL] @ lit ''      }'' @ [NL] @ lit ''    '')"

definition rejection_read :: "host \<Rightarrow> str \<Rightarrow> int \<Rightarrow> str \<Rightarrow> str option res" where
  "rejection_read h repo pr reviewer =
     bindE (number_query h repo pr REJECTION_QUERY) (standing_rejection_of_json reviewer)"

definition labeled_heads :: "host \<Rightarrow> str \<Rightarrow> str \<Rightarrow> (int, labeled_pr) dict res" where
  "labeled_heads h repo label =
     bindE (gh_json h
       [(lit ''pr''), (lit ''list''), (lit ''--repo''), repo, (lit ''--label''), label, (lit ''--state''), (lit ''open''), (lit ''--limit''), show_nat QUEUE_LIMIT,
        (lit ''--json''), (lit ''number,headRefOid,labels'')] None) labeled_heads_of_json"

text \<open>\<open>(body or "").strip()\<close> of the comments, and \<open>ci_already_asked\<close>.\<close>

definition bodies_of :: "json \<Rightarrow> str list res" where
  "bodies_of j =
     bindE (jiter (jor j (JList []))) (mapE (\<lambda>b. case jor b (JStr []) of JStr s \<Rightarrow> Inr s | _ \<Rightarrow> Inl AttributeError))"

definition ci_already_asked :: "host \<Rightarrow> str \<Rightarrow> int \<Rightarrow> str \<Rightarrow> str \<Rightarrow> bool res" where
  "ci_already_asked h repo pr phrase sha =
     bindE (gh h [(lit ''api''), (lit ''repos/'' @ repo @ lit ''/commits/'' @ sha), (lit ''--jq''), (lit ''.commit.committer.date'')] None) (\<lambda>raw.
     let since = strip raw in
     if since = [] then Inr False
     else
       bindE (gh_json h
         [(lit ''api''), (lit ''repos/'' @ repo @ lit ''/issues/'' @ show_int pr @ lit ''/comments?per_page=100&since=''
       @ since), (lit ''--jq''), (lit ''[.[].body]'')] None) (\<lambda>j.
       bindE (bodies_of j) (\<lambda>bodies. Inr (phrase_posted since phrase bodies))))"

definition STALE_QUERY :: str where
  "STALE_QUERY = ([NL] @ lit ''      query($q: String!, $me: String!) {'' @ [NL]
       @ lit ''        search(query: $q, type: ISSUE, first: 50) {'' @ [NL]
       @ lit ''          nodes { ... on PullRequest {'' @ [NL]
       @ lit ''            number title url author { login }'' @ [NL]
       @ lit ''            reviews(last: 20, author: $me, states: CHANGES_REQUESTED) { nodes { ''
       @ lit ''submittedAt } }'' @ [NL]
       @ lit ''            commits(last: 1) { nodes { commit { committedDate } } }'' @ [NL]
       @ lit ''          }}'' @ [NL] @ lit ''        }'' @ [NL] @ lit ''      }'' @ [NL] @ lit ''    '')"

definition stale_search :: "host \<Rightarrow> str \<Rightarrow> str \<Rightarrow> str \<Rightarrow> json res" where
  "stale_search h repo reviewer label =
     gh_json h
       [(lit ''api''), (lit ''graphql''), (lit ''-f''),
        (lit ''q=repo:'' @ repo @ lit '' is:pr is:open label:'' @ [34] @ label @ [34]
       @ lit '' reviewed-by:'' @ reviewer @ lit '' review:changes_requested''),
        (lit ''-f''), (lit ''me='' @ reviewer), (lit ''-f''), (lit ''query='' @ STALE_QUERY)] None"

definition stale_changes_requested :: "host \<Rightarrow> str \<Rightarrow> str \<Rightarrow> str \<Rightarrow> json list res" where
  "stale_changes_requested h repo reviewer label = bindE (stale_search h repo reviewer label) parked_nodes"

section \<open>Reads of publishing and of the export\<close>

definition label_names_read :: "host \<Rightarrow> str \<Rightarrow> int \<Rightarrow> str list res" where
  "label_names_read h repo pr =
     bindE (gh_json h
       [(lit ''pr''), (lit ''view''), show_int pr, (lit ''--repo''), repo, (lit ''--json''), (lit ''labels''), (lit ''--jq''), (lit ''[.labels[].name]'')] None) (\<lambda>j.
     bindE (jiter (jor j (JList []))) (\<lambda>xs.
       Inr (concat (map (\<lambda>x. case x of JStr s \<Rightarrow> [s] | _ \<Rightarrow> []) xs))))"

text \<open>One line of the answer to \<open>diff_lines\<close>.\<close>

definition file_row :: "host \<Rightarrow> str \<Rightarrow> (str \<times> str) res" where
  "file_row h row =
     bindE (ho_loads h row) (\<lambda>entry.
     bindE (jitem entry (lit ''filename'')) (\<lambda>name.
     bindE (jstr entry ''patch'' []) (\<lambda>patch.
       case name of JStr s \<Rightarrow> Inr (s, patch) | _ \<Rightarrow> Inl TypeError)))"

definition files_read :: "host \<Rightarrow> str \<Rightarrow> int \<Rightarrow> (str \<times> str) list res" where
  "files_read h repo pr =
     bindE (gh h
       [(lit ''api''), (lit ''repos/'' @ repo @ lit ''/pulls/'' @ show_int pr @ lit ''/files''), (lit ''--paginate''), (lit ''--jq''), (lit ''.[] | {filename, patch}'')] None) (\<lambda>raw.
       mapE (file_row h) (filter (\<lambda>row. strip row \<noteq> []) (splitlines raw)))"

definition OPEN_FIELDS :: str where
  "OPEN_FIELDS = (lit ''number,title,url,author,labels,headRefName,headRefOid,isDraft,createdAt,reviewDecision'')"

definition open_prs_read :: "host \<Rightarrow> str \<Rightarrow> json res" where
  "open_prs_read h repo =
     gh_json h [(lit ''pr''), (lit ''list''), (lit ''--repo''), repo, (lit ''--state''), (lit ''open''), (lit ''--limit''), (lit ''200''), (lit ''--json''), OPEN_FIELDS] None"

definition assigned_read :: "host \<Rightarrow> repo_config \<Rightarrow> json res" where
  "assigned_read h rc =
     gh_json h
       ([(lit ''issue''), (lit ''list''), (lit ''--repo''), rc_slug rc, (lit ''--state''), (lit ''open''), (lit ''--assignee''), rc_reviewer_login rc, (lit ''--limit''), (lit ''50''),
         (lit ''--json''), (lit ''number,title,url,labels,updatedAt,closedByPullRequestsReferences'')]
        @ concat (map (\<lambda>l. [(lit ''--label''), l]) (bug_labels rc))) None"

definition open_issues_read :: "host \<Rightarrow> str \<Rightarrow> json res" where
  "open_issues_read h repo =
     gh_json h [(lit ''issue''), (lit ''list''), (lit ''--repo''), repo, (lit ''--state''), (lit ''open''), (lit ''--limit''), (lit ''1000''), (lit ''--json''), (lit ''number'')] None"

section \<open>Writes\<close>

definition api_path :: "str \<Rightarrow> string \<Rightarrow> int \<Rightarrow> str list \<Rightarrow> str" where
  "api_path repo kind n rest = join [47] ([(lit ''repos''), repo, lit kind, show_int n] @ rest)"

definition api_post :: "str \<Rightarrow> str \<Rightarrow> bool \<Rightarrow> gh_call" where
  "api_post path payload url =
     \<lparr>gc_args = [(lit ''api''), path, (lit ''--input''), (lit ''-'')] @ (if url then [(lit ''--jq''), (lit ''.html_url'')] else []), gc_stdin = Some payload\<rparr>"

definition body_payload :: "(json \<Rightarrow> str) \<Rightarrow> str \<Rightarrow> str" where
  "body_payload rep body = dumps rep (JObj [((lit ''body''), JStr body)])"

definition comment_json :: "comment \<Rightarrow> (str \<times> json) list" where
  "comment_json c =
     [((lit ''path''), cm_path c), ((lit ''line''), JInt (cm_line c)), ((lit ''side''), JStr (lit ''RIGHT'')), ((lit ''body''), JStr (cm_body c))]
     @ (case cm_start c of None \<Rightarrow> [] | Some s \<Rightarrow> [((lit ''start_line''), JInt s), ((lit ''start_side''), JStr (lit ''RIGHT''))])"

definition review_payload :: "(json \<Rightarrow> str) \<Rightarrow> str \<Rightarrow> str \<Rightarrow> comment list \<Rightarrow> str" where
  "review_payload rep head body cs =
     dumps rep (JObj
       [((lit ''body''), JStr body), ((lit ''event''), JStr (lit ''REQUEST_CHANGES'')), ((lit ''commit_id''), JStr head),
        ((lit ''comments''), JList (map (\<lambda>c. JObj (comment_json c)) cs))])"

definition graphql :: "str \<Rightarrow> str list \<Rightarrow> gh_call" where
  "graphql query vars =
     \<lparr>gc_args = [(lit ''api''), (lit ''graphql''), (lit ''-f''), query] @ concat (map (\<lambda>v. [(lit ''-f''), v]) vars), gc_stdin = None\<rparr>"

text \<open>
  The call of a write. \<open>settle_issue\<close> leaves out the filter on the answer to its comment, which it
  drops anyway.
\<close>

fun write_call :: "(json \<Rightarrow> str) \<Rightarrow> event \<Rightarrow> gh_call option res" where
  "write_call rep (Gh_comment repo n body) =
     Inr (Some (api_post (api_path repo ''issues'' n [(lit ''comments'')]) (body_payload rep body) True))"
| "write_call rep (Gh_review repo n head body cs) =
     Inr (Some (api_post (api_path repo ''pulls'' n [(lit ''reviews'')]) (review_payload rep head body cs) True))"
| "write_call rep (Gh_inline repo n head c) =
     Inr (Some (api_post (api_path repo ''pulls'' n [(lit ''comments'')])
       (dumps rep (JObj (comment_json c @ [((lit ''commit_id''), JStr head)]))) True))"
| "write_call rep (Gh_reply repo n cid body) =
     Inr (Some (api_post (api_path repo ''pulls'' n [(lit ''comments''), show_int cid, (lit ''replies'')]) (body_payload rep body) True))"
| "write_call rep (Gh_add_label repo n l) =
     Inr (Some (api_post (api_path repo ''issues'' n [(lit ''labels'')]) (dumps rep (JObj [((lit ''labels''), JList [JStr l])])) False))"
| "write_call rep (Gh_assign repo n who) =
     Inr (Some (api_post (api_path repo ''issues'' n [(lit ''assignees'')])
       (dumps rep (JObj [((lit ''assignees''), JList (map JStr who))])) False))"
| "write_call rep (Gh_del_label repo n l) =
     bindE (quote l) (\<lambda>q. Inr (Some
       \<lparr>gc_args = [(lit ''api''), (lit ''-X''), (lit ''DELETE''), api_path repo ''issues'' n [(lit ''labels''), q]], gc_stdin = None\<rparr>))"
| "write_call rep (Gh_dismiss i m) =
     Inr (Some (graphql
       (lit ''query=mutation($id:ID!,$m:String!){dismissPullRequestReview(input:{pullRequestReviewId:$''
       @ lit ''id,message:$m}){clientMutationId}}'')
       [(lit ''id='' @ i), (lit ''m='' @ m)]))"
| "write_call rep (Gh_resolve i) =
     Inr (Some (graphql
       (lit ''query=mutation($id:ID!){resolveReviewThread(input:{threadId:$id}){thread{isResolved}}}'') [(lit ''id='' @ i)]))"
| "write_call rep _ = Inr None"

definition send_write :: "host \<Rightarrow> (json \<Rightarrow> str) \<Rightarrow> event \<Rightarrow> str res" where
  "send_write h rep ev =
     bindE (write_call rep ev) (\<lambda>c.
     case c of None \<Rightarrow> Inr [] | Some c \<Rightarrow> gh h (gc_args c) (gc_stdin c))"

section \<open>An environment over the process\<close>

text \<open>
  \<open>ends\<close> says how a call ends after a trace, \<open>conf\<close> which configuration a repository has. The reads of
  threads stay the environment's: their paging need not end.
\<close>

definition host_at :: "(trace \<Rightarrow> gh_call \<Rightarrow> gh_end) \<Rightarrow> env \<Rightarrow> trace \<Rightarrow> host" where
  "host_at ends en tr = \<lparr>ho_run = ends tr, ho_loads = en_loads en\<rparr>"

definition over_gh :: "(trace \<Rightarrow> gh_call \<Rightarrow> gh_end) \<Rightarrow> (str \<Rightarrow> repo_config) \<Rightarrow> env \<Rightarrow> env" where
  "over_gh ends conf en =
     en\<lparr>en_write := \<lambda>tr ev. send_write (host_at ends en tr) (en_rep en) ev,
        en_meta := \<lambda>tr repo n. pr_meta_read (host_at ends en tr) repo n,
        en_request := \<lambda>tr repo n. request_read (host_at ends en tr) repo n (rc_reviewer_login (conf repo)),
        en_queue := \<lambda>tr repo. queue (host_at ends en tr) repo (rc_label (conf repo)) (Some (rc_reviewer_login (conf repo))),
        en_authored := \<lambda>tr repo. authored (host_at ends en tr) repo (rc_label (conf repo)) (rc_reviewer_login (conf repo)),
        en_labels := \<lambda>tr repo n. label_names_read (host_at ends en tr) repo n,
        en_files := \<lambda>tr repo n. files_read (host_at ends en tr) repo n,
        en_rejection := \<lambda>tr repo n. rejection_read (host_at ends en tr) repo n (rc_reviewer_login (conf repo)),
        en_vetoed := \<lambda>tr repo. bindE (stale_changes_requested (host_at ends en tr) repo (rc_reviewer_login (conf repo))
          (rc_label (conf repo))) (mapE number_of),
        en_heads := \<lambda>tr repo. labeled_heads (host_at ends en tr) repo (rc_label (conf repo)),
        en_whoami := \<lambda>tr. whoami (host_at ends en tr),
        en_asked := \<lambda>tr repo n phrase sha. ci_already_asked (host_at ends en tr) repo n phrase sha,
        en_issues := \<lambda>tr repo ls. issue_queue (host_at ends en tr) repo ls,
        en_issue := \<lambda>tr repo n. issue_meta_read (host_at ends en tr) repo n,
        en_fixing := \<lambda>tr repo n. fixing_prs (host_at ends en tr) repo n,
        en_branch_pr := \<lambda>tr repo n. open_pr_read (host_at ends en tr) repo n\<rparr>"

definition feed_over_gh :: "(trace \<Rightarrow> gh_call \<Rightarrow> gh_end) \<Rightarrow> (str \<Rightarrow> repo_config) \<Rightarrow> env \<Rightarrow> feed \<Rightarrow> feed" where
  "feed_over_gh ends conf en fd =
     fd\<lparr>fd_open_prs := \<lambda>tr repo. open_prs_read (host_at ends en tr) repo,
        fd_assigned := \<lambda>tr repo. assigned_read (host_at ends en tr) (conf repo),
        fd_open_issues := \<lambda>tr repo. open_issues_read (host_at ends en tr) repo,
        fd_parked := \<lambda>tr repo. stale_search (host_at ends en tr) repo (rc_reviewer_login (conf repo)) (rc_label (conf repo))\<rparr>"


section \<open>A process that fails\<close>

definition gh_failed :: "'a res \<Rightarrow> bool" where
  "gh_failed r \<longleftrightarrow> (case r of Inl (GhError s) \<Rightarrow> True | _ \<Rightarrow> False)"

text \<open>GitHub cannot be reached, or turns every call away.\<close>

definition fails :: "gh_end \<Rightarrow> bool" where
  "fails e \<longleftrightarrow>
     (case e of Gh_unstarted x \<Rightarrow> False
      | Gh_timed_out \<Rightarrow> True
      | Gh_ended code out err \<Rightarrow> code \<noteq> 0 \<and> (case err of Inl x \<Rightarrow> False | Inr s \<Rightarrow> True))"

definition down :: "host \<Rightarrow> bool" where
  "down h \<longleftrightarrow> (\<forall>c. fails (ho_run h c))"

lemma gh_failed_bind [simp]: "gh_failed r \<Longrightarrow> gh_failed (bindE r f)"
  by (cases r) (simp_all add: gh_failed_def)

lemma gh_down: "down h \<Longrightarrow> gh_failed (gh h args None)"
proof -
  assume "down h"
  then have "fails (ho_run h \<lparr>gc_args = args, gc_stdin = None\<rparr>)" by (simp add: down_def)
  then show ?thesis
    by (auto simp: gh_def gh_failed_def fails_def split: gh_end.splits sum.splits)
qed

lemma gh_json_down: "down h \<Longrightarrow> gh_failed (gh_json h args None)"
  using gh_down [of h args] by (simp add: gh_json_def)

lemma gh_failed_cases: "gh_failed r \<Longrightarrow> (\<And>s. r = Inl (GhError s) \<Longrightarrow> thesis) \<Longrightarrow> thesis"
  by (cases r) (auto simp: gh_failed_def split: exn.splits)

lemma number_query_down: "down h \<Longrightarrow> 47 \<in> set repo \<Longrightarrow> gh_failed (number_query h repo n q)"
proof -
  assume d: "down h" and s: "47 \<in> set repo"
  have "\<exists>p. owner_and_name repo = Inr p"
  proof (cases "split_on 47 repo")
    case (Cons a ps)
    have "ps \<noteq> []"
    proof
      assume "ps = []"
      then have "repo = a" using join_split_on [of 47 repo] Cons by simp
      then show False using split_on_no_sep [of a 47 repo] Cons s by simp
    qed
    with Cons show ?thesis by (auto simp: owner_and_name_def split: list.splits)
  qed simp
  then show ?thesis using d by (auto simp: number_query_def gh_json_down split: prod.splits)
qed

lemma pr_data_down: "down h \<Longrightarrow> gh_failed (pr_data h repo pr)"
proof -
  assume d: "down h"
  then have v: "gh_failed (view_pr h repo pr ks)" for ks by (simp add: view_pr_def gh_json_down)
  then have w: "gh_failed (without_rollup h repo pr)" by (simp add: without_rollup_def)
  from v [of PR_FIELDS] obtain s where "view_pr h repo pr PR_FIELDS = Inl (GhError s)" by (rule gh_failed_cases)
  with w show ?thesis by (simp add: pr_data_def gh_failed_def)
qed

lemma threads_read_down: "down h \<Longrightarrow> 47 \<in> set repo \<Longrightarrow> \<exists>r. threads_read h repo pr me = Some r \<and> gh_failed r"
proof -
  assume d: "down h" and s: "47 \<in> set repo"
  from number_query_down [OF d s] obtain p where p: "owner_and_name repo = Inr p"
    by (cases "owner_and_name repo") (auto simp: number_query_def gh_failed_def owner_and_name_def split: list.splits)
  from gh_json_down [OF d] obtain x where "gh_json h (threads_args (fst p) (snd p) pr None) None = Inl (GhError x)"
    by (rule gh_failed_cases)
  then show ?thesis
    by (simp add: threads_read_def p my_threads_def gh_failed_def page_loop.simps [of _ None])
qed

text \<open>A failure of \<open>gh\<close> is never read as an answer: while every call of it fails, every read is a
  \<open>GhError\<close>, no queue is empty and no pull request has no thread.\<close>

theorem failed_reads_are_errors:
  assumes "down h" "47 \<in> set repo"
  shows "gh_failed (whoami h) \<and> gh_failed (queue h repo label reviewer) \<and> gh_failed (authored h repo label me) \<and>
    gh_failed (issue_queue h repo labels) \<and> gh_failed (issue_meta_read h repo n) \<and> gh_failed (fixing_prs h repo n) \<and>
    gh_failed (pr_meta_read h repo n) \<and> gh_failed (request_read h repo n me) \<and>
    (\<exists>r. threads_read h repo n me = Some r \<and> gh_failed r) \<and> gh_failed (rejection_read h repo n me) \<and>
    gh_failed (labeled_heads h repo label) \<and> gh_failed (ci_already_asked h repo n phrase sha) \<and>
    gh_failed (stale_changes_requested h repo me label) \<and> gh_failed (open_pr_read h repo n) \<and>
    gh_failed (files_read h repo n) \<and> gh_failed (label_names_read h repo n)"
proof -
  have "gh_failed (issue_queue h repo labels)"
    using gh_json_down [OF assms(1)] by (simp add: issue_queue_def issue_queue_of_def gh_failed_def [of "Inl _"])
  then show ?thesis
    using gh_down [OF assms(1)] gh_json_down [OF assms(1)] pr_data_down [OF assms(1)] number_query_down [OF assms]
      threads_read_down [OF assms]
    by (simp add: whoami_def queue_def authored_def issue_meta_read_def fixing_prs_def pr_meta_read_def request_read_def
        rejection_read_def labeled_heads_def ci_already_asked_def stale_changes_requested_def stale_search_def
        open_pr_read_def files_read_def label_names_read_def)
qed

lemma repo_outage:
  assumes "\<And>tr. down (host_at ends en tr)"
  shows "poll_repo (over_gh ends conf en) cx rc w = (Inr [], w\<lparr>wd_trace := wd_trace w @ [Gh_read (lit ''queue'') (rc_slug rc) 0]\<rparr>)"
proof -
  have "gh_failed (queue (host_at ends en tr) repo label me)" for tr repo label me
    using gh_json_down [OF assms] by (simp add: queue_def)
  then obtain s where "en_queue (over_gh ends conf en) (wd_trace w) (rc_slug rc) = Inl (GhError s)"
    unfolding over_gh_def by simp (metis gh_failed_cases)
  then show ?thesis
    by (simp add: poll_repo_def candidates_def ask_def bindM_def catch_gh_def catchM_def ret_def)
qed

text \<open>A computation that only asks GitHub, returns, and leaves the rest of the world alone.\<close>

definition is_read :: "event \<Rightarrow> bool" where
  "is_read ev \<longleftrightarrow> (case ev of Gh_read what repo n \<Rightarrow> True | _ \<Rightarrow> False)"

definition only_asked :: "world \<Rightarrow> world \<Rightarrow> bool" where
  "only_asked w w' \<longleftrightarrow> (\<exists>reads. w' = w\<lparr>wd_trace := wd_trace w @ reads\<rparr> \<and> list_all is_read reads)"

definition idle :: "'a eff \<Rightarrow> 'a \<Rightarrow> bool" where
  "idle m x \<longleftrightarrow> (\<forall>w. \<exists>w'. m w = (Inr x, w') \<and> only_asked w w')"

lemma only_asked_refl: "only_asked w w"
  unfolding only_asked_def by (rule exI [of _ "[]"]) simp

lemma only_asked_trans: "only_asked u v \<Longrightarrow> only_asked v w \<Longrightarrow> only_asked u w"
  unfolding only_asked_def
proof (elim exE conjE)
  fix r s
  assume "v = u\<lparr>wd_trace := wd_trace u @ r\<rparr>" "w = v\<lparr>wd_trace := wd_trace v @ s\<rparr>" "list_all is_read r" "list_all is_read s"
  then show "\<exists>x. w = u\<lparr>wd_trace := wd_trace u @ x\<rparr> \<and> list_all is_read x" by (intro exI [of _ "r @ s"]) simp
qed

lemma idle_ret: "idle (ret x) x"
  by (simp add: idle_def ret_def only_asked_refl)

lemma idle_bind: "idle m x \<Longrightarrow> idle (f x) y \<Longrightarrow> idle (bindM m f) y"
  unfolding idle_def
proof
  fix w
  assume m: "\<forall>w. \<exists>w'. m w = (Inr x, w') \<and> only_asked w w'" and f: "\<forall>w. \<exists>w'. f x w = (Inr y, w') \<and> only_asked w w'"
  from m obtain w1 where "m w = (Inr x, w1)" "only_asked w w1" by blast
  moreover from f obtain w2 where "f x w1 = (Inr y, w2)" "only_asked w1 w2" by blast
  ultimately show "\<exists>w'. bindM m f w = (Inr y, w') \<and> only_asked w w'" by (auto simp: bindM_def intro: only_asked_trans)
qed

lemma idle_mapM: "(\<And>x. x \<in> set xs \<Longrightarrow> idle (f x) (g x)) \<Longrightarrow> idle (mapM f xs) (map g xs)"
  by (induction xs) (auto intro!: idle_ret idle_bind)

lemma only_asked_read: "only_asked w (w\<lparr>wd_trace := wd_trace w @ [Gh_read what repo n]\<rparr>)"
  unfolding only_asked_def by (intro exI [of _ "[Gh_read what repo n]"]) (simp add: is_read_def)

lemma idle_watch_one:
  assumes "\<And>tr. down (host_at ends en tr)"
  shows "idle (watch_one (over_gh ends conf en) cx rc row) None"
  unfolding idle_def
proof
  fix w :: world
  have "gh_failed (en_meta (over_gh ends conf en) tr repo n)" for tr repo n
    using pr_data_down [OF assms] by (simp add: over_gh_def pr_meta_read_def)
  then obtain s where "en_meta (over_gh ends conf en) (wd_trace w) (rv_repo row) (rv_pr row) = Inl (GhError s)"
    by (rule gh_failed_cases)
  then show "\<exists>w'. watch_one (over_gh ends conf en) cx rc row w = (Inr None, w') \<and> only_asked w w'"
    by (simp add: watch_one_def catch_gh_def catchM_def bindM_def ret_def ask_def only_asked_read)
qed

lemma sweep_one_dark:
  assumes "\<And>tr repo n. gh_failed (en_threads en tr repo n)"
  shows "\<exists>b w'. sweep_one en cx rc pr tripped w = (Inr (b, None), w') \<and> only_asked w w'"
proof (cases "notice_seen (wd_db w) (merged_key (rc_slug rc) pr) \<or> tripped")
  case True
  then show ?thesis by (auto simp: sweep_one_def sweep_body_def gets_def bindM_def catchM_def ret_def only_asked_refl)
next
  case False
  obtain s where "en_threads en (wd_trace w) (rc_slug rc) pr = Inl (GhError s)" using assms gh_failed_cases by metis
  with False show ?thesis
    by (auto simp: sweep_one_def sweep_body_def gets_def bindM_def catchM_def ret_def ask_def only_asked_read)
qed

lemma sweep_dark:
  assumes "\<And>tr repo n. gh_failed (en_threads en tr repo n)"
  shows "idle (sweep en cx slug only) []"
proof -
  let ?step = "\<lambda>st job. bindM (sweep_one en cx (fst job) (snd job) (fst st)) (\<lambda>r. ret (fst r, snd st @ [snd r]))"
  have step: "\<exists>b w'. ?step st job w = (Inr (b, snd st @ [None]), w') \<and> only_asked w w'" for st job w
    using sweep_one_dark [OF assms, of cx "fst job" "snd job" "fst st" w] by (auto simp: bindM_def ret_def)
  have "\<exists>st' w'. foldM ?step st jobs w = (Inr st', w') \<and> set (snd st') \<subseteq> set (snd st) \<union> {None} \<and> only_asked w w'" for st jobs w
  proof (induction jobs arbitrary: st w)
    case (Cons job jobs)
    obtain b w1 where s: "?step st job w = (Inr (b, snd st @ [None]), w1)" "only_asked w w1" using step by blast
    obtain st' w2 where "foldM ?step (b, snd st @ [None]) jobs w1 = (Inr st', w2)" "only_asked w1 w2"
        "set (snd st') \<subseteq> set (snd st @ [None]) \<union> {None}"
      using Cons.IH [of "(b, snd st @ [None])" w1] by auto
    with s show ?case by (auto simp: bindM_def [of "?step st job"] intro: only_asked_trans)
  qed (auto simp: ret_def only_asked_refl)
  from this [of "(False, [])"] have all: "\<exists>st' w'. foldM ?step (False, []) jobs w = (Inr st', w') \<and>
      List.map_filter id (snd st') = [] \<and> only_asked w w'" for jobs w
    by (fastforce simp: List.map_filter_def filter_empty_conv)
  then show ?thesis
    unfolding idle_def sweep_def
  proof (intro allI)
    fix w :: world
    let ?jobs = "sweep_jobs cx slug only (ck_now (en_clock en (wd_trace w))) (wd_db w)"
    obtain st' w' where "foldM ?step (False, []) ?jobs w = (Inr st', w')" "List.map_filter id (snd st') = []" "only_asked w w'"
      using all by blast
    then show "\<exists>w'. bindM (now en) (\<lambda>ck. bindM (gets (sweep_jobs cx slug only (ck_now ck))) (\<lambda>jobs.
        bindM (foldM ?step (False, []) jobs) (\<lambda>st. ret (List.map_filter id (snd st))))) w = (Inr [], w') \<and> only_asked w w'"
      by (simp add: bindM_def now_def gets_def ret_def)
  qed
qed

lemma watch_dark:
  assumes "\<And>tr. down (host_at ends en tr)"
  shows "\<exists>t w'. watch (over_gh ends conf en) cx w = (Inr [], w') \<and>
    only_asked (if quiet cx then w else w\<lparr>wd_db := fst (expire_ci_watch t (wd_db w))\<rparr>) w'"
proof -
  let ?en = "over_gh ends conf en" let ?t = "ci_cutoff (ck_now (en_clock (over_gh ends conf en) (wd_trace w)))"
  let ?w = "if quiet cx then w else w\<lparr>wd_db := fst (expire_ci_watch ?t (wd_db w))\<rparr>"
  have "idle (mapM (\<lambda>job. watch_one ?en cx (fst job) (snd job)) jobs) (map (\<lambda>job. None) jobs)" for jobs
    by (intro idle_mapM idle_watch_one assms)
  then obtain w' where "mapM (\<lambda>job. watch_one ?en cx (fst job) (snd job)) (watch_jobs cx ?t (wd_db ?w)) ?w
      = (Inr (map (\<lambda>job. None) (watch_jobs cx ?t (wd_db ?w))), w')" "only_asked ?w w'"
    unfolding idle_def by blast
  then show ?thesis
    by (intro exI [of _ ?t] exI [of _ w'])
      (auto simp: watch_def bindM_def now_def whenM_def modify_def gets_def ret_def List.map_filter_def split: if_splits)
qed

text \<open>
  C9: An outage does nothing. While every call of \<open>gh\<close> fails, a tick over all repositories ends with no
  outcome: nothing is sent, written or started, GitHub is asked and that is all, and of the database
  only the approvals whose watch has run out change, as they would on any day.
\<close>

theorem outage_is_quiet:
  assumes "\<And>tr. down (host_at ends en tr)" "\<And>tr repo n. gh_failed (en_threads en tr repo n)"
    and "meter_of (over_gh ends conf en) cx False w = Inr v"
  shows "\<exists>t w'. poll_once (over_gh ends conf en) cx w = (Inr [], w') \<and> wd_inflight w' = wd_inflight w \<and>
    (\<exists>reads. wd_trace w' = wd_trace w @ reads \<and> list_all is_read reads) \<and>
    wd_db w' = (if quiet cx then wd_db w else fst (expire_ci_watch t (wd_db w)))"
proof -
  let ?en = "over_gh ends conf en" let ?w = "w\<lparr>wd_threads := []\<rparr>"
  have threads: "gh_failed (en_threads ?en tr repo n)" for tr repo n using assms(2) by (simp add: over_gh_def)
  have m: "meter_check ?en cx False ?w = (Inr v, ?w)" using assms(3) by (simp add: meter_check_def meter_of_def)
  have "idle (if bv_allowed v then sweep ?en cx None [] else ret []) []"
    using sweep_dark [OF threads] idle_ret by auto
  then obtain w1 where s: "(if bv_allowed v then sweep ?en cx None [] else ret []) ?w = (Inr [], w1)" "only_asked ?w w1"
    unfolding idle_def by blast
  obtain t w2 where x: "watch ?en cx w1 = (Inr [], w2)"
    "only_asked (if quiet cx then w1 else w1\<lparr>wd_db := fst (expire_ci_watch t (wd_db w1))\<rparr>) w2"
    using watch_dark [OF assms(1)] by blast
  have "idle (poll_repo ?en cx rc) []" for rc
    unfolding idle_def by (simp add: repo_outage [OF assms(1)] only_asked_read)
  then have "idle (mapM (poll_repo ?en cx) (cfg_repos (cx_cfg cx))) (map (\<lambda>rc. []) (cfg_repos (cx_cfg cx)))"
    by (intro idle_mapM)
  then obtain w3 where p: "mapM (poll_repo ?en cx) (cfg_repos (cx_cfg cx)) w2 = (Inr (map (\<lambda>rc. []) (cfg_repos (cx_cfg cx))), w3)"
    "only_asked w2 w3" unfolding idle_def by blast
  have "poll_once ?en cx w = (Inr [], w3)"
    using m s(1) x(1) p(1) by (simp add: poll_once_def bindM_def clear_threads_def ret_def)
  moreover from s(2) x(2) p(2) have "wd_inflight w3 = wd_inflight w \<and>
      (\<exists>reads. wd_trace w3 = wd_trace w @ reads \<and> list_all is_read reads) \<and>
      wd_db w3 = (if quiet cx then wd_db w else fst (expire_ci_watch t (wd_db w)))"
    unfolding only_asked_def by (cases "quiet cx") auto
  ultimately show ?thesis by blast
qed

section \<open>A token that cannot read check runs\<close>

lemma replace_Cons:
  "replace old new (c # s) =
     (if old \<noteq> [] \<and> startswith (c # s) old then new @ replace old new (drop (length old) (c # s)) else c # replace old new s)"
  by (subst replace.simps) simp

lemma fields_without_rollup:
  "replace ROLLUP [] PR_FIELDS = (lit ''number,title,url,author,headRefOid,changedFiles,labels,baseRefName,state'')"
  by (simp add: ROLLUP_def PR_FIELDS_def lit_def replace_Cons startswith_Cons)

lemma jget_other: "k \<noteq> k' \<Longrightarrow> jget (JObj (dset k v kvs)) k' = jget (JObj kvs) k'"
  by simp

lemma truthy_dset [simp]: "truthy (JObj (dset k v kvs))"
  by (cases kvs) (simp_all split: prod.splits)

lemma meta_with_rollup:
  assumes "pr_meta_of_json (JObj (dset (lit ''statusCheckRollup'') roll kvs)) = Inr m" "mapE check_of_json rows = Inr cs"
  shows "pr_meta_of_json (JObj (dset (lit ''statusCheckRollup'') (JList rows) kvs)) = Inr (m\<lparr>pm_checks := cs\<rparr>)"
proof -
  have k: "(lit ''statusCheckRollup'') \<noteq> (lit ''baseRefName'')" "(lit ''statusCheckRollup'') \<noteq> (lit ''state'')" "(lit ''statusCheckRollup'') \<noteq> (lit ''number'')"
    "(lit ''statusCheckRollup'') \<noteq> (lit ''title'')" "(lit ''statusCheckRollup'') \<noteq> (lit ''url'')" "(lit ''statusCheckRollup'') \<noteq> (lit ''author'')"
    "(lit ''statusCheckRollup'') \<noteq> (lit ''headRefOid'')" "(lit ''statusCheckRollup'') \<noteq> (lit ''changedFiles'')" "(lit ''statusCheckRollup'') \<noteq> (lit ''labels'')"
    by (simp_all add: lit_def)
  let ?at = "\<lambda>v. JObj (dset (lit ''statusCheckRollup'') v kvs)"
  have o: "jget (?at v) x = jget (JObj kvs) x" "jitem (?at v) x = jitem (JObj kvs) x" if "(lit ''statusCheckRollup'') \<noteq> x" for v x
    using that by simp_all
  have same: "jstr (?at v) a d = jstr (JObj kvs) a d" if "(lit ''statusCheckRollup'') \<noteq> lit a" for v a d
    unfolding jstr_def o [OF that] ..
  have author: "author_or (?at v) d = author_or (JObj kvs) d" for v d
    unfolding author_or_def login_of_def jget_obj_def o(1) [OF k(6)] ..
  have names: "names_of (?at v) = names_of (JObj kvs)" for v
    unfolding names_of_def jget_list_def o(1) [OF k(9)] ..
  have rows: "bindE (jget_list (?at (JList rows)) (lit ''statusCheckRollup'')) jiter = Inr rows"
    by (cases rows) (simp_all add: jget_list_def jor_def)
  show ?thesis
    using assms(1) unfolding pr_meta_of_json_def rows author names same [OF k(1)] same [OF k(2)] same [OF k(4)]
      same [OF k(5)] same [OF k(7)] o(2) [OF k(3)] o(1) [OF k(8)]
    by (auto simp: bindE_Inr_iff assms(2))
qed

text \<open>C34: A token that cannot read check runs sees the pull request another one sees, but for the checks: its
  labels, its commit and the rest come back, and in place of the rollup stand the commit statuses.\<close>

theorem unreadable_checks_cost_only_checks:
  assumes "view_pr h repo pr PR_FIELDS = Inl (GhError s)" "contains s FORBIDDEN_NODE"
    and "view_pr h repo pr (lit ''number,title,url,author,headRefOid,changedFiles,labels,baseRefName,state'') = Inr (JObj kvs)"
    and "jstr (JObj kvs) ''headRefOid'' [] = Inr sha" "commit_statuses h repo sha = Inr (JList rows)"
    and "mapE check_of_json rows = Inr cs" "kvs \<noteq> []"
    and "pr_meta_of_json (JObj (dset (lit ''statusCheckRollup'') roll kvs)) = Inr m"
  shows "pr_meta_read h repo pr = Inr (m\<lparr>pm_checks := cs\<rparr>)"
proof -
  have "without_rollup h repo pr = Inr (JObj (dset (lit ''statusCheckRollup'') (JList rows) kvs))"
    using assms(3,4,5,7) by (simp add: without_rollup_def fields_without_rollup)
  with assms(1,2) have "pr_data h repo pr = Inr (JObj (dset (lit ''statusCheckRollup'') (JList rows) kvs))"
    by (simp add: pr_data_def)
  then show ?thesis using meta_with_rollup [OF assms(8,6)] by (simp add: pr_meta_read_def)
qed

section \<open>Where a write goes\<close>

fun write_target :: "event \<Rightarrow> (str \<times> int) option" where
  "write_target (Gh_comment repo n body) = Some (repo, n)"
| "write_target (Gh_review repo n head body cs) = Some (repo, n)"
| "write_target (Gh_inline repo n head c) = Some (repo, n)"
| "write_target (Gh_reply repo n cid body) = Some (repo, n)"
| "write_target (Gh_add_label repo n l) = Some (repo, n)"
| "write_target (Gh_assign repo n who) = Some (repo, n)"
| "write_target (Gh_del_label repo n l) = Some (repo, n)"
| "write_target _ = None"

fun removed_label :: "event \<Rightarrow> str" where
  "removed_label (Gh_del_label repo n l) = l"
| "removed_label _ = []"

fun is_api_path :: "str \<Rightarrow> int \<Rightarrow> str list \<Rightarrow> bool" where
  "is_api_path repo n (repos # owner # name # kind # number # rest) \<longleftrightarrow>
     repos = (lit ''repos'') \<and> owner @ [47] @ name = repo \<and> kind \<in> {(lit ''issues''), (lit ''pulls'')} \<and> number = show_int n \<and>
     rest \<noteq> [] \<and> hd rest \<in> {(lit ''comments''), (lit ''reviews''), (lit ''labels''), (lit ''assignees'')} \<and> length rest \<le> 3"
| "is_api_path repo n _ \<longleftrightarrow> False"

lemma int_no_slash [simp]: "47 \<notin> set (show_int i)"
  by (auto dest: show_int_chars)

lemma api_path_parts:
  assumes "slug_ok repo" "47 \<notin> set (lit kind)" "list_all (\<lambda>r. 47 \<notin> set r) rest"
  shows "\<exists>owner name. split_on 47 (api_path repo kind n rest) = [(lit ''repos''), owner, name, lit kind, show_int n] @ rest
    \<and> owner @ [47] @ name = repo"
proof -
  from assms(1) obtain owner name where o: "split_on 47 repo = [owner, name]"
    by (auto simp: slug_ok_def split: list.splits)
  then have repo: "repo = owner @ [47] @ name" using join_split_on [of 47 repo] by simp
  have "47 \<notin> set owner" "47 \<notin> set name" using split_on_no_sep [of _ 47 repo] o by auto
  moreover have "api_path repo kind n rest = join [47] ([(lit ''repos''), owner, name, lit kind, show_int n] @ rest)"
    by (cases rest) (simp_all add: api_path_def repo)
  moreover have "47 \<notin> set (lit ''repos'')" by (simp add: lit_def)
  ultimately have "split_on 47 (api_path repo kind n rest) = [(lit ''repos''), owner, name, lit kind, show_int n] @ rest"
    using assms(2,3) by (simp only:, intro split_on_join) (auto simp: list_all_iff)
  with repo show ?thesis by auto
qed

lemma api_path_ok:
  assumes "slug_ok repo" "lit kind \<in> {(lit ''issues''), (lit ''pulls'')}" "list_all (\<lambda>r. 47 \<notin> set r) rest" "rest \<noteq> []"
    and "hd rest \<in> {(lit ''comments''), (lit ''reviews''), (lit ''labels''), (lit ''assignees'')}" "length rest \<le> 3"
  shows "is_api_path repo n (split_on 47 (api_path repo kind n rest))"
proof -
  have "47 \<notin> set (lit kind)" using assms(2) by (auto simp: lit_def)
  from api_path_parts [OF assms(1) this assms(3), of n] obtain owner name where
    "split_on 47 (api_path repo kind n rest) = [(lit ''repos''), owner, name, lit kind, show_int n] @ rest"
    "owner @ [47] @ name = repo" by blast
  with assms show ?thesis by simp
qed

text \<open>C33: A write goes to the issue or pull request of its own event and to nothing else of the repository: the
  path it calls has exactly the parts of that address, also when a label holds slashes or dots.\<close>

theorem write_addresses_its_target:
  assumes "write_call rep ev = Inr (Some c)" "write_target ev = Some (repo, n)" "slug_ok repo"
    and "list_all (\<lambda>x. x < 1114112) (removed_label ev)"
  shows "\<exists>path \<in> set (gc_args c). is_api_path repo n (split_on 47 path)"
proof -
  have s: "47 \<notin> set (lit ''comments'')" "47 \<notin> set (lit ''reviews'')" "47 \<notin> set (lit ''replies'')" "47 \<notin> set (lit ''labels'')" "47 \<notin> set (lit ''assignees'')"
    by (simp_all add: lit_def)
  show ?thesis
    using assms
    by (cases ev) (auto simp: api_post_def bindE_Inr_iff s api_path_ok dest: quote_no_slash)
qed

text \<open>What GitHub is to read in the payload of a write.\<close>

fun wire_json :: "event \<Rightarrow> json" where
  "wire_json (Gh_comment repo n body) = JObj [(lit ''body'', JStr body)]"
| "wire_json (Gh_reply repo n cid body) = JObj [(lit ''body'', JStr body)]"
| "wire_json (Gh_review repo n head body cs) =
     JObj [(lit ''body'', JStr body), (lit ''event'', JStr (lit ''REQUEST_CHANGES'')), (lit ''commit_id'', JStr head),
       (lit ''comments'', JList (map (\<lambda>c. JObj (comment_json c)) cs))]"
| "wire_json (Gh_inline repo n head c) = JObj (comment_json c @ [(lit ''commit_id'', JStr head)])"
| "wire_json (Gh_add_label repo n l) = JObj [(lit ''labels'', JList [JStr l])]"
| "wire_json (Gh_assign repo n who) = JObj [(lit ''assignees'', JList (map JStr who))]"
| "wire_json _ = JNull"

text \<open>C35: What is posted is what was written: \<open>json.loads\<close> of the payload of any write that has one is its
  text, commit, comments, label or assignees word for word, whatever quotes, line breaks or
  pictographs they hold; and a write without a payload is one whose data stands in its arguments.\<close>

theorem payload_reads_back:
  assumes "write_call rep ev = Inr (Some c)" "sound fl rep (wire_json ev)"
  shows "case gc_stdin c of
      Some p \<Rightarrow> loads fl p = Inr (wire_json ev)
    | None \<Rightarrow> (\<exists>repo n l. ev = Gh_del_label repo n l) \<or> (\<exists>i m. ev = Gh_dismiss i m) \<or> (\<exists>i. ev = Gh_resolve i)"
  using assms
  by (cases ev) (auto simp: api_post_def body_payload_def review_payload_def graphql_def bindE_Inr_iff
      simp del: sound.simps dumps.simps intro!: loads_dumps)

section \<open>Witnesses\<close>

definition dead_host :: host where
  "dead_host = \<lparr>ho_run = (\<lambda>c. Gh_timed_out), ho_loads = (\<lambda>s. Inl ValueError)\<rparr>"

theorem failed_reads_are_errors_witness:
  "gh_failed (queue dead_host (lit ''acme/app'') (lit ''review'') None) \<and> gh_failed (pr_meta_read dead_host (lit ''acme/app'') 7)"
proof -
  have "down dead_host" by (simp add: down_def dead_host_def fails_def)
  moreover have "47 \<in> set (lit ''acme/app'')" by (simp add: lit_def)
  ultimately show ?thesis using failed_reads_are_errors [of dead_host "(lit ''acme/app'')"] by blast
qed

definition dark_env :: env where
  "dark_env = sample_env_ok\<lparr>en_threads := \<lambda>tr repo n. Inl (GhError (lit ''timed out''))\<rparr>"

theorem outage_is_quiet_witness:
  "\<exists>w'. poll_once (over_gh (\<lambda>tr c. Gh_timed_out) (\<lambda>slug. sample_repo) dark_env) sample_ctx empty_world = (Inr [], w') \<and>
     (\<exists>reads. wd_trace w' = reads \<and> list_all is_read reads)"
proof -
  let ?en = "over_gh (\<lambda>tr c. Gh_timed_out) (\<lambda>slug. sample_repo) dark_env"
  have d: "down (host_at (\<lambda>tr c. Gh_timed_out) dark_env tr)" for tr by (simp add: down_def host_at_def fails_def)
  have t: "gh_failed (en_threads dark_env tr repo n)" for tr repo n by (simp add: dark_env_def gh_failed_def)
  have "\<exists>v. meter_of ?en sample_ctx False empty_world = Inr v"
    by (simp add: meter_of_def budget_check_def over_gh_def dark_env_def sample_env_ok_def sample_env_of_def sample_ctx_def
        sample_config_def empty_world_def check_api_def Let_def)
  then obtain v where "meter_of ?en sample_ctx False empty_world = Inr v" by blast
  from outage_is_quiet [OF d t this] show ?thesis by (auto simp: empty_world_def)
qed

text \<open>A token without the permission: the whole view fails, the short one and the statuses do not.\<close>

definition few_rights :: host where
  "few_rights =
     \<lparr>ho_run = (\<lambda>c.
        if last (gc_args c) = PR_FIELDS
        then Gh_ended 1 (Inr []) (Inr (lit ''Resource not accessible by personal access token''))
        else if hd (gc_args c) = (lit ''pr'') then Gh_ended 0 (Inr (lit ''view'')) (Inr []) else Gh_ended 0 (Inr (lit ''statuses'')) (Inr [])),
      ho_loads = (\<lambda>s.
        if s = (lit ''view'') then Inr (JObj [((lit ''number''), JInt 7), ((lit ''headRefOid''), JStr (lit ''abc''))])
        else Inr (JList [JObj [((lit ''context''), JStr (lit ''ci/build'')), ((lit ''state''), JStr (lit ''SUCCESS''))]]))\<rparr>"

definition build_passed :: check where
  "build_passed = \<lparr>ck_context = (lit ''ci/build''), ck_name = [], ck_state = (lit ''SUCCESS''), ck_conclusion = [], ck_status = []\<rparr>"

lemma few_rights_view:
  "view_pr few_rights repo n ks =
     (if ks = PR_FIELDS
      then Inl (GhError (lit ''gh pr view '' @ show_int n
       @ lit '' exited 1: Resource not accessible by personal access token''))
      else Inr (JObj [((lit ''number''), JInt 7), ((lit ''headRefOid''), JStr (lit ''abc''))]))"
proof -
  let ?e = "lit ''Resource not accessible by personal access token''"
  have "take 400 ?e = ?e" "show_int 1 = [49]" "lit ''view'' \<noteq> []"
    by (simp_all add: lit_def show_int_def show_nat.simps)
  moreover have "shown_args (lit ''pr'' # lit ''view'' # show_int n # xs) = lit ''gh pr view '' @ show_int n"
      "lit '' exited '' @ [49] @ lit '': '' @ ?e = lit '' exited 1: Resource not accessible by personal access token''" for xs
    by (simp_all add: shown_args_def lit_def numeral_3_eq_3)
  ultimately show ?thesis
    by (simp add: view_pr_def gh_json_def gh_def few_rights_def)
qed

lemma few_rights_statuses:
  "commit_statuses few_rights repo (lit ''abc'') = Inr (JList [JObj [((lit ''context''), JStr (lit ''ci/build'')), ((lit ''state''), JStr (lit ''SUCCESS''))]])"
  by (simp add: commit_statuses_def gh_json_def gh_def few_rights_def PR_FIELDS_def ROLLUP_def jor_def lit_def)

theorem unreadable_checks_cost_only_checks_witness:
  "\<exists>m. pr_meta_read few_rights (lit ''acme/app'') 7 = Inr m \<and> pm_head_sha m = (lit ''abc'') \<and> pm_checks m = [build_passed]"
proof -
  let ?kvs = "[((lit ''number''), JInt 7), ((lit ''headRefOid''), JStr (lit ''abc''))]"
  have fields: "PR_FIELDS \<noteq> (lit ''number,title,url,author,headRefOid,changedFiles,labels,baseRefName,state'')"
    by (simp add: PR_FIELDS_def ROLLUP_def lit_def)
  have s: "contains (lit ''gh pr view '' @ show_int 7
       @ lit '' exited 1: Resource not accessible by personal access token'') FORBIDDEN_NODE"
    unfolding contains_iff FORBIDDEN_NODE_def
    by (intro exI [of _ "(lit ''gh pr view '' @ show_int 7 @ lit '' exited 1: Resource '')"] exI [of _ "[]"]) (simp add: lit_def)
  have m: "pr_meta_of_json (JObj (dset (lit ''statusCheckRollup'') JNull ?kvs)) = Inr
      \<lparr>pm_number = 7, pm_title = [], pm_url = [], pm_author = (lit ''someone''), pm_head_sha = (lit ''abc''), pm_changed_files = 0,
       pm_labels = [], pm_checks = [], pm_base_ref = (lit ''main''), pm_state = (lit ''OPEN'')\<rparr>"
    by (simp add: pr_meta_of_json_def jstr_def author_or_def login_of_def jget_obj_def names_of_def jget_list_def jor_def
        lit_def)
  have c: "mapE check_of_json [JObj [((lit ''context''), JStr (lit ''ci/build'')), ((lit ''state''), JStr (lit ''SUCCESS''))]] = Inr [build_passed]"
    by (simp add: check_of_json_def jstr_def build_passed_def lit_def)
  have sha: "jstr (JObj ?kvs) ''headRefOid'' [] = Inr (lit ''abc'')" by (simp add: jstr_def lit_def)
  from unreadable_checks_cost_only_checks [OF _ s _ sha few_rights_statuses c _ m, of "(lit ''acme/app'')" 7]
  show ?thesis using fields by (simp add: few_rights_view)
qed

theorem write_addresses_its_target_witness:
  "\<exists>c. write_call (\<lambda>j. []) (Gh_del_label (lit ''acme/app'') 7 (lit ''needs/work'')) = Inr (Some c) \<and>
     (\<exists>path \<in> set (gc_args c). is_api_path (lit ''acme/app'') 7 (split_on 47 path))"
proof -
  have "encodable (lit ''needs/work'')" by (simp add: encodable_def lit_def)
  then obtain c where c: "write_call (\<lambda>j. []) (Gh_del_label (lit ''acme/app'') 7 (lit ''needs/work'')) = Inr (Some c)"
    by (simp add: quote_def)
  have "slug_ok (lit ''acme/app'')" by (simp add: slug_ok_def lit_def is_space_def)
  then have "\<exists>path \<in> set (gc_args c). is_api_path (lit ''acme/app'') 7 (split_on 47 path)"
    by (intro write_addresses_its_target [OF c]) (simp_all add: lit_def)
  with c show ?thesis by blast
qed

definition noted_comment :: comment where
  "noted_comment = \<lparr>cm_path = JStr (lit ''a.rb''), cm_line = 5, cm_body = [34, 10, 129504], cm_start = Some 3\<rparr>"

theorem payload_reads_back_witness:
  "\<exists>c p. write_call (\<lambda>j. []) (Gh_inline (lit ''acme/app'') 7 (lit ''abc'') noted_comment) = Inr (Some c) \<and> gc_stdin c = Some p \<and>
     loads (\<lambda>s. NotANumber) p = Inr (JObj (comment_json noted_comment @ [(lit ''commit_id'', JStr (lit ''abc''))]))"
proof -
  let ?ev = "Gh_inline (lit ''acme/app'') 7 (lit ''abc'') noted_comment"
  obtain c p where c: "write_call (\<lambda>j. []) ?ev = Inr (Some c)" "gc_stdin c = Some p" by (simp add: api_post_def)
  have "sound (\<lambda>s. NotANumber) (\<lambda>j. []) (wire_json ?ev)"
    by (simp add: comment_json_def noted_comment_def lit_def scalar_def is_high_def is_low_def show_nat.simps MAX_DIGITS_def)
  from payload_reads_back [OF c(1) this] c show ?thesis by auto
qed

end
