(* ===== verification/Command.thy ===== *)
theory Command
  imports Worklist
begin

text \<open>
  The commands and the daemon (\<open>src/robbie/main.py\<close>): what each command runs and exits with,
  the check of the model proxy before one that spawns a container
  (\<open>runner.check_model_proxy\<close>), and the daemon as the interleaving of its four loops, each
  turn of a loop a step. The properties: every command but two keeps the promise of the quiet
  flags, the daemon keeps it for as long as it runs, and so does the invariant of the tables;
  and no exception of a turn ends the daemon.
\<close>

section \<open>Before a command runs\<close>

text \<open>\<open>why_no_model\<close>\<close>

definition why_no_model :: "config \<Rightarrow> secrets \<Rightarrow> str option \<Rightarrow> str option" where
  "why_no_model cfg s model =
     (if blank_opt model \<or> \<not> ch_via_endpoint (named_model cfg (opt_str model)) then None
      else if \<not> blank_opt (sc_review_base_url s) \<and> \<not> blank_opt (sc_review_api_token s) then None
      else Some (lit ''--model '' @ opt_str model
       @ lit '' is a `via: endpoint` arm in this config, so it needs REVIEW_BASE_URL and ''
       @ lit ''REVIEW_API_TOKEN in the env''))"

text \<open>What the proxy answers to \<open>GET /verify\<close>: nothing, with the reason, or a status.\<close>

definition check_model_proxy :: "config \<Rightarrow> str + int \<Rightarrow> unit res" where
  "check_model_proxy cfg proxy =
     (if cfg_model_proxy cfg = [] then Inr ()
      else case proxy of
        Inl why \<Rightarrow> Inl SystemExit
      | Inr code \<Rightarrow> if code \<noteq> 200 then Inl SystemExit else Inr ())"

section \<open>Commands\<close>

datatype command =
    Poll_loop
  | Poll_once
  | Once str "int list"
  | Status_cmd
  | Threads_cmd "str option" "int list"
  | Triage_cmd "str option"
  | Fix_cmd "str option"
  | Digest_cmd "int option"
  | Retract_cmd "str option" "int list"

fun spawns :: "command \<Rightarrow> bool" where
  "spawns Poll_loop = True"
| "spawns Poll_once = True"
| "spawns (Once slug prs) = True"
| "spawns (Threads_cmd slug prs) = True"
| "spawns (Triage_cmd slug) = True"
| "spawns (Fix_cmd slug) = True"
| "spawns _ = False"

text \<open>What the world beside GitHub and Slack answers: the proxy at boot, the two meters, the feed.\<close>

record outside_facts =
  of_proxy :: "str + int"
  of_plan :: "trace \<Rightarrow> str + rat \<times> str"
  of_endpoint :: "trace \<Rightarrow> str + rat \<times> str"
  of_feed :: feed

definition poll_meters :: "env \<Rightarrow> outside_facts \<Rightarrow> ctx \<Rightarrow> unit eff" where
  "poll_meters en fx cx =
     (\<lambda>w. stamp en (\<lambda>now_ms. poll now_ms (cx_cfg cx) (cx_secrets cx) (of_plan fx (wd_trace w)) (of_endpoint fx (wd_trace w))) w)"

definition prepare :: "env \<Rightarrow> outside_facts \<Rightarrow> ctx \<Rightarrow> command \<Rightarrow> unit eff" where
  "prepare en fx cx c =
     (if why_no_model (cx_cfg cx) (cx_secrets cx) (cx_model cx) \<noteq> None then raiseM SystemExit
      else if spawns c then
        bindM (liftE (check_model_proxy (cx_cfg cx) (of_proxy fx))) (\<lambda>_. poll_meters en fx cx)
      else ret ())"

definition named_repos :: "ctx \<Rightarrow> str option \<Rightarrow> repo_config list" where
  "named_repos cx slug =
     filter (\<lambda>rc. slug = None \<or> slug = Some (rc_slug rc)) (cfg_repos (cx_cfg cx))"

definition for_repos :: "ctx \<Rightarrow> str option \<Rightarrow> (repo_config \<Rightarrow> 'a list eff) \<Rightarrow> 'a list eff" where
  "for_repos cx slug f =
     (if named_repos cx slug = [] then raiseM SystemExit
      else bindM (mapM f (named_repos cx slug)) (\<lambda>rs. ret (concat rs)))"

definition exit_code :: "bool \<Rightarrow> int" where
  "exit_code failed = (if failed then 1 else 0)"

text \<open>\<open>return_exceptions=True\<close>: an exception is a result of its own, and counts as failed.\<close>

definition forced_review :: "env \<Rightarrow> ctx \<Rightarrow> str \<Rightarrow> int \<Rightarrow> outcome option eff" where
  "forced_review en cx slug pr =
     catchM (bindM (review_one en cx slug pr) (\<lambda>oc. ret (Some oc))) (\<lambda>_. ret None)"

fun review_failed :: "outcome option \<Rightarrow> bool" where
  "review_failed None = True"
| "review_failed (Some oc) = (oc_action oc = Oc_failed)"

definition run_fix_command :: "env \<Rightarrow> ctx \<Rightarrow> str option \<Rightarrow> int eff" where
  "run_fix_command en cx slug =
     (if named_repos cx slug = [] \<or> cfg_fix_mcp (cx_cfg cx) = [] then raiseM SystemExit
      else bindM (for_repos cx slug (fix_tick en cx)) (\<lambda>_. ret 0))"

definition reap :: "env \<Rightarrow> nat eff" where
  "reap en = alter en (\<lambda>now_ms d. (snd (reap_running now_ms d), fst (reap_running now_ms d)))"

text \<open>\<open>_run\<close>, the loop of the daemon left out: it starts where \<open>Poll_loop\<close> ends.\<close>

definition dispatch :: "env \<Rightarrow> outside_facts \<Rightarrow> ctx \<Rightarrow> command \<Rightarrow> int eff" where
  "dispatch en fx cx c =
     (case c of
        Digest_cmd days \<Rightarrow> bindM (post_digest en (of_feed fx) cx days) (\<lambda>_. ret 0)
      | Threads_cmd slug prs \<Rightarrow> bindM (sweep en cx slug prs) (\<lambda>_. ret 0)
      | Triage_cmd slug \<Rightarrow> bindM (for_repos cx slug (triage_tick en cx)) (\<lambda>_. ret 0)
      | Fix_cmd slug \<Rightarrow> run_fix_command en cx slug
      | Status_cmd \<Rightarrow> bindM (status en cx) (\<lambda>_. ret 0)
      | Retract_cmd slug prs \<Rightarrow>
          bindM (for_repos cx slug (\<lambda>rc. retract_stale_rejections en cx rc prs)) (\<lambda>outs.
            ret (exit_code (\<exists>oc \<in> set outs. oc_action oc = Oc_failed)))
      | Once slug prs \<Rightarrow>
          bindM (mapM (forced_review en cx slug) prs) (\<lambda>outs. ret (exit_code (\<exists>r \<in> set outs. review_failed r)))
      | Poll_once \<Rightarrow> bindM (reap en) (\<lambda>_. bindM (poll_once en cx) (\<lambda>_. ret 0))
      | Poll_loop \<Rightarrow> bindM (reap en) (\<lambda>_. ret 0))"

definition run_command :: "env \<Rightarrow> outside_facts \<Rightarrow> ctx \<Rightarrow> command \<Rightarrow> int eff" where
  "run_command en fx cx c = bindM (prepare en fx cx c) (\<lambda>_. dispatch en fx cx c)"

section \<open>The daemon\<close>

text \<open>\<open>except Exception\<close>: a \<open>SystemExit\<close> passes.\<close>

definition survive :: "unit eff \<Rightarrow> unit eff" where
  "survive m = catchM m (\<lambda>e. if e = SystemExit then raiseM e else ret ())"

text \<open>One turn of \<open>_ticks\<close>, of \<open>_meters\<close>, of \<open>_issues\<close> and of \<open>_exports\<close>.\<close>

definition tick_turn :: "env \<Rightarrow> ctx \<Rightarrow> unit eff" where
  "tick_turn en cx = survive (bindM (poll_once en cx) (\<lambda>_. ret ()))"

definition issues_turn :: "env \<Rightarrow> ctx \<Rightarrow> unit eff" where
  "issues_turn en cx =
     bindM (mapM (\<lambda>rc. survive
        (bindM (triage_tick en cx rc) (\<lambda>_.
          whenM (cfg_fix_mcp (cx_cfg cx) \<noteq> []) (bindM (fix_tick en cx rc) (\<lambda>_. ret ())))))
        (filter (\<lambda>rc. ic_labels (rc_issues rc) \<noteq> []) (cfg_repos (cx_cfg cx)))) (\<lambda>_. ret ())"

definition issues_on :: "ctx \<Rightarrow> bool" where
  "issues_on cx \<longleftrightarrow> 0 < cfg_issue_interval_s (cx_cfg cx) \<and> \<not> quiet cx"

definition exports_on :: "ctx \<Rightarrow> bool" where
  "exports_on cx \<longleftrightarrow>
     (0 < cfg_export_interval_s (cx_cfg cx) \<or> cfg_digest_weekday (cx_cfg cx) \<noteq> None) \<and> \<not> quiet cx"

text \<open>
  What \<open>_loop\<close> starts. The loops wait on their own clocks, so their turns come in any order; a
  turn is a step here, where the program may switch inside one.
\<close>

inductive turn :: "env \<Rightarrow> outside_facts \<Rightarrow> ctx \<Rightarrow> world \<Rightarrow> world \<Rightarrow> bool" for en fx cx where
  tick: "turn en fx cx w (snd (tick_turn en cx w))"
| meters: "turn en fx cx w (snd (poll_meters en fx cx w))"
| issues: "issues_on cx \<Longrightarrow> turn en fx cx w (snd (issues_turn en cx w))"
| exports: "exports_on cx \<Longrightarrow> turn en fx cx w (snd (exports_turn en (of_feed fx) cx w))"

inductive_cases turnE: "turn en fx cx w w'"

inductive daemon :: "env \<Rightarrow> outside_facts \<Rightarrow> ctx \<Rightarrow> world \<Rightarrow> world \<Rightarrow> bool" for en fx cx w where
  boot: "run_command en fx cx Poll_loop w = (Inr 0, w') \<Longrightarrow> daemon en fx cx w w'"
| next_turn: "daemon en fx cx w w' \<Longrightarrow> turn en fx cx w' w'' \<Longrightarrow> daemon en fx cx w w''"

section \<open>Closure\<close>

lemma feed_safe [safe_intros]:
  "preserves (adds P) (seconds fd)" "preserves keeps_db (seconds fd)" "preserves db_evolves (seconds fd)"
  "preserves (adds P) (cached key)" "preserves keeps_db (cached key)" "preserves db_evolves (cached key)"
  "preserves (adds P) (remember key c)" "preserves keeps_db (remember key c)" "preserves db_evolves (remember key c)"
  "preserves (adds P) (forget Q)" "preserves keeps_db (forget Q)" "preserves db_evolves (forget Q)"
  by (simp_all add: preserves_def adds_def keeps_db_def db_evolves_def seconds_def cached_def remember_def forget_def)

lemma poll_steps: "db_step\<^sup>*\<^sup>* d (poll t cfg s plan endpoint d)"
proof -
  have one: "db_step\<^sup>*\<^sup>* d (poll_one t cfg s d m)" for d m
    by (auto simp: poll_one_def intro: db_step.meter db_step.meter_error split: sum.splits)
  show ?thesis
    unfolding poll_def foldl.simps by (rule rtranclp_trans [OF one one])
qed

lemma poll_meters_safe [safe_intros]:
  "preserves (adds P) (poll_meters en fx cx)" "preserves db_evolves (poll_meters en fx cx)"
  by (simp_all add: preserves_def adds_def db_evolves_def poll_meters_def stamp_def poll_steps)

lemma survive_safe [safe_intros]:
  "preserves (adds P) m \<Longrightarrow> preserves (adds P) (survive m)"
  "preserves db_evolves m \<Longrightarrow> preserves db_evolves (survive m)"
  unfolding survive_def by (intro safe_intros; assumption)+

lemma reap_safe [safe_intros]: "preserves (adds P) (reap en)" "preserves db_evolves (reap en)"
proof -
  have "db_step d (snd (snd (reap_running t d), fst (reap_running t d)))" for t d
    by (simp add: db_step.reap)
  then show "preserves (adds P) (reap en)" "preserves db_evolves (reap en)"
    unfolding reap_def by (intro safe_intros; assumption)+
qed

lemma digest_safe [safe_intros]:
  "behaves cx (post_digest en fd cx days)" "preserves db_evolves (post_digest en fd cx days)"
  unfolding post_digest_def digest_repo_def read_feed_def by (intro safe_intros)+

lemma read_ci_safe [safe_intros]:
  "behaves cx (read_ci en fd rc n head)" "preserves db_evolves (read_ci en fd rc n head)"
  unfolding read_ci_def fetch_ci_def by (intro safe_intros)+

lemma worklist_safe [safe_intros]:
  "behaves cx (repo_worklist en fd rc)" "preserves db_evolves (repo_worklist en fd rc)"
  unfolding repo_worklist_def repo_lists_def mine_all_def mine_if_def mine_def assigned_def read_feed_def
  by (intro safe_intros)+

lemma parts_safe [safe_intros]:
  "behaves cx (all_parts en fd acc rcs)" "preserves db_evolves (all_parts en fd acc rcs)"
proof -
  show "behaves cx (all_parts en fd acc rcs)"
    by (induction rcs arbitrary: acc) (auto intro!: safe_intros)
  show "preserves db_evolves (all_parts en fd acc rcs)"
    by (induction rcs arbitrary: acc) (auto intro!: safe_intros)
qed

lemma weekly_safe [safe_intros]:
  "behaves cx (weekly_digest en fd cx)" "preserves db_evolves (weekly_digest en fd cx)"
proof -
  let ?m = "\<lambda>tr. case digest_due (cx_cfg cx) (fd_calendar fd tr) of
             None \<Rightarrow> ret ()
           | Some week \<Rightarrow>
               bindM (once_key en week) (\<lambda>first.
               if \<not> first then ret () else bindM (post_digest en fd cx None) (\<lambda>_. ret ()))"
  have 1: "behaves cx (?m tr)" for tr by (intro safe_intros)
  have 2: "preserves db_evolves (?m tr)" for tr by (intro safe_intros db_step.notice)
  show "behaves cx (weekly_digest en fd cx)" "preserves db_evolves (weekly_digest en fd cx)"
    using 1 2 by (simp_all add: weekly_digest_def preserves_def)
qed

lemma exports_safe [safe_intros]:
  "behaves cx (exports_turn en fd cx)" "preserves db_evolves (exports_turn en fd cx)"
  unfolding exports_turn_def export_pass_def export_once_def by (intro safe_intros)+

section \<open>The promise of the quiet flags\<close>

text \<open>The two commands that take only \<open>--dry-run\<close> over.\<close>

fun bug_queue :: "command \<Rightarrow> bool" where
  "bug_queue (Triage_cmd slug) = True"
| "bug_queue (Fix_cmd slug) = True"
| "bug_queue _ = False"

lemma permitted_unquiet: "\<not> quiet cx \<Longrightarrow> permitted cx ev"
  by (auto simp: permitted_def quiet_def)

lemma jane_loud: "\<not> quiet cx \<Longrightarrow> behaves cx (jane_notify en cx title url body urgency kind)"
  unfolding jane_notify_def by (intro safe_intros) (auto simp: permitted_unquiet intro!: safe_intros)

lemma triage_behaves:
  assumes q: "quiet cx \<longrightarrow> cx_dry cx" shows "behaves cx (triage_tick en cx rc)"
  unfolding triage_tick_def triage_one_def decide_issue_def settle_call_def clear_for_fix_def hand_over_def
    ask_about_money_def
  by (intro safe_intros) (use q in \<open>auto simp: permitted_def outward_def quiet_def intro!: jane_loud\<close>)

lemma fix_behaves:
  assumes q: "quiet cx \<longrightarrow> cx_dry cx" shows "behaves cx (fix_tick en cx rc)"
proof (cases "cx_dry cx")
  case True
  then show ?thesis
    unfolding fix_tick_def fix_one_def by (intro safe_intros) auto
next
  case False
  with q have "\<not> quiet cx" by simp
  then show ?thesis
    unfolding fix_tick_def fix_one_def fix_open_issue_def unless_linked_def run_fix_def attempt_fix_def report_fix_def
      settle_fix_def
    by (intro safe_intros) (auto simp: permitted_unquiet intro!: jane_loud)
qed


lemma named_repos_behave:
  "(\<And>rc. behaves cx (f rc)) \<Longrightarrow> behaves cx (for_repos cx slug f)"
  "(\<And>rc. preserves db_evolves (f rc)) \<Longrightarrow> preserves db_evolves (for_repos cx slug f)"
  unfolding for_repos_def by (intro safe_intros; assumption)+

lemma retract_behaves: "behaves cx (retract_stale_rejections en cx rc prs)"
  unfolding retract_stale_rejections_def retract_one_def by (intro safe_intros)

lemma status_behaves: "behaves cx (status en cx)"
  unfolding status_def status_row_def status_mark_def requested_or_forced_def by (intro safe_intros)

lemma forced_behaves: "behaves cx (forced_review en cx slug pr)"
  unfolding forced_review_def review_one_def requested_or_forced_def Let_def by (intro safe_intros)

lemma prepare_behaves: "behaves cx (prepare en fx cx c)"
  unfolding prepare_def by (intro safe_intros)

lemma fix_command_behaves:
  assumes "quiet cx \<longrightarrow> cx_dry cx" shows "behaves cx (run_fix_command en cx slug)"
  unfolding run_fix_command_def by (intro safe_intros named_repos_behave fix_behaves assms)

lemma dispatch_behaves:
  assumes "bug_queue c \<Longrightarrow> quiet cx \<longrightarrow> cx_dry cx"
  shows "behaves cx (dispatch en fx cx c)"
proof (cases c)
  case (Fix_cmd slug)
  with assms fix_command_behaves [of cx en slug] show ?thesis by (simp add: dispatch_def)
next
  case (Triage_cmd slug)
  with assms have "behaves cx (for_repos cx slug (triage_tick en cx))"
    by (intro named_repos_behave triage_behaves) simp
  with Triage_cmd show ?thesis unfolding dispatch_def by (simp, intro safe_intros)
qed (simp_all add: dispatch_def, (intro safe_intros named_repos_behave retract_behaves status_behaves forced_behaves
    sweep_behaves poll_once_behaves)+)

text \<open>
  C4: Under --dry-run no command writes to a repository, sends a message or starts a container,
  and under --no-publish none writes or sends, but the two of the bug queue, which take over
  only --dry-run: whatever they meet on the way, an exception included, nothing is sent that
  the flags forbid.
\<close>

theorem command_is_quiet:
  assumes "bug_queue c \<Longrightarrow> cx_dry cx \<or> \<not> cx_no_publish cx"
  shows "\<exists>es. wd_trace (snd (run_command en fx cx c w)) = wd_trace w @ es \<and> list_all (permitted cx) es"
proof -
  have "bug_queue c \<Longrightarrow> quiet cx \<longrightarrow> cx_dry cx" using assms by (auto simp: quiet_def)
  then have "behaves cx (run_command en fx cx c)"
    unfolding run_command_def by (intro safe_intros prepare_behaves dispatch_behaves)
  then show ?thesis by (simp add: preserves_def adds_def)
qed

section \<open>The daemon's runs\<close>

lemma issues_turn_behaves:
  assumes "issues_on cx" shows "behaves cx (issues_turn en cx)"
proof -
  have q: "quiet cx \<longrightarrow> cx_dry cx" using assms by (simp add: issues_on_def)
  show ?thesis unfolding issues_turn_def by (intro safe_intros triage_behaves [OF q] fix_behaves [OF q])
qed

lemma issues_turn_evolves: "preserves db_evolves (issues_turn en cx)"
  unfolding issues_turn_def by (intro safe_intros)

lemma tick_turn_safe: "behaves cx (tick_turn en cx)" "preserves db_evolves (tick_turn en cx)"
  unfolding tick_turn_def by (intro safe_intros poll_once_behaves poll_once_evolves)+

lemma turn_safe:
  assumes "turn en fx cx w w'" shows "adds (permitted cx) w w'" "db_evolves w w'"
  using assms
  by (induction rule: turn.induct)
    (use tick_turn_safe issues_turn_behaves issues_turn_evolves poll_meters_safe exports_safe in
      \<open>simp_all add: preserves_def\<close>)

lemma boot_safe: "behaves cx (run_command en fx cx Poll_loop)" "preserves db_evolves (run_command en fx cx Poll_loop)"
proof -
  show "behaves cx (run_command en fx cx Poll_loop)"
    unfolding run_command_def by (intro safe_intros prepare_behaves dispatch_behaves) simp_all
  show "preserves db_evolves (run_command en fx cx Poll_loop)"
    unfolding run_command_def prepare_def dispatch_def command.case by (intro safe_intros)
qed

lemma daemon_safe:
  assumes "daemon en fx cx w w'" shows "adds (permitted cx) w w' \<and> db_evolves w w'"
  using assms
proof (induction rule: daemon.induct)
  case (boot w')
  from preserves_result [OF boot boot_safe(1)] preserves_result [OF boot boot_safe(2)] show ?case ..
next
  case (next_turn w' w'')
  with turn_safe [OF next_turn.hyps(2)] adds.trans evolves.trans show ?case by blast
qed

section \<open>A quiet daemon\<close>

text \<open>
  What only the other two loops read: the bug queue's issues with their pull requests, and the
  searches of an export and of a digest.
\<close>

definition other_loops_read :: "str list" where
  "other_loops_read =
     map lit [''issues'', ''issue'', ''fixing'', ''branch-pr'', ''assigned'', ''open-issues'', ''open-prs'', ''parked'']"

definition tick_event :: "event \<Rightarrow> bool" where
  "tick_event ev \<longleftrightarrow> (\<forall>what repo n. ev = Gh_read what repo n \<longrightarrow> what \<notin> set other_loops_read)"

lemma tick_event_simps [simp]:
  "tick_event (Gh_read what repo n) \<longleftrightarrow> what \<notin> set other_loops_read"
  "github_write ev \<Longrightarrow> tick_event ev" "is_message ev \<Longrightarrow> tick_event ev" "is_run ev \<Longrightarrow> tick_event ev"
  by (auto simp: tick_event_def)

named_theorems tick_intros "steps of a tick"

lemmas [tick_intros] = safe_intros deliver_cases

lemma tick_writes [tick_intros]:
  "github_write ev \<Longrightarrow> preserves (adds tick_event) (perform en ev)"
  "is_message ev \<Longrightarrow> preserves (adds tick_event) (tell en ev)"
  "what \<in> {''meta'', ''request'', ''threads'', ''queue'', ''authored'', ''labels'', ''files'', ''rejection'', ''labeled'',
      ''whoami'', ''asked''} \<Longrightarrow> preserves (adds tick_event) (ask what repo n f)"
  by (rule adds_prims, auto simp: other_loops_read_def lit_def)+

lemma tick_messages [tick_intros]:
  "preserves (adds tick_event) (slack_post en cx ch s)" "preserves (adds tick_event) (dm_owner en cx s)"
  "preserves (adds tick_event) (dm_reviewers en cx s)" "preserves (adds tick_event) (dm_author en cx login s)"
  "preserves (adds tick_event) (report en url pr head st)"
  unfolding slack_post_def dm_owner_def relay_def jane_notify_def dm_reviewers_def dm_author_def report_def Let_def
  by (intro tick_intros; simp)+

lemma tick_once [tick_intros]:
  "preserves (adds tick_event) post \<Longrightarrow> preserves (adds tick_event) (once_per en key post q)"
  "preserves (adds tick_event) (dm_owner_once en cx key s)"
  "preserves (adds tick_event) (tell_owner en cx v)"
  unfolding once_per_def dm_owner_once_def tell_owner_def by (intro tick_intros; assumption?)+

lemma tick_slot [tick_intros]:
  "(\<And>s. preserves (adds tick_event) (use s)) \<Longrightarrow> preserves (adds tick_event) (with_slot en cx key use)"
  unfolding with_slot_def by (intro tick_intros)

lemma tick_publishing [tick_intros]:
  "preserves (adds tick_event) (publish_review en cx v rc m body findings dry self_login)"
  "preserves (adds tick_event) (post_approval en cx rc m dry)"
  "preserves (adds tick_event) (post_ci_note en cx rc m checks dry)"
  "preserves (adds tick_event) (report_red_build en cx rc m checks dry)"
  "preserves (adds tick_event) (request_ci en rc m dry)"
  "preserves (adds tick_event) (clear_needs_work en rc pr dry)"
  "preserves (adds tick_event) (dismiss_own_rejection en i dry)"
  "preserves (adds tick_event) (resolve_thread en i dry)"
  "preserves (adds tick_event) (reply_to_thread en cx rc pr cid body dry)"
  unfolding publish_review_def diff_lines_def post_body_def post_inline_def set_label_def Let_def post_approval_def
    post_ci_note_def report_red_build_def request_ci_def post_note_def clear_needs_work_def
    dismiss_own_rejection_def resolve_thread_def reply_to_thread_def
  by (intro tick_intros; simp)+

lemma tick_told [tick_intros]:
  "preserves (adds tick_event) (author_dm en cx m s)" "preserves (adds tick_event) (notify en cx rc m v fs)"
  "preserves (adds tick_event) (tell_props en cx m st)" "preserves (adds tick_event) (gave_up en cx rc m detail told)"
  "preserves (adds tick_event) (announce_approval en cx rc m ci)"
  unfolding author_dm_def notify_def Let_def tell_props_def gave_up_def announce_approval_def
  by (intro tick_intros)+

lemma tick_asked [tick_intros]:
  "preserves (adds tick_event) (retract_rejection en cx rc m)" "preserves (adds tick_event) (ask_for_ci en cx rc m)"
  "preserves (adds tick_event) (token_login en)" "preserves (adds tick_event) (prior_threads en rc m)"
  "preserves (adds tick_event) (gate en cx rc pr)" "preserves (adds tick_event) (candidates en rc)"
  unfolding retract_rejection_def dismiss_if_vetoed_def ask_for_ci_def ci_already_started_def token_login_def
    prior_threads_def gate_def candidates_def Let_def
  by (intro tick_intros; simp)+

lemma tick_deliver [tick_intros]: "preserves (adds tick_event) (deliver en cx rc m key r ch)"
proof (cases "rn_blocks r")
  case (Some b)
  have "preserves (adds tick_event) (deliver_ok en cx rc m key common)"
    "preserves (adds tick_event) (deliver_findings en cx rc m key r b v fs common)" for common v fs
    unfolding deliver_ok_def deliver_findings_def after_publish_def by (intro tick_intros)+
  then show ?thesis unfolding deliver_def Some option.case Let_def by (intro tick_intros)
qed (simp add: deliver_def tick_told)

lemma tick_handle [tick_intros]: "preserves (adds tick_event) (handle en cx rc pr)"
  unfolding handle_def act_def review_pr_def run_in_slot_def failed_review_def Let_def by (intro tick_intros; simp)

lemma tick_sweep [tick_intros]: "preserves (adds tick_event) (sweep en cx slug only)"
  unfolding sweep_def sweep_one_def sweep_body_def answer_replies_def deliver_answers_def sweep_report_def
    answer_one_def act_on_thread_def settle_thread_def
  by (intro tick_intros; simp)

lemma tick_watch [tick_intros]: "preserves (adds tick_event) (watch en cx)"
  unfolding watch_def watch_one_def watch_meta_def report_red_def red_note_def by (intro tick_intros; simp)

lemma tick_seed [tick_intros]: "preserves (adds tick_event) (seed_prs en cx rc prs)"
  by (induction prs) (simp_all add: adds.pure_ret, (intro tick_intros; simp)+)

lemma tick_turn_reads: "preserves (adds tick_event) (tick_turn en cx)"
  unfolding tick_turn_def poll_once_def poll_repo_def seed_def retire_unlabeled_def
  by (intro tick_intros; simp)

lemma boot_reads: "preserves (adds tick_event) (run_command en fx cx Poll_loop)"
  unfolding run_command_def prepare_def dispatch_def command.case by (intro tick_intros)

text \<open>Its turns are the tick's and the meters'.\<close>

definition quiet_turns :: "env \<Rightarrow> outside_facts \<Rightarrow> ctx \<Rightarrow> (world \<Rightarrow> world) set" where
  "quiet_turns en fx cx = {\<lambda>u. snd (tick_turn en cx u), \<lambda>u. snd (poll_meters en fx cx u)}"

lemma quiet_turn:
  assumes "turn en fx cx w w'" "quiet cx" shows "\<exists>t \<in> quiet_turns en fx cx. w' = t w"
  using assms by (auto simp: quiet_turns_def issues_on_def exports_on_def elim: turnE)

lemma quiet_turn_reads: "t \<in> quiet_turns en fx cx \<Longrightarrow> adds tick_event w (t w)"
  using tick_turn_reads [of en cx] poll_meters_safe(1) [of tick_event en fx cx]
  by (auto simp: quiet_turns_def preserves_def)

lemma quiet_daemon:
  assumes "daemon en fx cx w w'" "quiet cx"
  shows "adds tick_event w w' \<and>
    (\<exists>ts. set ts \<subseteq> quiet_turns en fx cx \<and> w' = foldl (\<lambda>u t. t u) (snd (run_command en fx cx Poll_loop w)) ts)"
  using assms(1)
proof (induction rule: daemon.induct)
  case (boot w')
  from preserves_result [OF boot boot_reads] boot show ?case by (intro conjI exI [of _ "[]"]) simp_all
next
  case (next_turn w' w'')
  from quiet_turn [OF next_turn.hyps(2) assms(2)] obtain t where t: "t \<in> quiet_turns en fx cx" "w'' = t w'" by blast
  from next_turn.IH obtain ts where ts: "set ts \<subseteq> quiet_turns en fx cx"
    "w' = foldl (\<lambda>u t. t u) (snd (run_command en fx cx Poll_loop w)) ts" by blast
  have "adds tick_event w w''" using next_turn.IH quiet_turn_reads [OF t(1)] t(2) adds.trans by blast
  with t ts show ?case by (intro conjI exI [of _ "ts @ [t]"]) simp_all
qed

text \<open>
  C1: However long the daemon runs and in whatever order its loops take their turns, it sends and
  starts only what its flags permit: with --dry-run no container, and with either flag no write to
  a repository and no message. With either flag, too, the bug queue, the exports and the digest
  never begin: every state the daemon comes to is one that turns of the tick and of the meters
  alone lead to from its start, and nothing is read that only the other two loops read.
\<close>

theorem daemon_is_quiet:
  assumes "daemon en fx cx w w'"
  shows "\<exists>es. wd_trace w' = wd_trace w @ es \<and> list_all (permitted cx) es \<and>
    (quiet cx \<longrightarrow>
       (\<forall>what \<in> {''issues'', ''issue'', ''fixing'', ''branch-pr'', ''assigned'', ''open-issues'', ''open-prs'', ''parked''}.
          \<forall>repo n. Gh_read (lit what) repo n \<notin> set es) \<and>
       (\<exists>ts. set ts \<subseteq> {\<lambda>u. snd (tick_turn en cx u), \<lambda>u. snd (poll_meters en fx cx u)} \<and>
          w' = foldl (\<lambda>u t. t u) (snd (run_command en fx cx Poll_loop w)) ts))"
proof -
  from daemon_safe [OF assms] obtain es where es: "wd_trace w' = wd_trace w @ es" "list_all (permitted cx) es"
    by (auto simp: adds_def)
  have "\<forall>ev \<in> set es. tick_event ev" if "quiet cx"
    using quiet_daemon [OF assms that] es(1) by (auto simp: adds_def list_all_iff)
  moreover have "\<not> tick_event (Gh_read (lit what) repo n)"
    if "what \<in> {''issues'', ''issue'', ''fixing'', ''branch-pr'', ''assigned'', ''open-issues'', ''open-prs'', ''parked''}"
    for what repo n using that by (auto simp: other_loops_read_def)
  ultimately show ?thesis
    using es quiet_daemon [OF assms] unfolding quiet_turns_def by (intro exI [of _ es]) blast
qed

text \<open>
  C2: And the tables stay what the program relies on: from a database the program can reach, every
  state of the daemon has one too, keys distinct and ids increasing, and no container is
  counted as running between two turns that was not before.
\<close>

theorem daemon_keeps_invariant:
  assumes "daemon en fx cx w w'" "db_reach (wd_db w)"
  shows "db_reach (wd_db w') \<and> db_inv (wd_db w') \<and> wd_inflight w' = wd_inflight w"
  using daemon_safe [OF assms(1)] evolves_reach [of w w'] assms(2) reach_inv
  by (auto simp: db_evolves_def)

text \<open>No exception of a turn ends a loop, but for a request to exit.\<close>

lemma turns_survive:
  "fst (tick_turn en cx w) = Inr () \<or> fst (tick_turn en cx w) = Inl SystemExit"
  by (auto simp: tick_turn_def survive_def catchM_def raiseM_def ret_def split: prod.splits sum.splits)

section \<open>Witnesses\<close>

definition sample_facts :: outside_facts where
  "sample_facts =
     \<lparr>of_proxy = Inr 200, of_plan = (\<lambda>tr. Inl (lit ''down'')), of_endpoint = (\<lambda>tr. Inl (lit ''down'')), of_feed = sample_feed\<rparr>"

text \<open>A daemon that has booted and taken one turn of its tick.\<close>

lemma sample_daemon:
  assumes "cx_cfg cx = sample_config" "cx_model cx = None"
  obtains w' where "daemon en sample_facts cx empty_world (snd (tick_turn en cx w'))"
proof -
  have p: "prepare en sample_facts cx Poll_loop = poll_meters en sample_facts cx"
    using assms by (simp add: prepare_def why_no_model_def blank_opt_def check_model_proxy_def sample_config_def liftE_def bindM_def)
  obtain w' where "run_command en sample_facts cx Poll_loop empty_world = (Inr 0, w')"
    unfolding run_command_def p
    by (auto simp: bindM_def poll_meters_def stamp_def dispatch_def reap_def alter_def ret_def Let_def)
  from that daemon.next_turn [OF daemon.boot [OF this] turn.tick] show thesis .
qed

theorem command_is_quiet_witness:
  "\<exists>es. wd_trace (snd (run_command sample_env_ok sample_facts (sample_ctx\<lparr>cx_dry := True\<rparr>) (Triage_cmd None) empty_world)) = es \<and>
     list_all (permitted (sample_ctx\<lparr>cx_dry := True\<rparr>)) es"
  using command_is_quiet [of "Triage_cmd None" "sample_ctx\<lparr>cx_dry := True\<rparr>" sample_env_ok sample_facts empty_world]
  by (simp add: empty_world_def)

theorem daemon_is_quiet_witness:
  "\<exists>w'. daemon sample_env_ok sample_facts (sample_ctx\<lparr>cx_no_publish := True\<rparr>) empty_world w' \<and>
     list_all (permitted (sample_ctx\<lparr>cx_no_publish := True\<rparr>)) (wd_trace w')"
proof -
  obtain w where d: "daemon sample_env_ok sample_facts (sample_ctx\<lparr>cx_no_publish := True\<rparr>) empty_world
      (snd (tick_turn sample_env_ok (sample_ctx\<lparr>cx_no_publish := True\<rparr>) w))"
    by (rule sample_daemon [of "sample_ctx\<lparr>cx_no_publish := True\<rparr>"]) (simp_all add: sample_ctx_def)
  from daemon_is_quiet [OF this] d show ?thesis by (auto simp: empty_world_def)
qed

theorem daemon_keeps_invariant_witness:
  "\<exists>w'. daemon sample_env_ok sample_facts sample_ctx empty_world w' \<and> db_inv (wd_db w')"
proof -
  obtain w where d: "daemon sample_env_ok sample_facts sample_ctx empty_world (snd (tick_turn sample_env_ok sample_ctx w))"
    by (rule sample_daemon [of sample_ctx]) (simp_all add: sample_ctx_def)
  have "db_reach (wd_db empty_world)" by (simp add: empty_world_def db_reach.init)
  from daemon_keeps_invariant [OF d this] d show ?thesis by blast
qed

end
