(* ===== verification/Html.thy ===== *)
theory Html
  imports Json
begin

text \<open>
  The markup of the panel (\<open>src/robbie/dashboard.py\<close>): the small functions every page is built
  from, and what keeps text from becoming markup. \<open>browse\<close> reads a page as a browser does, up to
  the tags: a tag's skeleton is the tag with its quoted attribute values left out. \<open>html\<close> holds
  of a text whose every tag has a skeleton the program itself wrote; escaped text has no tag at
  all and cannot leave an attribute, and the property is closed under concatenation.
\<close>

section \<open>Reading a page\<close>

datatype scanner = In_text | In_tag str | In_double str | In_single str

type_synonym browse_state = "scanner \<times> str list"

fun browse_step :: "browse_state \<Rightarrow> nat \<Rightarrow> browse_state" where
  "browse_step (In_text, ts) c = (if c = 60 then (In_tag [60], ts) else (In_text, ts))"
| "browse_step (In_tag t, ts) c =
     (if c = 62 then (In_text, ts @ [t @ [62]])
      else if c = 34 then (In_double (t @ [34]), ts)
      else if c = 39 then (In_single (t @ [39]), ts)
      else (In_tag (t @ [c]), ts))"
| "browse_step (In_double t, ts) c = (if c = 34 then (In_tag (t @ [34]), ts) else (In_double t, ts))"
| "browse_step (In_single t, ts) c = (if c = 39 then (In_tag (t @ [39]), ts) else (In_single t, ts))"

definition browse :: "browse_state \<Rightarrow> str \<Rightarrow> browse_state" where
  "browse = foldl browse_step"

lemma browse_simps [simp]: "browse q [] = q" "browse q (c # s) = browse (browse_step q c) s"
    "browse q (a @ b) = browse (browse q a) b"
  by (simp_all add: browse_def)

lemma browse_text: "60 \<notin> set s \<Longrightarrow> browse (In_text, ts) s = (In_text, ts)"
  by (induction s) simp_all

lemma browse_quoted: "34 \<notin> set s \<Longrightarrow> browse (In_double t, ts) s = (In_double t, ts)"
  by (induction s) simp_all

lemma browse_step_output: "browse_step (q, ts @ us) c = (fst (browse_step (q, us) c), ts @ snd (browse_step (q, us) c))"
  by (cases q) simp_all

lemma browse_output: "browse (q, ts @ us) s = (fst (browse (q, us) s), ts @ snd (browse (q, us) s))"
proof (induction s arbitrary: q us)
  case (Cons c s)
  show ?case
    using Cons [of "fst (browse_step (q, us) c)" "snd (browse_step (q, us) c)"] by (simp add: browse_step_output)
qed simp

section \<open>Escaping\<close>

text \<open>\<open>html.escape\<close>\<close>

definition escape_char :: "nat \<Rightarrow> str" where
  "escape_char c =
     (if c = 38 then lit ''&amp;'' else if c = 60 then lit ''&lt;'' else if c = 62 then lit ''&gt;''
      else if c = 34 then lit ''&quot;'' else if c = 39 then lit ''&#x27;'' else [c])"

definition escape :: "str \<Rightarrow> str" where
  "escape s = concat (map escape_char s)"

text \<open>\<open>_esc\<close>; \<open>rep\<close> is \<open>repr\<close> of a float or a container.\<close>

definition esc :: "(json \<Rightarrow> str) \<Rightarrow> json \<Rightarrow> str" where
  "esc rep v = escape (if v = JNull then [8212] else py_str rep v)"

lemma escape_char_inert: "60 \<notin> set (escape_char c)" "62 \<notin> set (escape_char c)" "34 \<notin> set (escape_char c)"
    "39 \<notin> set (escape_char c)"
  by (simp_all add: escape_char_def lit_def)

lemma escape_inert [simp]: "60 \<notin> set (escape s)" "62 \<notin> set (escape s)" "34 \<notin> set (escape s)" "39 \<notin> set (escape s)"
  using escape_char_inert by (auto simp: escape_def)

lemma esc_inert [simp]: "60 \<notin> set (esc rep v)" "62 \<notin> set (esc rep v)" "34 \<notin> set (esc rep v)" "39 \<notin> set (esc rep v)"
  by (simp_all add: esc_def)

text \<open>What the browser shows for it.\<close>

definition ENTITIES :: "(str \<times> nat) list" where
  "ENTITIES = [(lit ''&amp;'', 38), (lit ''&lt;'', 60), (lit ''&gt;'', 62), (lit ''&quot;'', 34), (lit ''&#x27;'', 39)]"

function unescape :: "str \<Rightarrow> str" where
  "unescape [] = []"
| "unescape (c # s) =
     (case find_first (\<lambda>e. startswith (c # s) (fst e)) ENTITIES of
        None \<Rightarrow> c # unescape s
      | Some e \<Rightarrow> snd e # unescape (drop (length (fst e) - 1) s))"
  by pat_completeness auto
termination by (relation "measure length") auto

section \<open>Tags the program writes\<close>

definition OWN_TAGS :: "str list" where
  "OWN_TAGS =
     [(lit ''<a href='' @ [34, 34] @ lit '' title='' @ [34, 34] @ lit '' target='' @ [34, 34]
       @ lit '' rel='' @ [34, 34] @ lit ''>''), (lit ''<a class='' @ [34, 34] @ lit '' href='' @ [34, 34] @ lit ''>''), (lit ''<a href='' @ [34, 34] @ lit ''>''), (lit ''<a href='' @ [34, 34] @ lit '' class=on>''), (lit ''</a>''),
      (lit ''<span class='' @ [34, 34] @ lit ''>''), (lit ''<span class='' @ [39, 39] @ lit ''>''), (lit ''<span class='' @ [34, 34] @ lit '' style='' @ [34, 34] @ lit ''>''), (lit ''<span>''), (lit ''</span>''),
      (lit ''<b class='' @ [34, 34] @ lit ''>''), (lit ''</b>''), (lit ''<small>''), (lit ''</small>''), (lit ''<div class='' @ [34, 34] @ lit ''>''), (lit ''<div class='' @ [39, 39] @ lit ''>''), (lit ''</div>''),
      (lit ''<p class='' @ [34, 34] @ lit ''>''), (lit ''<p class='' @ [39, 39] @ lit ''>''), (lit ''</p>''), (lit ''<code>''), (lit ''</code>''), (lit ''<pre>''), (lit ''</pre>''),
      (lit ''<table>''), (lit ''</table>''), (lit ''<thead>''), (lit ''</thead>''), (lit ''<tbody>''), (lit ''</tbody>''), (lit ''<tr>''), (lit ''</tr>''),
      (lit ''<th class='' @ [34, 34] @ lit ''>''), (lit ''</th>''), (lit ''<td class='' @ [34, 34] @ lit ''>''), (lit ''</td>''), (lit ''<h1>''), (lit ''</h1>''), (lit ''<h2>''), (lit ''</h2>''),
      (lit ''<nav>''), (lit ''</nav>''), (lit ''<header>''), (lit ''</header>''), (lit ''<main>''), (lit ''</main>''), (lit ''<style>''), (lit ''</style>''),
      (lit ''<title>''), (lit ''</title>''), (lit ''<!doctype html>''), (lit ''<!-- robbie dashboard -->''), (lit ''<meta charset='' @ [39, 39] @ lit ''>''),
      (lit ''<meta http-equiv='' @ [39, 39] @ lit '' content='' @ [39, 39] @ lit ''>''), (lit ''<meta name='' @ [39, 39] @ lit '' content='' @ [39, 39] @ lit ''>''), (lit ''<link rel='' @ [39, 39] @ lit '' href='' @ [34, 34] @ lit ''>'')]"

definition own :: "str \<Rightarrow> bool" where
  "own t \<longleftrightarrow> t \<in> set OWN_TAGS"

lemma all_own: "list_all own OWN_TAGS"
  by (simp add: list_all_iff own_def)

lemmas own_simps = all_own [unfolded OWN_TAGS_def lit_def, simplified]

definition html :: "str \<Rightarrow> bool" where
  "html s \<longleftrightarrow> fst (browse (In_text, []) s) = In_text \<and> list_all own (snd (browse (In_text, []) s))"

named_theorems html_intros "what a page may be put together from"

text \<open>A page is checked by reading it, with the parts known to be markup passed over.\<close>

lemma htmlI: "(case browse (In_text, []) s of (q, ts) \<Rightarrow> q = In_text \<and> list_all own ts) \<Longrightarrow> html s"
  by (simp add: html_def split: prod.splits)

definition tags_of :: "str \<Rightarrow> str list" where
  "tags_of s = snd (browse (In_text, []) s)"

lemma browse_html: "html b \<Longrightarrow> browse (In_text, ts) b = (In_text, ts @ tags_of b)"
  using browse_output [of In_text ts "[]" b] by (simp add: html_def tags_of_def)

lemma html_tags: "html b \<Longrightarrow> list_all own (tags_of b)"
  by (simp add: html_def tags_of_def)

lemma html_Nil [html_intros]: "html []"
  by (simp add: html_def)

lemma html_append [html_intros]: "html a \<Longrightarrow> html b \<Longrightarrow> html (a @ b)"
  by (rule htmlI) (simp add: browse_html html_tags)

lemma html_text: "60 \<notin> set s \<Longrightarrow> html s"
  by (simp add: html_def browse_text)

lemma html_esc [html_intros]: "html (esc rep v)" "html (escape s)"
  by (simp_all add: html_text)

lemma html_show_nat [html_intros]: "html (show_nat n)"
  by (rule html_text) (auto dest: show_nat_digits)

lemma show_int_inert [simp]: "60 \<notin> set (show_int i)" "34 \<notin> set (show_int i)"
  by (auto dest: show_int_chars)

lemma html_show_int [html_intros]: "html (show_int i)"
  by (rule html_text) (auto dest: show_int_chars)

lemma html_concat [html_intros]: "(\<And>x. x \<in> set xs \<Longrightarrow> html x) \<Longrightarrow> html (concat xs)"
  by (induction xs) (auto intro: html_intros)

lemma html_join: "html sep \<Longrightarrow> (\<And>x. x \<in> set xs \<Longrightarrow> html x) \<Longrightarrow> html (join sep xs)"
  by (induction sep xs rule: join.induct) (auto intro: html_intros)

lemma html_cases [html_intros]:
  "(b \<Longrightarrow> html x) \<Longrightarrow> (\<not> b \<Longrightarrow> html y) \<Longrightarrow> html (if b then x else y)"
  "(v = None \<Longrightarrow> html x) \<Longrightarrow> (\<And>a. v = Some a \<Longrightarrow> html (f a)) \<Longrightarrow> html (case v of None \<Rightarrow> x | Some a \<Rightarrow> f a)"
  by (simp_all split: option.splits)

lemmas html_eval = browse_text browse_quoted browse_html html_tags own_simps lit_def

section \<open>Components\<close>

definition link_to :: "(json \<Rightarrow> str) \<Rightarrow> json \<Rightarrow> json \<Rightarrow> string \<Rightarrow> str res" where
  "link_to rep repo pr kind =
     bindE (py_int pr) (\<lambda>n. Inr
       ((lit ''<a href='' @ [34] @ lit ''https://github.com/'' @ esc rep repo @ lit ''/'' @ lit kind
       @ lit ''/'' @ show_int n @ [34] @ lit '' title='' @ [34] @ esc rep repo @ [34] @ lit '' '')
        @ (lit ''target='' @ [34] @ lit ''_blank'' @ [34] @ lit '' rel='' @ [34] @ lit ''noopener'' @ [34]
       @ lit ''>#'' @ show_int n @ lit ''</a>'')))"

definition TONE :: "(str \<times> string) list" where
  "TONE =
     [((lit ''green''), ''ok''), ((lit ''approved''), ''ok''), ((lit ''red''), ''bad''), ((lit ''needs work''), ''bad''),
      ((lit ''pending''), ''warn''), ((lit ''waiting''), ''warn''), ((lit ''draft''), ''warn'')]"

text \<open>\<open>TONE.get(word or "", "")\<close>\<close>

definition tone_of :: "json \<Rightarrow> string res" where
  "tone_of word =
     (case jor word (JStr []) of
        JStr s \<Rightarrow> Inr (case map_of TONE s of None \<Rightarrow> '''' | Some t \<Rightarrow> t)
      | w \<Rightarrow> if hashable w then Inr '''' else Inl TypeError)"

definition tag :: "(json \<Rightarrow> str) \<Rightarrow> json \<Rightarrow> json \<Rightarrow> str res" where
  "tag rep word shown =
     bindE (tone_of word) (\<lambda>t. Inr ((lit ''<span class='' @ [34] @ lit ''tag '' @ lit t @ [34] @ lit ''>'' @ esc rep (jor shown word)
       @ lit ''</span>'')))"

definition card :: "(json \<Rightarrow> str) \<Rightarrow> json \<Rightarrow> str \<Rightarrow> str \<Rightarrow> string \<Rightarrow> string \<Rightarrow> str" where
  "card rep value label sub tone href =
     (let body = (lit ''<b class='' @ [34] @ lit tone @ [34] @ lit ''>'' @ esc rep value @ lit ''</b><span>''
       @ esc rep (JStr label) @ lit ''</span>'')
            @ (if sub \<noteq> [] then (lit ''<small>'' @ esc rep (JStr sub) @ lit ''</small>'') else [])
      in if href \<noteq> '''' then (lit ''<a class='' @ [34] @ lit ''card'' @ [34] @ lit '' href='' @ [34] @ lit href @ [34]
       @ lit ''>'' @ body @ lit ''</a>'')
         else (lit ''<div class='' @ [34] @ lit ''card'' @ [34] @ lit ''>'' @ body @ lit ''</div>''))"

definition cell_class :: "nat list \<Rightarrow> nat list \<Rightarrow> nat \<Rightarrow> str" where
  "cell_class numeric wide i =
     join [32] (map fst (filter snd [((lit ''num''), i \<in> set numeric), ((lit ''wide''), i \<in> set wide)]))"

definition head_cell :: "(json \<Rightarrow> str) \<Rightarrow> nat list \<Rightarrow> nat list \<Rightarrow> nat \<times> string \<Rightarrow> str" where
  "head_cell rep numeric wide p =
     (lit ''<th class='' @ [34] @ cell_class numeric wide (fst p) @ [34] @ lit ''>''
       @ esc rep (JStr (lit (snd p))) @ lit ''</th>'')"

definition body_cell :: "nat list \<Rightarrow> nat list \<Rightarrow> nat \<times> str \<Rightarrow> str" where
  "body_cell numeric wide p = (lit ''<td class='' @ [34] @ cell_class numeric wide (fst p) @ [34] @ lit ''>'' @ snd p
       @ lit ''</td>'')"

definition table_row :: "nat list \<Rightarrow> nat list \<Rightarrow> str list \<Rightarrow> str" where
  "table_row numeric wide row = (lit ''<tr>'' @ concat (map (body_cell numeric wide) (enumerate 0 row)) @ lit ''</tr>'')"

definition table :: "(json \<Rightarrow> str) \<Rightarrow> string list \<Rightarrow> str list list \<Rightarrow> nat list \<Rightarrow> nat list \<Rightarrow> string \<Rightarrow> str" where
  "table rep headers rows numeric wide empty_text =
     (if rows = [] then (lit ''<p class='' @ [34] @ lit ''sub'' @ [34] @ lit ''>'' @ esc rep (JStr (lit empty_text))
       @ lit ''</p>'')
      else (lit ''<div class='' @ [34] @ lit ''scroll'' @ [34] @ lit ''><table><thead><tr>''
       @ concat (map (head_cell rep numeric wide) (enumerate 0 headers)))
           @ (lit ''</tr></thead><tbody>'' @ concat (map (table_row numeric wide) rows)
       @ lit ''</tbody></table></div>''))"

definition NOTHING :: string where "NOTHING = ''nothing recorded yet''"

text \<open>\<open>_ago\<close>; \<open>t\<close> is \<open>datetime.now(UTC).timestamp()\<close>.\<close>

fun as_number :: "json \<Rightarrow> rat res" where
  "as_number (JInt i) = Inr (of_int i)"
| "as_number (JBool b) = Inr (if b then 1 else 0)"
| "as_number (JFloat (Fin r)) = Inr r"
| "as_number (JFloat NotANumber) = Inl ValueError"
| "as_number (JFloat _) = Inl OverflowError"
| "as_number _ = Inl TypeError"

definition ago :: "rat \<Rightarrow> json \<Rightarrow> str res" where
  "ago t ms =
     (if \<not> truthy ms then Inr [8212]
      else bindE (as_number ms) (\<lambda>m.
        let seconds = trunc (t - m / 1000) in
        Inr (case find_first (\<lambda>p. fst p \<le> seconds) [(86400, ''d''), (3600, ''h''), (60, ''m'')] of
               Some p \<Rightarrow> show_int (seconds div fst p) @ lit (snd p) @ lit '' ago''
             | None \<Rightarrow> lit ''just now'')))"

definition sha_cell :: "(json \<Rightarrow> str) \<Rightarrow> str \<Rightarrow> str" where
  "sha_cell rep s = (lit ''<span class='' @ [34] @ lit ''mono'' @ [34] @ lit ''>'' @ esc rep (JStr (take 8 s))
       @ lit ''</span>'')"

section \<open>Components are markup\<close>

lemma html_link_to: "link_to rep repo pr kind = Inr s \<Longrightarrow> 34 \<notin> set (lit kind) \<Longrightarrow> html s"
  by (rule htmlI) (auto simp: link_to_def bindE_Inr_iff html_eval)

lemma html_tag: "tag rep word shown = Inr s \<Longrightarrow> html s"
proof -
  have "34 \<notin> set (lit t)" if "tone_of word = Inr t" for t
    using that by (auto simp: tone_of_def TONE_def lit_def split: json.splits if_splits)
  then show "tag rep word shown = Inr s \<Longrightarrow> html s"
    by (intro htmlI) (auto simp: tag_def bindE_Inr_iff html_eval)
qed

lemma html_card [html_intros]: "34 \<notin> set (lit tone) \<Longrightarrow> 34 \<notin> set (lit href) \<Longrightarrow> html (card rep value label sub tone href)"
  by (rule htmlI) (simp add: card_def Let_def html_eval)

lemma cell_class_inert [simp]: "34 \<notin> set (cell_class numeric wide i)"
  by (simp add: cell_class_def lit_def)

lemma html_head_cell: "html (head_cell rep numeric wide p)"
  by (rule htmlI) (simp add: head_cell_def html_eval)

lemma html_body_cell: "html (snd p) \<Longrightarrow> html (body_cell numeric wide p)"
  by (rule htmlI) (simp add: body_cell_def html_eval)

lemma html_table_row:
  assumes "list_all html row" shows "html (table_row numeric wide row)"
proof -
  have "html (body_cell numeric wide p)" if "p \<in> set (enumerate 0 row)" for p
  proof -
    from that have "snd p \<in> set row" by (auto simp: in_set_enumerate_eq dest: nth_mem)
    with assms show ?thesis by (simp add: html_body_cell list_all_iff)
  qed
  then have "html (concat (map (body_cell numeric wide) (enumerate 0 row)))" by (intro html_concat) auto
  then show ?thesis by (intro htmlI) (simp add: table_row_def html_eval)
qed

lemma html_table [html_intros]:
  assumes "list_all (list_all html) rows"
  shows "html (table rep headers rows numeric wide empty_text)"
proof -
  have h: "html (concat (map (head_cell rep numeric wide) (enumerate 0 headers)))"
    by (rule html_concat) (auto simp: html_head_cell)
  have b: "html (concat (map (table_row numeric wide) rows))"
    by (rule html_concat) (use assms in \<open>auto simp: list_all_iff html_table_row\<close>)
  from h b show ?thesis by (intro htmlI) (simp add: table_def html_eval)
qed

lemma html_ago: "ago t ms = Inr s \<Longrightarrow> html s"
proof (rule html_text)
  assume "ago t ms = Inr s"
  then show "60 \<notin> set s"
    by (auto simp: ago_def bindE_Inr_iff Let_def lit_def dest!: find_first_SomeD split: if_splits option.splits)
qed

lemma html_sha [html_intros]: "html (sha_cell rep s)"
  by (rule htmlI) (simp add: sha_cell_def html_eval)

section \<open>Text is shown as it is\<close>

lemma unescape_char: "unescape (escape_char c @ s) = c # unescape s"
  by (simp add: escape_char_def ENTITIES_def lit_def startswith_def)

lemma unescape_escape: "unescape (escape s) = s"
  unfolding escape_def by (induction s) (simp_all add: unescape_char)

end
