(* ===== verification/Dashboard.thy ===== *)
theory Dashboard
  imports Html Worklist
begin

text \<open>
  The read-only panel (\<open>src/robbie/dashboard.py\<close>): every page from the rows of the database and
  the export file to its markup, the transcripts, and the answer to a request. The file system,
  the clock and the parser of JSON are facts of the panel; the request is given parsed. The
  properties: whatever stands in the database, in the export or in a transcript, an answer that
  is markup holds no tag and no attribute the program did not write; a transcript that is shown
  lies directly in its directory; and the numbers on a page are those of the rows below them.
\<close>

section \<open>What the pages read\<close>

record transcript_file =
  tf_name :: str
  tf_mtime :: rat

record panel =
  pn_clock :: clock
  pn_time :: rat                                        \<comment> \<open>\<open>datetime.now(UTC).timestamp()\<close>\<close>
  pn_hms :: "nat \<times> nat \<times> nat"
  pn_export :: "str option"                             \<comment> \<open>the text of the export, if it can be read\<close>
  pn_loads :: "str \<Rightarrow> json res"
  pn_rep :: "json \<Rightarrow> str"
  pn_booted :: bool                                     \<comment> \<open>the table \<open>requested\<close> is there\<close>
  pn_free :: "int res"
  pn_files :: "transcript_file list res"                \<comment> \<open>\<open>glob("*.md")\<close> with \<open>st_mtime\<close>\<close>
  pn_stat :: "str \<Rightarrow> (int \<times> rat) res"                 \<comment> \<open>size and \<open>st_mtime\<close> of a transcript\<close>
  pn_resolve :: "str \<Rightarrow> str list res"                 \<comment> \<open>\<open>Path.resolve\<close>, as its parts\<close>
  pn_is_file :: "str list \<Rightarrow> bool"
  pn_read :: "str list \<Rightarrow> str res"
  pn_show :: "exn \<Rightarrow> str"                              \<comment> \<open>\<open>str(ex)\<close>\<close>

type_synonym query = "(str \<times> str) list"

definition RECENT :: nat where "RECENT = 25"
definition REFRESH_S :: nat where "REFRESH_S = 30"
definition BOARD_DAYS :: int where "BOARD_DAYS = 30"

definition NO_EXPORT :: str where
  "NO_EXPORT = (lit ''<p class='sub'>set <code>export_interval_s</code> to fill this</p>'')"

text \<open>\<open>_worklist\<close>: \<open>None\<close> for a file that is not there or not JSON.\<close>

definition worklist :: "panel \<Rightarrow> json res" where
  "worklist pn =
     (case pn_export pn of
        None \<Rightarrow> Inr JNull
      | Some s \<Rightarrow>
          (case pn_loads pn s of
             Inr j \<Rightarrow> Inr j
           | Inl e \<Rightarrow> if e = ValueError then Inr JNull else Inl e))"

text \<open>\<open>x * 1000\<close>\<close>

fun times1000 :: "json \<Rightarrow> json res" where
  "times1000 (JInt i) = Inr (JInt (i * 1000))"
| "times1000 (JBool b) = Inr (JInt (if b then 1000 else 0))"
| "times1000 (JFloat (Fin r)) = Inr (JFloat (Fin (r * 1000)))"
| "times1000 (JFloat x) = Inr (JFloat x)"
| "times1000 (JStr s) = Inr (JStr (concat (replicate 1000 s)))"
| "times1000 (JList xs) = Inr (JList (concat (replicate 1000 xs)))"
| "times1000 _ = Inl TypeError"

text \<open>\<open>_ago(d.get(k, 0) * 1000)\<close>\<close>

definition age_of :: "panel \<Rightarrow> json \<Rightarrow> string \<Rightarrow> str res" where
  "age_of pn d k = bindE (bindE (jget_or d (lit k) (JInt 0)) times1000) (ago (pn_time pn))"

definition as_of :: "panel \<Rightarrow> json \<Rightarrow> str res" where
  "as_of pn work =
     bindE (age_of pn work ''written_at'') (\<lambda>a. Inr (lit ''<p class='sub'>as of the export '' @ a @ lit ''</p>''))"

text \<open>\<open>d.get(k, [])\<close>, iterated over; \<open>work or {}\<close> where there may be no export.\<close>

definition items :: "json \<Rightarrow> string \<Rightarrow> json list res" where
  "items d k = bindE (jget_or d (lit k) (JList [])) jiter"

abbreviation or_empty :: "json \<Rightarrow> json" where
  "or_empty work \<equiv> jor work (JObj [])"

text \<open>What Python takes for the same key: \<open>True == 1 == 1.0\<close>.\<close>

fun norm_key :: "json \<Rightarrow> json" where
  "norm_key (JBool b) = JInt (if b then 1 else 0)"
| "norm_key (JFloat (Fin r)) = (if r = of_int \<lfloor>r\<rfloor> then JInt \<lfloor>r\<rfloor> else JFloat (Fin r))"
| "norm_key j = j"

type_synonym titles = "(json \<times> json, json) dict"

definition add_title :: "titles \<Rightarrow> json \<Rightarrow> titles res" where
  "add_title d r =
     bindE (jitem r (lit ''repo'')) (\<lambda>repo.
     bindE (jitem r (lit ''number'')) (\<lambda>n.
     bindE (jget r (lit ''title'')) (\<lambda>t.
     if hashable repo \<and> hashable n then Inr (dset (norm_key repo, norm_key n) (jor t (JStr [])) d) else Inl TypeError)))"

definition titles_of :: "json \<Rightarrow> titles res" where
  "titles_of work =
     foldE (\<lambda>d k. bindE (items (or_empty work) k) (foldE add_title d)) []
       [''awaiting_you'', ''needs_work'', ''fixes'', ''mine'']"

definition title_of :: "titles \<Rightarrow> review_row \<Rightarrow> json" where
  "title_of ts r = dget_or ts (JStr (rv_repo r), JInt (rv_pr r)) JNull"

text \<open>\<open>_approvals\<close>\<close>

definition approvals :: "panel \<Rightarrow> db \<Rightarrow> review_row list option" where
  "approvals pn d =
     (if pn_booted pn then Some (approved_and_green d (ck_midnight (pn_clock pn) - BOARD_DAYS * 86400000)) else None)"

text \<open>\<open>_gates\<close>\<close>

definition gates :: "panel \<Rightarrow> config \<Rightarrow> db \<Rightarrow> (str \<times> budget_verdict) list res" where
  "gates pn cfg d =
     bindE (budget_check (pn_clock pn) cfg d 0 False) (\<lambda>account.
     if endpoint_models cfg = [] then Inr [(lit ''account'', account)]
     else bindE (budget_check (pn_clock pn) cfg d 0 True) (\<lambda>endpoint.
       Inr [(lit ''account'', account), (lit ''endpoint'', endpoint)]))"

text \<open>Columns of a row as Python values; \<open>a or b\<close> of two columns.\<close>

definition opt_int :: "int option \<Rightarrow> json" where
  "opt_int x = (case x of None \<Rightarrow> JNull | Some i \<Rightarrow> JInt i)"

definition opt_text :: "str option \<Rightarrow> json" where
  "opt_text x = (case x of None \<Rightarrow> JNull | Some s \<Rightarrow> JStr s)"

definition either_int :: "int option \<Rightarrow> int \<Rightarrow> json" where
  "either_int x y = jor (opt_int x) (JInt y)"

definition account_or :: "str option \<Rightarrow> str" where
  "account_or m = (if blank_opt m then lit ''account'' else opt_str m)"

text \<open>The elements an element of a loop's \<open>if\<close> keeps.\<close>

definition keepE :: "('a \<Rightarrow> bool res) \<Rightarrow> 'a list \<Rightarrow> 'a list res" where
  "keepE p xs = bindE (mapE (\<lambda>x. bindE (p x) (\<lambda>b. Inr (if b then [x] else []))) xs) (\<lambda>r. Inr (concat r))"

section \<open>The summary\<close>

definition green_row :: "panel \<Rightarrow> titles \<Rightarrow> review_row \<Rightarrow> str list res" where
  "green_row pn ts r =
     bindE (link_to (pn_rep pn) (JStr (rv_repo r)) (JInt (rv_pr r)) ''pull'') (\<lambda>link.
     bindE (tag (pn_rep pn) (JStr (lit ''green'')) (JStr (lit ''approved, build green''))) (\<lambda>why.
     bindE (ago (pn_time pn) (either_int (rv_ci_seen r) (rv_created r))) (\<lambda>since.
       Inr [link, esc (pn_rep pn) (title_of ts r), why, esc (pn_rep pn) (JStr since)])))"

definition draft_row :: "panel \<Rightarrow> json \<Rightarrow> str list res" where
  "draft_row pn f =
     bindE (jitem f (lit ''repo'')) (\<lambda>repo.
     bindE (jitem f (lit ''number'')) (\<lambda>n.
     bindE (link_to (pn_rep pn) repo n ''pull'') (\<lambda>link.
     bindE (jitem f (lit ''title'')) (\<lambda>title.
     bindE (jget f (lit ''issue'')) (\<lambda>issue.
     bindE (tag (pn_rep pn) (JStr (lit ''draft''))
       (JStr (lit ''fix draft'' @ (if truthy issue then lit '' for #'' @ py_str (pn_rep pn) issue else [])))) (\<lambda>why.
     bindE (age_of pn f ''opened_at'') (\<lambda>since.
       Inr [link, esc (pn_rep pn) title, why, esc (pn_rep pn) (JStr since)])))))))"

definition is_draft :: "json \<Rightarrow> bool res" where
  "is_draft f = bindE (jget f (lit ''status'')) (\<lambda>st. Inr (st = JStr (lit ''draft'')))"

definition is_bare :: "json \<Rightarrow> bool res" where
  "is_bare i = bindE (jget i (lit ''prs'')) (\<lambda>prs. Inr (\<not> truthy prs))"

record figures =
  fg_green :: nat
  fg_approved :: nat
  fg_fixes :: nat
  fg_drafts :: nat
  fg_issues :: nat
  fg_bare :: nat
  fg_held :: nat
  fg_running :: nat
  fg_stuck :: bool
  fg_usage :: str
  fg_spent :: rat
  fg_unknown :: bool

text \<open>\<open>unknown or n\<close>: no export, no number; a zero is shown as it is.\<close>

definition number_card :: "bool \<Rightarrow> nat \<Rightarrow> json" where
  "number_card unknown n = (if unknown then JStr [8212] else JInt (int n))"

definition summary_cards :: "(json \<Rightarrow> str) \<Rightarrow> figures \<Rightarrow> str" where
  "summary_cards rep g = concat
     [card rep (JInt (int (fg_green g))) (lit ''ready for you'')
        (show_nat (fg_approved g) @ lit '' approved in '' @ show_int BOARD_DAYS @ lit '' days'')
        (if 0 < fg_green g then ''ok'' else '''') ''/approved'',
      card rep (number_card (fg_unknown g) (fg_fixes g)) (lit ''open fixes'')
        (show_nat (fg_drafts g) @ lit '' draft(s) to look at'') '''' ''/fixes'',
      card rep (number_card (fg_unknown g) (fg_issues g)) (lit ''assigned issues'')
        (show_nat (fg_bare g) @ lit '' without a pull request'') '''' ''/issues'',
      card rep (JInt (int (fg_held g))) (lit ''held or failed today'')
        (show_nat (fg_running g) @ lit '' reviewing now'') (if 0 < fg_held g then ''warn'' else '''') ''/reviews'',
      card rep (JStr (if fg_stuck g then lit ''holding'' else lit ''admitting'')) (lit ''usage'') (fg_usage g)
        (if fg_stuck g then ''bad'' else ''ok'') ''/system'',
      card rep (JStr (dollars (fg_spent g))) (lit ''billed today'') [] '''' ''/system'']"

definition held_today :: "panel \<Rightarrow> db \<Rightarrow> review_row list" where
  "held_today pn d = filter (\<lambda>r. ck_midnight (pn_clock pn) \<le> rv_created r) (unfinished d RECENT)"

definition figures_of ::
  "panel \<Rightarrow> config \<Rightarrow> db \<Rightarrow> json \<Rightarrow> json list \<Rightarrow> json list \<Rightarrow> (str \<times> budget_verdict) list \<Rightarrow> nat \<Rightarrow> nat \<Rightarrow> figures" where
  "figures_of pn cfg d work fixes issues meters drafts bare =
     (let approved = (case approvals pn d of None \<Rightarrow> [] | Some rs \<Rightarrow> rs);
          stuck = find_first (\<lambda>m. \<not> bv_allowed (snd m)) meters
      in \<lparr>fg_green = length (filter (\<lambda>r. rv_ci r = Some Ci_green) approved), fg_approved = length approved,
          fg_fixes = length fixes, fg_drafts = drafts, fg_issues = length issues, fg_bare = bare,
          fg_held = length (held_today pn d), fg_running = fst (counts d), fg_stuck = (stuck \<noteq> None),
          fg_usage = bv_detail (case stuck of Some m \<Rightarrow> snd m | None \<Rightarrow> snd (hd meters)),
          fg_spent = spend_since d (ck_midnight (pn_clock pn)) (endpoint_models cfg), fg_unknown = (work = JNull)\<rparr>)"

definition green_approvals :: "panel \<Rightarrow> db \<Rightarrow> review_row list" where
  "green_approvals pn d =
     filter (\<lambda>r. rv_ci r = Some Ci_green) (case approvals pn d of None \<Rightarrow> [] | Some rs \<Rightarrow> rs)"

text \<open>The figures of the cards, and the rows of \<open>waiting on you\<close>.\<close>

definition summary_data :: "panel \<Rightarrow> config \<Rightarrow> db \<Rightarrow> (json \<times> figures \<times> str list list) res" where
  "summary_data pn cfg d =
     bindE (worklist pn) (\<lambda>work.
     bindE (titles_of work) (\<lambda>ts.
     bindE (items (or_empty work) ''fixes'') (\<lambda>fixes.
     bindE (keepE is_draft fixes) (\<lambda>drafts.
     bindE (items (or_empty work) ''triage_assigned'') (\<lambda>issues.
     bindE (keepE is_bare issues) (\<lambda>bare.
     bindE (gates pn cfg d) (\<lambda>meters.
     bindE (mapE (green_row pn ts) (green_approvals pn d)) (\<lambda>ready.
     bindE (mapE (draft_row pn) drafts) (\<lambda>rows.
       Inr (work, figures_of pn cfg d work fixes issues meters (length drafts) (length bare), ready @ rows))))))))))"

definition summary_page :: "panel \<Rightarrow> config \<Rightarrow> db \<Rightarrow> query \<Rightarrow> str res" where
  "summary_page pn cfg d q =
     bindE (summary_data pn cfg d) (\<lambda>(work, g, rows).
       Inr ((lit ''<div class='grid'>'' @ summary_cards (pn_rep pn) g @ lit ''</div><h2>waiting on you</h2>'')
         @ (if work = JNull then NO_EXPORT else [])
         @ table (pn_rep pn) [''pr'', ''title'', ''why'', ''since''] rows [3] [1] ''nothing is waiting on you''))"

section \<open>Approvals, fixes and issues\<close>

text \<open>\<open>CI_TONE\<close>, and what stands for a state it does not name.\<close>

definition ci_words :: "ci_state option \<Rightarrow> str \<times> str" where
  "ci_words c =
     (case c of
        Some Ci_green \<Rightarrow> (lit ''green'', lit ''ready for a human'')
      | Some Ci_red \<Rightarrow> (lit ''red'', lit ''build went red'')
      | Some Ci_waiting \<Rightarrow> (lit ''waiting'', lit ''waiting on the build'')
      | Some other \<Rightarrow> ([], ci_name other)
      | None \<Rightarrow> ([], [8212]))"

definition THIRD_PARTY :: str where
  "THIRD_PARTY = (lit '' <span class='' @ [34] @ lit ''dim'' @ [34] @ lit ''>3rd-party</span>'')"

definition approved_row :: "panel \<Rightarrow> config \<Rightarrow> titles \<Rightarrow> review_row \<Rightarrow> str list res" where
  "approved_row pn cfg ts r =
     (let rep = pn_rep pn; model = account_or (rv_model r) in
      bindE (link_to rep (JStr (rv_repo r)) (JInt (rv_pr r)) ''pull'') (\<lambda>link.
      bindE (tag rep (JStr (fst (ci_words (rv_ci r)))) (JStr (snd (ci_words (rv_ci r))))) (\<lambda>build.
      bindE (ago (pn_time pn) (either_int (rv_ci_seen r) (rv_created r))) (\<lambda>seen.
        Inr [link, esc rep (title_of ts r), build,
             esc rep (JStr model) @ (if model \<in> set (endpoint_models cfg) then THIRD_PARTY else []),
             sha_cell rep (rv_head r), esc rep (JStr seen)]))))"

definition approved_page :: "panel \<Rightarrow> config \<Rightarrow> db \<Rightarrow> query \<Rightarrow> str res" where
  "approved_page pn cfg d q =
     (let head = (lit ''<h2>approved by '' @ esc (pn_rep pn) (JStr (cfg_bot_name cfg)) @ lit ''</h2>'') in
      case approvals pn d of
        None \<Rightarrow> Inr (head @ (lit ''<p class='sub'>waiting for the daemon's first tick</p>''))
      | Some approved \<Rightarrow>
          bindE (worklist pn) (\<lambda>work.
          bindE (titles_of work) (\<lambda>ts.
          bindE (mapE (approved_row pn cfg ts) approved) (\<lambda>rows.
            Inr (head @ (lit ''<p class='sub'>an `ok` asks CI to run; this is what came back</p>'')
              @ table (pn_rep pn) [''pr'', ''title'', ''build'', ''approved by'', ''commit'', ''last seen''] rows
                  [5] [1] NOTHING)))))"

definition fix_table_row :: "panel \<Rightarrow> json \<Rightarrow> str list res" where
  "fix_table_row pn f =
     (let rep = pn_rep pn in
      bindE (jitem f (lit ''repo'')) (\<lambda>repo.
      bindE (jitem f (lit ''number'')) (\<lambda>n.
      bindE (link_to rep repo n ''pull'') (\<lambda>link.
      bindE (jitem f (lit ''title'')) (\<lambda>title.
      bindE (jget f (lit ''issue'')) (\<lambda>issue.
      bindE (if truthy issue then link_to rep repo issue ''issues'' else Inr [8212]) (\<lambda>issue_link.
      bindE (bindE (jget f (lit ''status'')) (\<lambda>v. tag rep v JNull)) (\<lambda>state.
      bindE (bindE (jget f (lit ''ci'')) (\<lambda>v. tag rep v JNull)) (\<lambda>ci.
      bindE (age_of pn f ''opened_at'') (\<lambda>opened.
        Inr [link, esc rep title, issue_link, state, ci, esc rep (JStr opened)]))))))))))"

definition FIXES_HEAD :: str where "FIXES_HEAD = (lit ''<h2>open fixes</h2>'')"

definition fixes_page :: "panel \<Rightarrow> config \<Rightarrow> db \<Rightarrow> query \<Rightarrow> str res" where
  "fixes_page pn cfg d q =
     bindE (worklist pn) (\<lambda>work.
     if work = JNull then Inr (FIXES_HEAD @ NO_EXPORT)
     else
       bindE (bindE (items work ''fixes'') (mapE (fix_table_row pn))) (\<lambda>rows.
       bindE (as_of pn work) (\<lambda>stamped.
         Inr (FIXES_HEAD @ stamped
           @ table (pn_rep pn) [''pr'', ''title'', ''issue'', ''state'', ''ci'', ''opened''] rows [5] [1]
               ''no fix is open''))))"

text \<open>\<open>q.get("pr") if q.get("pr") in ("with", "without") else ""\<close>\<close>

datatype issue_filter = All_issues | With_pr | Without_pr

definition shown_filter :: "query \<Rightarrow> issue_filter" where
  "shown_filter q =
     (if dget q (lit ''pr'') = Some (lit ''with'') then With_pr
      else if dget q (lit ''pr'') = Some (lit ''without'') then Without_pr else All_issues)"

fun filter_query :: "issue_filter \<Rightarrow> str" where
  "filter_query All_issues = []"
| "filter_query With_pr = lit ''?pr=with''"
| "filter_query Without_pr = lit ''?pr=without''"

fun filter_label :: "issue_filter \<Rightarrow> str" where
  "filter_label All_issues = lit ''all''"
| "filter_label With_pr = lit ''with a pull request''"
| "filter_label Without_pr = lit ''without''"

definition filter_link :: "issue_filter \<Rightarrow> issue_filter \<times> nat \<Rightarrow> str" where
  "filter_link chosen f =
     (lit ''<a href='' @ [34] @ lit ''/issues'' @ filter_query (fst f) @ [34]
       @ (if fst f = chosen then lit '' class=on'' else []) @ lit ''>'')
     @ (filter_label (fst f) @ lit '' '' @ show_nat (snd f) @ lit ''</a>'')"

definition queue_words :: "config \<Rightarrow> str list" where
  "queue_words cfg = concat (map (\<lambda>rc. ic_labels (rc_issues rc)) (cfg_repos cfg))"

text \<open>\<open>", ".join(x for x in i.get("labels", []) if x not in quiet) or "-"\<close>\<close>

definition label_cell :: "config \<Rightarrow> json \<Rightarrow> str res" where
  "label_cell cfg i =
     bindE (items i ''labels'') (\<lambda>xs.
     bindE (keepE (\<lambda>x. if hashable x then Inr (x \<notin> JStr ` set (queue_words cfg)) else Inl TypeError) xs) (\<lambda>ys.
     bindE (mapE (\<lambda>x. case x of JStr s \<Rightarrow> Inr s | _ \<Rightarrow> Inl TypeError) ys) (\<lambda>ws.
       Inr (if join (lit '', '') ws = [] then [8212] else join (lit '', '') ws))))"

definition closing_cell :: "(json \<Rightarrow> str) \<Rightarrow> json \<Rightarrow> json \<Rightarrow> str res" where
  "closing_cell rep repo p =
     bindE (jitem p (lit ''number'')) (\<lambda>n.
     bindE (link_to rep repo n ''pull'') (\<lambda>link.
     bindE (jitem p (lit ''status'')) (\<lambda>st.
     bindE (tag rep st JNull) (\<lambda>word. Inr (link @ lit '' '' @ word)))))"

definition NONE_CELL :: str where "NONE_CELL = (lit ''<span class='' @ [34] @ lit ''dim'' @ [34] @ lit ''>none</span>'')"

definition issue_table_row :: "panel \<Rightarrow> config \<Rightarrow> json \<Rightarrow> str list res" where
  "issue_table_row pn cfg i =
     (let rep = pn_rep pn in
      bindE (jitem i (lit ''repo'')) (\<lambda>repo.
      bindE (jitem i (lit ''number'')) (\<lambda>n.
      bindE (link_to rep repo n ''issues'') (\<lambda>link.
      bindE (jitem i (lit ''title'')) (\<lambda>title.
      bindE (label_cell cfg i) (\<lambda>labels.
      bindE (bindE (items i ''prs'') (mapE (closing_cell rep repo))) (\<lambda>prs.
      bindE (age_of pn i ''updated_at'') (\<lambda>updated.
        Inr [link, esc rep title, esc rep (JStr labels), if prs = [] then NONE_CELL else join [32] prs,
             esc rep (JStr updated)]))))))))"

fun matches_filter :: "issue_filter \<Rightarrow> json \<Rightarrow> bool res" where
  "matches_filter All_issues i = Inr True"
| "matches_filter With_pr i = bindE (jget i (lit ''prs'')) (\<lambda>prs. Inr (truthy prs))"
| "matches_filter Without_pr i = bindE (jget i (lit ''prs'')) (\<lambda>prs. Inr (\<not> truthy prs))"

text \<open>The filters with their numbers, and the rows below them.\<close>

definition issues_data :: "panel \<Rightarrow> config \<Rightarrow> query \<Rightarrow> json \<Rightarrow> ((issue_filter \<times> nat) list \<times> str list list) res" where
  "issues_data pn cfg q work =
     bindE (items work ''triage_assigned'') (\<lambda>assigned.
     bindE (keepE (matches_filter With_pr) assigned) (\<lambda>linked.
     bindE (keepE (matches_filter Without_pr) assigned) (\<lambda>bare.
     bindE (keepE (matches_filter (shown_filter q)) assigned) (\<lambda>chosen.
     bindE (mapE (issue_table_row pn cfg) chosen) (\<lambda>rows.
       Inr ([(All_issues, length assigned), (With_pr, length linked), (Without_pr, length bare)], rows))))))"

definition ISSUES_HEAD :: str where "ISSUES_HEAD = (lit ''<h2>issues assigned to you</h2>'')"

definition issues_page :: "panel \<Rightarrow> config \<Rightarrow> db \<Rightarrow> query \<Rightarrow> str res" where
  "issues_page pn cfg d q =
     bindE (worklist pn) (\<lambda>work.
     if work = JNull then Inr (ISSUES_HEAD @ NO_EXPORT)
     else
       bindE (issues_data pn cfg q work) (\<lambda>(filters, rows).
       bindE (as_of pn work) (\<lambda>stamped.
         Inr (ISSUES_HEAD @ stamped @ (lit ''<p class='filters'>'' @ concat (map (filter_link (shown_filter q)) filters) @ lit ''</p>'')
           @ table (pn_rep pn) [''issue'', ''title'', ''labels'', ''pull requests'', ''updated''] rows [4] [1]
               ''nothing is assigned to you''))))"

section \<open>Reviews and the system\<close>

definition queue_row :: "panel \<Rightarrow> review_row \<Rightarrow> str list res" where
  "queue_row pn r =
     (let rep = pn_rep pn in
      bindE (link_to rep (JStr (rv_repo r)) (JInt (rv_pr r)) ''pull'') (\<lambda>link.
      bindE (tag rep (JStr (if rv_state r = RvFailed then lit ''red'' else lit ''waiting''))
        (JStr (state_text (rv_state r)))) (\<lambda>state.
      bindE (ago (pn_time pn) (JInt (rv_created r))) (\<lambda>created.
        Inr [link, state, esc rep (opt_text (rv_hold r)), esc rep (JStr created)]))))"

text \<open>\<open>{"ok": "green", "needs-work": "red"}.get(verdict)\<close>\<close>

definition verdict_word :: "verdict option \<Rightarrow> json" where
  "verdict_word v =
     (case v of Some Ok_verdict \<Rightarrow> JStr (lit ''green'') | Some Needs_work \<Rightarrow> JStr (lit ''red'') | _ \<Rightarrow> JNull)"

definition duration_cell :: "rat option \<Rightarrow> str" where
  "duration_cell x =
     (case x of None \<Rightarrow> [8212] | Some s \<Rightarrow> if s = 0 then [8212] else show_int (trunc s) @ lit ''s'')"

definition review_table_row :: "panel \<Rightarrow> review_row \<Rightarrow> str list res" where
  "review_table_row pn r =
     (let rep = pn_rep pn in
      bindE (link_to rep (JStr (rv_repo r)) (JInt (rv_pr r)) ''pull'') (\<lambda>link.
      bindE (tag rep (verdict_word (rv_verdict r)) (opt_text (map_option verdict_text (rv_verdict r)))) (\<lambda>verdict.
      bindE (ago (pn_time pn) (either_int (rv_finished r) (rv_created r))) (\<lambda>finished.
        Inr [link, sha_cell rep (rv_head r), verdict, esc rep (JStr (account_or (rv_model r))),
             esc rep (opt_int (rv_findings r)), esc rep (opt_int (rv_summary r)), esc rep (opt_int (rv_inline r)),
             esc rep (JStr (duration_cell (rv_duration r))), esc rep (opt_int (rv_tokens_out r)),
             esc rep (JStr finished)]))))"

definition reviews_page :: "panel \<Rightarrow> config \<Rightarrow> db \<Rightarrow> query \<Rightarrow> str res" where
  "reviews_page pn cfg d q =
     bindE (mapE (queue_row pn) (unfinished d RECENT)) (\<lambda>queue.
     bindE (mapE (review_table_row pn) (recent_published d RECENT)) (\<lambda>judged.
       Inr ((lit ''<h2>waiting, held or failed</h2>'')
         @ table (pn_rep pn) [''pr'', ''state'', ''reason'', ''when''] queue [3] [2] ''the queue is clear''
         @ (lit ''<h2>reviews</h2><p class='sub'>cost is omitted on purpose: the CLI prices a '')
         @ (lit ''third-party model off its own table, which is not that provider's bill</p>'')
         @ table (pn_rep pn)
             [''pr'', ''commit'', ''verdict'', ''model'', ''inline'', ''summary'', ''anchored'', ''time'', ''out tok'',
              ''when''] judged [4, 5, 6, 7, 8, 9] [] NOTHING)))"

definition arm_row :: "(json \<Rightarrow> str) \<Rightarrow> nat \<Rightarrow> (str, nat \<times> int \<times> int option) dict \<Rightarrow> review_model \<Rightarrow> str list" where
  "arm_row rep weights seen arm =
     (let share = 100 * of_nat (rm_weight arm) / of_nat weights :: rat;
          row = dget seen (rm_model arm)
      in [esc rep (JStr (rm_model arm)),
          esc rep (JStr (case rm_via arm of Backend \<Rightarrow> lit ''backend'' | Endpoint \<Rightarrow> lit ''endpoint'')),
          (show_fixed 0 share @ lit ''% <span class='' @ [34] @ lit ''bar'' @ [34] @ lit '' style='' @ [34]
       @ lit ''width:'' @ show_fixed 0 (share / 2) @ lit ''px'' @ [34] @ lit ''></span>''),
          esc rep (JInt (case row of None \<Rightarrow> 0 | Some r \<Rightarrow> int (fst r))),
          esc rep (JInt (case row of None \<Rightarrow> 0 | Some r \<Rightarrow> fst (snd r))),
          esc rep (JStr (case row of None \<Rightarrow> [8212] | Some r \<Rightarrow>
             (case snd (snd r) of None \<Rightarrow> [8212] | Some s \<Rightarrow> if s = 0 then [8212] else show_int s @ lit ''s'')))])"

definition arms_section :: "(json \<Rightarrow> str) \<Rightarrow> config \<Rightarrow> db \<Rightarrow> str res" where
  "arms_section rep cfg d =
     (let models = cfg_review_models cfg; weights = sum_list (map rm_weight models) in
      if models = [] then
        Inr ((lit ''<h2>models</h2><p class='sub'>every review runs on the account's own '')
          @ (lit ''model; no arms configured</p>''))
      else if weights = 0 then Inl (OtherError (lit ''ZeroDivisionError''))
      else Inr ((lit ''<h2>models</h2>'')
        @ table rep [''model'', ''via'', ''share of reviews'', ''runs'', ''findings'', ''mean'']
            (map (arm_row rep weights (by_model d)) models) [2, 3, 4, 5] [] NOTHING))"

definition meter_row :: "(json \<Rightarrow> str) \<Rightarrow> str \<times> budget_verdict \<Rightarrow> str list res" where
  "meter_row rep m =
     bindE (tag rep (JStr (if bv_allowed (snd m) then lit ''green'' else lit ''red''))
       (JStr (if bv_allowed (snd m) then lit ''admitting'' else lit ''holding''))) (\<lambda>state.
       Inr [esc rep (JStr (fst m)), state, esc rep (JStr (bv_detail (snd m)))])"

definition system_cards :: "(json \<Rightarrow> str) \<Rightarrow> config \<Rightarrow> nat \<times> nat \<times> nat \<Rightarrow> rat \<Rightarrow> int \<Rightarrow> str" where
  "system_cards rep cfg ns spent free_bytes =
     (case ns of (running, published, all_rows) \<Rightarrow> concat
        [card rep (JInt (int running)) (lit ''reviewing right now'') [] (if 0 < running then ''warn'' else '''') '''',
         card rep (JInt (int published)) (lit ''published of '' @ show_nat all_rows @ lit '' rows'') [] '''' '''',
         card rep (JStr (dollars spent)) (lit ''billed to the account today'') [] '''' '''',
         card rep (JStr (show_int (free_bytes div 2 ^ 30) @ lit '' GB'')) (lit ''free on the state disk'') [] '''' '''',
         card rep (JStr (lit ''v'' @ show_nat SCHEMA_VERSION)) (lit ''schema'') [] '''' '''',
         card rep (JStr (cfg_review_effort cfg)) (lit ''review effort'') [] '''' ''''])"

definition system_page :: "panel \<Rightarrow> config \<Rightarrow> db \<Rightarrow> query \<Rightarrow> str res" where
  "system_page pn cfg d q =
     (let rep = pn_rep pn; spent = spend_since d (ck_midnight (pn_clock pn)) (endpoint_models cfg) in
      bindE (pn_free pn) (\<lambda>free_bytes.
      bindE (bindE (gates pn cfg d) (mapE (meter_row rep))) (\<lambda>meters.
      bindE (arms_section rep cfg d) (\<lambda>arms.
        Inr ((lit ''<h2>system</h2>'')
          @ (lit ''<p class='sub'>''
       @ esc rep (JStr (case cfg_backend cfg of Api \<Rightarrow> lit ''api'' | Oauth \<Rightarrow> lit ''oauth''))
       @ lit '' backend '' @ [183] @ lit '' '')
          @ (show_nat (length (cfg_repos cfg)) @ lit '' repo(s) '' @ [183] @ lit '' ''
       @ show_nat (cfg_max_concurrent_reviews cfg) @ lit '' concurrent '' @ [183] @ lit '' '')
          @ (lit ''tick '' @ show_int (cfg_poll_interval_s cfg) @ lit ''s</p>'')
          @ (lit ''<div class='grid'>'' @ system_cards rep cfg (counts d) spent free_bytes
       @ lit ''</div><h2>usage</h2>'')
          @ table rep [''meter'', ''state'', ''reading''] meters [] [2] NOTHING @ arms)))))"

section \<open>Transcripts\<close>

definition newest_files :: "transcript_file list \<Rightarrow> transcript_file list" where
  "newest_files fs = take RECENT (sort_key (\<lambda>f. - tf_mtime f) fs)"

definition transcript_row :: "panel \<Rightarrow> transcript_file \<Rightarrow> str list res" where
  "transcript_row pn f =
     (let rep = pn_rep pn; name = esc rep (JStr (tf_name f)) in
      bindE (pn_stat pn (tf_name f)) (\<lambda>(size_bytes, mtime).
      bindE (ago (pn_time pn) (JInt (trunc (mtime * 1000)))) (\<lambda>written_at.
        Inr [(lit ''<a href='' @ [34] @ lit ''/transcript?name='' @ name @ [34] @ lit ''>'' @ name
       @ lit ''</a>''), esc rep (JStr (show_int (size_bytes div 1024) @ lit '' KB'')),
             esc rep (JStr written_at)])))"

definition TRANSCRIPTS_HEAD :: str where "TRANSCRIPTS_HEAD = (lit ''<h2>transcripts</h2>'')"

text \<open>An \<open>OSError\<close> of the listing is a page; one of a later \<open>stat\<close> is not caught here.\<close>

definition transcripts_page :: "panel \<Rightarrow> config \<Rightarrow> db \<Rightarrow> query \<Rightarrow> str res" where
  "transcripts_page pn cfg d q =
     (case pn_files pn of
        Inl e \<Rightarrow>
          if e = OtherError (lit ''OSError'')
          then Inr (TRANSCRIPTS_HEAD @ (lit ''<p class='sub'>transcript directory unreadable</p>'')) else Inl e
      | Inr fs \<Rightarrow>
          bindE (mapE (transcript_row pn) (newest_files fs)) (\<lambda>rows.
            Inr (TRANSCRIPTS_HEAD @ table (pn_rep pn) [''file'', ''size'', ''written''] rows [1, 2] [] NOTHING)))"

text \<open>\<open>base / name\<close>; an absolute name replaces the base. \<open>Path.suffix\<close> of a last part.\<close>

definition joined :: "str \<Rightarrow> str \<Rightarrow> str" where
  "joined base name = (if startswith name [47] then name else base @ [47] @ name)"

definition suffix_of :: "str \<Rightarrow> str" where
  "suffix_of n =
     (let ext = after_dot n
      in if 46 \<in> set n \<and> length ext + 1 < length n \<and> ext \<noteq> [] then [46] @ ext else [])"

definition transcript_dir :: "config \<Rightarrow> str" where
  "transcript_dir cfg = cfg_state_dir cfg @ lit ''/reviews''"

text \<open>\<open>_transcript_body\<close>\<close>

definition transcript_body :: "panel \<Rightarrow> config \<Rightarrow> str \<Rightarrow> str option res" where
  "transcript_body pn cfg name =
     bindE (pn_resolve pn (transcript_dir cfg)) (\<lambda>base.
     bindE (pn_resolve pn (joined ([47] @ join [47] base) name)) (\<lambda>target.
     if butlast target \<noteq> base \<or> \<not> pn_is_file pn target
        \<or> suffix_of (last_or [] target) \<notin> {lit ''.md'', lit ''.err''} then Inr None
     else bindE (pn_read pn target) (\<lambda>s. Inr (Some s))))"

section \<open>The shell and the answer\<close>

definition PAGES :: "(string \<times> string) list" where
  "PAGES =
     [(''/'', ''summary''), (''/approved'', ''approved''), (''/fixes'', ''fixes''), (''/issues'', ''issues''),
      (''/reviews'', ''reviews''), (''/system'', ''system''), (''/transcripts'', ''transcripts'')]"

definition nav_link :: "string \<Rightarrow> string \<times> string \<Rightarrow> str" where
  "nav_link current p =
     (lit ''<a href='' @ [34] @ lit (fst p) @ [34]
       @ (if fst p = current then lit '' class=on'' else []) @ lit ''>'' @ lit (snd p) @ lit ''</a>'')"

definition two_digits :: "nat \<Rightarrow> str" where
  "two_digits n = zero_pad 2 (show_nat n)"

definition ICON :: str where
  "ICON =
     (lit ''<link rel='icon' href='' @ [34]
       @ lit ''data:image/svg+xml,%3Csvg xmlns='http://www.w3.org/2000/svg'' @ [39])
     @ (lit '' viewBox='0 0 24 24'%3E%3Crect width='24' height='24' rx='6' fill='%2317181c'/%3E'')
     @ (lit ''%3Ctext x='12' y='17.5' font-size='13' text-anchor='middle'%3E%F0%9F%A7%A0%3C/text%3E'')
     @ (lit ''%3C/svg%3E'' @ [34] @ lit ''>'')"

definition CSS :: str where
  "CSS = concat (map (\<lambda>line. line @ [NL])
     [[],
      (lit '':root { color-scheme: light dark; --fg: #1d1f23; --bg: #fcfcfc; --line: #0000001a;''),
      (lit ''        --dim: #6a7280; --ok: #1f8a43; --warn: #a96500; --bad: #c0392b; }''),
      (lit ''@media (prefers-color-scheme: dark) {''),
      (lit ''  :root { --fg: #e4e6ea; --bg: #131417; --line: #ffffff1c; --dim: #98a1ad;''),
      (lit ''          --ok: #4cc27a; --warn: #e0a23a; --bad: #ef6b5b; }''),
      (lit ''}''),
      (lit ''* { box-sizing: border-box; }''),
      (lit ''body { font: 14px/1.55 system-ui, -apple-system, '' @ [34] @ lit ''Segoe UI'' @ [34]
       @ lit '', sans-serif; color: var(--fg);''),
      (lit ''       background: var(--bg); margin: 0 auto; padding: 1.25rem 1rem 3rem; max-width: ''
       @ lit ''1100px; }''),
      (lit ''header { display: flex; flex-wrap: wrap; align-items: baseline; gap: .4rem 1.75rem;''),
      (lit ''         padding-bottom: .9rem; border-bottom: 1px solid var(--line); }''),
      (lit ''h1 { font-size: 1rem; margin: 0; }''),
      (lit ''nav { display: flex; flex-wrap: wrap; gap: .25rem 1.1rem; }''),
      (lit ''nav a, .filters a { color: var(--dim); text-decoration: none; }''),
      (lit ''nav a:hover, nav a.on, .filters a:hover, .filters a.on { color: var(--fg); }''),
      (lit ''nav a.on, .filters a.on { font-weight: 600; }''),
      (lit ''.filters { display: flex; gap: 1.1rem; margin: 0 0 .75rem; font-size: .85rem; }''),
      (lit ''header .meta { margin-left: auto; color: var(--dim); font-size: .8rem; }''),
      (lit ''h2 { font-size: .75rem; text-transform: uppercase; letter-spacing: .08em;''),
      (lit ''     color: var(--dim); font-weight: 600; margin: 2rem 0 .4rem; }''),
      (lit ''.sub { color: var(--dim); font-size: .85rem; margin: 0 0 .75rem; }''),
      (lit ''.dim { color: var(--dim); }''),
      (lit ''.mono { font-family: ui-monospace, SFMono-Regular, Menlo, monospace; font-size: .85em; }''),
      (lit ''.scroll { overflow-x: auto; }''),
      (lit ''table { border-collapse: collapse; width: 100%; }''),
      (lit ''th, td { text-align: left; padding: .4rem .9rem .4rem 0; white-space: nowrap;''),
      (lit ''         border-bottom: 1px solid var(--line); vertical-align: top; }''),
      (lit ''th { color: var(--dim); font-weight: 500; font-size: .8rem; }''),
      (lit ''td.wide { white-space: normal; min-width: 16rem; }''),
      (lit ''.num { text-align: right; font-variant-numeric: tabular-nums; }''),
      (lit ''.grid { display: grid; grid-template-columns: repeat(auto-fit, minmax(165px, 1fr));''),
      (lit ''        gap: .75rem; margin-top: 1.5rem; }''),
      (lit ''.card { display: block; border: 1px solid var(--line); border-radius: 8px;''),
      (lit ''        padding: .75rem .9rem; color: inherit; text-decoration: none; }''),
      (lit ''a.card:hover { border-color: var(--dim); }''),
      (lit ''.card b { display: block; font-size: 1.5rem; font-weight: 600; line-height: 1.25;''),
      (lit ''          font-variant-numeric: tabular-nums; }''),
      (lit ''.card span { display: block; font-size: .85rem; }''),
      (lit ''.card small { display: block; color: var(--dim); font-size: .75rem; margin-top: .1rem; }''),
      (lit ''a { color: inherit; text-decoration: underline; text-decoration-color: var(--line);''),
      (lit ''    text-underline-offset: 3px; }''),
      (lit ''a:hover { text-decoration-color: currentColor; }''),
      (lit ''.ok { color: var(--ok); } .warn { color: var(--warn); } .bad { color: var(--bad); }''),
      (lit ''.tag.ok::before, .tag.warn::before, .tag.bad::before { content: '' @ [34, 9679]
       @ lit '' '' @ [34] @ lit ''; font-size: .7em; }''),
      (lit ''.bar { display: inline-block; height: .6em; background: currentColor; opacity: .4;''),
      (lit ''       vertical-align: middle; border-radius: 2px; }''),
      (lit ''pre { white-space: pre-wrap; word-break: break-word; border: 1px solid var(--line);''),
      (lit ''      padding: 1rem; border-radius: 8px; font-size: .85rem; }'')])"

definition shell :: "panel \<Rightarrow> config \<Rightarrow> string \<Rightarrow> str \<Rightarrow> str \<Rightarrow> bool \<Rightarrow> str" where
  "shell pn cfg current body title refresh =
     (let rep = pn_rep pn; name = esc rep (JStr (cfg_bot_name cfg)) in
      (lit ''<!doctype html><!-- robbie dashboard --><meta charset='utf-8'>'')
      @ (if refresh then (lit ''<meta http-equiv='refresh' content='' @ [39] @ show_nat REFRESH_S @ [39] @ lit ''>'') else [])
      @ (lit ''<meta name='viewport' content='width=device-width,initial-scale=1'>'')
      @ (lit ''<title>'' @ name
       @ (if title \<noteq> [] then lit '' '' @ [183] @ lit '' '' @ esc rep (JStr title) else [])
       @ lit ''</title>'' @ ICON)
      @ (lit ''<style>'' @ CSS @ lit ''</style>'')
      @ (lit ''<header><h1>'' @ name @ lit ''</h1><nav>'' @ concat (map (nav_link current) PAGES)
       @ lit ''</nav>'')
      @ (lit ''<span class='meta'>refreshed '' @ two_digits (fst (pn_hms pn)) @ lit '':''
       @ two_digits (fst (snd (pn_hms pn))))
      @ (lit '':'' @ two_digits (snd (snd (pn_hms pn))) @ lit '' UTC</span></header>'')
      @ (lit ''<main>'' @ body @ lit ''</main>''))"

definition page_of :: "string \<Rightarrow> panel \<Rightarrow> config \<Rightarrow> db \<Rightarrow> query \<Rightarrow> str res" where
  "page_of path =
     (if path = ''/'' then summary_page else if path = ''/approved'' then approved_page
      else if path = ''/fixes'' then fixes_page else if path = ''/issues'' then issues_page
      else if path = ''/reviews'' then reviews_page else if path = ''/system'' then system_page
      else transcripts_page)"

text \<open>\<open>render\<close>: \<open>None\<close> for a path that is not a page.\<close>

definition render :: "panel \<Rightarrow> config \<Rightarrow> db \<Rightarrow> string \<Rightarrow> query \<Rightarrow> str option res" where
  "render pn cfg d path q =
     (case map_of PAGES path of
        None \<Rightarrow> Inr None
      | Some label \<Rightarrow>
          bindE (page_of path pn cfg d q) (\<lambda>body.
            Inr (Some (shell pn cfg path body (if path = ''/'' then [] else lit label) True))))"

datatype content = Markup | Plain

record answer =
  an_status :: nat
  an_kind :: content
  an_body :: str

text \<open>\<open>_send\<close>: a body that UTF-8 cannot encode raises before anything is sent.\<close>

definition send :: "str \<Rightarrow> nat \<Rightarrow> content \<Rightarrow> answer res" where
  "send body code kind =
     (if encodable body then Inr \<lparr>an_status = code, an_kind = kind, an_body = body\<rparr>
      else Inl (OtherError (lit ''UnicodeEncodeError'')))"

definition transcript_page :: "panel \<Rightarrow> config \<Rightarrow> str \<Rightarrow> str \<Rightarrow> str" where
  "transcript_page pn cfg name body =
     shell pn cfg ''/transcripts''
       (lit ''<h2>'' @ esc (pn_rep pn) (JStr name) @ lit ''</h2><pre>'' @ esc (pn_rep pn) (JStr body)
       @ lit ''</pre>'') name False"

definition routed :: "panel \<Rightarrow> config \<Rightarrow> db \<Rightarrow> string \<Rightarrow> query \<Rightarrow> answer res" where
  "routed pn cfg d path q =
     (if path = ''/transcript'' then
        bindE (transcript_body pn cfg (dget_or q (lit ''name'') [])) (\<lambda>found.
        case found of
          None \<Rightarrow> send (lit ''no such transcript'') 404 Plain
        | Some body \<Rightarrow> send (transcript_page pn cfg (dget_or q (lit ''name'') []) body) 200 Markup)
      else
        bindE (render pn cfg d path q) (\<lambda>found.
        case found of
          Some page \<Rightarrow> send page 200 Markup
        | None \<Rightarrow> send (lit ''not found'') 404 Plain))"

text \<open>\<open>do_GET\<close>; \<open>opened\<close> is the database, or why it could not be opened.\<close>

definition do_get :: "panel \<Rightarrow> config \<Rightarrow> str + db \<Rightarrow> string \<Rightarrow> query \<Rightarrow> answer res" where
  "do_get pn cfg opened path q =
     (case opened of
        Inl why \<Rightarrow> send ((lit ''cannot read robbie's state: '') @ why) 503 Plain
      | Inr d \<Rightarrow>
          (case routed pn cfg d path q of
             Inr a \<Rightarrow> Inr a
           | Inl e \<Rightarrow> send (lit ''dashboard error: '' @ pn_show pn e) 500 Plain))"

section \<open>Every page is markup of the program's own\<close>

lemma rows_html:
  assumes "mapE f xs = Inr rows" "\<And>x cells. f x = Inr cells \<Longrightarrow> list_all html cells"
  shows "list_all (list_all html) rows"
  using assms by (induction xs arbitrary: rows) (auto simp: bindE_Inr_iff)

lemma link_html [simp]: "link_to rep repo pr ''pull'' = Inr s \<Longrightarrow> html s" "link_to rep repo pr ''issues'' = Inr s \<Longrightarrow> html s"
  by (auto intro: html_link_to simp: lit_def)

lemma cell_html [simp]: "html (esc rep v)" "html (sha_cell rep s)" "html [8212]"
  by (auto intro: html_intros html_text)

lemma third_html [simp]: "html THIRD_PARTY" "html NO_EXPORT" "html NONE_CELL" "html []"
  by (rule htmlI, simp add: THIRD_PARTY_def NO_EXPORT_def NONE_CELL_def html_eval)+

lemma as_of_html [simp]: "as_of pn work = Inr s \<Longrightarrow> html s"
  by (rule htmlI) (auto simp: as_of_def age_of_def bindE_Inr_iff html_eval dest!: html_ago)

lemma green_row_html: "green_row pn ts r = Inr cells \<Longrightarrow> list_all html cells"
  by (auto simp: green_row_def bindE_Inr_iff dest: html_tag)

lemma draft_row_html: "draft_row pn f = Inr cells \<Longrightarrow> list_all html cells"
  by (auto simp: draft_row_def bindE_Inr_iff dest: html_tag)

lemma approved_row_html: "approved_row pn cfg ts r = Inr cells \<Longrightarrow> list_all html cells"
  by (auto simp: approved_row_def bindE_Inr_iff Let_def html_append dest!: html_tag)

lemma fix_table_row_html: "fix_table_row pn f = Inr cells \<Longrightarrow> list_all html cells"
  by (auto simp: fix_table_row_def bindE_Inr_iff Let_def dest: html_tag split: if_splits)

lemma closing_cell_html: "closing_cell rep repo p = Inr s \<Longrightarrow> html s"
  by (rule htmlI) (auto simp: closing_cell_def bindE_Inr_iff html_eval dest!: html_tag)

lemma issue_table_row_html: "issue_table_row pn cfg i = Inr cells \<Longrightarrow> list_all html cells"
proof -
  have "html (join [32] prs)" if "mapE (closing_cell rep repo) ps = Inr prs" for rep repo ps prs
  proof (rule html_join)
    show "html [32]" by (simp add: html_text)
    show "html x" if "x \<in> set prs" for x
      using that \<open>mapE (closing_cell rep repo) ps = Inr prs\<close> closing_cell_html
      by (auto simp: mapE_Inr_conv dest: list_all2_mem2)
  qed
  then show "issue_table_row pn cfg i = Inr cells \<Longrightarrow> list_all html cells"
    by (auto simp: issue_table_row_def bindE_Inr_iff Let_def)
qed

lemma queue_row_html: "queue_row pn r = Inr cells \<Longrightarrow> list_all html cells"
  by (auto simp: queue_row_def bindE_Inr_iff Let_def dest: html_tag)

lemma review_table_row_html: "review_table_row pn r = Inr cells \<Longrightarrow> list_all html cells"
  by (auto simp: review_table_row_def bindE_Inr_iff Let_def dest: html_tag)

lemma meter_row_html: "meter_row rep m = Inr cells \<Longrightarrow> list_all html cells"
  by (auto simp: meter_row_def bindE_Inr_iff dest: html_tag)

lemma show_fixed_inert [simp]: "34 \<notin> set (show_fixed k x)" "60 \<notin> set (show_fixed k x)"
  by (auto simp: show_fixed_def zero_pad_def Let_def dest!: show_nat_digits split: if_splits)

lemma arm_row_html: "list_all html (arm_row rep weights seen arm)"
proof -
  have "html (show_fixed 0 x @ lit ''% <span class='' @ [34] @ lit ''bar'' @ [34] @ lit '' style='' @ [34]
       @ lit ''width:'' @ show_fixed 0 y @ lit ''px'' @ [34] @ lit ''></span>'')" for x y
    by (rule htmlI) (simp add: html_eval)
  then show ?thesis by (simp add: arm_row_def Let_def)
qed

lemma transcript_row_html: "transcript_row pn f = Inr cells \<Longrightarrow> list_all html cells"
proof -
  have "html (lit ''<a href='' @ [34] @ lit ''/transcript?name='' @ esc rep v @ [34] @ lit ''>'' @ esc rep v
       @ lit ''</a>'')" for rep v
    by (rule htmlI) (simp add: html_eval)
  then show "transcript_row pn f = Inr cells \<Longrightarrow> list_all html cells"
    by (auto simp: transcript_row_def bindE_Inr_iff Let_def)
qed

lemmas row_tables =
  rows_html [where f = "green_row pn ts" for pn ts, OF _ green_row_html]
  rows_html [where f = "draft_row pn" for pn, OF _ draft_row_html]
  rows_html [where f = "approved_row pn cfg ts" for pn cfg ts, OF _ approved_row_html]
  rows_html [where f = "fix_table_row pn" for pn, OF _ fix_table_row_html]
  rows_html [where f = "issue_table_row pn cfg" for pn cfg, OF _ issue_table_row_html]
  rows_html [where f = "queue_row pn" for pn, OF _ queue_row_html]
  rows_html [where f = "review_table_row pn" for pn, OF _ review_table_row_html]
  rows_html [where f = "meter_row rep" for rep, OF _ meter_row_html]
  rows_html [where f = "transcript_row pn" for pn, OF _ transcript_row_html]

lemma cards_html [simp]: "html (summary_cards rep g)" "html (system_cards rep cfg ns spent free_bytes)"
  by (auto simp: summary_cards_def system_cards_def lit_def split: prod.splits intro!: html_intros)

lemma filter_link_html: "html (filter_link chosen f)"
  by (rule htmlI, cases "fst f") (simp_all add: filter_link_def html_eval html_show_nat)

lemma summary_html: "summary_page pn cfg d q = Inr s \<Longrightarrow> html s"
proof -
  have "html (table rep hs rows [3] [1] e)" if "summary_data pn cfg d = Inr (work, g, rows)" for rep hs rows e work g
    using that by (auto simp: summary_data_def bindE_Inr_iff dest!: row_tables intro!: html_table)
  then show "summary_page pn cfg d q = Inr s \<Longrightarrow> html s"
    by (intro htmlI) (auto simp: summary_page_def bindE_Inr_iff html_eval)
qed

lemma approved_html: "approved_page pn cfg d q = Inr s \<Longrightarrow> html s"
  by (rule htmlI)
    (auto simp: approved_page_def Let_def bindE_Inr_iff html_eval html_table dest!: row_tables split: option.splits)

lemma fixes_html: "fixes_page pn cfg d q = Inr s \<Longrightarrow> html s"
  by (rule htmlI)
    (auto simp: fixes_page_def FIXES_HEAD_def bindE_Inr_iff html_eval html_table dest!: row_tables split: if_splits)

lemma issues_html: "issues_page pn cfg d q = Inr s \<Longrightarrow> html s"
  by (rule htmlI)
    (auto simp: issues_page_def issues_data_def ISSUES_HEAD_def bindE_Inr_iff html_eval html_table filter_link_html
      dest!: row_tables split: if_splits)

lemma reviews_html: "reviews_page pn cfg d q = Inr s \<Longrightarrow> html s"
  by (rule htmlI) (auto simp: reviews_page_def bindE_Inr_iff html_eval html_table dest!: row_tables)

lemma arms_html: "arms_section rep cfg d = Inr s \<Longrightarrow> html s"
proof -
  have "list_all (list_all html) (map (arm_row rep weights seen) arms)" for weights seen arms
    by (simp add: list_all_iff arm_row_html [unfolded list_all_iff])
  then show "arms_section rep cfg d = Inr s \<Longrightarrow> html s"
    by (intro htmlI) (auto simp: arms_section_def Let_def html_eval html_table split: if_splits)
qed

lemma system_html: "system_page pn cfg d q = Inr s \<Longrightarrow> html s"
  by (rule htmlI)
    (auto simp: system_page_def Let_def bindE_Inr_iff html_eval html_table html_show_nat html_show_int
      dest!: row_tables arms_html)

lemma transcripts_html: "transcripts_page pn cfg d q = Inr s \<Longrightarrow> html s"
  by (rule htmlI)
    (auto simp: transcripts_page_def TRANSCRIPTS_HEAD_def bindE_Inr_iff html_eval html_table dest!: row_tables
      split: sum.splits if_splits)

lemma page_html: "page_of path pn cfg d q = Inr s \<Longrightarrow> html s"
  using summary_html approved_html fixes_html issues_html reviews_html system_html transcripts_html
  by (simp add: page_of_def split: if_splits)

lemma CSS_inert: "60 \<notin> set CSS"
  by (simp add: CSS_def lit_def)

lemma nav_html: "p \<in> set PAGES \<Longrightarrow> html (nav_link current p)"
  by (rule htmlI) (auto simp: PAGES_def nav_link_def html_eval)

lemma two_digits_html: "html (two_digits n)"
  by (rule html_text) (auto simp: two_digits_def zero_pad_def dest: show_nat_digits)

lemma icon_html: "html ICON"
  by (rule htmlI) (simp add: ICON_def html_eval)

lemma shell_html:
  assumes "html body" shows "html (shell pn cfg current body title refresh)"
proof -
  have n: "html (concat (map (nav_link current) PAGES))" by (rule html_concat) (auto simp: nav_html)
  have r: "list_all is_digit (show_nat REFRESH_S)" by (simp add: list_all_iff show_nat_is_digit)
  show ?thesis
    by (rule htmlI) (simp add: shell_def Let_def html_eval html_text [OF CSS_inert] n assms two_digits_html icon_html
        REFRESH_S_def show_nat.simps)
qed


lemma transcript_page_html: "html (transcript_page pn cfg name body)"
  unfolding transcript_page_def by (rule shell_html, rule htmlI) (simp add: html_eval)

lemma render_html: "render pn cfg d path q = Inr (Some page) \<Longrightarrow> html page"
  by (auto simp: render_def bindE_Inr_iff split: option.splits intro!: shell_html dest: page_html)

lemma send_Inr [simp]:
  "send body code kind = Inr a \<longleftrightarrow> encodable body \<and> a = \<lparr>an_status = code, an_kind = kind, an_body = body\<rparr>"
  by (auto simp: send_def)

lemma routed_html: "routed pn cfg d path q = Inr a \<Longrightarrow> an_kind a = Markup \<Longrightarrow> html (an_body a)"
  by (auto simp: routed_def bindE_Inr_iff transcript_page_html dest: render_html split: if_splits option.splits)

lemma encodable_parts [simp]: "encodable []" "encodable (a @ b) \<longleftrightarrow> encodable a \<and> encodable b"
    "encodable (c # s) \<longleftrightarrow> \<not> (55296 \<le> c \<and> c \<le> 57343) \<and> encodable s"
  by (auto simp: encodable_def)

lemma encodable_escape: "encodable s \<Longrightarrow> encodable (escape s)"
  unfolding escape_def by (induction s) (auto simp: escape_char_def lit_def)

lemma encodable_CSS: "encodable CSS" "encodable ICON"
  by (simp_all add: CSS_def ICON_def lit_def)

end
