(* ===== verification/Boot.thy ===== *)
theory Boot
  imports Command Dashboard
begin

text \<open>
  What happens before the daemon runs: the YAML file becomes a configuration (\<open>load\<close>, \<open>_NoDupes\<close>,
  \<open>_read_yaml\<close>, \<open>_check_paths\<close> of \<open>src/robbie/config.py\<close>), and the house-keeping of
  \<open>src/robbie/runner.py\<close> (\<open>prune_transcripts\<close>, \<open>_kill\<close>). The YAML parser and pydantic's reading of
  field types are parameters; which keys a file may repeat, what is checked and in which order
  is the program's. The properties: nothing a file sets is dropped in silence, a configuration
  that is loaded is one the other theories can rely on, and only old transcripts are removed.
\<close>

section \<open>Keys are set once\<close>

text \<open>
  A YAML document as its parser composes it, with the scalars resolved and the line of a key; and
  what is constructed from it. Aliases are written out; a key is its value up to Python's equality.
\<close>

datatype ynode = Scalar json nat | Sequence "ynode list" | Mapping "(ynode \<times> ynode) list"

datatype yval = VScalar json | VSeq "yval list" | VMap "(json \<times> yval) list"

text \<open>\<open>name in seen\<close> hashes the key: a sequence or a mapping is a \<open>TypeError\<close>.\<close>

fun key_name :: "ynode \<Rightarrow> json res" where
  "key_name (Scalar j line) = (if hashable j then Inr (norm_key j) else Inl TypeError)"
| "key_name _ = Inl TypeError"

definition see_key :: "json list \<Rightarrow> ynode \<Rightarrow> json list res" where
  "see_key seen key =
     bindE (key_name key) (\<lambda>name. if name \<in> set seen then Inl SystemExit else Inr (name # seen))"

lemma mapE_cong [fundef_cong]:
  "xs = ys \<Longrightarrow> (\<And>x. x \<in> set ys \<Longrightarrow> f x = g x) \<Longrightarrow> mapE f xs = mapE g ys"
  by (induction ys arbitrary: xs) auto

text \<open>\<open>construct_mapping\<close> at every depth; \<open>mapping[key] = value\<close> replaces.\<close>

fun construct :: "ynode \<Rightarrow> yval res" where
  "construct (Scalar j line) = Inr (VScalar j)"
| "construct (Sequence ns) = bindE (mapE construct ns) (\<lambda>vs. Inr (VSeq vs))"
| "construct (Mapping kvs) =
     bindE (foldE see_key [] (map fst kvs)) (\<lambda>_.
     bindE (mapE (\<lambda>kv. bindE (key_name (fst kv)) (\<lambda>k. bindE (construct (snd kv)) (\<lambda>v. Inr (k, v)))) kvs) (\<lambda>ps.
       Inr (VMap (foldl (\<lambda>d p. dset (fst p) (snd p) d) [] ps))))"

section \<open>Loading\<close>

record boot_files =
  bt_is_file :: "str \<Rightarrow> bool"
  bt_text :: "str \<Rightarrow> str res"
  bt_compose :: "str \<Rightarrow> ynode res"                     \<comment> \<open>the YAML parser\<close>
  bt_decode :: "yval \<Rightarrow> config res"                    \<comment> \<open>pydantic: fields, types and defaults\<close>
  bt_mkdir :: "str \<Rightarrow> unit res"
  bt_is_dir :: "str \<Rightarrow> bool"

definition read_yaml :: "boot_files \<Rightarrow> str \<Rightarrow> yval res" where
  "read_yaml f path = bindE (bindE (bt_text f path) (bt_compose f)) construct"

text \<open>\<open>Config.model_validate\<close>: the fields, then the validators of every model.\<close>

definition model_validate :: "boot_files \<Rightarrow> yval \<Rightarrow> config res" where
  "model_validate f v =
     bindE (bt_decode f v) (\<lambda>cfg.
     bindE (mapE check_repo_config (cfg_repos cfg)) (\<lambda>_. check_config cfg))"

definition config_path :: "str option \<Rightarrow> environ \<Rightarrow> str" where
  "config_path arg e =
     (if blank_opt arg then (case e (lit ''ROBBIE_CONFIG'') of None \<Rightarrow> (lit ''config/robbie.yaml'') | Some p \<Rightarrow> p) else opt_str arg)"

definition check_paths :: "boot_files \<Rightarrow> config \<Rightarrow> unit res" where
  "check_paths f cfg =
     (if \<exists>rc \<in> set (cfg_repos cfg). \<not> bt_is_dir f (rc_bare rc) then Inl SystemExit
      else if (case cfg_policy_dir cfg of None \<Rightarrow> False | Some p \<Rightarrow> \<not> bt_is_dir f p) then Inl SystemExit
      else Inr ())"

definition load :: "boot_files \<Rightarrow> str option \<Rightarrow> environ \<Rightarrow> config res" where
  "load f arg e =
     (let path = config_path arg e in
      if \<not> bt_is_file f path then Inl SystemExit
      else
        bindE (bindE (read_yaml f path) (model_validate f)) (\<lambda>cfg.
        bindE (case bt_mkdir f (transcript_dir cfg) of
            Inl x \<Rightarrow> if x = OtherError (lit ''OSError'') then Inl SystemExit else Inl x
          | Inr u \<Rightarrow> Inr u) (\<lambda>_.
        bindE (check_paths f cfg) (\<lambda>_. Inr cfg))))"

section \<open>House-keeping\<close>

definition TRANSCRIPT_DAYS :: nat where "TRANSCRIPT_DAYS = 30"

record dir_entry =
  de_name :: str
  de_is_file :: bool
  de_mtime :: "rat res"
  de_unlink :: "unit res"

text \<open>\<open>contextlib.suppress(OSError)\<close> around one entry: whether it went.\<close>

definition suppress_os :: "bool res \<Rightarrow> bool res" where
  "suppress_os r = (case r of Inl x \<Rightarrow> if x = OtherError (lit ''OSError'') then Inr False else Inl x | Inr b \<Rightarrow> Inr b)"

definition prune_entry :: "rat \<Rightarrow> dir_entry \<Rightarrow> bool res" where
  "prune_entry cutoff d =
     suppress_os
       (if \<not> de_is_file d then Inr False
        else bindE (de_mtime d) (\<lambda>t. if t < cutoff then bindE (de_unlink d) (\<lambda>_. Inr True) else Inr False))"

definition pruned :: "rat \<Rightarrow> dir_entry list \<Rightarrow> dir_entry list res" where
  "pruned t entries = keepE (prune_entry (t - of_nat (TRANSCRIPT_DAYS * 86400))) entries"

definition prune_transcripts :: "rat \<Rightarrow> dir_entry list res \<Rightarrow> nat res" where
  "prune_transcripts t listing =
     (case listing of
        Inl x \<Rightarrow> if x = OtherError (lit ''OSError'') then Inr 0 else Inl x
      | Inr entries \<Rightarrow> bindE (pruned t entries) (\<lambda>gone. Inr (length gone)))"

definition kill_argv :: "str \<Rightarrow> str list" where
  "kill_argv name = [(lit ''docker''), (lit ''kill''), name]"

section \<open>A file says what it says\<close>

text \<open>The value of a document with every key in it, and whether its keys are distinct at every depth.\<close>

fun plain :: "ynode \<Rightarrow> yval" where
  "plain (Scalar j line) = VScalar j"
| "plain (Sequence ns) = VSeq (map plain ns)"
| "plain (Mapping kvs) =
     VMap (map (\<lambda>kv. (case key_name (fst kv) of Inr k \<Rightarrow> k | Inl x \<Rightarrow> JNull, plain (snd kv))) kvs)"

fun keys_once :: "ynode \<Rightarrow> bool" where
  "keys_once (Scalar j line) \<longleftrightarrow> True"
| "keys_once (Sequence ns) \<longleftrightarrow> list_all keys_once ns"
| "keys_once (Mapping kvs) \<longleftrightarrow>
     list_all (\<lambda>kv. \<exists>k. key_name (fst kv) = Inr k) kvs \<and> distinct (map (key_name \<circ> fst) kvs) \<and>
     list_all (\<lambda>kv. keys_once (snd kv)) kvs"

lemma see_keys:
  "(\<exists>r. foldE see_key seen ks = Inr r) \<longleftrightarrow>
     (\<exists>ns. mapE key_name ks = Inr ns \<and> distinct ns \<and> set ns \<inter> set seen = {})"
proof (induction ks arbitrary: seen)
  case (Cons k ks)
  show ?case
  proof (cases "key_name k")
    case (Inr n)
    then show ?thesis using Cons [of "n # seen"] by (cases "mapE key_name ks") (auto simp: see_key_def)
  qed (simp add: see_key_def)
qed simp

lemma key_names: "mapE key_name (map fst kvs) = Inr ns \<longleftrightarrow> map (key_name \<circ> fst) kvs = map Inr ns"
proof (induction kvs arbitrary: ns)
  case (Cons kv kvs)
  then show ?case by (cases ns) (auto simp: bindE_Inr_iff)
qed auto

definition plain_pair :: "ynode \<times> ynode \<Rightarrow> json \<times> yval" where
  "plain_pair kv = (case key_name (fst kv) of Inr k \<Rightarrow> k | Inl x \<Rightarrow> JNull, plain (snd kv))"

lemma keys_seen:
  "(\<exists>r. foldE see_key [] (map fst kvs) = Inr r) \<longleftrightarrow>
     list_all (\<lambda>kv. \<exists>k. key_name (fst kv) = Inr k) kvs \<and> distinct (map (key_name \<circ> fst) kvs)"
proof -
  have "(\<exists>ns. map (key_name \<circ> fst) kvs = map Inr ns) \<longleftrightarrow> list_all (\<lambda>kv. \<exists>k. key_name (fst kv) = Inr k) kvs"
    by (induction kvs) (auto simp: Cons_eq_map_conv)
  moreover have "map (key_name \<circ> fst) kvs = map Inr ns \<Longrightarrow> distinct ns \<longleftrightarrow> distinct (map (key_name \<circ> fst) kvs)" for ns
    by (simp add: distinct_map)
  ultimately show ?thesis unfolding see_keys key_names by auto
qed

lemma dict_of_plain:
  assumes "list_all (\<lambda>kv. \<exists>k. key_name (fst kv) = Inr k) kvs" "distinct (map (key_name \<circ> fst) kvs)"
  shows "foldl (\<lambda>d p. dset (fst p) (snd p) d) [] (map plain_pair kvs) = map plain_pair kvs"
proof -
  have "map Inr (map fst (map plain_pair kvs)) = map (key_name \<circ> fst) kvs"
    using assms(1) by (auto simp: list_all_iff plain_pair_def)
  with assms(2) have "distinct (map Inr (map fst (map plain_pair kvs)) :: json res list)" by (simp only:)
  then have "distinct (map fst (map plain_pair kvs))" unfolding distinct_map [of Inr] by (rule conjunct1)
  then show ?thesis using foldl_dset_distinct [of "map plain_pair kvs" "[]"] by simp
qed

lemma yaml_keeps: "construct n = Inr v \<longleftrightarrow> keys_once n \<and> v = plain n"
proof (induction n arbitrary: v)
  case (Sequence ns)
  have "mapE construct ns = Inr vs \<longleftrightarrow> list_all keys_once ns \<and> vs = map plain ns" for vs
    using Sequence by (induction ns arbitrary: vs) (auto simp: bindE_Inr_iff)
  then show ?case by (auto simp: bindE_Inr_iff)
next
  case (Mapping kvs)
  let ?pair = "\<lambda>kv. bindE (key_name (fst kv)) (\<lambda>k. bindE (construct (snd kv)) (\<lambda>v. Inr (k, v)))"
  have IH: "construct (snd kv) = Inr v \<longleftrightarrow> keys_once (snd kv) \<and> v = plain (snd kv)" if "kv \<in> set kvs" for kv v
    using Mapping [of kv "snd kv"] that by (cases kv) auto
  then have pairs: "mapE ?pair kvs = Inr ps \<longleftrightarrow>
      list_all (\<lambda>kv. \<exists>k. key_name (fst kv) = Inr k) kvs \<and> list_all (\<lambda>kv. keys_once (snd kv)) kvs \<and> ps = map plain_pair kvs" for ps
    by (induction kvs arbitrary: ps) (auto simp: bindE_Inr_iff plain_pair_def)
  show ?case using pairs keys_seen [of kvs] dict_of_plain [of kvs] by (auto simp: bindE_Inr_iff plain_pair_def [abs_def, symmetric])
qed auto

text \<open>C39: Nothing a configuration file sets is dropped in silence: a document is read exactly when no mapping in
  it, however deep, names a key twice, and what is read then holds every key with its value, in order.\<close>

theorem yaml_keeps_every_key: "construct n = Inr v \<longleftrightarrow> keys_once n \<and> v = plain n"
  by (rule yaml_keeps)

section \<open>A configuration that was loaded\<close>

text \<open>C40: A configuration the daemon starts with is sound: every repository has a slug of two parts, a login and a
  label that cannot break out of a search, and a mirror that is a directory here; a queue that is read is one a
  label takes an issue out of; reviewers can reach the proxy; and no key of the file was set twice.\<close>

theorem loaded_config_is_sound:
  assumes "load f arg e = Inr cfg"
  shows "(\<forall>rc \<in> set (cfg_repos cfg). slug_ok (rc_slug rc) \<and> login_ok (rc_reviewer_login rc) \<and> label_ok (rc_label rc) \<and>
      ref_ok (rc_criteria_ref rc) \<and> bt_is_dir f (rc_bare rc) \<and> check_issue_config (rc_issues rc) = Inr (rc_issues rc)) \<and>
    check_config cfg = Inr cfg \<and>
    (\<exists>n. bindE (bt_text f (config_path arg e)) (bt_compose f) = Inr n \<and> keys_once n \<and> bt_decode f (plain n) = Inr cfg)"
proof -
  from assms obtain n v cs where n: "bindE (bt_text f (config_path arg e)) (bt_compose f) = Inr n"
    and v: "construct n = Inr v" and d: "bt_decode f v = Inr cfg"
    and rs: "mapE check_repo_config (cfg_repos cfg) = Inr cs" and c: "check_config cfg = Inr cfg"
    and p: "check_paths f cfg = Inr ()"
    by (auto simp: load_def read_yaml_def model_validate_def bindE_Inr_iff Let_def check_config_def split: if_splits)
  from v yaml_keeps [of n v] have "keys_once n \<and> bt_decode f (plain n) = Inr cfg" using d by simp
  moreover have "slug_ok (rc_slug rc) \<and> login_ok (rc_reviewer_login rc) \<and> label_ok (rc_label rc) \<and>
      ref_ok (rc_criteria_ref rc) \<and> bt_is_dir f (rc_bare rc) \<and> check_issue_config (rc_issues rc) = Inr (rc_issues rc)"
    if "rc \<in> set (cfg_repos cfg)" for rc
  proof -
    from rs that obtain q where "check_repo_config rc = Inr q"
      by (auto simp: mapE_Inr_conv dest: list_all2_mem1)
    moreover have "bt_is_dir f (rc_bare rc)" using p that by (auto simp: check_paths_def split: if_splits)
    ultimately show ?thesis
      by (auto simp: check_repo_config_def check_issue_config_def bindE_Inr_iff split: if_splits)
  qed
  ultimately show ?thesis using n c by blast
qed

section \<open>Only old transcripts go\<close>

definition os_only :: "'a res \<Rightarrow> bool" where
  "os_only r \<longleftrightarrow> (case r of Inl x \<Rightarrow> x = OtherError (lit ''OSError'') | Inr u \<Rightarrow> True)"

definition old_file :: "rat \<Rightarrow> dir_entry \<Rightarrow> bool" where
  "old_file t d \<longleftrightarrow> de_is_file d \<and> (case de_mtime d of Inr m \<Rightarrow> m < t - 2592000 | Inl x \<Rightarrow> False)"

text \<open>
  Pruning never raises, removes nothing that is a month old or younger, and one file it cannot
  remove does not keep the others.
\<close>

theorem only_old_transcripts_go:
  assumes "\<forall>d \<in> set entries. os_only (de_mtime d) \<and> os_only (de_unlink d)"
  shows "pruned t entries = Inr (filter (\<lambda>d. old_file t d \<and> de_unlink d = Inr ()) entries)"
proof -
  have "prune_entry (t - of_nat (TRANSCRIPT_DAYS * 86400)) d = Inr (old_file t d \<and> de_unlink d = Inr ())"
    if "os_only (de_mtime d)" "os_only (de_unlink d)" for d
    using that
    by (auto simp: prune_entry_def suppress_os_def old_file_def os_only_def TRANSCRIPT_DAYS_def split: sum.splits)
  with assms show ?thesis
    unfolding pruned_def by (induction entries) (auto simp: keepE_def bindE_Inr_iff)
qed

section \<open>Witnesses\<close>

definition sample_boot :: boot_files where
  "sample_boot =
     \<lparr>bt_is_file = (\<lambda>p. True), bt_text = (\<lambda>p. Inr []),
      bt_compose = (\<lambda>s. Inr (Mapping
        [(Scalar (JStr (lit ''bot_name'')) 1, Scalar (JStr (lit ''robbie'')) 1),
         (Scalar (JStr (lit ''docker'')) 2, Mapping [(Scalar (JStr (lit ''cpus'')) 3, Scalar (JInt 2) 3)])])),
      bt_decode = (\<lambda>v. Inr sample_config), bt_mkdir = (\<lambda>p. Inr ()), bt_is_dir = (\<lambda>p. True)\<rparr>"

theorem loaded_config_is_sound_witness:
  "load sample_boot None (\<lambda>n. None) = Inr sample_config \<and> slug_ok (rc_slug sample_repo)"
proof -
  have r: "check_repo_config sample_repo = Inr sample_repo"
    by (simp add: check_repo_config_def sample_repo_def slug_ok_def login_ok_def label_ok_def ref_ok_def
        check_issue_config_def sample_issues_def is_space_def is_alnum_ascii_def lit_def)
  have c: "check_config sample_config = Inr sample_config" "mapE check_repo_config (cfg_repos sample_config) = Inr [sample_repo]"
      "cfg_repos sample_config = [sample_repo]" "cfg_policy_dir sample_config = None"
    using r by (simp_all add: check_config_def sample_config_def)
  have l: "load sample_boot None (\<lambda>n. None) = Inr sample_config"
    using c by (simp add: load_def read_yaml_def model_validate_def sample_boot_def check_paths_def see_key_def lit_def Let_def)
  from loaded_config_is_sound [OF l] l show ?thesis using c(3) by simp
qed

end
