(* ===== verification/Panel.thy ===== *)
theory Panel
  imports Dashboard
begin

text \<open>
  What the panel (\<open>src/robbie/dashboard.py\<close>) promises: an answer is the program's own markup
  whatever it shows, a transcript lies in its directory, the numbers are those of the rows, a
  request is always answered, and what the daemon exports the panel can show.
\<close>

section \<open>Properties\<close>

text \<open>C12: Whatever stands in the database, in the export, in a transcript or in the request, an
  answer the panel sends as markup has no tag and no attribute but those the program wrote.\<close>

theorem panel_escapes:
  assumes "do_get pn cfg opened path q = Inr a" "an_kind a = Markup"
  shows "html (an_body a)"
  using assms by (auto simp: do_get_def split: sum.splits dest: routed_html)

definition sample_panel :: panel where
  "sample_panel =
     \<lparr>pn_clock = \<lparr>ck_now = 0, ck_midnight = 0, ck_date = [], ck_hour = [], ck_minute = (\<lambda>s. s)\<rparr>, pn_time = 0,
      pn_hms = (1, 2, 3), pn_export = None, pn_loads = (\<lambda>s. Inl ValueError), pn_rep = (\<lambda>j. []),
      pn_booted = False, pn_free = Inr 0, pn_files = Inr [], pn_stat = (\<lambda>n. Inr (0, 0)),
      pn_resolve = (\<lambda>p. Inr (split_on 47 (tl p))), pn_is_file = (\<lambda>p. True),
      pn_read = (\<lambda>p. Inr (lit ''<script src=x>'')), pn_show = (\<lambda>e. lit ''error'')\<rparr>"

definition sample_query :: query where
  "sample_query = [(lit ''name'', lit ''a.md'')]"

text \<open>C36: A transcript that is shown lies directly in the directory of transcripts, is a file, and is
  named as a transcript is; the name in the request can make the panel read nothing else.\<close>

theorem transcript_confined:
  assumes "transcript_body pn cfg name = Inr (Some s)"
  shows "\<exists>base file. pn_resolve pn (transcript_dir cfg) = Inr base \<and> pn_is_file pn (base @ [file])
    \<and> pn_read pn (base @ [file]) = Inr s \<and> suffix_of file \<in> {lit ''.md'', lit ''.err''}"
proof -
  from assms obtain base target where t: "pn_resolve pn (transcript_dir cfg) = Inr base"
      "butlast target = base" "pn_is_file pn target" "suffix_of (last_or [] target) \<in> {lit ''.md'', lit ''.err''}"
      "pn_read pn target = Inr s"
    by (auto simp: transcript_body_def bindE_Inr_iff split: if_splits)
  have "suffix_of [] \<notin> {lit ''.md'', lit ''.err''}" by (simp add: suffix_of_def lit_def)
  with t(4) have "target \<noteq> []" by (auto simp: last_or_def)
  then have "target = base @ [last_or [] target]" using t(2) by (auto simp: last_or_def)
  with t show ?thesis by metis
qed

text \<open>The three numbers over the issues are those of the rows: all of them are the linked and the
  bare ones together, and the filter in force shows exactly as many rows as it says.\<close>

lemma keepE_pure: "keepE (\<lambda>x. bindE (g x) (\<lambda>v. Inr (p v))) xs = Inr ys \<Longrightarrow>
    \<exists>vs. mapE g xs = Inr vs \<and> ys = map fst (filter (\<lambda>z. p (snd z)) (zip xs vs))"
proof (induction xs arbitrary: ys)
  case Nil then show ?case by (simp add: keepE_def)
next
  case (Cons x xs)
  from Cons.prems obtain v vs' rest where "g x = Inr v"
      and rest: "keepE (\<lambda>x. bindE (g x) (\<lambda>v. Inr (p v))) xs = Inr rest" and "ys = (if p v then x # rest else rest)"
    by (fastforce simp: keepE_def bindE_Inr_iff)
  with Cons.IH [OF rest] show ?case by (auto simp: bindE_Inr_iff)
qed

lemma keepE_split:
  assumes "keepE (\<lambda>x. bindE (g x) (\<lambda>v. Inr (p v))) xs = Inr as"
    and "keepE (\<lambda>x. bindE (g x) (\<lambda>v. Inr (\<not> p v))) xs = Inr bs"
  shows "length xs = length as + length bs"
proof -
  from keepE_pure [OF assms(1)] keepE_pure [OF assms(2)] obtain vs where vs: "mapE g xs = Inr vs"
    and as: "as = map fst (filter (\<lambda>z. p (snd z)) (zip xs vs))"
    and bs: "bs = map fst (filter (\<lambda>z. \<not> p (snd z)) (zip xs vs))" by auto
  from vs have "length xs = length vs" by (auto simp: mapE_Inr_conv dest: list_all2_lengthD)
  then show ?thesis
    using sum_length_filter_compl [of "\<lambda>z. p (snd z)" "zip xs vs"] by (simp add: as bs)
qed

lemma keepE_all: "keepE (matches_filter All_issues) xs = Inr ys \<Longrightarrow> ys = xs"
  by (induction xs arbitrary: ys) (fastforce simp: keepE_def bindE_Inr_iff)+

theorem filters_count_rows:
  assumes "issues_data pn cfg q work = Inr (fs, rows)"
  shows "\<exists>linked bare. fs = [(All_issues, linked + bare), (With_pr, linked), (Without_pr, bare)]
    \<and> (shown_filter q, length rows) \<in> set fs"
proof -
  from assms obtain assigned linked bare chosen where
      l: "keepE (matches_filter With_pr) assigned = Inr linked"
    and b: "keepE (matches_filter Without_pr) assigned = Inr bare"
    and c: "keepE (matches_filter (shown_filter q)) assigned = Inr chosen"
    and r: "mapE (issue_table_row pn cfg) chosen = Inr rows"
    and fs: "fs = [(All_issues, length assigned), (With_pr, length linked), (Without_pr, length bare)]"
    by (auto simp: issues_data_def bindE_Inr_iff)
  from r have n: "length rows = length chosen" by (auto simp: mapE_Inr_conv dest: list_all2_lengthD)
  have t: "length assigned = length linked + length bare"
    using keepE_split [OF l [unfolded matches_filter.simps], OF b [unfolded matches_filter.simps]] .
  from c l b have "(shown_filter q, length chosen) \<in> set fs"
    by (cases "shown_filter q") (auto simp: fs dest: keepE_all)
  with n t fs show ?thesis by auto
qed

text \<open>One bad page never kills the server: with the database open and messages that can be sent,
  every request is answered.\<close>

theorem panel_always_answers:
  assumes "\<And>e. encodable (pn_show pn e)"
  shows "\<exists>a. do_get pn cfg (Inr d) path q = Inr a"
  using assms by (cases "routed pn cfg d path q") (auto simp: do_get_def lit_def)

section \<open>What the daemon exports\<close>

text \<open>A row the panel can show among the fixes.\<close>

definition shows_fix :: "json \<Rightarrow> bool" where
  "shows_fix j \<longleftrightarrow>
     (\<exists>r n m repo title issue i t s c. j = JObj r \<and> dget r (lit ''repo'') = Some repo \<and>
        dget r (lit ''number'') = Some n \<and> py_int n = Inr m \<and> dget r (lit ''title'') = Some title \<and>
        dget r (lit ''issue'') = Some issue \<and> (issue = JNull \<or> issue = JInt i) \<and>
        dget r (lit ''opened_at'') = Some (JInt t) \<and> dget r (lit ''status'') = Some (JStr s) \<and>
        dget r (lit ''ci'') = Some c \<and> hashable c)"

lemma ago_int: "\<exists>s. ago t (JInt i) = Inr s"
  by (simp add: ago_def Let_def)

lemma tag_total: "hashable w \<Longrightarrow> \<exists>s. tag rep w JNull = Inr s"
  by (cases w) (auto simp: tag_def tone_of_def jor_def)

lemma fix_table_row_total:
  assumes "shows_fix j" shows "\<exists>cells. fix_table_row pn j = Inr cells"
proof -
  from assms obtain r n m repo title issue i t s c where r: "j = JObj r" "dget r (lit ''repo'') = Some repo"
      "dget r (lit ''number'') = Some n" "py_int n = Inr m" "dget r (lit ''title'') = Some title"
      "dget r (lit ''issue'') = Some issue" "issue = JNull \<or> issue = JInt i"
      "dget r (lit ''opened_at'') = Some (JInt t)" "dget r (lit ''status'') = Some (JStr s)"
      "dget r (lit ''ci'') = Some c" "hashable c"
    unfolding shows_fix_def by blast
  obtain st where st: "tag (pn_rep pn) (JStr s) JNull = Inr st" using tag_total [of "JStr s"] by auto
  obtain ci where ci: "tag (pn_rep pn) c JNull = Inr ci" using tag_total [OF r(11)] by blast
  obtain a where a: "ago (pn_time pn) (JInt (t * 1000)) = Inr a" using ago_int by blast
  have l: "\<exists>l. link_to (pn_rep pn) repo n k = Inr l" for k using r(4) by (simp add: link_to_def)
  obtain l1 where l1: "link_to (pn_rep pn) repo n ''pull'' = Inr l1" using l by blast
  have "\<exists>l. (if truthy issue then link_to (pn_rep pn) repo issue ''issues'' else Inr [8212]) = Inr l"
    using r(7) by (auto simp: link_to_def)
  then obtain l2 where l2: "(if truthy issue then link_to (pn_rep pn) repo issue ''issues'' else Inr [8212]) = Inr l2" by blast
  show ?thesis
    unfolding fix_table_row_def Let_def r(1)
    using r(2,3,5,6,8,9,10) st ci a l1 l2 by (simp add: age_of_def)
qed

lemma mapE_ends: "(\<And>x. x \<in> set xs \<Longrightarrow> \<exists>y. f x = Inr y) \<Longrightarrow> \<exists>ys. mapE f xs = Inr ys"
  by (induction xs) (auto, metis bindE.simps(2))

lemma by_number_ints:
  assumes "by_number prs = Inr d" "pr \<in> set prs" shows "\<exists>m. number_of pr = Inr m"
proof -
  have "foldE (\<lambda>d pr. bindE (number_of pr) (\<lambda>n. Inr (dset n pr d))) acc prs = Inr d \<Longrightarrow> pr \<in> set prs
      \<Longrightarrow> \<exists>m. number_of pr = Inr m" for acc
    by (induction prs arbitrary: acc) (auto simp: bindE_Inr_iff)
  with assms show ?thesis by (simp add: by_number_def)
qed

lemma issue_number_shape: "issue_number s = Inr i \<Longrightarrow> i = JNull \<or> (\<exists>k. i = JInt k)"
  by (auto simp: issue_number_def split: if_splits option.splits)

lemma mine_if_ci:
  assumes "mine_if en fd rc pr w = (Inr rs, w')" "r \<in> set rs" shows "hashable (row_field r ''ci'')"
proof -
  from assms obtain f ci where f: "mine_fields rc pr = Inr f" and r: "r = snd (snd f) @ [(lit ''ci'', JStr ci)]"
    by (auto simp: mine_if_def mine_def bindM_Inr liftE_Inr ret_def split: if_splits)
  from f have "dget (snd (snd f)) (lit ''ci'') = None"
    by (auto simp: mine_fields_def brief_def bindE_Inr_iff lit_def)
  then show ?thesis by (simp add: r row_field_def dget_or_def map_add_def)
qed


lemma mapM_mem:
  assumes "mapM f xs w = (Inr ys, w')" "y \<in> set ys"
  shows "\<exists>x \<in> set xs. \<exists>u u'. f x u = (Inr y, u')"
  using assms
proof (induction xs arbitrary: ys w)
  case (Cons x xs)
  then show ?case by (fastforce simp: bindM_Inr ret_def)
qed (simp add: ret_def)

lemma mine_all_ci:
  assumes "mine_all en fd rc prs w = (Inr ows, w')" "r \<in> set ows" shows "hashable (row_field r ''ci'')"
proof -
  from assms obtain rs rss w1 where "mapM (mine_if en fd rc) prs w = (Inr rss, w1)" "rs \<in> set rss" "r \<in> set rs"
    by (auto simp: mine_all_def bindM_Inr ret_def)
  then show ?thesis using mapM_mem mine_if_ci by metis
qed

lemma fix_fields_shape:
  assumes "fix_fields fd rc pr s = Inr r" "number_of pr = Inr m"
    and "\<And>p. p \<in> set ows \<Longrightarrow> hashable (row_field p ''ci'')"
  shows "shows_fix (JObj (with_ci ows r))"
proof -
  have c: "hashable (case find_first P (rev ows) of None \<Rightarrow> JNull | Some p \<Rightarrow> row_field p ''ci'')" for P
    using assms(3) by (auto split: option.splits dest!: find_first_SomeD)
  from assms(1) obtain b i opened draft ls st where b: "brief rc pr = Inr b" and i: "issue_number s = Inr i"
    and r: "r = b @ [(lit ''issue'', i), (lit ''opened_at'', JInt opened), (lit ''draft'', JBool draft),
                 (lit ''labels'', JList ls), (lit ''status'', JStr st)]"
    by (auto simp: fix_fields_def bindE_Inr_iff)
  from b obtain n title url login where n: "jitem pr (lit ''number'') = Inr n"
    and b': "b = [(lit ''repo'', JStr (rc_slug rc)), (lit ''number'', n), (lit ''title'', title),
            (lit ''url'', url), (lit ''author'', jor login (JStr []))]"
    by (auto simp: brief_def bindE_Inr_iff)
  from n assms(2) have "py_int n = Inr m" by (simp add: number_of_def)
  then show ?thesis
    unfolding shows_fix_def with_ci_def r b' using c issue_number_shape [OF i]
    by (auto simp: lit_def)
qed

lemma fix_row_mem:
  assumes "fix_row fd rc pr = Inr rs" "r \<in> set rs" shows "\<exists>s. fix_fields fd rc pr s = Inr r"
proof -
  from assms(1) obtain b where b: "text_field pr ''headRefName'' = Inr b" by (auto simp: fix_row_def bindE_Inr_iff)
  show ?thesis
    using assms by (cases b) (auto simp: fix_row_def b bindE_Inr_iff split: option.split_asm)
qed

lemma repo_fixes_show:
  assumes "repo_worklist en fd rc w = (Inr p, w')" "(lit ''fixes'', xs) \<in> set p" "x \<in> set xs"
  shows "shows_fix x"
proof -
  from assms(1) obtain prs open_prs w1 where o: "by_number prs = Inr open_prs"
    and l: "repo_lists en fd rc prs open_prs w1 = (Inr p, w')"
    unfolding repo_worklist_def by (auto simp: bindM_Inr liftE_Inr)
  from l assms(2) obtain rss ows w2 w3 where f: "mapE (fix_row fd rc) prs = Inr rss"
    and ows: "mine_all en fd rc prs w2 = (Inr ows, w3)"
    and "xs = objects (map (with_ci ows) (concat rss))"
    unfolding repo_lists_def Let_def by (auto simp: bindM_Inr liftE_Inr ret_def bindE_Inr_iff lit_def)
  with assms(3) obtain r rs where r: "r \<in> set rs" "rs \<in> set rss" and x: "x = JObj (with_ci ows r)"
    by (auto simp: objects_def)
  from f have "list_all2 (\<lambda>pr rs. fix_row fd rc pr = Inr rs) prs rss" by (simp add: mapE_Inr_conv)
  from list_all2_mem2 [OF this r(2)] obtain pr where pr: "pr \<in> set prs" "fix_row fd rc pr = Inr rs" by blast
  from fix_row_mem [OF pr(2) r(1)] obtain s where "fix_fields fd rc pr s = Inr r" by blast
  moreover from by_number_ints [OF o pr(1)] obtain m where "number_of pr = Inr m" by blast
  ultimately show ?thesis unfolding x using mine_all_ci [OF ows] by (rule fix_fields_shape)
qed

lemma merge_part_all:
  assumes "\<forall>x \<in> set (dget_or acc k []). P x" "\<And>xs x. (k, xs) \<in> set p \<Longrightarrow> x \<in> set xs \<Longrightarrow> P x"
  shows "\<forall>x \<in> set (dget_or (merge_part acc p) k []). P x"
  using assms
proof (induction p arbitrary: acc)
  case (Cons kv p)
  let ?acc = "dset (fst kv) (dget_or acc (fst kv) [] @ snd kv) acc"
  have "\<forall>x \<in> set (dget_or ?acc k []). P x"
    using Cons.prems(1) Cons.prems(2) [of "snd kv"] by (cases kv) (auto simp: dget_or_def split: option.splits)
  then have "\<forall>x \<in> set (dget_or (merge_part ?acc p) k []). P x"
    by (rule Cons.IH) (use Cons.prems(2) in auto)
  then show ?case by (simp add: merge_part_def)
qed (simp add: merge_part_def)

lemma all_parts_fixes:
  assumes "all_parts en fd acc rcs w = (Inr (Some p), w')" "\<forall>x \<in> set (dget_or acc (lit ''fixes'') []). shows_fix x"
  shows "\<forall>x \<in> set (dget_or p (lit ''fixes'') []). shows_fix x"
  using assms
proof (induction rcs arbitrary: acc w)
  case (Cons rc rcs)
  from Cons.prems(1) obtain q w1 w2 where q: "repo_worklist en fd rc w = (Inr q, w1)"
    and rest: "all_parts en fd (merge_part acc q) rcs w2 = (Inr (Some p), w')"
    by (auto simp: bindM_Inr catch_gh_def catchM_def ret_def bindM_def raiseM_def split: prod.splits sum.splits option.splits exn.splits)
  show ?case
    by (rule Cons.IH [OF rest], rule merge_part_all [OF Cons.prems(2)]) (rule repo_fixes_show [OF q])
qed (simp add: ret_def)

text \<open>What the daemon exports the panel can show, while it is the file the panel reads.\<close>

lemma exported_fixes_shown:
  assumes "export_once en fd cx w = (Inr (Some files), w')"
    and "worklist pn = Inr (JObj (wr_worklist files))"
  shows "\<exists>s. fixes_page pn cfg d q = Inr s"
proof -
  from assms(1) obtain acc w1 t where acc: "all_parts en fd [] (cfg_repos (cx_cfg cx)) w = (Inr (Some acc), w1)"
    and files: "wr_worklist files = (lit ''written_at'', JInt t) # map (\<lambda>kv. (fst kv, JList (snd kv))) acc"
    by (auto simp: export_once_def bindM_Inr seconds_def ret_def split: option.splits)
  have ok: "\<forall>x \<in> set (dget_or acc (lit ''fixes'') []). shows_fix x"
    by (rule all_parts_fixes [OF acc]) (simp add: dget_or_def)
  have m: "dget (map (\<lambda>kv. (fst kv, JList (snd kv))) acc) k = map_option JList (dget acc k)" for k
    by (induction acc) auto
  have "lit ''written_at'' \<noteq> lit ''fixes''" by (simp add: lit_def)
  then have items: "items (JObj (wr_worklist files)) ''fixes'' = Inr (dget_or acc (lit ''fixes'') [])"
    by (simp add: items_def files m dget_or_def split: option.splits)
  obtain rows where rows: "mapE (fix_table_row pn) (dget_or acc (lit ''fixes'') []) = Inr rows"
    using mapE_ends [of "dget_or acc (lit ''fixes'') []" "fix_table_row pn"] ok fix_table_row_total by blast
  obtain a where a: "ago (pn_time pn) (JInt (t * 1000)) = Inr a" using ago_int by blast
  show ?thesis
    by (simp add: fixes_page_def assms(2) items rows as_of_def age_of_def, simp add: files a)
qed

section \<open>Witnesses\<close>

lemma sample_transcript: "transcript_body sample_panel sample_config (lit ''a.md'') = Inr (Some (lit ''<script src=x>''))"
proof -
  have "transcript_dir sample_config = lit ''/var/lib/robbie/reviews''" by (simp add: transcript_dir_def sample_config_def lit_def)
  moreover have "split_on 47 (tl (lit ''/var/lib/robbie/reviews'')) = [lit ''var'', lit ''lib'', lit ''robbie'', lit ''reviews'']"
    by (simp add: lit_def)
  moreover have "joined ([47] @ join [47] [lit ''var'', lit ''lib'', lit ''robbie'', lit ''reviews'']) (lit ''a.md'')
      = lit ''/var/lib/robbie/reviews/a.md''"
    by (simp add: joined_def startswith_def lit_def)
  moreover have "split_on 47 (tl (lit ''/var/lib/robbie/reviews/a.md''))
      = [lit ''var'', lit ''lib'', lit ''robbie'', lit ''reviews'', lit ''a.md'']"
    by (simp add: lit_def)
  moreover have "suffix_of (lit ''a.md'') = lit ''.md''" by (simp add: suffix_of_def after_dot_def lit_def)
  ultimately show ?thesis by (simp add: transcript_body_def sample_panel_def last_or_def)
qed

theorem panel_escapes_witness:
  "\<exists>a. do_get sample_panel sample_config (Inr empty_db) ''/transcript'' sample_query = Inr a \<and> an_status a = 200 \<and>
     html (an_body a)"
proof -
  have n: "dget_or sample_query (lit ''name'') [] = lit ''a.md''" by (simp add: sample_query_def dget_or_def)
  have "encodable (transcript_page sample_panel sample_config (lit ''a.md'') (lit ''<script src=x>''))"
    by (simp add: transcript_page_def shell_def Let_def encodable_CSS encodable_escape esc_def PAGES_def nav_link_def
        two_digits_def zero_pad_def show_nat.simps REFRESH_S_def sample_panel_def sample_config_def lit_def escape_def
        escape_char_def)
  then have a: "do_get sample_panel sample_config (Inr empty_db) ''/transcript'' sample_query
      = Inr \<lparr>an_status = 200, an_kind = Markup,
             an_body = transcript_page sample_panel sample_config (lit ''a.md'') (lit ''<script src=x>'')\<rparr>"
    by (simp add: do_get_def routed_def n sample_transcript send_def)
  from panel_escapes [OF this] a show ?thesis by simp
qed

theorem transcript_confined_witness:
  "\<exists>base file. pn_resolve sample_panel (transcript_dir sample_config) = Inr base \<and> pn_is_file sample_panel (base @ [file])
     \<and> suffix_of file \<in> {lit ''.md'', lit ''.err''}"
  using transcript_confined [OF sample_transcript] by blast

definition sample_work :: json where
  "sample_work =
     JObj [(lit ''triage_assigned'',
       JList [JObj [(lit ''repo'', JStr (lit ''o/r'')), (lit ''number'', JInt 1), (lit ''title'', JStr (lit ''t'')),
                    (lit ''prs'', JList [JObj [(lit ''number'', JInt 9), (lit ''status'', JStr (lit ''draft''))]])],
              JObj [(lit ''repo'', JStr (lit ''o/r'')), (lit ''number'', JInt 2), (lit ''title'', JStr (lit ''u''))]])]"

theorem filters_count_rows_witness:
  "\<exists>fs rows. issues_data sample_panel sample_config [(lit ''pr'', lit ''with'')] sample_work = Inr (fs, rows) \<and>
     (With_pr, length rows) \<in> set fs"
proof -
  have f: "shown_filter [(lit ''pr'', lit ''with'')] = With_pr" by (simp add: shown_filter_def)
  have "\<exists>fs rows. issues_data sample_panel sample_config [(lit ''pr'', lit ''with'')] sample_work = Inr (fs, rows)"
    unfolding issues_data_def f
    by (simp add: sample_work_def items_def keepE_def issue_table_row_def link_to_def label_cell_def
        closing_cell_def tag_def tone_of_def jor_def age_of_def ago_def Let_def lit_def)
  then obtain fs rows where
    r: "issues_data sample_panel sample_config [(lit ''pr'', lit ''with'')] sample_work = Inr (fs, rows)" by blast
  with filters_count_rows [OF r] f show ?thesis by auto
qed

theorem panel_always_answers_witness: "\<exists>a. do_get sample_panel sample_config (Inr empty_db) ''/system'' [] = Inr a"
  by (rule panel_always_answers) (simp add: sample_panel_def lit_def)

end
