(* ===== verification/Disk.thy ===== *)
theory Disk
  imports Panel Loads
begin

text \<open>
  The files of the export (\<open>src/robbie/export.py\<close>): \<open>write_json\<close> writes a file beside the real one
  and renames it, and the panel (\<open>src/robbie/dashboard.py\<close>) reads the real one whenever it is
  asked. A disk is the bytes under each path; a write is every disk it makes visible, in order,
  with how it ended, and any of its steps may fail. The lemmas: text written as UTF-8 reads back,
  a written document has no line end the reader would change, and only the rename shows.
\<close>

section \<open>Text as bytes\<close>

text \<open>The code point of \<open>n\<close> continuation bytes after what was read so far.\<close>

fun continued :: "nat \<Rightarrow> nat \<Rightarrow> nat list \<Rightarrow> (nat \<times> nat list) option" where
  "continued 0 acc bs = Some (acc, bs)"
| "continued (Suc n) acc [] = None"
| "continued (Suc n) acc (b # bs) =
     (if 128 \<le> b \<and> b < 192 then continued n (acc * 64 + (b - 128)) bs else None)"

text \<open>What a first byte says: how many follow, its own bits, the least code point in that form.\<close>

definition first_byte :: "nat \<Rightarrow> (nat \<times> nat \<times> nat) option" where
  "first_byte b =
     (if b < 128 then Some (0, b, 0)
      else if 192 \<le> b \<and> b < 224 then Some (1, b - 192, 128)
      else if 224 \<le> b \<and> b < 240 then Some (2, b - 224, 2048)
      else if 240 \<le> b \<and> b < 248 then Some (3, b - 240, 65536)
      else None)"

definition first_char :: "nat list \<Rightarrow> (nat \<times> nat list) option" where
  "first_char bs =
     (case bs of
        [] \<Rightarrow> None
      | b # t \<Rightarrow>
          (case first_byte b of
             None \<Rightarrow> None
           | Some (n, acc, low) \<Rightarrow>
               (case continued n acc t of
                  None \<Rightarrow> None
                | Some (c, r) \<Rightarrow> if low \<le> c \<and> scalar c then Some (c, r) else None)))"

lemma continued_shorter: "continued n acc bs = Some (c, r) \<Longrightarrow> length r \<le> length bs"
  by (induction n acc bs rule: continued.induct) (auto split: if_splits)

lemma first_char_shorter: "first_char bs = Some (c, r) \<Longrightarrow> length r < length bs"
  by (auto simp: first_char_def less_Suc_eq_le split: list.splits option.splits if_splits dest!: continued_shorter)

text \<open>\<open>bs.decode("utf-8")\<close>; \<open>None\<close> for the \<open>UnicodeDecodeError\<close>.\<close>

function decode :: "nat list \<Rightarrow> str option" where
  "decode bs =
     (if bs = [] then Some []
      else case first_char bs of None \<Rightarrow> None | Some (c, r) \<Rightarrow> map_option (Cons c) (decode r))"
  by pat_completeness auto

termination by (relation "measure length") (auto dest: first_char_shorter [OF sym] first_char_shorter)

declare decode.simps [simp del]

lemma first_char_utf8: "scalar c \<Longrightarrow> first_char (utf8_cp c @ bs) = Some (c, bs)"
proof -
  assume c: "scalar c"
  consider "c < 128" | "128 \<le> c" "c < 2048" | "2048 \<le> c" "c < 65536" | "65536 \<le> c" "c < 1114112"
    using c unfolding scalar_def by linarith
  then show ?thesis
  proof cases
    case 1
    with c show ?thesis by (simp add: first_char_def first_byte_def utf8_cp_def)
  next
    case 2
    then have "first_byte (192 + c div 64) = Some (1, c div 64, 128)" by (simp add: first_byte_def)
    with 2 c show ?thesis by (simp add: first_char_def utf8_cp_def)
  next
    case 3
    then have "first_byte (224 + c div 4096) = Some (2, c div 4096, 2048)" by (simp add: first_byte_def)
    moreover have "(c div 4096 * 64 + c div 64 mod 64) * 64 + c mod 64 = c"
      using div_mult_mod_eq [of c 64] div_mult_mod_eq [of "c div 64" 64] by (simp add: div_mult2_eq [symmetric])
    ultimately show ?thesis using 3 c by (simp add: first_char_def utf8_cp_def numeral_2_eq_2)
  next
    case 4
    then have "first_byte (240 + c div 262144) = Some (3, c div 262144, 65536)" by (simp add: first_byte_def)
    moreover have "((c div 262144 * 64 + c div 4096 mod 64) * 64 + c div 64 mod 64) * 64 + c mod 64 = c"
      using div_mult_mod_eq [of c 64] div_mult_mod_eq [of "c div 64" 64] div_mult_mod_eq [of "c div 4096" 64]
      by (simp add: div_mult2_eq [symmetric])
    ultimately show ?thesis using 4 c by (simp add: first_char_def utf8_cp_def numeral_3_eq_3)
  qed
qed

lemma decode_utf8: "list_all scalar s \<Longrightarrow> decode (utf8 s) = Some s"
proof (induction s)
  case (Cons c s)
  then have "utf8_cp c @ utf8 s \<noteq> []" using length_utf8_cp [of c] by auto
  with Cons show ?case by (simp add: decode.simps [of "utf8_cp c @ utf8 s"] first_char_utf8)
qed (simp add: decode.simps)

text \<open>A file read as text: CR LF and CR are a line end.\<close>

fun universal :: "str \<Rightarrow> str" where
  "universal [] = []"
| "universal (c # s) =
     (if c = 13 then NL # universal (if s \<noteq> [] \<and> hd s = NL then tl s else s) else c # universal s)"

lemma universal_plain: "13 \<notin> set s \<Longrightarrow> universal s = s"
  by (induction s) auto

section \<open>The disk\<close>

type_synonym disk = "str \<rightharpoonup> nat list"

text \<open>\<open>path.read_text(encoding="utf-8")\<close>, \<open>None\<close> for the \<open>OSError\<close> and for the \<open>ValueError\<close>.\<close>

definition read_file :: "disk \<Rightarrow> str \<Rightarrow> str option" where
  "read_file d path = (case d path of None \<Rightarrow> None | Some bs \<Rightarrow> map_option universal (decode bs))"

definition export_dir :: "config \<Rightarrow> str" where
  "export_dir cfg = cfg_state_dir cfg @ lit ''/export''"

definition export_path :: "config \<Rightarrow> string \<Rightarrow> str" where
  "export_path cfg name = export_dir cfg @ [47] @ lit name"

text \<open>\<open>path.with_name(f".{path.name}.tmp")\<close>\<close>

definition tmp_path :: "config \<Rightarrow> string \<Rightarrow> str" where
  "tmp_path cfg name = export_dir cfg @ [47] @ [46] @ lit name @ lit ''.tmp''"

text \<open>\<open>str\<close> of an \<open>int\<close> has a limit, and \<open>json.dumps\<close> raises beyond it.\<close>

fun writable :: "json \<Rightarrow> bool" where
  "writable (JInt i) \<longleftrightarrow> length (show_nat (nat \<bar>i\<bar>)) \<le> MAX_DIGITS"
| "writable (JList xs) \<longleftrightarrow> list_all writable xs"
| "writable (JObj kvs) \<longleftrightarrow> list_all (\<lambda>kv. writable (snd kv)) kvs"
| "writable _ \<longleftrightarrow> True"

definition document :: "(json \<Rightarrow> str) \<Rightarrow> json \<Rightarrow> str res" where
  "document rep j = (if writable j then Inr (pretty rep 0 j) else Inl ValueError)"

text \<open>
  What the file system does to one \<open>write_json\<close>: the error of a step that fails, and how many
  bytes of the temporary file have reached it at the moments somebody may look.
\<close>

record faults =
  ft_mkdir :: "exn option"
  ft_open :: "exn option"
  ft_seen :: "nat list"
  ft_write :: "exn option"
  ft_rename :: "exn option"

text \<open>A step that fails leaves the disk of the step before.\<close>

definition attempt :: "exn option \<Rightarrow> disk list \<times> unit res \<Rightarrow> disk list \<times> unit res" where
  "attempt fault rest = (case fault of Some e \<Rightarrow> ([], Inl e) | None \<Rightarrow> rest)"

definition then_visible :: "disk list \<Rightarrow> disk list \<times> unit res \<Rightarrow> disk list \<times> unit res" where
  "then_visible ds rest = (ds @ fst rest, snd rest)"

text \<open>\<open>os.replace\<close>\<close>

definition renamed :: "str \<Rightarrow> str \<Rightarrow> disk \<Rightarrow> disk" where
  "renamed src dst d = d(dst := d src, src := None)"

text \<open>\<open>tmp.write_text\<close>: the file is emptied, the text is encoded whole, the bytes follow.\<close>

definition write_json :: "(json \<Rightarrow> str) \<Rightarrow> config \<Rightarrow> faults \<Rightarrow> string \<Rightarrow> json \<Rightarrow> disk \<Rightarrow> disk list \<times> unit res" where
  "write_json rep cfg ft name data d =
     attempt (ft_mkdir ft)
       (case document rep data of
          Inl e \<Rightarrow> ([], Inl e)
        | Inr s \<Rightarrow>
            let tmp = tmp_path cfg name
            in attempt (ft_open ft)
                 (then_visible [d(tmp \<mapsto> [])]
                   (if \<not> encodable s then ([], Inl ValueError)
                    else then_visible (map (\<lambda>n. d(tmp \<mapsto> take n (utf8 s))) (ft_seen ft))
                      (attempt (ft_write ft)
                        (then_visible [d(tmp \<mapsto> utf8 s)]
                          (attempt (ft_rename ft)
                            ([renamed tmp (export_path cfg name) (d(tmp \<mapsto> utf8 s))], Inr ()))))))) "

text \<open>The two files of \<open>export_once\<close>, one after the other; the disk before is the first one seen.\<close>

definition write_export :: "(json \<Rightarrow> str) \<Rightarrow> config \<Rightarrow> faults \<Rightarrow> faults \<Rightarrow> written \<Rightarrow> disk \<Rightarrow> disk list \<times> unit res" where
  "write_export rep cfg ft ft' files d =
     then_visible [d]
       (case write_json rep cfg ft ''worklist.json'' (JObj (wr_worklist files)) d of
          (ds, Inl e) \<Rightarrow> (ds, Inl e)
        | (ds, Inr _) \<Rightarrow>
            then_visible ds
              (write_json rep cfg ft' ''usage.json'' (JObj (wr_usage files)) (last_or d ds)))"

text \<open>The panel on a disk.\<close>

definition panel_on :: "(str \<Rightarrow> pyfloat) \<Rightarrow> config \<Rightarrow> panel \<Rightarrow> disk \<Rightarrow> panel" where
  "panel_on fl cfg pn d = pn\<lparr>pn_export := read_file d (export_path cfg ''worklist.json''), pn_loads := loads fl\<rparr>"

section \<open>A document is text that reads back\<close>

definition unchanged :: "nat \<Rightarrow> bool" where
  "unchanged c \<longleftrightarrow> scalar c \<and> c \<noteq> 13"

lemma unchanged_ascii: "32 \<le> c \<and> c < 127 \<or> c = NL \<Longrightarrow> unchanged c"
  by (auto simp: unchanged_def scalar_def is_high_def is_low_def)

lemma unchanged_char: "scalar c \<Longrightarrow> list_all unchanged (plain_char c)"
proof -
  assume c: "scalar c"
  show ?thesis
  proof (cases "32 \<le> c")
    case True
    with c show ?thesis by (auto simp: plain_char_def unchanged_def scalar_def is_high_def is_low_def)
  next
    case False
    then have "\<forall>x \<in> set (hex4 c). unchanged x" using hex4_ascii [of c] by (force intro: unchanged_ascii)
    moreover have "unchanged 92" "unchanged 117" "unchanged 110" "unchanged 114" "unchanged 116" "unchanged 102" "unchanged 98"
      by (simp_all add: unchanged_ascii)
    ultimately show ?thesis using False by (simp add: plain_char_def u_escape_def list_all_iff)
  qed
qed

lemma unchanged_plain: "list_all scalar s \<Longrightarrow> list_all unchanged (plain_str s)"
  by (induction s) (simp_all add: plain_str_def unchanged_char, simp_all add: unchanged_ascii)

lemma unchanged_join: "list_all unchanged s \<Longrightarrow> \<forall>w \<in> set ws. list_all unchanged w \<Longrightarrow> list_all unchanged (join s ws)"
  using set_join_subset [of s ws] unfolding list_all_iff by blast

lemma unchanged_line: "list_all unchanged (new_line n)"
  by (auto simp: new_line_def list_all_iff intro!: unchanged_ascii)

lemma unchanged_int: "list_all unchanged (show_int i)"
  by (auto simp: list_all_iff dest!: show_int_chars intro!: unchanged_ascii)

lemma unchanged_signs: "unchanged 34" "unchanged 44" "unchanged 58" "unchanged 32" "unchanged 91" "unchanged 93"
    "unchanged 123" "unchanged 125"
  by (simp_all add: unchanged_ascii)

lemma unchanged_pretty: "sound fl rep j \<Longrightarrow> list_all unchanged (pretty rep n j)"
proof (induction j arbitrary: n)
  case (JFloat x)
  then show ?case by (auto simp: list_all_iff intro!: unchanged_ascii)
next
  case (JList xs)
  then have "\<forall>w \<in> set (map (pretty rep (Suc n)) xs). list_all unchanged w" by (auto simp: list_all_iff)
  from unchanged_join [OF _ this] show ?case by (simp add: unchanged_line unchanged_signs)
next
  case (JObj kvs)
  have "list_all unchanged (plain_str (fst kv) @ [58, 32] @ pretty rep (Suc n) (snd kv))" if "kv \<in> set kvs" for kv
  proof -
    from that JObj.prems have "list_all scalar (fst kv)" "sound fl rep (snd kv)" by (auto simp: list_all_iff)
    with JObj.IH [OF that] show ?thesis by (simp add: unchanged_plain unchanged_signs snds.simps)
  qed
  then have "\<forall>w \<in> set (map (\<lambda>kv. plain_str (fst kv) @ [58, 32] @ pretty rep (Suc n) (snd kv)) kvs). list_all unchanged w"
    by simp
  from unchanged_join [OF _ this] show ?case by (simp add: unchanged_line unchanged_signs)
qed (simp_all add: unchanged_plain unchanged_int, simp_all add: lit_def unchanged_ascii)

lemma sound_writable: "sound fl rep j \<Longrightarrow> writable j"
  by (induction j) (fastforce simp: list_all_iff snds.simps)+

text \<open>The bytes of a document.\<close>

definition file_bytes :: "(json \<Rightarrow> str) \<Rightarrow> json \<Rightarrow> nat list" where
  "file_bytes rep j = utf8 (pretty rep 0 j)"

lemma read_document:
  assumes "sound fl rep j" "d path = Some (file_bytes rep j)"
  shows "read_file d path = Some (pretty rep 0 j)"
proof -
  have u: "list_all unchanged (pretty rep 0 j)" using assms(1) by (rule unchanged_pretty)
  then have "list_all scalar (pretty rep 0 j)" "13 \<notin> set (pretty rep 0 j)"
    by (auto simp: list_all_iff unchanged_def)
  with assms(2) show ?thesis by (simp add: read_file_def file_bytes_def decode_utf8 universal_plain)
qed

section \<open>Only the rename shows\<close>

lemma paths_apart [simp]:
  "export_path cfg ''worklist.json'' \<noteq> tmp_path cfg m"
  "export_path cfg ''usage.json'' \<noteq> tmp_path cfg m"
  "export_path cfg ''worklist.json'' \<noteq> export_path cfg ''usage.json''"
  by (simp_all add: export_path_def tmp_path_def lit_def)

text \<open>What stands under a path, through a write: as before, or the whole of what is written.\<close>

lemma write_seen:
  assumes "d' \<in> set (fst (write_json rep cfg ft name data d))" "path \<noteq> tmp_path cfg name"
  shows "d' path = d path \<or> path = export_path cfg name \<and> d' path = Some (file_bytes rep data)"
  using assms
  by (auto simp: write_json_def attempt_def then_visible_def document_def renamed_def file_bytes_def Let_def
      split: option.splits sum.splits if_splits)

lemma write_ends:
  assumes "write_json rep cfg ft name data d = (ds, r)" "export_path cfg name \<noteq> tmp_path cfg name"
  shows "last_or d ds (export_path cfg name) = (if r = Inr () then Some (file_bytes rep data) else d (export_path cfg name))"
  using assms
  by (auto simp: write_json_def attempt_def then_visible_def document_def renamed_def file_bytes_def last_or_def Let_def last_map
      split: option.splits sum.splits if_splits)

lemma last_or_mem: "last_or d ds \<in> insert d (set ds)"
  by (simp add: last_or_def)

text \<open>Every disk of an export is one of the first write, or one of the second after the first ended.\<close>

lemma export_seen:
  assumes "d' \<in> set (fst (write_export rep cfg ft ft' files d))"
  obtains "d' = d"
  | "d' \<in> set (fst (write_json rep cfg ft ''worklist.json'' (JObj (wr_worklist files)) d))"
  | ds where "write_json rep cfg ft ''worklist.json'' (JObj (wr_worklist files)) d = (ds, Inr ())"
      "d' \<in> set (fst (write_json rep cfg ft' ''usage.json'' (JObj (wr_usage files)) (last_or d ds)))"
  using assms by (auto simp: write_export_def then_visible_def split: prod.splits sum.splits)

lemma export_ends:
  assumes "write_export rep cfg ft ft' files d = (ds, r)"
  obtains ds1 r1 where "write_json rep cfg ft ''worklist.json'' (JObj (wr_worklist files)) d = (ds1, r1)" "r1 = r"
      "ds = d # ds1" "r \<noteq> Inr ()"
  | ds1 ds2 where "write_json rep cfg ft ''worklist.json'' (JObj (wr_worklist files)) d = (ds1, Inr ())"
      "write_json rep cfg ft' ''usage.json'' (JObj (wr_usage files)) (last_or d ds1) = (ds2, r)" "ds = d # ds1 @ ds2"
  using assms
  by (cases "write_json rep cfg ft' ''usage.json'' (JObj (wr_usage files))
        (last_or d (fst (write_json rep cfg ft ''worklist.json'' (JObj (wr_worklist files)) d)))")
    (auto simp: write_export_def then_visible_def split: prod.splits sum.splits)

lemma write_keeps:
  assumes "write_json rep cfg ft name data d = (ds, r)" "path \<notin> {export_path cfg name, tmp_path cfg name}"
  shows "last_or d ds path = d path"
proof -
  have "x path = d path" if "x \<in> set ds" for x using write_seen [of x rep cfg ft name data d path] that assms by simp
  then show ?thesis using last_or_mem [of d ds] by auto
qed

lemma worklist_seen:
  assumes "d' \<in> set (fst (write_export rep cfg ft ft' files d))"
  shows "d' (export_path cfg ''worklist.json'')
    \<in> {d (export_path cfg ''worklist.json''), Some (file_bytes rep (JObj (wr_worklist files)))}"
  using assms
proof (cases rule: export_seen)
  case 2
  from write_seen [OF this, of "export_path cfg ''worklist.json''"] show ?thesis by auto
next
  case (3 ds)
  from write_seen [OF 3(2), of "export_path cfg ''worklist.json''"]
  have "d' (export_path cfg ''worklist.json'') = last_or d ds (export_path cfg ''worklist.json'')" by simp
  with write_ends [OF 3(1)] show ?thesis by simp
qed simp

lemma others_seen:
  assumes "d' \<in> set (fst (write_export rep cfg ft ft' files d))"
    and "path \<notin> {export_path cfg ''worklist.json'', tmp_path cfg ''worklist.json'', export_path cfg ''usage.json'',
      tmp_path cfg ''usage.json''}"
  shows "d' path = d path"
  using assms(1)
proof (cases rule: export_seen)
  case 2
  from write_seen [OF this, of path] assms(2) show ?thesis by auto
next
  case (3 ds)
  have "last_or d ds path = d path" using write_keeps [OF 3(1), of path] assms(2) by simp
  with write_seen [OF 3(2), of path] assms(2) show ?thesis by auto
qed simp

lemma worklist_ends:
  assumes "write_export rep cfg ft ft' files d = (ds, Inr ())"
  shows "last_or d ds (export_path cfg ''worklist.json'') = Some (file_bytes rep (JObj (wr_worklist files)))"
  using assms
proof (cases rule: export_ends)
  case (2 ds1 ds2)
  have "last_or d ds = last_or (last_or d ds1) ds2" using 2(3) by (simp add: last_or_def)
  moreover have "last_or (last_or d ds1) ds2 (export_path cfg ''worklist.json'') = last_or d ds1 (export_path cfg ''worklist.json'')"
    using write_keeps [OF 2(2), of "export_path cfg ''worklist.json''"] by simp
  ultimately show ?thesis using write_ends [OF 2(1)] by simp
qed simp

lemma panel_new:
  assumes "sound fl rep (JObj (wr_worklist files))"
    and "d (export_path cfg ''worklist.json'') = Some (file_bytes rep (JObj (wr_worklist files)))"
  shows "worklist (panel_on fl cfg pn d) = Inr (JObj (wr_worklist files))"
  using read_document [of fl rep "JObj (wr_worklist files)" d] loads_pretty [OF assms(1)] assms by (simp add: worklist_def panel_on_def)

text \<open>A file system that fails nowhere.\<close>

definition faultless :: "faults \<Rightarrow> bool" where
  "faultless ft \<longleftrightarrow> ft_mkdir ft = None \<and> ft_open ft = None \<and> ft_write ft = None \<and> ft_rename ft = None"

lemma sound_encodable: "sound fl rep j \<Longrightarrow> encodable (pretty rep n j)"
  using unchanged_pretty [of fl rep j n]
  by (fastforce simp: encodable_def list_all_iff unchanged_def scalar_def is_high_def is_low_def)

lemma write_ends_well:
  assumes "sound fl rep data" "faultless ft"
  shows "snd (write_json rep cfg ft name data d) = Inr ()"
  using assms(2) sound_writable [OF assms(1)] sound_encodable [OF assms(1), of 0]
  by (simp add: write_json_def document_def attempt_def then_visible_def faultless_def Let_def)

lemma export_ends_well:
  assumes "sound fl rep (JObj (wr_worklist files))" "sound fl rep (JObj (wr_usage files))" "faultless ft" "faultless ft'"
  shows "snd (write_export rep cfg ft ft' files d) = Inr ()"
proof -
  obtain ds where "write_json rep cfg ft ''worklist.json'' (JObj (wr_worklist files)) d = (ds, Inr ())"
    using write_ends_well [OF assms(1,3)] by (metis surjective_pairing)
  then show ?thesis by (simp add: write_export_def then_visible_def write_ends_well [OF assms(2,4)])
qed

section \<open>The properties\<close>

text \<open>C13: A reader never sees half a file: whatever fails in an export and wherever the process dies,
  every disk on the way shows the panel either the export it had before or exactly the lists of
  this one; once the export has ended well it shows these, and where no step fails it does end
  well; no file but the two and their temporary ones is touched.\<close>

theorem export_is_whole:
  assumes "write_export rep cfg ft ft' files d = (ds, r)" "d' \<in> set ds"
    and "sound fl rep (JObj (wr_worklist files))"
  shows "worklist (panel_on fl cfg pn d') \<in> {worklist (panel_on fl cfg pn d), Inr (JObj (wr_worklist files))} \<and>
    (r = Inr () \<longrightarrow> worklist (panel_on fl cfg pn (last ds)) = Inr (JObj (wr_worklist files))) \<and>
    (faultless ft \<and> faultless ft' \<and> sound fl rep (JObj (wr_usage files)) \<longrightarrow> r = Inr ()) \<and>
    (\<forall>path. path \<notin> {export_path cfg ''worklist.json'', tmp_path cfg ''worklist.json'',
        export_path cfg ''usage.json'', tmp_path cfg ''usage.json''} \<longrightarrow> d' path = d path)"
proof -
  have m: "d' \<in> set (fst (write_export rep cfg ft ft' files d))" using assms(1,2) by simp
  have "worklist (panel_on fl cfg pn d') \<in> {worklist (panel_on fl cfg pn d), Inr (JObj (wr_worklist files))}"
    using worklist_seen [OF m] panel_new [OF assms(3)] by (auto simp: panel_on_def read_file_def)
  moreover have "worklist (panel_on fl cfg pn (last ds)) = Inr (JObj (wr_worklist files))" if "r = Inr ()"
    using worklist_ends [of rep cfg ft ft' files d ds] assms(1,2) that panel_new [OF assms(3)] by (cases "ds = []") (simp_all add: last_or_def)
  moreover have "\<forall>path. path \<notin> {export_path cfg ''worklist.json'', tmp_path cfg ''worklist.json'',
        export_path cfg ''usage.json'', tmp_path cfg ''usage.json''} \<longrightarrow> d' path = d path"
    using others_seen [OF m] by blast
  moreover have "r = Inr ()" if "faultless ft" "faultless ft'" "sound fl rep (JObj (wr_usage files))"
    using export_ends_well [OF assms(3) that(3,1,2), of cfg d] assms(1) by simp
  ultimately show ?thesis by blast
qed

text \<open>C37: The daemon's export and the panel agree on what a row is: at every moment of an export the
  page of the fixes is the one it was before or is made from the new file without an error,
  whatever GitHub had answered; after an export that ended well it is always a page.\<close>

theorem exported_fixes_render:
  assumes "export_once en fd cx w = (Inr (Some files), w')" "sound fl rep (JObj (wr_worklist files))"
    and "write_export rep cfg ft ft' files d = (ds, r)" "d' \<in> set ds"
  shows "(fixes_page (panel_on fl cfg pn d') cfg db q = fixes_page (panel_on fl cfg pn d) cfg db q \<or>
      (\<exists>s. fixes_page (panel_on fl cfg pn d') cfg db q = Inr s)) \<and>
    (r = Inr () \<longrightarrow> (\<exists>s. fixes_page (panel_on fl cfg pn (last ds)) cfg db q = Inr s))"
proof -
  have new: "\<exists>s. fixes_page (panel_on fl cfg pn x) cfg db q = Inr s"
    if "x (export_path cfg ''worklist.json'') = Some (file_bytes rep (JObj (wr_worklist files)))" for x
    by (rule exported_fixes_shown [OF assms(1)], rule panel_new [where rep = rep], rule assms(2), rule that)
  have "d' (export_path cfg ''worklist.json'')
      \<in> {d (export_path cfg ''worklist.json''), Some (file_bytes rep (JObj (wr_worklist files)))}"
    using worklist_seen [of d' rep cfg ft ft' files d] assms(3,4) by simp
  moreover have "panel_on fl cfg pn d' = panel_on fl cfg pn d"
    if "d' (export_path cfg ''worklist.json'') = d (export_path cfg ''worklist.json'')"
    using that by (simp add: panel_on_def read_file_def)
  moreover have "\<exists>s. fixes_page (panel_on fl cfg pn (last ds)) cfg db q = Inr s" if "r = Inr ()"
    using worklist_ends [of rep cfg ft ft' files d ds] assms(3,4) that new
    by (cases "ds = []") (simp_all add: last_or_def)
  ultimately show ?thesis using new by auto
qed

section \<open>Witnesses\<close>

text \<open>A write that goes well, seen once on the way.\<close>

definition no_faults :: faults where
  "no_faults = \<lparr>ft_mkdir = None, ft_open = None, ft_seen = [1], ft_write = None, ft_rename = None\<rparr>"

lemma plate_export:
  "\<exists>files w. export_once sample_env_ok sample_feed sample_ctx plate_world = (Inr (Some files), w) \<and>
     sound fl rep (JObj (wr_worklist files)) \<and> sound fl rep (JObj (wr_usage files))"
  by (simp add: export_once_def sample_ctx_def sample_config_def catch_gh_def catchM_def merge_part_def
      repo_worklist_def read_feed_def ask_def bindM_def liftE_def sample_feed_def rows_of_def jor_def by_number_def
      number_of_def repo_lists_def seconds_def gets_def plate_world_def empty_db_def approved_and_green_def plate_row_def
      newest_in_def on_board_def is_requested_def awaiting_def awaiting_row_def brief_def text_field_def author_login_def
      jget_obj_def fix_row_def no_fix_prefix needs_work_rows_def label_list_def jget_list_def mine_all_def mine_if_def
      ret_def forget_def assigned_def issue_names_def objects_def READY_DAYS_def trunc_def newer_def Let_def dget_or_def
      usage_def open_names_def)
    (simp add: sample_repo_def ci_text_def ci_name_def lit_def scalar_def is_high_def is_low_def show_int_def show_nat.simps MAX_DIGITS_def)

definition no_float :: "json \<Rightarrow> str" where
  "no_float j = []"

definition any_float :: "str \<Rightarrow> pyfloat" where
  "any_float s = NotANumber"

theorem export_is_whole_witness:
  "\<exists>files ds. write_export no_float sample_config no_faults no_faults files Map.empty = (ds, Inr ()) \<and>
     worklist (panel_on any_float sample_config sample_panel (last ds)) = Inr (JObj (wr_worklist files)) \<and>
     wr_worklist files \<noteq> []"
proof -
  define files where "files = \<lparr>wr_worklist = [(lit ''written_at'', JInt 1)], wr_usage = [(lit ''written_at'', JInt 1)]\<rparr>"
  have s: "sound any_float no_float (JObj (wr_worklist files))" "sound any_float no_float (JObj (wr_usage files))"
    by (simp_all add: files_def lit_def scalar_def is_high_def is_low_def show_nat.simps MAX_DIGITS_def)
  have f: "faultless no_faults" by (simp add: faultless_def no_faults_def)
  obtain ds r where e: "write_export no_float sample_config no_faults no_faults files Map.empty = (ds, r)" by fastforce
  then have "Map.empty \<in> set ds" by (auto simp: write_export_def then_visible_def)
  from export_is_whole [OF e this s(1), of sample_panel] s(2) f e show ?thesis
    by (intro exI [of _ files] exI [of _ ds]) (simp add: files_def)
qed

theorem exported_fixes_render_witness:
  "\<exists>files w ds. export_once sample_env_ok sample_feed sample_ctx plate_world = (Inr (Some files), w) \<and>
     write_export no_float sample_config no_faults no_faults files Map.empty = (ds, Inr ()) \<and>
     (\<exists>s. fixes_page (panel_on any_float sample_config sample_panel (last ds)) sample_config empty_db [] = Inr s)"
proof -
  obtain files w where x: "export_once sample_env_ok sample_feed sample_ctx plate_world = (Inr (Some files), w)"
      "sound any_float no_float (JObj (wr_worklist files))" "sound any_float no_float (JObj (wr_usage files))"
    using plate_export by blast
  have f: "faultless no_faults" by (simp add: faultless_def no_faults_def)
  obtain ds r where e: "write_export no_float sample_config no_faults no_faults files Map.empty = (ds, r)" by fastforce
  then have "Map.empty \<in> set ds" by (auto simp: write_export_def then_visible_def)
  moreover have r: "r = Inr ()" using export_ends_well [OF x(2,3) f f, of sample_config Map.empty] e by simp
  ultimately show ?thesis using exported_fixes_render [OF x(1,2) e, where pn = sample_panel and db = empty_db and q = "[]"] x(1) e
    by auto
qed

end
