(* ===== verification/Isolation.thy ===== *)
theory Isolation
  imports Fixer
begin

text \<open>
  One pull request's turn keeps to itself (\<open>_handle\<close> and \<open>review_one\<close> of
  \<open>src/robbie/orchestrator.py\<close>, with all they call): what it asks of GitHub and writes there names
  that pull request, and in the database it touches no row of another one. The relation is closed
  under composition, so it is shown of each step and then of the turn.
\<close>

section \<open>More closure\<close>

text \<open>Every return of a computation satisfies \<open>P\<close>.\<close>

definition returning :: "('a \<Rightarrow> bool) \<Rightarrow> 'a eff \<Rightarrow> bool" where
  "returning P m \<longleftrightarrow> (\<forall>w x w'. m w = (Inr x, w') \<longrightarrow> P x)"

context effect_relation begin

lemma bind_returning:
  assumes "preserves R m" "returning P m" "\<And>x. P x \<Longrightarrow> preserves R (f x)"
  shows "preserves R (bindM m f)"
proof -
  have "R w (snd (bindM m f w))" for w
  proof (cases "m w")
    case (Pair r w')
    with assms(1) have w: "R w w'" by (auto simp: preserves_def dest: spec [of _ w])
    show ?thesis
    proof (cases r)
      case (Inr x)
      with Pair assms(2) have "P x" by (auto simp: returning_def)
      from assms(3) [OF this] have "R w' (snd (f x w'))" by (simp add: preserves_def)
      with w Pair Inr show ?thesis using trans by (auto simp: bindM_def)
    qed (use w Pair in \<open>simp add: bindM_def\<close>)
  qed
  then show ?thesis by (simp add: preserves_def)
qed

lemma fold_set: "(\<And>s x. x \<in> set xs \<Longrightarrow> preserves R (f s x)) \<Longrightarrow> preserves R (foldM f s xs)"
proof (induction xs arbitrary: s)
  case (Cons x xs)
  then show ?case by (auto intro!: bind)
qed (simp add: pure_ret)

lemma map_set: "(\<And>x. x \<in> set xs \<Longrightarrow> preserves R (f x)) \<Longrightarrow> preserves R (mapM f xs)"
proof (induction xs)
  case (Cons x xs)
  then show ?case by (auto intro!: bind pure_ret)
qed (simp add: pure_ret)

end

section \<open>What is a pull request's own\<close>

text \<open>The key of a review begins so, whatever commit and request it is of.\<close>

definition own_prefix :: "str \<Rightarrow> int \<Rightarrow> str" where
  "own_prefix slug pr = slug @ [58] @ show_int pr @ [58]"

definition own_row :: "str \<Rightarrow> int \<Rightarrow> review_row \<Rightarrow> bool" where
  "own_row slug pr r \<longleftrightarrow> rv_repo r = slug \<and> rv_pr r = pr \<or> startswith (rv_key r) (own_prefix slug pr)"

text \<open>
  An event of the pull request: a review that is dismissed is one GitHub named as standing on it.
  Who the token belongs to is asked of nobody's pull request; a message names nothing to write to.
\<close>

fun own_event :: "env \<Rightarrow> str \<Rightarrow> int \<Rightarrow> event \<Rightarrow> bool" where
  "own_event en slug pr (Gh_comment repo n body) = (repo = slug \<and> n = pr)"
| "own_event en slug pr (Gh_review repo n head body cs) = (repo = slug \<and> n = pr)"
| "own_event en slug pr (Gh_inline repo n head c) = (repo = slug \<and> n = pr)"
| "own_event en slug pr (Gh_add_label repo n l) = (repo = slug \<and> n = pr)"
| "own_event en slug pr (Gh_del_label repo n l) = (repo = slug \<and> n = pr)"
| "own_event en slug pr (Gh_dismiss i s) = (\<exists>tr. en_rejection en tr slug pr = Inr (Some i))"
| "own_event en slug pr (Gh_assign repo n who) = (repo = slug \<and> n = pr)"
| "own_event en slug pr (Gh_reply repo n cid body) = (repo = slug \<and> n = pr)"
| "own_event en slug pr (Gh_resolve i) =
     (\<exists>tr got. en_threads en tr slug pr = Inr got \<and> i \<in> th_node_id ` set (pt_threads got))"
| "own_event en slug pr (Gh_read what repo n) = (repo = slug \<and> n = pr \<or> what = lit ''whoami'')"
| "own_event en slug pr (Board n head st) = (n = pr)"
| "own_event en slug pr (Slack_post ch s) = True"
| "own_event en slug pr (Jane_post title url body urgency kind) = True"
| "own_event en slug pr (Run argv vars prompt) = True"

text \<open>Whose row it is: its key, its repository and its number, which no update changes.\<close>

definition row_label :: "review_row \<Rightarrow> str \<times> str \<times> int" where
  "row_label r = (rv_key r, rv_repo r, rv_pr r)"

definition row_labels :: "db \<Rightarrow> (str \<times> str \<times> int) set" where
  "row_labels d = row_label ` set (db_reviews d)"

definition own_label :: "str \<Rightarrow> int \<Rightarrow> str \<times> str \<times> int \<Rightarrow> bool" where
  "own_label slug pr l \<longleftrightarrow> startswith (fst l) (own_prefix slug pr) \<and> snd l = (slug, pr)"

definition own_changes :: "str \<Rightarrow> int \<Rightarrow> db \<Rightarrow> db \<Rightarrow> bool" where
  "own_changes slug pr d d' \<longleftrightarrow>
     filter (\<lambda>r. \<not> own_row slug pr r) (db_reviews d') = filter (\<lambda>r. \<not> own_row slug pr r) (db_reviews d) \<and>
     (\<forall>l \<in> row_labels d'. l \<in> row_labels d \<or> own_label slug pr l) \<and>
     (\<exists>rows. db_spend d' = db_spend d @ rows \<and> list_all (\<lambda>s. sp_repo s = slug \<and> sp_pr s = pr) rows) \<and>
     db_requested d' = db_requested d \<and> db_meters d' = db_meters d \<and> db_seeded d' = db_seeded d"

definition isolated :: "env \<Rightarrow> str \<Rightarrow> int \<Rightarrow> world \<Rightarrow> world \<Rightarrow> bool" where
  "isolated en slug pr w w' \<longleftrightarrow> adds (own_event en slug pr) w w' \<and> own_changes slug pr (wd_db w) (wd_db w')"

lemma own_changes_refl: "own_changes slug pr d d"
  by (simp add: own_changes_def)

lemma own_changes_trans: "own_changes slug pr c d \<Longrightarrow> own_changes slug pr d e \<Longrightarrow> own_changes slug pr c e"
  unfolding own_changes_def by fastforce

interpretation isolated: effect_relation "isolated en slug pr" for en slug pr
proof
  fix u v w
  show "isolated en slug pr w w" by (simp add: isolated_def adds.refl own_changes_refl)
  show "isolated en slug pr u v \<Longrightarrow> isolated en slug pr v w \<Longrightarrow> isolated en slug pr u w"
    unfolding isolated_def using adds.trans own_changes_trans by blast
qed

named_theorems isolated_intros "steps of one pull request"

lemmas [isolated_intros] = isolated.closed preserves_cases preserves_let sum_behaves action_cases

lemma isolated_when [isolated_intros]:
  "(b \<Longrightarrow> preserves (isolated en slug pr) m) \<Longrightarrow> preserves (isolated en slug pr) (whenM b m)"
  by (rule preserves_when, rule isolated.pure_ret)

lemma isolated_db:
  "preserves (adds (own_event en slug pr)) m \<Longrightarrow> preserves keeps_db m \<Longrightarrow> preserves (isolated en slug pr) m"
  by (simp add: preserves_def isolated_def keeps_db_def own_changes_refl)

text \<open>What GitHub answered is known to what comes after the question.\<close>

lemma isolated_ask:
  assumes "own_event en slug pr (Gh_read (lit what) repo n)"
    and "\<And>x tr. f tr = Inr x \<Longrightarrow> preserves (isolated en slug pr) (k x)"
  shows "preserves (isolated en slug pr) (bindM (ask what repo n f) k)"
proof -
  have "isolated en slug pr w (snd (bindM (ask what repo n f) k w))" for w
  proof -
    let ?w = "w\<lparr>wd_trace := wd_trace w @ [Gh_read (lit what) repo n]\<rparr>"
    have "isolated en slug pr w ?w" using assms(1) by (simp add: isolated_def adds_def own_changes_refl)
    moreover have "isolated en slug pr ?w (snd (k x ?w))" if "f (wd_trace w) = Inr x" for x
      using assms(2) [OF that] by (simp add: preserves_def)
    ultimately show ?thesis
      using isolated.trans by (auto simp: bindM_def ask_def split: sum.splits)
  qed
  then show ?thesis by (simp add: preserves_def)
qed

section \<open>Steps of the database\<close>

lemma isolated_updates:
  "(\<And>d. own_changes slug pr d (g d)) \<Longrightarrow> preserves (isolated en slug pr) (modify g)"
  "(\<And>t d. own_changes slug pr d (g' t d)) \<Longrightarrow> preserves (isolated en slug pr) (stamp en' g')"
  "(\<And>t d. own_changes slug pr d (snd (h t d))) \<Longrightarrow> preserves (isolated en slug pr) (alter en' h)"
  by (simp_all add: preserves_def isolated_def adds_def modify_def stamp_def alter_def Let_def)

lemma filter_map_id: "(\<And>r. r \<in> set rs \<Longrightarrow> P (f r) = P r \<and> (P r \<longrightarrow> f r = r)) \<Longrightarrow> filter P (map f rs) = filter P rs"
  by (induction rs) auto

lemma row_labels_update:
  assumes "\<And>r. row_label (f r) = row_label r" shows "row_labels (update_where P f d) = row_labels d"
proof -
  have "row_label (if P r then f r else r) = row_label r" for r using assms by simp
  then have "row_label ` (\<lambda>r. if P r then f r else r) ` A = row_label ` A" for A by (simp only: image_image)
  then show ?thesis by (simp only: row_labels_def update_where_def set_map) simp
qed

lemma own_row_label: "row_label r = row_label r' \<Longrightarrow> own_row slug pr r = own_row slug pr r'"
  by (simp add: row_label_def own_row_def)

lemma own_update:
  assumes "\<And>r. P r \<Longrightarrow> own_row slug pr r" "\<And>r. row_label (f r) = row_label r"
  shows "own_changes slug pr d (update_where P f d)"
proof -
  have "filter (\<lambda>r. \<not> own_row slug pr r) (map (\<lambda>r. if P r then f r else r) (db_reviews d))
      = filter (\<lambda>r. \<not> own_row slug pr r) (db_reviews d)"
    by (rule filter_map_id) (use assms own_row_label [OF assms(2)] in auto)
  moreover have "row_labels (update_where P f d) = row_labels d" using assms(2) by (rule row_labels_update)
  ultimately show ?thesis by (simp add: own_changes_def) (simp add: update_where_def)
qed

lemma own_insert:
  assumes "\<And>i. own_label slug pr (row_label (f i))"
  shows "own_changes slug pr d (insert_or_replace f d)"
proof -
  let ?row = "f (db_next_id d)"
  have "own_row slug pr ?row" using assms by (simp add: own_row_def own_label_def row_label_def)
  moreover have "rv_key r \<noteq> rv_key ?row" if "\<not> own_row slug pr r" for r
    using that assms [of "db_next_id d"] by (auto simp: own_row_def own_label_def row_label_def)
  ultimately show ?thesis
    using assms [of "db_next_id d"]
    by (auto simp: own_changes_def insert_or_replace_def row_labels_def Let_def intro!: filter_cong)
qed

lemma own_finish: "startswith key (own_prefix slug pr) \<Longrightarrow> own_changes slug pr d (finish_review t key st a d)"
  unfolding finish_review_def by (rule own_update) (auto simp: own_row_def row_label_def finish_row_def)

lemma own_steps:
  "own_changes slug pr d (fst (settle_done slug pr d))"
  "own_changes slug pr d (record_spend t slug pr kind cost dur d)"
  "own_changes slug pr d (snd (notice_once t k d))"
  "startswith key (own_prefix slug pr) \<Longrightarrow> own_changes slug pr d (start_review t key slug pr head ra d)"
  "startswith key (own_prefix slug pr) \<Longrightarrow> own_changes slug pr d (record_hold t key slug pr head ra reason d)"
proof -
  show "own_changes slug pr d (fst (settle_done slug pr d))"
    by (auto simp: settle_done_def Let_def own_row_def row_label_def intro!: own_update)
  show "own_changes slug pr d (record_spend t slug pr kind cost dur d)"
    by (simp add: own_changes_def row_labels_def record_spend_def)
  show "own_changes slug pr d (snd (notice_once t k d))"
    by (simp add: own_changes_def row_labels_def notice_once_def Let_def)
  assume "startswith key (own_prefix slug pr)"
  then show "own_changes slug pr d (start_review t key slug pr head ra d)"
    "own_changes slug pr d (record_hold t key slug pr head ra reason d)"
    unfolding start_review_def record_hold_def by (intro own_insert; simp add: own_label_def row_label_def new_row_def)+
qed

lemma isolated_once [isolated_intros]: "preserves (isolated en slug pr) (once_key en' key)"
  by (rule isolated_updates) (rule own_steps)

lemma isolated_finish [isolated_intros]:
  assumes "startswith key (own_prefix slug pr)"
  shows "preserves (isolated en slug pr) (finish en' key st a)"
    "preserves (isolated en slug pr) (finish_pass en' cx key st reason a)"
  unfolding finish_pass_def finish_def by (intro isolated_updates own_finish assms)+

section \<open>Messages and publishing\<close>

lemma isolated_messages [isolated_intros]:
  "preserves (isolated en slug pr) (slack_post en' cx ch s)"
  "preserves (isolated en slug pr) (dm_owner en' cx s)"
  "preserves (isolated en slug pr) (dm_reviewers en' cx s)"
  "preserves (isolated en slug pr) (dm_author en' cx login s)"
  unfolding slack_post_def dm_owner_def relay_def jane_notify_def dm_reviewers_def dm_author_def Let_def
  by (intro isolated_db safe_intros; simp)+

lemma isolated_owner_once [isolated_intros]: "preserves (isolated en slug pr) (dm_owner_once en' cx k s)"
  unfolding dm_owner_once_def by (intro isolated_intros)

lemma isolated_told [isolated_intros]: "preserves (isolated en slug pr) (tell_owner en' cx v)"
  unfolding tell_owner_def by (intro isolated_intros)

lemma isolated_author [isolated_intros]:
  "preserves (isolated en slug pr) (author_dm en' cx m s)"
  "preserves (isolated en slug pr) (notify en' cx rc m v fs)"
  unfolding notify_def author_dm_def Let_def by (intro isolated_intros)+

lemma isolated_props [isolated_intros]: "pm_number m = pr \<Longrightarrow> preserves (isolated en slug pr) (tell_props en' cx m st)"
  unfolding tell_props_def report_def by (intro isolated_intros isolated_db safe_intros; simp)

lemma isolated_gave_up [isolated_intros]:
  "pm_number m = pr \<Longrightarrow> preserves (isolated en slug pr) (gave_up en' cx rc m detail told)"
  unfolding gave_up_def by (intro isolated_intros)

lemma isolated_once_per [isolated_intros]:
  "preserves (isolated en slug pr) post \<Longrightarrow> preserves (isolated en slug pr) (once_per en' key post q)"
  unfolding once_per_def by (intro isolated_intros)

lemma isolated_publishing [isolated_intros]:
  assumes "pm_number m = pr" "rc_slug rc = slug"
  shows "preserves (isolated en slug pr) (publish_review en' cx v rc m body findings dry self_login)"
    "preserves (isolated en slug pr) (post_approval en' cx rc m dry')"
    "preserves (isolated en slug pr) (post_ci_note en' cx rc m checks dry')"
    "preserves (isolated en slug pr) (request_ci en' rc m dry')"
  unfolding publish_review_def diff_lines_def post_body_def post_inline_def set_label_def Let_def
    post_approval_def post_ci_note_def request_ci_def post_note_def
  by (intro isolated_db safe_intros; simp add: assms)+

lemma isolated_label [isolated_intros]:
  "rc_slug rc = slug \<Longrightarrow> preserves (isolated en slug pr) (clear_needs_work en' rc pr dry)"
  unfolding clear_needs_work_def set_label_def by (intro isolated_db safe_intros; simp)

lemma isolated_approval [isolated_intros]:
  assumes "pm_number m = pr" "rc_slug rc = slug"
  shows "preserves (isolated en slug pr) (announce_approval en' cx rc m ci)"
    "preserves (isolated en slug pr) (ci_already_started en' rc m)"
    "preserves (isolated en slug pr) (ask_for_ci en' cx rc m)"
  unfolding announce_approval_def ask_for_ci_def ci_already_started_def
  by (intro isolated_intros isolated_ask assms; simp add: assms)+

lemma isolated_dismiss [isolated_intros]:
  assumes "pm_number m = pr" "rc_slug rc = slug"
  shows "preserves (isolated en slug pr) (retract_rejection en cx rc m)"
proof -
  have "preserves (isolated en slug pr) (dismiss_own_rejection en i q)" if "en_rejection en tr slug pr = Inr (Some i)" for i q tr
    unfolding dismiss_own_rejection_def using that by (intro isolated_db safe_intros) auto
  then show ?thesis
    unfolding retract_rejection_def dismiss_if_vetoed_def
    by (intro isolated_intros isolated_ask) (auto simp: assms)
qed

lemma isolated_token [isolated_intros]: "preserves (isolated en slug pr) (token_login en')"
proof -
  have "preserves (isolated en slug pr) (\<lambda>w. (Inr (wd_login w), w))"
    "preserves (isolated en slug pr) (\<lambda>w. (Inr (), w\<lparr>wd_login := l\<rparr>))" for l
    by (simp_all add: preserves_def isolated_def adds_def own_changes_refl)
  moreover have "preserves (isolated en slug pr) (ask ''whoami'' [] 0 f)" for f :: "trace \<Rightarrow> str res"
    by (intro isolated_db safe_intros) simp
  ultimately show ?thesis unfolding token_login_def by (intro isolated_intros)
qed

section \<open>A review\<close>

lemma isolated_deliver_ok [isolated_intros]:
  assumes "pm_number m = pr" "rc_slug rc = slug" "startswith key (own_prefix slug pr)"
  shows "preserves (isolated en slug pr) (deliver_ok en cx rc m key common)"
    "preserves (isolated en slug pr) (deliver_findings en cx rc m key r b v findings common)"
  unfolding deliver_ok_def deliver_findings_def after_publish_def assms(1)
  by (intro isolated_intros assms)+

lemma isolated_deliver [isolated_intros]:
  assumes "pm_number m = pr" "rc_slug rc = slug" "startswith key (own_prefix slug pr)"
  shows "preserves (isolated en slug pr) (deliver en cx rc m key r ch)"
proof (cases "rn_blocks r")
  case None
  then show ?thesis unfolding deliver_def by (simp add: isolated_gave_up assms)
next
  case (Some b)
  then show ?thesis
    unfolding deliver_def Some option.case Let_def
    by (intro isolated.bind isolated.pure_lift deliver_cases isolated_intros assms)
qed

lemma isolated_small [isolated_intros]:
  "preserves (isolated en slug pr) (inflight f)" "preserves (isolated en slug pr) (admit_key en' cx key)"
  "preserves (isolated en slug pr) (cache_threads k ts)" "preserves (isolated en slug pr) (pop_threads k)"
  by (intro isolated_db safe_intros)+

lemma isolated_with_slot [isolated_intros]:
  "(\<And>s. preserves (isolated en slug pr) (use s)) \<Longrightarrow> preserves (isolated en slug pr) (with_slot en' cx key use)"
  unfolding with_slot_def by (intro isolated_intros isolated.ending)

lemma isolated_threads [isolated_intros]:
  assumes "pm_number m = pr" "rc_slug rc = slug"
  shows "preserves (isolated en slug pr) (prior_threads en' rc m)"
  unfolding prior_threads_def by (intro isolated_intros isolated_ask) (simp_all add: assms)

lemma isolated_run [isolated_intros]:
  "preserves (isolated en slug pr) (run_review en' cx rc su prompt mode model via)"
  by (intro isolated_db safe_intros) simp

lemma isolated_review [isolated_intros]:
  assumes "pm_number m = pr" "rc_slug rc = slug" "startswith key (own_prefix slug pr)"
  shows "preserves (isolated en slug pr) (review_pr en cx rc m key ra)"
  unfolding review_pr_def Let_def failed_review_def run_in_slot_def assms(1,2)
  by (intro isolated_intros isolated_updates own_steps assms)

section \<open>The gate\<close>

text \<open>What a gate hands to the action: this pull request's facts, and a key of its own or nothing to record.\<close>

definition own_gate :: "str \<Rightarrow> int \<Rightarrow> pr_meta \<times> str \<times> str \<times> decision \<Rightarrow> bool" where
  "own_gate slug pr g \<longleftrightarrow>
     pm_number (fst g) = pr \<and>
     (startswith (fst (snd g)) (own_prefix slug pr) \<or>
      dc_action (snd (snd (snd g))) = Skip \<or>
      dc_action (snd (snd (snd g))) = Hold \<and> \<not> dc_record (snd (snd (snd g))))"

lemma own_dedup_key: "startswith (dedup_key slug pr head ra) (own_prefix slug pr)"
  using startswith_append [of "slug @ [58] @ show_int pr @ [58]" "head @ [58] @ ra"]
  by (simp add: dedup_key_def own_prefix_def)

lemma returning_ret: "P x \<Longrightarrow> returning P (ret x)"
  by (simp add: returning_def ret_def)

lemma returning_bind: "(\<And>x. returning P (f x)) \<Longrightarrow> returning P (bindM m f)"
  unfolding returning_def by (meson bind_cases)

lemma returning_ask: "(\<And>x tr. f tr = Inr x \<Longrightarrow> returning P (k x)) \<Longrightarrow> returning P (bindM (ask what repo n f) k)"
  by (auto simp: returning_def bindM_def ask_def split: sum.splits)

text \<open>GitHub's answer about a number is about that number, be it a pull request's or an issue's.\<close>

definition answers_for :: "env \<Rightarrow> str \<Rightarrow> int \<Rightarrow> bool" where
  "answers_for en slug pr \<longleftrightarrow> (\<forall>tr m. en_meta en tr slug pr = Inr m \<longrightarrow> pm_number m = pr) \<and>
     (\<forall>tr i. en_issue en tr slug pr = Inr i \<longrightarrow> im_number i = pr)"

lemma gate_own:
  assumes "answers_for en slug pr" "rc_slug rc = slug"
  shows "returning (own_gate slug pr) (gate en cx rc pr)"
  unfolding gate_def
proof (rule returning_ask)
  fix m tr
  assume "en_meta en tr (rc_slug rc) pr = Inr m"
  with assms have m: "pm_number m = pr" by (auto simp: answers_for_def)
  have keyed: "returning (own_gate slug pr) (ret (m, dedup_key (rc_slug rc) pr head ra, ra, dc))" for head ra dc
    using m assms(2) by (simp add: own_gate_def own_dedup_key returning_ret)
  have skip: "returning (own_gate slug pr) (ret (m, [], [], mk_decision Skip s))" for s
    using m by (simp add: own_gate_def mk_decision_def returning_ret)
  have held: "returning (own_gate slug pr) (ret (m, [], [], dc))" if "label_hold m rc = Some dc" for dc
    using m label_hold_Some [OF that] by (simp add: own_gate_def returning_ret)
  show "returning (own_gate slug pr)
     (case label_hold m rc of
       Some held \<Rightarrow> ret (m, [], [], held)
     | None \<Rightarrow>
         (case done_label m rc of
            Some l \<Rightarrow>
              bindM (whenM (\<not> cx_dry cx) (modify (\<lambda>d. fst (settle_done (rc_slug rc) pr d)))) (\<lambda>_.
                ret (m, [], [], mk_decision Skip (l @ lit '' '' @ [8212] @ lit '' a human has it'')))
          | None \<Rightarrow>
              bindM (ask ''request'' (rc_slug rc) pr (\<lambda>tr. en_request en tr (rc_slug rc) pr)) (\<lambda>ra.
              let key = dedup_key (rc_slug rc) pr (pm_head_sha m) ra in
              bindM (gets (\<lambda>d. get_review d key)) (\<lambda>prior.
              case already_judged (map_option rv_state prior) of
                Some judged \<Rightarrow> ret (m, key, ra, judged)
              | None \<Rightarrow>
                  bindM (ask ''threads'' (rc_slug rc) pr (\<lambda>tr. en_threads en tr (rc_slug rc) pr)) (\<lambda>got.
                  bindM (cache_threads (rc_slug rc, pr) (pt_threads got)) (\<lambda>_.
                  bindM (gets (\<lambda>d. sha_was_judged d (rc_slug rc) pr (pm_head_sha m))) (\<lambda>sj.
                    ret (m, key, ra,
                      evaluate m rc sj (length (filter awaiting_author (pt_threads got)))))))))))"
    using held skip keyed unfolding Let_def by (auto intro!: returning_bind split: option.split)
qed

lemma isolated_gate:
  assumes "rc_slug rc = slug"
  shows "preserves (isolated en slug pr) (gate en cx rc pr)"
  unfolding gate_def Let_def assms
  by (intro isolated_intros isolated_updates own_steps isolated_db safe_intros; simp)

lemma isolated_act:
  assumes "own_gate slug pr g" "rc_slug rc = slug"
  shows "preserves (isolated en slug pr) (act en cx rc g)"
proof -
  obtain m key ra dc where g: "g = (m, key, ra, dc)" by (cases g)
  with assms(1) have m: "pm_number m = pr"
    and k: "startswith key (own_prefix slug pr) \<or> dc_action dc = Skip \<or> dc_action dc = Hold \<and> \<not> dc_record dc"
    by (simp_all add: own_gate_def)
  show ?thesis
  proof (cases "startswith key (own_prefix slug pr)")
    case True
    then show ?thesis
      unfolding act_def g Let_def fst_conv snd_conv m assms(2)
      by (intro isolated_intros isolated_updates own_steps m assms(2))
  next
    case False
    with k have "dc_action dc = Skip \<or> dc_action dc = Hold \<and> \<not> dc_record dc" by simp
    then show ?thesis
      unfolding act_def g Let_def fst_conv snd_conv
      by (elim disjE conjE; simp; intro isolated_intros) (simp_all add: whenM_def isolated.pure_ret)
  qed
qed

lemma isolated_handle:
  assumes "answers_for en slug pr" "rc_slug rc = slug"
  shows "preserves (isolated en slug pr) (handle en cx rc pr)"
proof -
  have "preserves (isolated en slug pr) (bindM (gate en cx rc pr) (act en cx rc))"
    using isolated_gate [OF assms(2)] gate_own [OF assms] isolated_act [OF _ assms(2)] by (rule isolated.bind_returning)
  then show ?thesis
    unfolding handle_def by (rule isolated.catch) (auto intro: isolated.pure_ret split: exn.splits)
qed

lemma cfg_repo_slug: "cfg_repo cfg slug = Inr rc \<Longrightarrow> rc_slug rc = slug"
  by (auto simp: cfg_repo_def dest: find_first_SomeD split: option.splits)

lemma isolated_review_one:
  assumes "answers_for en slug pr"
  shows "preserves (isolated en slug pr) (review_one en cx slug pr)"
proof -
  have keyed: "startswith (dedup_key slug pr h ra @ s) (own_prefix slug pr)" for h ra s
    using own_dedup_key [of slug pr h ra] by (auto simp: startswith_iff)
  have requested: "preserves (isolated en slug pr) (requested_or_forced en slug pr)"
    unfolding requested_or_forced_def by (intro isolated_intros isolated_db safe_intros) simp
  show ?thesis
    unfolding review_one_def Let_def
  proof (rule isolated.bind_lift, rule isolated_ask, simp, rule isolated.bind, rule requested)
    fix rc m tr ra
    assume rc: "cfg_repo (cx_cfg cx) slug = Inr rc" and m: "en_meta en tr slug pr = Inr m"
    show "preserves (isolated en slug pr)
       (review_pr en cx rc m (if blank_opt (cx_model cx) then dedup_key slug pr (pm_head_sha m) ra
          else dedup_key slug pr (pm_head_sha m) ra @ [58] @ opt_str (cx_model cx)) ra)"
      using m assms cfg_repo_slug [OF rc] keyed [of _ _ "[]"] keyed
      by (intro isolated_review) (auto simp: answers_for_def)
  qed
qed

section \<open>The sweep and the watch of a pull request\<close>

lemma isolated_thread:
  assumes "en_threads en tr slug pr = Inr got" "t \<in> set (pt_threads got)" "rc_slug rc = slug"
  shows "preserves (isolated en slug pr) (act_on_thread en cx rc pr (k, t) v)"
proof -
  have "preserves (isolated en slug pr) (resolve_thread en (th_node_id t) q)" for q
    unfolding resolve_thread_def using assms(1,2) by (intro isolated_db safe_intros) auto
  moreover have "preserves (isolated en slug pr) (reply_to_thread en cx rc pr k body q)" for body q
    unfolding reply_to_thread_def Let_def by (intro isolated_db safe_intros; simp add: assms(3))
  moreover have "preserves (isolated en slug pr) (settle_thread en cx rc pr t)"
    unfolding settle_thread_def by (intro isolated_intros)
  ultimately show ?thesis
    unfolding act_on_thread_def fst_conv snd_conv by (cases "chosen_action v t") (simp_all, (intro isolated_intros; assumption)+)
qed

lemma isolated_answers:
  assumes "en_threads en tr slug pr = Inr got" "set pending \<subseteq> set (pt_threads got)" "rc_slug rc = slug" "answers_for en slug pr"
  shows "preserves (isolated en slug pr) (answer_replies en cx rc pr pending)"
proof -
  have one: "preserves (isolated en slug pr) (answer_one en cx rc pr vs tl ct)" if "ct \<in> set (by_id th_comment_id pending)" for vs tl ct
  proof -
    obtain k t where kt: "ct = (k, t)" by (cases ct)
    with that by_id_mem [of k t th_comment_id pending] assms(2) have "t \<in> set (pt_threads got)" by auto
    from isolated_thread [OF assms(1) this assms(3)]
    show ?thesis unfolding answer_one_def settle_thread_def kt by (intro isolated_intros)
  qed
  have "preserves (isolated en slug pr) (deliver_answers en cx rc pr m s pending)" for m s
    unfolding deliver_answers_def sweep_report_def by (intro isolated.bind isolated.fold_set one isolated_intros)
  then show ?thesis
    unfolding answer_replies_def assms(3) by (intro isolated_intros isolated_ask isolated_updates own_steps; simp)
qed

lemma isolated_sweep:
  assumes "rc_slug rc = slug" "answers_for en slug pr"
  shows "preserves (isolated en slug pr) (sweep_one en cx rc pr tripped)"
proof -
  have offered: "returning (\<lambda>p. set p \<subseteq> set ts) (gets (\<lambda>d. pending_of d rc pr ts))" for ts
    by (auto simp: returning_def gets_def pending_of_def)
  have pending: "preserves (isolated en slug pr) (bindM (gets (\<lambda>d. pending_of d rc pr (pt_threads got))) (\<lambda>pending.
      if pending = [] then ret None else bindM (answer_replies en cx rc pr pending) (\<lambda>out. ret (Some out))))"
    if "en_threads en tr slug pr = Inr got" for got tr
    by (rule isolated.bind_returning [OF isolated.pure_gets offered])
      (intro isolated_intros isolated_answers [OF that _ assms]; assumption)
  have "preserves (isolated en slug pr) (sweep_body en cx rc pr tripped)"
    unfolding sweep_body_def assms(1)
    by (rule isolated.bind [OF isolated.pure_gets], rule preserves_cases(1), rule isolated.pure_ret, rule isolated_ask,
        simp, rule preserves_cases(1))
      (simp_all add: pending isolated_once isolated_when isolated.bind isolated.pure_ret)
  then show ?thesis unfolding sweep_one_def by (intro isolated_intros exn_behaves)
qed

lemma own_ci: "startswith key (own_prefix slug pr) \<Longrightarrow> own_changes slug pr d (set_ci_state t key cs d)"
  unfolding set_ci_state_def by (rule own_update) (auto simp: own_row_def row_label_def)

lemma isolated_watch:
  assumes "rc_slug rc = slug" "answers_for en slug pr" "rv_repo row = slug" "rv_pr row = pr"
    and "startswith (rv_key row) (own_prefix slug pr)"
  shows "preserves (isolated en slug pr) (watch_one en cx rc row)"
proof -
  have settle: "preserves (isolated en slug pr) (settle_ci en cx (rv_key row) cs)" for cs
    unfolding settle_ci_def by (intro isolated_intros isolated_updates own_ci assms)
  have red: "preserves (isolated en slug pr) (red_note en cx rc m)" if "pm_number m = pr" for m
    unfolding red_note_def report_red_build_def post_note_def
    by (intro isolated_intros isolated_db safe_intros; simp add: that assms(1))
  have watch: "preserves (isolated en slug pr) (watch_meta en cx rc row m)" if "pm_number m = pr" for m
    unfolding watch_meta_def report_red_def by (intro isolated_intros outcome_cases exn_behaves settle red that)
  have got: "returning (\<lambda>got. \<forall>m. got = Some m \<longrightarrow> pm_number m = pr)
      (catch_gh (bindM (ask ''meta'' slug pr (\<lambda>tr. en_meta en tr slug pr)) (\<lambda>m. ret (Some m))) (\<lambda>_. ret None))"
    using assms(2)
    by (auto simp: returning_def catch_gh_def catchM_def bindM_def ask_def ret_def raiseM_def answers_for_def
        split: prod.splits sum.splits exn.splits)
  have read: "preserves (isolated en slug pr)
      (catch_gh (bindM (ask ''meta'' slug pr (\<lambda>tr. en_meta en tr slug pr)) (\<lambda>m. ret (Some m))) (\<lambda>_. ret None))"
    by (intro isolated_intros isolated_ask) simp
  show ?thesis
    unfolding watch_one_def assms(3,4)
    by (rule isolated.bind_returning [OF read got]) (auto intro: isolated.pure_ret watch split: option.splits)
qed

section \<open>An issue\<close>

lemma isolated_settle [isolated_intros]:
  assumes "im_number i = n" "rc_slug rc = slug"
  shows "preserves (isolated en slug n) (settle_issue en' cx rc i say add_label assignee clears dry)"
    "preserves (isolated en slug n) (point_to_fix en' cx rc i prs clears dry)"
  unfolding point_to_fix_def settle_issue_def
  by (intro isolated_db safe_intros; simp add: settle_events_def Let_def assms)+

lemma isolated_issue_steps [isolated_intros]:
  "preserves (isolated en slug n) (jane_notify en' cx title url body urgency kind)"
  "preserves (isolated en slug n) (one_more en' cx via)"
  unfolding jane_notify_def by (intro isolated_db safe_intros; simp)+

lemma isolated_money:
  assumes "im_number i = n" "rc_slug rc = slug"
  shows "preserves (isolated en slug n) (ask_about_money en' cx rc i)"
  unfolding ask_about_money_def assms by (intro isolated_intros isolated_updates own_steps)

lemma isolated_triage:
  assumes "rc_slug rc = slug" "answers_for en slug n"
  shows "preserves (isolated en slug n) (triage_one en cx rc n)"
proof -
  have settle: "preserves (isolated en slug n) (settle_call en cx rc n i ce)" if "im_number i = n" for i ce
    unfolding settle_call_def clear_for_fix_def hand_over_def by (intro isolated_intros that assms)
  have decide: "preserves (isolated en slug n) (decide_issue en cx rc n i)" if "im_number i = n" for i
    unfolding decide_issue_def by (intro isolated_intros settle isolated_money that assms)
  show ?thesis
    unfolding triage_one_def assms(1)
  proof (rule isolated_ask, simp)
    fix i tr
    assume "en_issue en tr slug n = Inr i"
    with assms(2) have i: "im_number i = n" by (auto simp: answers_for_def)
    show "preserves (isolated en slug n)
      (if im_state i \<noteq> lit ''OPEN'' then ret None
       else bindM (ask ''fixing'' slug n (\<lambda>tr. en_fixing en tr slug n)) (\<lambda>prs.
         if prs \<noteq> [] then bindM (point_to_fix en cx rc i prs [] (cx_dry cx)) (\<lambda>_. ret (Some (linked n prs)))
         else decide_issue en cx rc n i))"
      by (rule preserves_cases(1), rule isolated.pure_ret, rule isolated_ask, simp) (intro isolated_intros decide i assms(1))
  qed
qed

lemma isolated_fix:
  assumes "rc_slug rc = slug" "answers_for en slug n"
  shows "preserves (isolated en slug n) (fix_one en cx rc n)"
proof -
  have branch: "preserves (isolated en slug n) (open_pr_for en cx' n)" if "rc_slug cx' = slug" for cx'
    unfolding open_pr_for_def that by (intro isolated_db safe_intros) simp
  have settle: "preserves (isolated en slug n) (settle_fix en cx rc i opened reason)" if "im_number i = n" for i opened reason
    unfolding settle_fix_def by (intro isolated_intros that assms)
  have report: "preserves (isolated en slug n) (report_fix en cx rc n i r opened)" if "im_number i = n" for i r opened
    unfolding report_fix_def by (intro isolated_intros settle that)
  have attempt: "preserves (isolated en slug n) (attempt_fix en cx rc n i)" if "im_number i = n" for i
    unfolding attempt_fix_def assms(1)
    by (intro isolated_intros isolated_updates own_steps branch assms(1) report that)
  have unlinked: "preserves (isolated en slug n) (unless_linked en cx rc n i)" if "im_number i = n" for i
    unfolding unless_linked_def run_fix_def assms(1)
    by (rule isolated_ask, simp) (intro isolated_intros attempt that assms(1))
  have fixing: "preserves (isolated en slug n) (fix_open_issue en cx rc n i)" if "im_number i = n" for i
    unfolding fix_open_issue_def by (intro isolated_intros branch unlinked settle that assms(1))
  show ?thesis
    unfolding fix_one_def assms(1)
  proof (rule isolated_ask, simp)
    fix i tr
    assume "en_issue en tr slug n = Inr i"
    with assms(2) have "im_number i = n" by (auto simp: answers_for_def)
    then show "preserves (isolated en slug n)
        (if im_state i \<noteq> lit ''OPEN'' \<or> cx_dry cx then ret None else fix_open_issue en cx rc n i)"
      by (intro isolated_intros fixing)
  qed
qed

section \<open>Whose row it is\<close>

lemma own_prefix_inj:
  assumes "startswith key (own_prefix repo n)" "startswith key (own_prefix slug pr)" "58 \<notin> set slug" "58 \<notin> set repo"
  shows "repo = slug \<and> n = pr"
proof -
  have num: "58 \<notin> set (show_int p)" for p using show_int_chars [of 58 p] by auto
  from assms(1,2) obtain s t where k: "repo @ 58 # show_int n @ 58 # s = slug @ 58 # show_int pr @ 58 # t"
    by (auto simp: startswith_iff own_prefix_def)
  from append_sep_inj [OF k assms(4,3)] have "repo = slug" "show_int n @ 58 # s = show_int pr @ 58 # t" by simp_all
  with append_sep_inj [of "show_int n" 58 s "show_int pr" t] num show ?thesis by simp
qed

text \<open>A row as every pass writes it: its key says whose it is, and a slug has no colon.\<close>

definition keyed_row :: "review_row \<Rightarrow> bool" where
  "keyed_row r \<longleftrightarrow> startswith (rv_key r) (own_prefix (rv_repo r) (rv_pr r)) \<and> 58 \<notin> set (rv_repo r)"

lemma others_stay:
  assumes "own_changes slug pr d d'" "58 \<notin> set slug"
    and "r \<in> set (db_reviews d)" "keyed_row r" "(rv_repo r, rv_pr r) \<noteq> (slug, pr)"
  shows "r \<in> set (db_reviews d')"
proof -
  have "\<not> own_row slug pr r"
    using own_prefix_inj [of "rv_key r" "rv_repo r" "rv_pr r" slug pr] assms(2,4,5) by (auto simp: own_row_def keyed_row_def)
  with assms(3) have "r \<in> set (filter (\<lambda>r. \<not> own_row slug pr r) (db_reviews d))" by simp
  with assms(1) have "r \<in> set (filter (\<lambda>r. \<not> own_row slug pr r) (db_reviews d'))" by (simp add: own_changes_def)
  then show ?thesis by simp
qed

section \<open>The properties\<close>

text \<open>C11: A pull request's turn, and a review asked for by hand, keeps to itself, however it goes:
  every question to GitHub and every write names this pull request (a review it dismisses is one
  GitHub named as its own standing rejection there), the rows of all other pull requests stay as
  they are, in their order, and nothing but a spend row of its own is added to the books; only
  notices are shared.\<close>

theorem turn_is_isolated:
  assumes "answers_for en (rc_slug rc) pr"
  shows "isolated en (rc_slug rc) pr w (snd (handle en cx rc pr w)) \<and>
    (\<forall>r \<in> set (db_reviews (wd_db w)). keyed_row r \<and> (rv_repo r, rv_pr r) \<noteq> (rc_slug rc, pr) \<and> 58 \<notin> set (rc_slug rc) \<longrightarrow>
       r \<in> set (db_reviews (wd_db (snd (handle en cx rc pr w))))) \<and>
    isolated en (rc_slug rc) pr w (snd (review_one en cx (rc_slug rc) pr w))"
proof -
  have i: "isolated en (rc_slug rc) pr w (snd (handle en cx rc pr w))"
    using isolated_handle [OF assms refl] by (simp add: preserves_def)
  moreover have "isolated en (rc_slug rc) pr w (snd (review_one en cx (rc_slug rc) pr w))"
    using isolated_review_one [OF assms] by (simp add: preserves_def)
  ultimately show ?thesis using others_stay by (auto simp: isolated_def)
qed

text \<open>C38: So do the other things that happen to a number: the sweep of the replies on a pull request
  (a thread it closes is one GitHub listed there), the watch of an approved build by its row, the
  triage of an issue and the attempt to fix one. Each reads and writes at this number alone and
  leaves the rows of every other one as they are.\<close>

theorem rounds_are_isolated:
  assumes "answers_for en (rc_slug rc) n"
  shows "isolated en (rc_slug rc) n w (snd (sweep_one en cx rc n tripped w)) \<and>
    isolated en (rc_slug rc) n w (snd (triage_one en cx rc n w)) \<and>
    isolated en (rc_slug rc) n w (snd (fix_one en cx rc n w)) \<and>
    (keyed_row row \<and> rv_repo row = rc_slug rc \<and> rv_pr row = n \<longrightarrow> isolated en (rc_slug rc) n w (snd (watch_one en cx rc row w)))"
proof -
  have "preserves (isolated en (rc_slug rc) n) (watch_one en cx rc row)"
    if "keyed_row row" "rv_repo row = rc_slug rc" "rv_pr row = n"
    using isolated_watch [OF refl assms that(2,3)] that by (simp add: keyed_row_def)
  then show ?thesis
    using isolated_sweep [OF refl assms] isolated_triage [OF refl assms] isolated_fix [OF refl assms]
    by (simp add: preserves_def)
qed

section \<open>Witnesses\<close>

definition neighbour_world :: world where
  "neighbour_world =
     empty_world\<lparr>wd_db := start_review 0 (dedup_key (rc_slug sample_repo) 8 (lit ''h'') (lit ''t''))
        (rc_slug sample_repo) 8 (lit ''h'') (lit ''t'') empty_db\<rparr>"

lemma own_answers: "answers_for sample_env_ok slug 7"
  by (simp add: answers_for_def sample_env_ok_def sample_env_of_def sample_meta_def)

theorem turn_is_isolated_witness:
  "\<exists>r \<in> set (db_reviews (wd_db (snd (handle sample_env_ok sample_ctx sample_repo 7 neighbour_world)))). rv_pr r = 8"
proof -
  obtain r where r: "db_reviews (wd_db neighbour_world) = [r]" "rv_pr r = 8" "rv_repo r = rc_slug sample_repo"
      "rv_key r = dedup_key (rc_slug sample_repo) 8 (lit ''h'') (lit ''t'')"
    by (simp add: neighbour_world_def start_review_def insert_or_replace_def new_row_def empty_db_def)
  moreover have "58 \<notin> set (rc_slug sample_repo)" by (simp add: sample_repo_def lit_def)
  ultimately show ?thesis
    using turn_is_isolated [OF own_answers, where w = neighbour_world and cx = sample_ctx and rc = sample_repo] own_dedup_key
    by (auto simp: keyed_row_def)
qed

definition open_issue_env :: env where
  "open_issue_env = issue_env (sample_issue\<lparr>im_number := 7\<rparr>) [lit ''o/r#9'']"

text \<open>A pull request already closes the issue: it is told so, and only it is written to.\<close>

theorem rounds_are_isolated_witness:
  "isolated open_issue_env (rc_slug sample_repo) 7 empty_world
     (snd (triage_one open_issue_env sample_ctx sample_repo 7 empty_world)) \<and>
   (\<exists>s. Gh_comment (rc_slug sample_repo) 7 s \<in> set (wd_trace (snd (triage_one open_issue_env sample_ctx sample_repo 7 empty_world))))"
proof -
  have a: "answers_for open_issue_env slug 7" for slug
    by (simp add: answers_for_def open_issue_env_def issue_env_def sample_env_ok_def sample_env_of_def sample_meta_def)
  have "\<exists>s. Gh_comment (rc_slug sample_repo) 7 s
      \<in> set (wd_trace (snd (triage_one open_issue_env sample_ctx sample_repo 7 empty_world)))"
    by (simp add: triage_one_def bindM_def ask_def open_issue_env_def issue_env_def sample_issue_def point_to_fix_def
        settle_issue_def settle_events_def sample_ctx_def sample_env_ok_def sample_env_of_def perform_def ret_def
        empty_world_def Let_def)
  with rounds_are_isolated [OF a, where rc = sample_repo and w = empty_world and cx = sample_ctx] show ?thesis by blast
qed

end
