(* ===== verification/Keys.thy ===== *)
theory Keys
  imports Command Isolation
begin

text \<open>
  Every row of the reviews is under a key of its own pull request: an invariant of the daemon
  (\<open>src/robbie/main.py\<close>, \<open>orchestrator.py\<close>), so that no update by key, and no turn of one pull
  request, ever meets the row of another. Updates keep what names a row; the only rows that come
  in are those of a turn and those of the cold start.
\<close>

section \<open>What comes into the table\<close>

definition named_label :: "str set \<Rightarrow> str \<times> str \<times> int \<Rightarrow> bool" where
  "named_label slugs l \<longleftrightarrow> startswith (fst l) (own_prefix (fst (snd l)) (snd (snd l))) \<and> fst (snd l) \<in> slugs"

definition takes_in :: "str set \<Rightarrow> db \<Rightarrow> db \<Rightarrow> bool" where
  "takes_in slugs d d' \<longleftrightarrow> (\<forall>l \<in> row_labels d'. l \<in> row_labels d \<or> named_label slugs l)"

definition labels_from :: "str set \<Rightarrow> world \<Rightarrow> world \<Rightarrow> bool" where
  "labels_from slugs w w' \<longleftrightarrow> takes_in slugs (wd_db w) (wd_db w')"

interpretation labels: effect_relation "labels_from slugs" for slugs
  by unfold_locales (auto simp: labels_from_def takes_in_def)

named_theorems label_intros "steps that bring in only named rows"

lemmas [label_intros] = labels.closed preserves_cases preserves_let sum_behaves exn_behaves outcome_cases

lemma labels_when [label_intros]: "(b \<Longrightarrow> preserves (labels_from slugs) m) \<Longrightarrow> preserves (labels_from slugs) (whenM b m)"
  by (rule preserves_when, rule labels.pure_ret)

lemma labels_isolated: "preserves (isolated en slug n) m \<Longrightarrow> slug \<in> slugs \<Longrightarrow> preserves (labels_from slugs) m"
  unfolding preserves_def isolated_def own_changes_def labels_from_def takes_in_def own_label_def named_label_def
  by (metis fst_conv snd_conv)

lemma labels_keep: "preserves keeps_db m \<Longrightarrow> preserves (labels_from slugs) m"
  by (simp add: preserves_def keeps_db_def labels_from_def takes_in_def)

lemma labels_updates:
  "(\<And>d. takes_in slugs d (g d)) \<Longrightarrow> preserves (labels_from slugs) (modify g)"
  "(\<And>t d. takes_in slugs d (g' t d)) \<Longrightarrow> preserves (labels_from slugs) (stamp en g')"
  "(\<And>t d. takes_in slugs d (snd (h t d))) \<Longrightarrow> preserves (labels_from slugs) (alter en h)"
  by (simp_all add: preserves_def labels_from_def modify_def stamp_def alter_def Let_def)

lemma takes_in_same: "row_labels d' = row_labels d \<Longrightarrow> takes_in slugs d d'"
  by (simp add: takes_in_def)

lemma takes_in_trans: "takes_in slugs c d \<Longrightarrow> takes_in slugs d e \<Longrightarrow> takes_in slugs c e"
  by (auto simp: takes_in_def)

lemma takes_in_update: "(\<And>r. row_label (f r) = row_label r) \<Longrightarrow> takes_in slugs d (update_where P f d)"
  by (intro takes_in_same row_labels_update)

lemma stale_labels: "row_labels (fst (settle_stale repo heads d)) = row_labels d"
proof -
  have "row_labels (fst (settle_stale_one repo s h)) = row_labels (fst s)" for s h
    by (simp add: settle_stale_one_def row_labels_update row_label_def)
  then have "row_labels (fst (foldl (settle_stale_one repo) s hs)) = row_labels (fst s)" for s hs
    by (induction hs arbitrary: s) simp_all
  then show ?thesis by (simp add: settle_stale_def)
qed

lemma takes_in_steps:
  "takes_in slugs d (fst (expire_ci_watch before d))"
  "takes_in slugs d (fst (settle_unlabeled repo labeled d))"
  "takes_in slugs d (fst (settle_stale repo heads d))"
  "takes_in slugs d (fst (unrequest repo prs d))"
  "takes_in slugs d (fst (reap_running t d))"
  "takes_in slugs d (set_ci_state t key cs d)"
  "takes_in slugs d (mark_seeded t repo d)"
  "takes_in slugs d (snd (set_requested t repo prs d))"
  "takes_in slugs d (snd (notice_once t key d))"
  "takes_in slugs d (record_spend t repo n kind cost dur d)"
  "takes_in slugs d (write_meter t name pct s d)"
  "takes_in slugs d (meter_failed t name err d)"
  by (auto simp: expire_ci_watch_def settle_unlabeled_def reap_running_def set_ci_state_def Let_def row_label_def
      intro!: takes_in_update)
    (auto intro!: takes_in_same stale_labels
      simp: unrequest_def mark_seeded_def set_requested_def notice_once_def record_spend_def write_meter_def
        meter_failed_def row_labels_def Let_def)

section \<open>The handlers\<close>

lemma labels_notice [label_intros]: "preserves (labels_from slugs) (once_key en k)"
  by (intro labels_updates takes_in_steps)

lemma labels_reviews: "preserves keeps_reviews m \<Longrightarrow> preserves (labels_from slugs) m"
  by (simp add: preserves_def keeps_reviews_def labels_from_def takes_in_def row_labels_def)

lemma labels_outside [label_intros]:
  "preserves (labels_from slugs) (ask what repo n f)" "preserves (labels_from slugs) (perform en ev)"
  "preserves (labels_from slugs) (slack_post en cx ch s)" "preserves (labels_from slugs) (dm_owner en cx s)"
  "preserves (labels_from slugs) (seconds fd)" "preserves (labels_from slugs) (cached ck)"
  "preserves (labels_from slugs) (remember ck c)" "preserves (labels_from slugs) (forget Q)"
  by (intro labels_keep keeps_prims messages_keep feed_safe)+

text \<open>GitHub answers about the number it is asked for, in every repository of the configuration.\<close>

definition sound_github :: "env \<Rightarrow> ctx \<Rightarrow> bool" where
  "sound_github en cx \<longleftrightarrow> (\<forall>rc \<in> set (cfg_repos (cx_cfg cx)). \<forall>n. answers_for en (rc_slug rc) n)"

definition slugs_of :: "ctx \<Rightarrow> str set" where
  "slugs_of cx = rc_slug ` set (cfg_repos (cx_cfg cx))"

lemma labels_numbers:
  assumes "sound_github en cx" "rc \<in> set (cfg_repos (cx_cfg cx))"
  shows "preserves (labels_from (slugs_of cx)) (handle en cx rc n)"
    "preserves (labels_from (slugs_of cx)) (sweep_one en cx rc n b)"
    "preserves (labels_from (slugs_of cx)) (triage_one en cx rc n)"
    "preserves (labels_from (slugs_of cx)) (fix_one en cx rc n)"
proof -
  from assms have a: "answers_for en (rc_slug rc) n" and s: "rc_slug rc \<in> slugs_of cx"
    by (auto simp: sound_github_def slugs_of_def)
  show "preserves (labels_from (slugs_of cx)) (handle en cx rc n)"
    "preserves (labels_from (slugs_of cx)) (sweep_one en cx rc n b)"
    "preserves (labels_from (slugs_of cx)) (triage_one en cx rc n)"
    "preserves (labels_from (slugs_of cx)) (fix_one en cx rc n)"
    by (rule labels_isolated [OF isolated_handle [OF a refl] s], rule labels_isolated [OF isolated_sweep [OF refl a] s],
        rule labels_isolated [OF isolated_triage [OF refl a] s], rule labels_isolated [OF isolated_fix [OF refl a] s])
qed

lemma labels_watch_one: "preserves (labels_from slugs) (watch_one en cx rc row)"
proof -
  have settle: "preserves (labels_from slugs) (settle_ci en cx key cs)" for key cs
    unfolding settle_ci_def by (intro label_intros labels_updates takes_in_steps)
  have red: "preserves (labels_from slugs) (red_note en cx rc m)" for m
    unfolding red_note_def by (intro labels_reviews reviews_once_per notes_keep)
  show ?thesis
    unfolding watch_one_def watch_meta_def report_red_def by (intro label_intros settle red)
qed

lemma labels_watch: "preserves (labels_from slugs) (watch en cx)"
  unfolding watch_def by (intro label_intros labels_updates takes_in_steps labels_watch_one)

lemma labels_sweep:
  assumes "sound_github en cx"
  shows "preserves (labels_from (slugs_of cx)) (sweep en cx slug only)"
proof -
  have jobs: "returning (\<lambda>js. \<forall>j \<in> set js. fst j \<in> set (cfg_repos (cx_cfg cx))) (gets (sweep_jobs cx slug only t))" for t
    by (auto simp: returning_def gets_def sweep_jobs_def)
  show ?thesis
    unfolding sweep_def
    by (intro labels.bind labels.pure_now labels.bind_returning [OF labels.pure_gets jobs] labels.fold_set labels.pure_ret
        labels_numbers [OF assms]) blast
qed

lemma labels_candidates: "preserves (labels_from slugs) (candidates en rc)"
  by (intro labels_keep candidates_safe)

lemma labels_hold:
  assumes "rc \<in> set (cfg_repos (cx_cfg cx))"
  shows "preserves (labels_from (slugs_of cx)) (seed_hold en rc n m ra)"
  unfolding seed_hold_def
  by (intro labels_updates)
    (use assms own_dedup_key in \<open>auto simp: takes_in_def row_labels_def record_hold_def insert_or_replace_def
      new_row_def row_label_def named_label_def slugs_of_def Let_def\<close>)

lemma labels_seed_prs:
  assumes "rc \<in> set (cfg_repos (cx_cfg cx))"
  shows "preserves (labels_from (slugs_of cx)) (seed_prs en cx rc prs)"
proof (induction prs)
  case (Cons n prs)
  show ?case unfolding seed_prs.simps by (intro label_intros labels_hold assms Cons.IH)
qed (simp add: labels.pure_ret)

lemma labels_poll_repo:
  assumes "sound_github en cx" "rc \<in> set (cfg_repos (cx_cfg cx))"
  shows "preserves (labels_from (slugs_of cx)) (poll_repo en cx rc)"
proof -
  have requested: "preserves (labels_from slugs) (request en rc prs)" for slugs prs
    by (simp add: preserves_def labels_from_def request_def Let_def takes_in_steps)
  show ?thesis
    unfolding poll_repo_def seed_def retire_unlabeled_def
    by (intro label_intros labels_candidates requested labels_seed_prs assms labels_updates takes_in_steps
        labels_numbers(1))
qed

lemma labels_poll:
  assumes "sound_github en cx"
  shows "preserves (labels_from (slugs_of cx)) (poll_once en cx)"
proof -
  have small: "preserves (labels_from slugs) clear_threads" "preserves (labels_from slugs) (meter_check en cx via)" for slugs via
    by (intro labels_keep safe_intros)+
  show ?thesis
    unfolding poll_once_def
    by (intro label_intros small labels_sweep labels_watch labels.map_set labels_poll_repo assms)
qed

lemma labels_survive [label_intros]: "preserves (labels_from slugs) m \<Longrightarrow> preserves (labels_from slugs) (survive m)"
  unfolding survive_def by (intro label_intros)

lemma labels_issues:
  assumes "sound_github en cx" "rc \<in> set (cfg_repos (cx_cfg cx))"
  shows "preserves (labels_from (slugs_of cx)) (triage_tick en cx rc)" "preserves (labels_from (slugs_of cx)) (fix_tick en cx rc)"
  unfolding triage_tick_def fix_tick_def by (intro label_intros labels_numbers assms)+

lemma labels_issues_turn:
  assumes "sound_github en cx"
  shows "preserves (labels_from (slugs_of cx)) (issues_turn en cx)"
  unfolding issues_turn_def
  by (intro labels.bind labels.map_set labels_survive labels_when labels_issues labels.pure_ret assms) auto

lemma labels_meters: "preserves (labels_from slugs) (poll_meters en fx cx)"
proof -
  have one: "takes_in slugs d (poll_one t cfg s d m)" for t cfg s d m
    by (auto simp: poll_one_def takes_in_steps split: sum.splits intro: takes_in_same)
  show ?thesis
    by (simp add: preserves_def labels_from_def poll_meters_def stamp_def poll_def takes_in_trans [OF one one])
qed

lemma labels_digest: "preserves (labels_from slugs) (post_digest en fd cx days)"
  unfolding post_digest_def digest_repo_def read_feed_def by (intro label_intros)

lemma labels_weekly: "preserves (labels_from slugs) (weekly_digest en fd cx)"
proof -
  let ?m = "\<lambda>tr. case digest_due (cx_cfg cx) (fd_calendar fd tr) of
             None \<Rightarrow> ret ()
           | Some week \<Rightarrow>
               bindM (once_key en week) (\<lambda>first.
               if \<not> first then ret () else bindM (post_digest en fd cx None) (\<lambda>_. ret ()))"
  have "preserves (labels_from slugs) (?m tr)" for tr by (intro label_intros labels_digest)
  then show ?thesis by (simp add: weekly_digest_def preserves_def)
qed

lemma labels_worklist: "preserves (labels_from slugs) (repo_worklist en fd rc)"
  unfolding repo_worklist_def repo_lists_def mine_all_def mine_if_def mine_def assigned_def read_feed_def read_ci_def fetch_ci_def
  by (intro label_intros)

lemma labels_parts: "preserves (labels_from slugs) (all_parts en fd acc rcs)"
  by (induction rcs arbitrary: acc) (auto intro!: label_intros labels_worklist)

lemma labels_exports: "preserves (labels_from slugs) (exports_turn en fd cx)"
  unfolding exports_turn_def export_pass_def export_once_def by (intro label_intros labels_parts labels_weekly)

lemma labels_reap: "preserves (labels_from slugs) (reap en)"
  unfolding reap_def by (intro labels_updates) (simp add: takes_in_steps)

lemma labels_boot: "preserves (labels_from slugs) (run_command en fx cx Poll_loop)"
  unfolding run_command_def prepare_def dispatch_def command.case by (intro label_intros labels_meters labels_reap)

section \<open>The daemon\<close>

lemma labels_turn:
  assumes "turn en fx cx w w'" "sound_github en cx" shows "labels_from (slugs_of cx) w w'"
  using assms(1)
proof (induction rule: turn.induct)
  case (tick w)
  have "preserves (labels_from (slugs_of cx)) (tick_turn en cx)"
    unfolding tick_turn_def by (intro label_intros labels_poll assms(2))
  then show ?case by (simp add: preserves_def)
qed (use labels_meters labels_issues_turn [OF assms(2)] labels_exports in \<open>simp_all add: preserves_def\<close>)

lemma labels_daemon:
  assumes "daemon en fx cx w w'" "sound_github en cx" shows "labels_from (slugs_of cx) w w'"
  using assms(1)
proof (induction rule: daemon.induct)
  case (boot w')
  from preserves_result [OF boot labels_boot] show ?case .
next
  case (next_turn w' w'')
  with labels_turn [OF next_turn.hyps(2) assms(2)] labels.trans show ?case by blast
qed

text \<open>A database in which every row is under a key of its own pull request.\<close>

definition keyed :: "db \<Rightarrow> bool" where
  "keyed d \<longleftrightarrow> (\<forall>r \<in> set (db_reviews d). keyed_row r)"

lemma takes_in_keyed:
  assumes "takes_in slugs d d'" "keyed d" "\<forall>s \<in> slugs. 58 \<notin> set s"
  shows "keyed d'"
  unfolding keyed_def
proof
  fix r
  assume "r \<in> set (db_reviews d')"
  then have "row_label r \<in> row_labels d'" by (simp add: row_labels_def)
  with assms(1) consider "row_label r \<in> row_labels d" | "named_label slugs (row_label r)" by (auto simp: takes_in_def)
  then show "keyed_row r"
  proof cases
    case 1
    then obtain r' where "r' \<in> set (db_reviews d)" "row_label r = row_label r'" by (auto simp: row_labels_def)
    with assms(2) show ?thesis by (auto simp: keyed_def keyed_row_def row_label_def)
  next
    case 2
    with assms(3) show ?thesis by (auto simp: named_label_def keyed_row_def row_label_def)
  qed
qed

text \<open>C3: However long the daemon runs, every row of the reviews is under a key that names its own
  pull request; so from any state it reaches, the turn of one pull request leaves every row of
  every other one exactly as it is.\<close>

theorem daemon_keeps_rows_apart:
  assumes "daemon en fx cx w w'" "keyed (wd_db w)" "sound_github en cx" "\<forall>s \<in> slugs_of cx. 58 \<notin> set s"
  shows "keyed (wd_db w') \<and>
    (\<forall>rc \<in> set (cfg_repos (cx_cfg cx)). \<forall>n. \<forall>r \<in> set (db_reviews (wd_db w')). (rv_repo r, rv_pr r) \<noteq> (rc_slug rc, n) \<longrightarrow>
       r \<in> set (db_reviews (wd_db (snd (handle en cx rc n w')))))"
proof -
  have k: "keyed (wd_db w')"
    using takes_in_keyed [OF _ assms(2,4)] labels_daemon [OF assms(1,3)] by (simp add: labels_from_def)
  moreover have "r \<in> set (db_reviews (wd_db (snd (handle en cx rc n w'))))"
    if "rc \<in> set (cfg_repos (cx_cfg cx))" "r \<in> set (db_reviews (wd_db w'))" "(rv_repo r, rv_pr r) \<noteq> (rc_slug rc, n)" for rc n r
  proof -
    from that(1) assms(3,4) have "answers_for en (rc_slug rc) n" "58 \<notin> set (rc_slug rc)"
      by (auto simp: sound_github_def slugs_of_def)
    moreover from this have "own_changes (rc_slug rc) n (wd_db w') (wd_db (snd (handle en cx rc n w')))"
      using isolated_handle [of en "rc_slug rc" n rc cx] by (simp add: preserves_def isolated_def)
    ultimately show ?thesis using others_stay that(2,3) k by (auto simp: keyed_def)
  qed
  ultimately show ?thesis by blast
qed

section \<open>Witnesses\<close>

definition honest_env :: env where
  "honest_env = sample_env_ok\<lparr>en_meta := \<lambda>tr slug n. Inr (sample_meta\<lparr>pm_number := n\<rparr>)\<rparr>"

theorem daemon_keeps_rows_apart_witness:
  "\<exists>w'. daemon honest_env sample_facts sample_ctx empty_world w' \<and> keyed (wd_db w')"
proof -
  obtain w where d: "daemon honest_env sample_facts sample_ctx empty_world (snd (tick_turn honest_env sample_ctx w))"
    by (rule sample_daemon [of sample_ctx]) (simp_all add: sample_ctx_def)
  have "keyed (wd_db empty_world)" by (simp add: keyed_def empty_world_def empty_db_def)
  moreover have "sound_github honest_env sample_ctx"
    by (simp add: sound_github_def answers_for_def honest_env_def sample_env_ok_def sample_env_of_def)
  moreover have "\<forall>s \<in> slugs_of sample_ctx. 58 \<notin> set s"
    by (simp add: slugs_of_def sample_ctx_def sample_config_def sample_repo_def lit_def)
  ultimately show ?thesis using daemon_keeps_rows_apart [OF d] d by blast
qed

end
