(* ===== verification/Logline.thy ===== *)
theory Logline
  imports Loads Config
begin

text \<open>
  What the program logs (\<open>_JsonFormatter\<close> and \<open>setup_logging\<close> of \<open>src/robbie/main.py\<close>). A record is
  one JSON object on one line: whatever stands in a message, a title a stranger wrote or a stack
  trace, it starts no second record, and a reader of the log gets back what was logged.
\<close>

record log_record =
  lr_ts :: str                                          \<comment> \<open>\<open>formatTime\<close>\<close>
  lr_level :: str
  lr_logger :: str
  lr_msg :: str
  lr_exc :: "str option"                                \<comment> \<open>\<open>formatException\<close> of \<open>exc_info\<close>, if there is one\<close>

definition payload :: "log_record \<Rightarrow> (str \<times> json) list" where
  "payload r =
     [(lit ''ts'', JStr (lr_ts r)), (lit ''level'', JStr (lr_level r)), (lit ''logger'', JStr (lr_logger r)),
      (lit ''msg'', JStr (lr_msg r))]
     @ (case lr_exc r of None \<Rightarrow> [] | Some s \<Rightarrow> [(lit ''exc'', JStr s)])"

definition json_line :: "(json \<Rightarrow> str) \<Rightarrow> log_record \<Rightarrow> str" where
  "json_line rep r = dumps rep (JObj (payload r))"

section \<open>Setting up\<close>

text \<open>The names \<open>Logger.setLevel\<close> knows; any other is a \<open>ValueError\<close>.\<close>

definition LEVELS :: "str list" where
  "LEVELS = map lit [''CRITICAL'', ''FATAL'', ''ERROR'', ''WARN'', ''WARNING'', ''INFO'', ''DEBUG'', ''NOTSET'']"

definition set_level :: "str \<Rightarrow> str res" where
  "set_level l = (if l \<in> set LEVELS then Inr l else Inl ValueError)"

datatype log_format = Json_lines | Console_lines

definition setup_logging :: "environ \<Rightarrow> (log_format \<times> str) res" where
  "setup_logging e =
     (let fmt = (if e (lit ''ROBBIE_LOG_FORMAT'') = Some (lit ''json'') then Json_lines else Console_lines);
          level = (case e (lit ''ROBBIE_LOG_LEVEL'') of None \<Rightarrow> lit ''INFO'' | Some s \<Rightarrow> s)
      in bindE (set_level (upper level)) (\<lambda>l. Inr (fmt, l)))"

section \<open>One record, one line\<close>

definition ascii :: "nat \<Rightarrow> bool" where
  "ascii c \<longleftrightarrow> 32 \<le> c \<and> c \<le> 126"

text \<open>The strings of a record; a Python string holds code points.\<close>

definition strings :: "log_record \<Rightarrow> str list" where
  "strings r = [lr_ts r, lr_level r, lr_logger r, lr_msg r] @ (case lr_exc r of None \<Rightarrow> [] | Some s \<Rightarrow> [s])"

lemma ascii_join: "list_all ascii s \<Longrightarrow> \<forall>w \<in> set ws. list_all ascii w \<Longrightarrow> list_all ascii (join s ws)"
  using set_join_subset [of s ws] unfolding list_all_iff by blast

lemma ascii_str: "list_all (\<lambda>c. c < 1114112) s \<Longrightarrow> list_all ascii (dumps_str s)"
  using dumps_char_ascii by (fastforce simp: dumps_str_def list_all_iff ascii_def)

lemma payload_strings: "kv \<in> set (payload r) \<Longrightarrow> \<exists>s \<in> set (strings r). snd kv = JStr s"
  by (auto simp: payload_def strings_def split: option.splits)

lemma payload_keys: "distinct (map fst (payload r)) \<and> (\<forall>kv \<in> set (payload r). list_all scalar (fst kv))"
  by (auto simp: payload_def lit_def scalar_def is_high_def is_low_def split: option.splits)

text \<open>A record is one line of printable ASCII, whatever its strings hold; and if they hold no lone
  surrogate, \<open>json.loads\<close> of the line is the record.\<close>

theorem log_line_is_one_record:
  assumes "\<forall>s \<in> set (strings r). list_all (\<lambda>c. c < 1114112) s"
  shows "list_all ascii (json_line rep r) \<and>
    ((\<forall>s \<in> set (strings r). list_all scalar s) \<longrightarrow> loads fl (json_line rep r) = Inr (JObj (payload r)))"
proof -
  have "list_all ascii (dumps_str (fst kv) @ [58, 32] @ dumps rep (snd kv))" if kv: "kv \<in> set (payload r)" for kv
  proof -
    have "list_all (\<lambda>c. c < 1114112) (fst kv)" using payload_keys [of r] kv by (auto simp: scalar_def list_all_iff)
    moreover from payload_strings [OF kv] obtain s where "s \<in> set (strings r)" "snd kv = JStr s" by blast
    ultimately show ?thesis using assms by (auto simp: ascii_str) (simp_all add: ascii_def)
  qed
  then have "list_all ascii (join [44, 32] (map (\<lambda>kv. dumps_str (fst kv) @ [58, 32] @ dumps rep (snd kv)) (payload r)))"
    by (intro ascii_join) (auto simp: ascii_def)
  then have "list_all ascii (json_line rep r)" by (simp add: json_line_def) (simp add: ascii_def)
  moreover have "loads fl (json_line rep r) = Inr (JObj (payload r))" if "\<forall>s \<in> set (strings r). list_all scalar s"
  proof -
    have "sound fl rep (JObj (payload r))"
      using payload_keys [of r] payload_strings [of _ r] that by (fastforce simp: list_all_iff)
    then show ?thesis unfolding json_line_def by (rule loads_dumps)
  qed
  ultimately show ?thesis by blast
qed

theorem log_line_is_one_record_witness:
  "list_all ascii (json_line (\<lambda>j. []) \<lparr>lr_ts = [], lr_level = lit ''INFO'', lr_logger = lit ''robbie'', lr_msg = [10, 128591],
     lr_exc = None\<rparr>)"
proof -
  let ?r = "\<lparr>lr_ts = [], lr_level = lit ''INFO'', lr_logger = lit ''robbie'', lr_msg = [10, 128591], lr_exc = None\<rparr>"
  have "\<forall>s \<in> set (strings ?r). list_all (\<lambda>c. c < 1114112) s" by (simp add: strings_def lit_def)
  from log_line_is_one_record [OF this] show ?thesis by blast
qed

end
