(* ===== verification/Slots.thy ===== *)
theory Slots
  imports Capacity
begin

text \<open>
  The slots of \<open>Orchestrator._slot\<close> (\<open>src/robbie/orchestrator.py\<close>) under every interleaving of the
  tasks that ask for one. A task is at one of the points where the coroutine can be suspended; a
  step takes one task from a point to the next, or lets anything else in the process run. The
  parts between two such points are the definitions of \<open>Capacity\<close>, on the same world.
\<close>

section \<open>Where a task stands\<close>

text \<open>
  Not in a slot; in the semaphore, waiting for the lock; holding the lock; telling the owner what
  the gate said, with the lock released; in the body of a slot, without a container or with one;
  in the body of a refused slot.
\<close>

datatype place =
    Outside
  | Queued
  | Deciding
  | Telling choice budget_verdict
  | In_slot choice
  | In_run choice
  | Refused

record slots =
  sl_free :: nat                \<comment> \<open>permits left in \<open>self._sem\<close>\<close>
  sl_lock :: "nat option"       \<comment> \<open>the task that holds \<open>self._admit_lock\<close>\<close>
  sl_tasks :: "place list"
  sl_lost :: nat                \<comment> \<open>reservations whose task was interrupted before its \<open>try\<close>\<close>
  sl_world :: world

definition slots_start :: "config \<Rightarrow> nat \<Rightarrow> world \<Rightarrow> slots" where
  "slots_start cfg n w =
     \<lparr>sl_free = cfg_max_concurrent_reviews cfg, sl_lock = None, sl_tasks = replicate n Outside, sl_lost = 0,
      sl_world = w\<lparr>wd_inflight := 0\<rparr>\<rparr>"

definition stands :: "slots \<Rightarrow> nat \<Rightarrow> place \<Rightarrow> bool" where
  "stands s i p \<longleftrightarrow> i < length (sl_tasks s) \<and> sl_tasks s ! i = p"

definition move :: "nat \<Rightarrow> place \<Rightarrow> slots \<Rightarrow> slots" where
  "move i p s = s\<lparr>sl_tasks := (sl_tasks s)[i := p]\<rparr>"

definition give_back :: "slots \<Rightarrow> slots" where
  "give_back s = s\<lparr>sl_free := sl_free s + 1\<rparr>"

section \<open>Steps\<close>

text \<open>
  \<open>interrupted\<close> is an exception that ends the task while it tells the owner, a cancellation say:
  the \<open>async with\<close> gives the permit back, and the reservation was made before the \<open>try\<close> that
  takes it back. \<open>raises\<close> is a gate that fails, or an interruption while it is asked: the lock
  and the permit go back.
  \<open>elsewhere\<close> is all that happens outside of these points, the body of a slot and every task
  that asks for none, the containers of the bug queue included.
\<close>

inductive slot_step :: "env \<Rightarrow> ctx \<Rightarrow> slots \<Rightarrow> slots \<Rightarrow> bool" for en cx where
  enter: "stands s i Outside \<Longrightarrow> 0 < sl_free s \<Longrightarrow>
    slot_step en cx s (move i Queued (s\<lparr>sl_free := sl_free s - 1\<rparr>))"
| unqueue: "stands s i Queued \<Longrightarrow> slot_step en cx s (move i Outside (give_back s))"
| lock: "stands s i Queued \<Longrightarrow> sl_lock s = None \<Longrightarrow>
    slot_step en cx s (move i Deciding (s\<lparr>sl_lock := Some i\<rparr>))"
| decide: "stands s i Deciding \<Longrightarrow> admit_key en cx key (sl_world s) = (Inr (c, v), w) \<Longrightarrow>
    slot_step en cx s (move i (Telling c v) (s\<lparr>sl_lock := None,
      sl_world := snd (whenM (bv_allowed v) (inflight Suc) w)\<rparr>))"
| raises: "stands s i Deciding \<Longrightarrow> slot_step en cx s (move i Outside (give_back (s\<lparr>sl_lock := None\<rparr>)))"
| told: "stands s i (Telling c v) \<Longrightarrow>
    slot_step en cx s (move i (if bv_allowed v then In_slot c else Refused)
      (s\<lparr>sl_world := snd (tell_owner en cx v (sl_world s))\<rparr>))"
| interrupted: "stands s i (Telling c v) \<Longrightarrow>
    slot_step en cx s (move i Outside (give_back (s\<lparr>sl_lost := sl_lost s + of_bool (bv_allowed v)\<rparr>)))"
| run: "stands s i (In_slot c) \<Longrightarrow> is_run ev \<Longrightarrow>
    slot_step en cx s (move i (In_run c) (s\<lparr>sl_world := (sl_world s)\<lparr>wd_trace := wd_trace (sl_world s) @ [ev]\<rparr>\<rparr>))"
| ended: "stands s i (In_run c) \<Longrightarrow> slot_step en cx s (move i (In_slot c) s)"
| leave: "stands s i (In_slot c) \<Longrightarrow>
    slot_step en cx s (move i Outside (give_back (s\<lparr>sl_world := snd (inflight (\<lambda>n. n - 1) (sl_world s))\<rparr>)))"
| give_up: "stands s i Refused \<Longrightarrow> slot_step en cx s (move i Outside (give_back s))"
| elsewhere: "db_evolves (sl_world s) w \<Longrightarrow> slot_step en cx s (s\<lparr>sl_world := w\<rparr>)"

inductive slots_reach :: "env \<Rightarrow> ctx \<Rightarrow> slots \<Rightarrow> bool" for en cx where
  start: "db_reach (wd_db w) \<Longrightarrow> slots_reach en cx (slots_start (cx_cfg cx) n w)"
| step: "slots_reach en cx s \<Longrightarrow> slot_step en cx s s' \<Longrightarrow> slots_reach en cx s'"

inductive_cases slot_stepE: "slot_step en cx s s'"

section \<open>Counting\<close>

fun reserves :: "place \<Rightarrow> bool" where
  "reserves (Telling c v) = bv_allowed v"
| "reserves (In_slot c) = True"
| "reserves (In_run c) = True"
| "reserves _ = False"

fun runs :: "place \<Rightarrow> bool" where
  "runs (In_run c) = True"
| "runs _ = False"

definition tasks_at :: "(place \<Rightarrow> bool) \<Rightarrow> slots \<Rightarrow> nat" where
  "tasks_at P s = length (filter P (sl_tasks s))"

lemma length_filter_update:
  "i < length xs \<Longrightarrow>
   length (filter P (xs[i := y])) + of_bool (P (xs ! i)) = length (filter P xs) + of_bool (P y)"
proof (induction xs arbitrary: i)
  case (Cons x xs)
  then show ?case by (cases i) auto
qed simp

lemma tasks_at_move:
  assumes "stands s i p" "sl_tasks s' = sl_tasks s"
  shows "tasks_at P (move i q s') + of_bool (P p) = tasks_at P s + of_bool (P q)"
  using assms length_filter_update [of i "sl_tasks s" P q] by (simp add: stands_def tasks_at_def move_def)

lemma tasks_at_pos: "stands s i p \<Longrightarrow> P p \<Longrightarrow> 0 < tasks_at P s"
  unfolding stands_def tasks_at_def by (auto simp: filter_empty_conv)

lemma tasks_at_mono: "(\<And>p. P p \<Longrightarrow> Q p) \<Longrightarrow> tasks_at P s \<le> tasks_at Q s"
proof -
  have "length (filter P xs) \<le> length (filter Q xs)" if "\<And>p. P p \<Longrightarrow> Q p" for xs :: "place list"
    using that by (induction xs) auto
  then show "(\<And>p. P p \<Longrightarrow> Q p) \<Longrightarrow> tasks_at P s \<le> tasks_at Q s" by (simp add: tasks_at_def)
qed

lemma move_fields [simp]:
  "sl_free (move i p s) = sl_free s" "sl_lock (move i p s) = sl_lock s" "sl_lost (move i p s) = sl_lost s"
  "sl_world (move i p s) = sl_world s" "sl_tasks (give_back s) = sl_tasks s" "sl_lock (give_back s) = sl_lock s"
  "sl_free (give_back s) = sl_free s + 1" "sl_lost (give_back s) = sl_lost s" "sl_world (give_back s) = sl_world s"
  by (simp_all add: move_def give_back_def)

section \<open>The books of the slots\<close>

text \<open>Every permit is free or with a task, and every reservation with a task or lost.\<close>

definition books :: "nat \<Rightarrow> slots \<Rightarrow> bool" where
  "books cap s \<longleftrightarrow>
     sl_free s + tasks_at (\<lambda>p. p \<noteq> Outside) s = cap \<and>
     wd_inflight (sl_world s) = tasks_at reserves s + sl_lost s"

definition lock_owner :: "slots \<Rightarrow> bool" where
  "lock_owner s \<longleftrightarrow> (\<forall>i. stands s i Deciding \<longleftrightarrow> sl_lock s = Some i)"

lemma inflight_result: "snd (inflight f w) = w\<lparr>wd_inflight := f (wd_inflight w)\<rparr>"
  by (simp add: inflight_def)

lemma admit_key_world: "admit_key en cx key w = (r, w') \<Longrightarrow> w' = w"
  by (simp add: admit_key_def)

lemma tell_owner_inflight: "wd_inflight (snd (tell_owner en cx v w)) = wd_inflight w"
  using tell_owner_safe(2) [of en cx v] by (simp add: preserves_def db_evolves_def)

lemma books_move:
  assumes "stands s i p" "books cap s" "sl_tasks s' = sl_tasks s"
    and "sl_free s' + of_bool (q \<noteq> Outside) = sl_free s + of_bool (p \<noteq> Outside)"
    and "wd_inflight (sl_world s') + of_bool (reserves p) + sl_lost s =
         wd_inflight (sl_world s) + of_bool (reserves q) + sl_lost s'"
  shows "books cap (move i q s')"
proof -
  have "tasks_at (\<lambda>p. p \<noteq> Outside) (move i q s') + of_bool (p \<noteq> Outside) =
      tasks_at (\<lambda>p. p \<noteq> Outside) s + of_bool (q \<noteq> Outside)"
    "tasks_at reserves (move i q s') + of_bool (reserves p) = tasks_at reserves s + of_bool (reserves q)"
    using tasks_at_move [OF assms(1,3)] by blast+
  with assms(2,4,5) show ?thesis by (simp add: books_def)
qed

lemma books_step: "slot_step en cx s s' \<Longrightarrow> books cap s \<Longrightarrow> books cap s'"
proof (induction rule: slot_step.induct)
  case (enter s i)
  then show ?case by (intro books_move [of s i Outside]) simp_all
next
  case (unqueue s i)
  then show ?case by (intro books_move [of s i Queued]) simp_all
next
  case (lock s i)
  then show ?case by (intro books_move [of s i Queued]) simp_all
next
  case (decide s i key c v w)
  then show ?case
    using admit_key_world [OF decide(2)]
    by (intro books_move [of s i Deciding]) (simp_all add: whenM_def ret_def inflight_result)
next
  case (raises s i)
  then show ?case by (intro books_move [of s i Deciding]) simp_all
next
  case (told s i c v)
  then show ?case by (intro books_move [of s i "Telling c v"]) (simp_all add: tell_owner_inflight)
next
  case (interrupted s i c v)
  then show ?case by (intro books_move [of s i "Telling c v"]) simp_all
next
  case (run s i c ev)
  then show ?case by (intro books_move [of s i "In_slot c"]) simp_all
next
  case (ended s i c)
  then show ?case by (intro books_move [of s i "In_run c"]) simp_all
next
  case (leave s i c)
  with tasks_at_pos [of s i "In_slot c" reserves] have "0 < wd_inflight (sl_world s)" by (simp add: books_def)
  with leave show ?case by (intro books_move [of s i "In_slot c"]) (simp_all add: inflight_result)
next
  case (give_up s i)
  then show ?case by (intro books_move [of s i Refused]) simp_all
next
  case (elsewhere s w)
  then show ?case by (simp add: books_def tasks_at_def db_evolves_def)
qed

text \<open>One task at most decides, the one that holds the lock.\<close>

lemma stands_move:
  "stands s i p \<Longrightarrow> sl_tasks s' = sl_tasks s \<Longrightarrow> stands (move i q s') j r \<longleftrightarrow> (if j = i then r = q else stands s j r)"
  by (auto simp: stands_def move_def)

lemma lock_move:
  assumes "stands s i p" "lock_owner s" "sl_tasks s' = sl_tasks s"
    and "sl_lock s' = (if q = Deciding then Some i else if p = Deciding then None else sl_lock s)"
    and "q = Deciding \<Longrightarrow> sl_lock s = None"
  shows "lock_owner (move i q s')"
  unfolding lock_owner_def
proof
  fix j
  have own: "stands s k Deciding \<longleftrightarrow> sl_lock s = Some k" for k using assms(2) by (simp add: lock_owner_def)
  have p: "p = Deciding \<longleftrightarrow> sl_lock s = Some i" using own [of i] assms(1) by (auto simp: stands_def)
  show "stands (move i q s') j Deciding \<longleftrightarrow> sl_lock (move i q s') = Some j"
    unfolding stands_move [OF assms(1,3)] move_fields own using assms(4,5) p by auto
qed

lemma lock_step: "slot_step en cx s s' \<Longrightarrow> lock_owner s \<Longrightarrow> lock_owner s'"
proof (induction rule: slot_step.induct)
  case (elsewhere s w)
  then show ?case by (simp add: lock_owner_def stands_def)
qed (erule (1) lock_move; simp split: if_splits)+

lemma db_step_slot:
  assumes "slot_step en cx s s'" "db_reach (wd_db (sl_world s))" shows "db_reach (wd_db (sl_world s'))"
  using assms
proof (induction rule: slot_step.induct)
  case (decide s i key c v w)
  then show ?case using admit_key_world [OF decide(2)] by (simp add: whenM_def ret_def inflight_result)
next
  case (told s i c v)
  have "db_evolves (sl_world s) (snd (tell_owner en cx v (sl_world s)))"
    using tell_owner_safe(2) [of en cx v] by (simp add: preserves_def)
  from evolves_reach [OF this] told(2) show ?case by simp
next
  case (elsewhere s w)
  then show ?case using evolves_reach by simp
qed (simp_all add: inflight_result)

lemma slots_kept:
  "slots_reach en cx s \<Longrightarrow>
   books (cfg_max_concurrent_reviews (cx_cfg cx)) s \<and> lock_owner s \<and> db_reach (wd_db (sl_world s))"
proof (induction rule: slots_reach.induct)
  case (start w n)
  have "filter P (replicate n Outside) = []" if "\<not> P Outside" for P :: "place \<Rightarrow> bool" using that by (induction n) auto
  with start show ?case
    by (auto simp: books_def lock_owner_def stands_def tasks_at_def slots_start_def)
qed (blast intro: books_step lock_step db_step_slot)

section \<open>What the gate is asked with\<close>

lemma admit_key_room:
  assumes "db_reach (wd_db w)" "admit_key en cx key w = (Inr (c, v), w')"
  shows "bv_allowed v = has_room (gauge (en_clock en (wd_trace w)) (cx_cfg cx) (wd_db w) (ch_via_endpoint c)) (wd_inflight w)"
proof -
  have "meter_of en cx (ch_via_endpoint c) w = Inr v"
  proof (cases key)
    case None
    with assms(2) show ?thesis by (auto simp: admit_key_def bindE_Inr_iff default_choice_def)
  next
    case (Some k)
    with assms(2) have "admit (en_sha256 en) (cx_cfg cx) (cx_model cx) (\<lambda>via. meter_of en cx via w) k = Inr (c, v)"
      by (auto simp: admit_key_def)
    then show ?thesis by (rule admit_allowed)
  qed
  with budget_check_gauge [OF meters_ok_reach [OF assms(1)], of "en_clock en (wd_trace w)" "cx_cfg cx" "wd_inflight w" "ch_via_endpoint c"]
  show ?thesis by (auto simp: meter_of_def)
qed

text \<open>
  C22: However the tasks that ask for a slot interleave, and wherever one of them is interrupted, no
  more containers run in slots than the configuration allows and every permit of the semaphore is
  free or held by a task in a slot; the meters are asked with a count that is the number of
  reservations held, those of the tasks still telling the owner included, plus those an
  interruption lost; so a task is let in only if the figure of its side leaves room for one
  reserve for every container running in a slot, and for its own.
\<close>

theorem slots_accounted_for:
  assumes "slots_reach en cx s"
  shows "tasks_at runs s \<le> cfg_max_concurrent_reviews (cx_cfg cx) \<and>
    sl_free s + tasks_at (\<lambda>p. p \<noteq> Outside) s = cfg_max_concurrent_reviews (cx_cfg cx) \<and>
    wd_inflight (sl_world s) = tasks_at reserves s + sl_lost s \<and>
    (\<forall>i. stands s i Deciding \<longleftrightarrow> sl_lock s = Some i) \<and>
    (\<forall>key c v w used reserve limit.
       admit_key en cx key (sl_world s) = (Inr (c, v), w) \<and> bv_allowed v \<and> 0 \<le> reserve \<and>
       gauge (en_clock en (wd_trace (sl_world s))) (cx_cfg cx) (wd_db (sl_world s)) (ch_via_endpoint c) =
         Some (used, reserve, limit) \<longrightarrow>
       used + of_nat (tasks_at runs s + 1) * reserve \<le> limit)"
proof -
  have kept: "books (cfg_max_concurrent_reviews (cx_cfg cx)) s" "lock_owner s" "db_reach (wd_db (sl_world s))"
    using slots_kept [OF assms] by simp_all
  have in_slot: "tasks_at runs s \<le> tasks_at reserves s" "tasks_at runs s \<le> tasks_at (\<lambda>p. p \<noteq> Outside) s"
    by (rule tasks_at_mono, metis reserves.simps(3) runs.elims(2), rule tasks_at_mono, auto)
  have "used + of_nat (tasks_at runs s + 1) * reserve \<le> limit"
    if "admit_key en cx key (sl_world s) = (Inr (c, v), w)" "bv_allowed v" "0 \<le> reserve"
      "gauge (en_clock en (wd_trace (sl_world s))) (cx_cfg cx) (wd_db (sl_world s)) (ch_via_endpoint c) =
         Some (used, reserve, limit)" for key c v w used reserve limit
  proof -
    have "used + of_nat (wd_inflight (sl_world s) + 1) * reserve \<le> limit"
      using admit_key_room [OF kept(3) that(1)] that(2,4) by (simp add: has_room_def)
    moreover have "of_nat (tasks_at runs s + 1) \<le> (of_nat (wd_inflight (sl_world s) + 1) :: rat)"
      using kept(1) in_slot(1) by (simp add: books_def)
    ultimately show ?thesis using mult_right_mono [OF _ that(3)] by fastforce
  qed
  with kept in_slot show ?thesis by (auto simp: books_def lock_owner_def)
qed

section \<open>One task's way through\<close>

lemma tasks_home: "stands s i p \<Longrightarrow> (sl_tasks s)[i := p] = sl_tasks s"
  unfolding stands_def by (metis list_update_id)

lemma stands_here: "stands s i p \<Longrightarrow> sl_tasks s' = sl_tasks s \<Longrightarrow> stands (move i q s') i q"
  by (simp add: stands_def move_def)

text \<open>
  \<open>with_slot\<close> of \<open>Capacity\<close>, which every review goes through, is one way through these steps: a task
  that finds a permit and the lock free ends where it began, with the world \<open>with_slot\<close> leaves.
\<close>

theorem with_slot_steps:
  assumes "stands s i Outside" "0 < sl_free s" "sl_lock s = None" "\<And>x. preserves db_evolves (use x)"
  shows "(slot_step en cx)\<^sup>*\<^sup>* s (s\<lparr>sl_world := snd (with_slot en cx key use (sl_world s))\<rparr>)"
proof -
  let ?R = "(slot_step en cx)\<^sup>*\<^sup>*"
  let ?w = "sl_world s"
  let ?q = "s\<lparr>sl_free := sl_free s - 1\<rparr>"
  let ?d = "move i Deciding (?q\<lparr>sl_lock := Some i\<rparr>)"
  have "slot_step en cx s (move i Queued ?q)" by (rule slot_step.enter) fact+
  moreover have "slot_step en cx (move i Queued ?q) (move i Deciding ((move i Queued ?q)\<lparr>sl_lock := Some i\<rparr>))"
    by (rule slot_step.lock) (use assms(1,3) in \<open>simp_all add: stands_here\<close>)
  ultimately have d: "?R s ?d" by (simp add: move_def)
  have here: "stands ?d i Deciding" using assms(1) by (simp add: stands_here)
  have world: "sl_world ?d = ?w" by simp
  obtain r where a: "admit_key en cx key ?w = (r, ?w)" by (auto simp: admit_key_def)
  show ?thesis
  proof (cases r)
    case (Inl e)
    have "slot_step en cx ?d (move i Outside (give_back (?d\<lparr>sl_lock := None\<rparr>)))" by (rule slot_step.raises [OF here])
    also have "move i Outside (give_back (?d\<lparr>sl_lock := None\<rparr>)) = s"
      using tasks_home [OF assms(1)] assms(2,3) by (cases s) (simp add: move_def give_back_def)
    finally have "?R s s" by simp
    then show ?thesis using a Inl by (simp add: with_slot_def bindM_def)
  next
    case (Inr cv)
    obtain c v where cv: "cv = (c, v)" by (cases cv)
    let ?w1 = "snd (whenM (bv_allowed v) (inflight Suc) ?w)"
    let ?t = "move i (Telling c v) (s\<lparr>sl_free := sl_free s - 1, sl_world := ?w1\<rparr>)"
    have "slot_step en cx ?d (move i (Telling c v) (?d\<lparr>sl_lock := None, sl_world := ?w1\<rparr>))"
      using slot_step.decide [OF here, of en cx key c v ?w] a Inr cv world by simp
    also have "move i (Telling c v) (?d\<lparr>sl_lock := None, sl_world := ?w1\<rparr>) = ?t"
      using assms(3) by (simp add: move_def)
    finally have t: "?R s ?t" using d by simp
    obtain w2 where told: "tell_owner en cx v ?w1 = (Inr (), w2)"
      using tell_owner_returns [of en cx v] by (auto simp: returns_def) (metis prod.collapse)
    let ?p = "if bv_allowed v then In_slot c else Refused"
    let ?o = "move i ?p (s\<lparr>sl_free := sl_free s - 1, sl_world := w2\<rparr>)"
    have "slot_step en cx ?t (move i ?p (?t\<lparr>sl_world := snd (tell_owner en cx v (sl_world ?t))\<rparr>))"
      by (rule slot_step.told) (use assms(1) in \<open>simp add: stands_here\<close>)
    also have "move i ?p (?t\<lparr>sl_world := snd (tell_owner en cx v (sl_world ?t))\<rparr>) = ?o"
      using told by (simp add: move_def)
    finally have o: "?R s ?o" using t by simp
    let ?x = "if bv_allowed v then \<lparr>st_ok = True, st_detail = bv_detail v, st_choice = c\<rparr>
       else \<lparr>st_ok = False, st_detail = bv_detail v, st_choice = default_choice\<rparr>"
    let ?w3 = "snd (use ?x w2)"
    let ?b = "move i ?p (s\<lparr>sl_free := sl_free s - 1, sl_world := ?w3\<rparr>)"
    have "slot_step en cx ?o (?o\<lparr>sl_world := ?w3\<rparr>)"
      by (rule slot_step.elsewhere) (use assms(4) in \<open>simp add: preserves_def\<close>)
    also have "?o\<lparr>sl_world := ?w3\<rparr> = ?b" by (simp add: move_def)
    finally have b: "?R s ?b" using o by simp
    have run: "snd (with_slot en cx key use ?w) = (if bv_allowed v then snd (inflight (\<lambda>n. n - 1) ?w3) else ?w3)"
      using a Inr cv told
      by (cases "use ?x w2") (auto simp: with_slot_def bindM_def whenM_def ret_def inflight_def finallyM_def)
    have "slot_step en cx ?b (s\<lparr>sl_world := snd (with_slot en cx key use ?w)\<rparr>)"
    proof (cases "bv_allowed v")
      case True
      have "stands ?b i (In_slot c)" using assms(1) True by (simp add: stands_here)
      from slot_step.leave [OF this, of en cx] True run assms(1,2) show ?thesis
        by (simp add: move_def give_back_def tasks_home)
    next
      case False
      have "stands ?b i Refused" using assms(1) False by (simp add: stands_here)
      from slot_step.give_up [OF this, of en cx] False run assms(1,2) show ?thesis
        by (simp add: move_def give_back_def tasks_home)
    qed
    with b show ?thesis by simp
  qed
qed

section \<open>Witnesses\<close>

text \<open>Two tasks, and where the first of them stands.\<close>

abbreviation two_tasks :: "place \<Rightarrow> nat \<Rightarrow> nat option \<Rightarrow> nat \<Rightarrow> world \<Rightarrow> slots" where
  "two_tasks p free lck lost w \<equiv>
     \<lparr>sl_free = free, sl_lock = lck, sl_tasks = [p, Outside], sl_lost = lost, sl_world = w\<rparr>"

lemma one_tells:
  "\<exists>v. bv_allowed v \<and> slots_reach sample_env_ok sample_ctx
     (two_tasks (Telling default_choice v) 2 None 0 (empty_world\<lparr>wd_inflight := 1\<rparr>))"
proof -
  let ?reach = "slots_reach sample_env_ok sample_ctx"
  have spent: "spend_since empty_db t ms = 0" for t ms by (simp add: spend_since_def empty_db_def)
  have world: "empty_world\<lparr>wd_inflight := 0\<rparr> = empty_world" by (simp add: empty_world_def)
  obtain v where v: "admit_key sample_env_ok sample_ctx None empty_world = (Inr (default_choice, v), empty_world)"
    "bv_allowed v"
    by (simp add: admit_key_def meter_of_def budget_check_def check_api_def spent sample_ctx_def sample_config_def
        empty_world_def Let_def)
  have 0: "?reach (two_tasks Outside 3 None 0 empty_world)"
    using slots_reach.start [of empty_world sample_env_ok sample_ctx 2]
    by (simp add: slots_start_def world numeral_2_eq_2 sample_ctx_def sample_config_def)
       (simp add: empty_world_def db_reach.init)
  have 1: "?reach (two_tasks Queued 2 None 0 empty_world)"
    using slots_reach.step [OF 0 slot_step.enter [where i = 0]] by (simp add: stands_def move_def)
  have 2: "?reach (two_tasks Deciding 2 (Some 0) 0 empty_world)"
    using slots_reach.step [OF 1 slot_step.lock [where i = 0]] by (simp add: stands_def move_def)
  have "slot_step sample_env_ok sample_ctx (two_tasks Deciding 2 (Some 0) 0 empty_world)
      (two_tasks (Telling default_choice v) 2 None 0 (empty_world\<lparr>wd_inflight := 1\<rparr>))"
    using slot_step.decide [where s = "two_tasks Deciding 2 (Some 0) 0 empty_world" and i = 0 and en = sample_env_ok
        and cx = sample_ctx and key = None and c = default_choice and v = v and w = empty_world] v
    by (simp add: stands_def move_def whenM_def inflight_def) (simp add: empty_world_def)
  from slots_reach.step [OF 2 this] v(2) show ?thesis by blast
qed

lemma one_runs: "\<exists>w. slots_reach sample_env_ok sample_ctx (two_tasks (In_run default_choice) 2 None 0 w)"
proof -
  from one_tells obtain v where v: "bv_allowed v" and t: "slots_reach sample_env_ok sample_ctx
     (two_tasks (Telling default_choice v) 2 None 0 (empty_world\<lparr>wd_inflight := 1\<rparr>))" by blast
  obtain w where o: "slots_reach sample_env_ok sample_ctx (two_tasks (In_slot default_choice) 2 None 0 w)"
    using slots_reach.step [OF t slot_step.told [where i = 0]] v by (auto simp: stands_def move_def)
  show ?thesis
    using slots_reach.step [OF o slot_step.run [where i = 0 and ev = "Run [] [] []"]] by (auto simp: stands_def move_def)
qed

text \<open>
  The reservation is made before the \<open>try\<close> that takes it back: a task interrupted in between, by a
  failure to record that the owner was told say, leaves every slot free and one reservation for good.
\<close>

theorem interrupted_reservation_stays:
  "\<exists>s. slots_reach sample_env_ok sample_ctx s \<and> sl_tasks s = [Outside, Outside] \<and> wd_inflight (sl_world s) = 1"
proof -
  from one_tells obtain v where v: "bv_allowed v" and t: "slots_reach sample_env_ok sample_ctx
     (two_tasks (Telling default_choice v) 2 None 0 (empty_world\<lparr>wd_inflight := 1\<rparr>))" by blast
  have r: "slots_reach sample_env_ok sample_ctx (two_tasks Outside 3 None 1 (empty_world\<lparr>wd_inflight := 1\<rparr>))"
    using slots_reach.step [OF t slot_step.interrupted [where i = 0]] v by (simp add: stands_def move_def give_back_def)
  show ?thesis by (intro exI conjI, rule r) simp_all
qed

theorem slots_accounted_for_witness:
  "\<exists>s. slots_reach sample_env_ok sample_ctx s \<and> tasks_at runs s = 1 \<and> wd_inflight (sl_world s) = 1"
proof -
  from one_runs obtain w where r: "slots_reach sample_env_ok sample_ctx (two_tasks (In_run default_choice) 2 None 0 w)"
    by blast
  have i: "wd_inflight w = 1" using slots_accounted_for [OF r] by (simp add: tasks_at_def)
  show ?thesis by (intro exI conjI, rule r) (simp_all add: tasks_at_def i)
qed

end
