(* ===== verification/Spec2Isabelle.thy ===== *)
theory Spec2Isabelle
  imports Proxy Mcp_Sentry Gh Boot Disk Keys Logline Slots
begin

text \<open>
  Robbie, a pull-request pre-review agent: a verification development of the Python program
  under \<open>src/robbie\<close>, \<open>src/robbie_mcp\<close> and \<open>src/robbie_proxy\<close>.

  \<^bold>\<open>The program.\<close> A daemon polls GitHub for pull requests on which its reviewer is requested
  (\<open>main.py\<close>, \<open>orchestrator.py\<close>), decides with a pure policy what to do with each (\<open>gates.py\<close>),
  runs a model in a container (\<open>runner.py\<close>) on a prompt (\<open>contract.py\<close>) under a budget
  (\<open>budget.py\<close>), reads the verdict and the findings out of its transcript (\<open>contract.py\<close>,
  \<open>anchor.py\<close>) and publishes a review (\<open>publish.py\<close>). Replies to its threads (\<open>threads.py\<close>), CI
  of the commits it approved (\<open>ci_watch.py\<close>), bug reports (\<open>issues.py\<close>, \<open>triage.py\<close>) and fixes
  (\<open>fixer.py\<close>) have turns of their own; SQLite (\<open>db.py\<close>) is the memory they share. Two sidecars
  hold what a container must not: the pull-request and Sentry servers (\<open>robbie_mcp\<close>) and the
  proxy with the model credentials (\<open>robbie_proxy\<close>). What the daemon knows is exported
  (\<open>export.py\<close>, \<open>digest.py\<close>) and shown on a read-only panel (\<open>dashboard.py\<close>).

  \<^bold>\<open>How it is modelled.\<close> A Python \<open>str\<close> is a list of code points, an \<open>int\<close> an \<open>int\<close>, a float used
  for money or percentages an exact rational, a \<open>dict\<close> an association list in insertion order, a
  dataclass or model a record, parsed JSON the datatype \<open>json\<close>. A function that may raise returns
  \<open>exn + 'a\<close>. A function with effects is a function of a \<open>world\<close>: the database, the trace of
  everything sent to or asked of the outside, and the fields of the process that live across
  calls. What GitHub, Slack, a container, git or an HTTP client answers is an environment, a
  record of functions of the trace so far, so a theorem holds whatever the outside does, and an
  answer may be any exception. What was done before an exception stays done.

  \<^bold>\<open>Which theory models what.\<close>
  \<^item> \<open>Prelude\<close>, \<open>Pystr\<close>, \<open>Regex\<close>, \<open>Json\<close>: exceptions, dictionaries, Python's string functions, a
    backtracking matcher for the patterns of the program, operations on parsed JSON.
  \<^item> \<open>Config\<close> (\<open>config.py\<close>), \<open>Github\<close> (\<open>github.py\<close>), \<open>Gates\<close> (\<open>gates.py\<close>), \<open>Anchor\<close> (\<open>anchor.py\<close>),
    \<open>Contract\<close> and \<open>Prompts\<close> (\<open>contract.py\<close>, and the prompts of \<open>threads.py\<close>, \<open>fixer.py\<close>,
    \<open>triage.py\<close>), \<open>Triage\<close> (\<open>triage.py\<close>), \<open>Db\<close> (\<open>db.py\<close>), \<open>Budget\<close> (\<open>budget.py\<close>): pure functions.
  \<^item> \<open>Effects\<close>: worlds, events, and relations between worlds closed under the combinators.
  \<^item> \<open>Runner\<close> (\<open>runner.py\<close>), \<open>Slack\<close> (\<open>slack.py\<close>, \<open>jane.py\<close>, \<open>props_bridge.py\<close>), \<open>Publish\<close>
    (\<open>publish.py\<close>), \<open>Sweeper\<close> (\<open>threads.py\<close>), \<open>Ci_Watch\<close> (\<open>ci_watch.py\<close>), \<open>Issues\<close> (\<open>issues.py\<close>),
    \<open>Fixer\<close> (\<open>fixer.py\<close>), \<open>Worklist\<close> (\<open>export.py\<close>, \<open>digest.py\<close>): the handlers, call by call.
  \<^item> \<open>Admission\<close>, \<open>Capacity\<close>, \<open>Slots\<close>, \<open>Orchestrator\<close>, \<open>Delivery\<close>, \<open>Tick\<close>, \<open>Progress\<close>
    (\<open>orchestrator.py\<close>, \<open>outcome.py\<close>): which arm a run goes to and whether its meter lets it in; \<open>_slot\<close>
    as one task runs through it, and under every interleaving of the tasks; one pull request's turn;
    what a delivery leaves behind; seeding, retiring, the tick; why it comes to rest. \<open>Isolation\<close>: what a turn, a
    sweep, a watch, a triage or a fix of one number leaves alone of every other. \<open>Keys\<close>: the keys of
    the table of reviews over a run of the daemon, and what that makes of a turn.
  \<^item> \<open>Command\<close> (\<open>main.py\<close>): every command, and the daemon as an interleaving of the turns of its loops.
    \<open>Boot\<close> (\<open>config.load\<close>, \<open>prune_transcripts\<close>, \<open>_kill\<close>): what comes before the first tick.
  \<^item> \<open>Gh\<close> (\<open>github.py\<close>, and the calls of \<open>publish.py\<close>, \<open>export.py\<close>, \<open>fixer.py\<close>): one run of the
    \<open>gh\<close> process, the argument list of every read and write, and the reads as functions of what
    the processes answer. \<open>Wire\<close> is the text of a payload: \<open>json.dumps\<close> and a strict reader of its strings.
  \<^item> \<open>Loads\<close>, \<open>Disk\<close>, \<open>Logline\<close>: \<open>json.loads\<close> and the indented \<open>json.dumps\<close>; the files of the export,
    every disk a write makes visible and what the panel reads of it (\<open>export.py\<close>, \<open>dashboard.py\<close>);
    the set-up and the lines of the log (\<open>main.py\<close>).
  \<^item> \<open>Html\<close>, \<open>Dashboard\<close>, \<open>Panel\<close> (\<open>dashboard.py\<close>): escaping and a scanner of markup; every page, the
    frame around it and the request handler; what a browser can be made to show.
  \<^item> \<open>Proxy\<close> (\<open>robbie_proxy/main.py\<close>), \<open>Mcp_Pr\<close> (\<open>robbie_mcp/pr.py\<close>), \<open>Mcp_Sentry\<close>
    (\<open>robbie_mcp/sentry.py\<close>): the sidecars.
  \<^item> This theory: properties that tie a sidecar to the daemon.

  \<^bold>\<open>What the lemmas show.\<close> \<open>preserves R m\<close> says that the computation \<open>m\<close> relates every world to the
  one it leaves, by \<open>R\<close>, whether or not it raises. The locale \<open>effect_relation\<close> proves its closure
  under the combinators once; its interpretations are \<open>adds P\<close> (only events in \<open>P\<close> are added to the
  trace), \<open>keeps_db\<close>, \<open>db_evolves\<close> (the tables change by steps of the database only) relations
  on the rows of reviews, \<open>isolated\<close> (one number's events and rows only) and \<open>labels_from\<close> (which
  rows come into the table). Every handler is shown to add only permitted events and to evolve the
  database, each in a line or two over the collection \<open>safe_intros\<close>; the properties of the daemon
  and of every command follow. The locale \<open>notice_store\<close> is the contract of a table that fires
  once per key, interpreted on notices and seeds. Pure components have the exact condition of
  each branch (gates, triage), an equivalence with a reference definition (blocks of a
  transcript against a line automaton, the table of reviews against a map), bounds and
  round trips. In the panel, \<open>html s\<close> says that every tag of a text, its quoted attribute values
  left out, is one the program itself wrote; it holds of escaped text and is closed under
  concatenation, so each page is checked part by part. In \<open>Gh\<close>, \<open>over_gh\<close> is an environment whose
  reads are runs of \<open>gh\<close>, so that a host that fails can be followed through the tick. The locale
  \<open>json_writer\<close> is what a writer of JSON promises its reader, interpreted on the compact and on the
  indented one, so that both are read back by \<open>loads\<close>.

  \<^bold>\<open>Loops and bounds.\<close> Loops over data are structural; \<open>findall\<close>, \<open>replace\<close>, \<open>resub\<close> and the
  block scanner recurse on a measure of the text that is left, and so do the mutually recursive
  readers of JSON, each of which is shown to leave less than it was given. The pager of review threads, which a
  server could keep going for ever, is a partial function to \<open>option\<close>: for every finite chain of
  pages it returns (\<open>page_loop_chain\<close>). The matcher needs no fuel,
  since the patterns repeat single characters only. \<open>review_patch\<close> polls for
  \<open>\<lceil>timeout / 15\<rceil>\<close> rounds, the number after which its deadline has passed. The daemon's loop
  does not end and is an inductive relation.

  \<^bold>\<open>Not modelled.\<close> HTTP, sockets and streaming, and SQLite's own errors; the file system beyond the
  writes of the export. The parsers of YAML and timestamps, pydantic's reading of field types and
  the printing of a float are parameters; so is the parser of JSON where an answer comes from
  outside, of which \<open>Loads\<close> is the instance. Parsing of arguments, signals and waits; the set-up of
  the three servers (ports, routes, threads). The tasks of one tick run in the order they are
  created: their interleaving is modelled where they compete for a slot, in \<open>Slots\<close>, where \<open>with_slot_steps\<close>
  shows that a task run through in one go is one of the interleavings. The shell scripts and the
  container images are not modelled.
\<close>

section \<open>From the sidecar that pushes to the worklist that reports\<close>

lemma show_int_of_nat: "show_int (int n) = show_nat n"
  by (simp add: show_int_def)

lemma isdigit_show_nat: "isdigit (show_nat n)"
  by (auto simp: isdigit_def list_all_iff show_nat_is_digit)

lemma issue_number_show_nat: "issue_number (show_nat n) = Inr (JInt (int n))"
  by (simp add: issue_number_def isdigit_show_nat)

lemma fix_fields_issue:
  assumes "fix_fields fd rc pr (show_nat n) = Inr row"
  shows "dget row (lit ''issue'') = Some (JInt (int n))"
  using assms
  by (auto simp: fix_fields_def brief_def bindE_Inr_iff issue_number_show_nat lit_def)

text \<open>
  C15: The branch the sidecar pushes for an issue is the one the fixer looks its pull request up
  by, and the worklist reads the number of the issue back from it, whatever else the pull
  request says.
\<close>

theorem branch_round_trip:
  assumes "pr_from_env e = Inr ps" "jget pr (lit ''headRefName'') = Inr (JStr (branch_of ps (int n)))"
    and "fix_row fd rc pr = Inr rows"
  shows "branch_of ps (int n) = BRANCH_PREFIX @ show_int (int n) \<and>
    (\<exists>row. rows = [row] \<and> dget row (lit ''issue'') = Some (JInt (int n)))"
proof -
  from assms(1) have p: "ps_branch_prefix ps = BRANCH_PREFIX"
    by (auto simp: pr_from_env_def Let_def BRANCH_PREFIX_def split: if_splits option.splits)
  then have b: "branch_of ps (int n) = BRANCH_PREFIX @ show_nat n"
    by (simp add: branch_of_def show_int_of_nat)
  have "fix_prefix (BRANCH_PREFIX @ show_nat n) = Some BRANCH_PREFIX" by (simp add: fix_prefix_def)
  with assms(2,3) b obtain row where "rows = [row]" "fix_fields fd rc pr (show_nat n) = Inr row"
    by (auto simp: fix_row_def text_field_def jor_def BRANCH_PREFIX_def lit_def bindE_Inr_iff)
  with fix_fields_issue b show ?thesis by (simp add: show_int_of_nat)
qed

section \<open>From the check at boot to every request\<close>

text \<open>
  C14: The token that the proxy accepted at boot is the one every container is given: what its
  client sends as a bearer is never turned away for its token.
\<close>

theorem booted_token_is_accepted:
  assumes "cfg_model_proxy cfg \<noteq> []"
    and "verify st [(lit ''authorization'', lit ''Bearer '' @ opt_str (sc_model_proxy_token s))] = Inr (code, detail)"
    and "check_model_proxy cfg (Inr (int code)) = Inr ()"
    and "(lit ''ANTHROPIC_AUTH_TOKEN'', tok) \<in> set (docker_env cfg s via mode)"
  shows "authorize (lit ''Bearer '' @ tok) (se_token st) = Inr ()"
proof -
  from assms(1,3) have "code = 200" by (simp add: check_model_proxy_def split: if_splits)
  moreover from assms(1,4) have "tok = opt_str (sc_model_proxy_token s)"
    by (auto simp: docker_env_def lit_def split: if_splits)
  moreover have "status \<noteq> 200" if "authorize h t = Inl (Denied m status)" for h t m status
    using that by (cases "compare_digest (offered_token h) t") (auto simp: authorize_def compare_digest_def split: if_splits)
  ultimately show ?thesis using assms(2)
    by (auto simp: verify_def header_of_def split: sum.splits exn.splits)
qed

section \<open>Witnesses\<close>

definition sample_pr_environ :: environ where
  "sample_pr_environ k =
     (if k \<in> {lit ''FIXER_GH_TOKEN'', lit ''FIXER_REPO'', lit ''FIXER_MIRROR''} then Some (lit ''x'') else None)"

lemma sample_ports: "int_of_str (lit ''8080'') = Some 8080" "int_of_str (lit ''1500'') = Some 1500"
proof -
  have "show_nat 8080 = lit ''8080''" "show_nat 1500 = lit ''1500''" by (simp_all add: lit_def show_nat.simps)
  then show "int_of_str (lit ''8080'') = Some 8080" "int_of_str (lit ''1500'') = Some 1500"
    using int_of_str_show_nat [of 8080] int_of_str_show_nat [of 1500] by simp_all
qed

definition sample_fix_pr :: json where
  "sample_fix_pr = JObj [(lit ''number'', JInt 9), (lit ''headRefName'', JStr (lit ''robbie/issue-7''))]"

theorem branch_round_trip_witness:
  "\<exists>row. fix_row sample_feed sample_repo sample_fix_pr = Inr [row] \<and> dget row (lit ''issue'') = Some (JInt 7)"
proof -
  have x: "strip (lit ''x'') = lit ''x''" by (simp add: strip_p_id is_space_def lit_def)
  obtain ps where ps: "pr_from_env sample_pr_environ = Inr ps"
    by (simp add: pr_from_env_def sample_pr_environ_def env_get_def env_default_def x sample_ports Let_def)
  have b: "branch_of ps (int 7) = lit ''robbie/issue-7''"
    using ps by (auto simp: pr_from_env_def branch_of_def show_int_def show_nat.simps [of 7] lit_def Let_def
      split: if_splits option.splits)
  have h: "jget sample_fix_pr (lit ''headRefName'') = Inr (JStr (branch_of ps (int 7)))"
    unfolding b by (simp add: sample_fix_pr_def lit_def)
  have p: "fix_prefix (lit ''robbie/issue-7'') = Some BRANCH_PREFIX"
    by (simp add: fix_prefix_def BRANCH_PREFIX_def lit_def startswith_def)
  have d: "drop (length BRANCH_PREFIX) (lit ''robbie/issue-7'') = show_nat 7"
    by (simp add: BRANCH_PREFIX_def lit_def show_nat.simps)
  obtain row where "fix_fields sample_feed sample_repo sample_fix_pr (show_nat 7) = Inr row"
    by (simp add: fix_fields_def issue_number_show_nat brief_def sample_fix_pr_def text_field_def author_login_def
        epoch_def label_list_def standing_def jget_obj_def jget_list_def jor_def lit_def)
  moreover have "text_field sample_fix_pr ''headRefName'' = Inr (JStr (lit ''robbie/issue-7''))"
    using h unfolding b by (simp add: text_field_def jor_def lit_def)
  ultimately have r: "fix_row sample_feed sample_repo sample_fix_pr = Inr [row]"
    by (simp add: fix_row_def p d)
  from branch_round_trip [OF ps h r] r show ?thesis by auto
qed

theorem booted_token_is_accepted_witness:
  "\<exists>tok. (lit ''ANTHROPIC_AUTH_TOKEN'', tok) \<in>
       set (docker_env (sample_config\<lparr>cfg_model_proxy := lit ''http://p''\<rparr>)
         (sample_secrets\<lparr>sc_model_proxy_token := Some (lit ''t'')\<rparr>) False REVIEW) \<and>
     authorize (lit ''Bearer '' @ tok) (se_token sample_settings) = Inr ()"
proof -
  let ?cfg = "sample_config\<lparr>cfg_model_proxy := lit ''http://p''\<rparr>"
  let ?s = "sample_secrets\<lparr>sc_model_proxy_token := Some (lit ''t'')\<rparr>"
  have p: "cfg_model_proxy ?cfg \<noteq> []" by simp
  have v: "verify sample_settings [(lit ''authorization'', lit ''Bearer '' @ opt_str (sc_model_proxy_token ?s))] = Inr (200, [])"
    by (simp add: verify_def header_of_def authorize_def compare_digest_def offered_token_def ascii_text_def lit_def
        lower_def lower_cp_def startswith_def sample_settings_def opt_str_def)
  have c: "check_model_proxy ?cfg (Inr (int 200)) = Inr ()" by (simp add: check_model_proxy_def)
  have e: "(lit ''ANTHROPIC_AUTH_TOKEN'', lit ''t'') \<in> set (docker_env ?cfg ?s False REVIEW)"
    by (simp add: docker_env_def opt_str_def)
  from booted_token_is_accepted [OF p v c e] e show ?thesis by blast
qed

end
